(* ===== verification/Prelude.thy ===== *)
theory Prelude
  imports Complex_Main "HOL-Library.AList" "HOL-Library.Word" "HOL-Library.List_Lexorder"
    "HOL-Library.Product_Lexorder" "HOL-Library.Sublist"
begin

text \<open>
  Shared vocabulary of the development: results of fallible operations, the JavaScript
  \<^verbatim>\<open>Map\<close> and \<^verbatim>\<open>Set\<close> containers (insertion ordered, as the program iterates over
  them), the collections of simplification rules the component theories extend, and the
  generic lemmas on runs of a state machine.
\<close>

section \<open>Collections of rules\<close>

named_theorems op_defs \<open>definitions of operations, unfolded to analyse their branches\<close>
named_theorems inv_intros \<open>preservation of component invariants\<close>
named_theorems frame_simps \<open>what an operation leaves unchanged\<close>

section \<open>Results\<close>

text \<open>
  A method that may throw returns \<open>Inl\<close> of the error it throws or \<open>Inr\<close> of its
  value; a method of a stateful object returns its new state beside the result, because
  several methods of the program change state and then throw.
\<close>

type_synonym ('e, 'a) result = "'e + 'a"
type_synonym ('s, 'e, 'a) outcome = "'s \<times> ('e + 'a)"

definition bind_result :: "('e, 'a) result \<Rightarrow> ('a \<Rightarrow> ('e, 'b) result) \<Rightarrow> ('e, 'b) result" where
  "bind_result r f = (case r of Inl e \<Rightarrow> Inl e | Inr a \<Rightarrow> f a)"

definition try_with :: "'s \<Rightarrow> ('e, 'a) result \<Rightarrow> ('a \<Rightarrow> ('s, 'e, 'b) outcome) \<Rightarrow> ('s, 'e, 'b) outcome" where
  "try_with s r f = (case r of Inl e \<Rightarrow> (s, Inl e) | Inr a \<Rightarrow> f a)"

definition require :: "'e \<Rightarrow> 'a option \<Rightarrow> ('e, 'a) result" where
  "require e x = (case x of None \<Rightarrow> Inl e | Some a \<Rightarrow> Inr a)"

definition ensure :: "'e \<Rightarrow> bool \<Rightarrow> ('e, unit) result" where
  "ensure e b = (if b then Inr () else Inl e)"

lemma bind_result_simps [simp]:
  "bind_result (Inl e) f = Inl e"
  "bind_result (Inr a) f = f a"
  by (simp_all add: bind_result_def)

lemma try_with_simps [simp]:
  "try_with s (Inl e) f = (s, Inl e)"
  "try_with s (Inr a) f = f a"
  by (simp_all add: try_with_def)

lemma require_simps [simp]:
  "require e None = Inl e"
  "require e (Some a) = Inr a"
  by (simp_all add: require_def)

lemma ensure_simps [simp]:
  "ensure e True = Inr ()"
  "ensure e False = Inl e"
  by (simp_all add: ensure_def)

lemma bind_result_Inr: "bind_result r f = Inr b \<longleftrightarrow> (\<exists>a. r = Inr a \<and> f a = Inr b)"
  by (cases r) simp_all

lemma require_Inr [simp]: "require e x = Inr a \<longleftrightarrow> x = Some a"
  by (cases x) simp_all

lemma require_Inl [simp]: "require e x = Inl e' \<longleftrightarrow> x = None \<and> e' = e"
  by (cases x) auto

lemma ensure_Inr [simp]: "ensure e b = Inr u \<longleftrightarrow> b"
  by (cases b) simp_all

lemma ensure_Inl [simp]: "ensure e b = Inl e' \<longleftrightarrow> \<not> b \<and> e' = e"
  by (cases b) auto

lemma try_with_split:
  "P (try_with s r f) \<longleftrightarrow>
     (\<forall>e. r = Inl e \<longrightarrow> P (s, Inl e)) \<and> (\<forall>a. r = Inr a \<longrightarrow> P (f a))"
  by (cases r) simp_all

lemma try_with_split_asm:
  "P (try_with s r f) \<longleftrightarrow>
     \<not> ((\<exists>e. r = Inl e \<and> \<not> P (s, Inl e)) \<or> (\<exists>a. r = Inr a \<and> \<not> P (f a)))"
  by (cases r) simp_all

lemmas try_splits = try_with_split try_with_split_asm

text \<open>Sequencing of stateful operations: an error ends the sequence in the state it left.\<close>

definition then_with :: "('s, 'e, 'a) outcome \<Rightarrow> ('s \<Rightarrow> 'a \<Rightarrow> ('s, 'e, 'b) outcome) \<Rightarrow> ('s, 'e, 'b) outcome" where
  "then_with p f = (case p of (s, Inl e) \<Rightarrow> (s, Inl e) | (s, Inr a) \<Rightarrow> f s a)"

lemma then_with_simps [simp]:
  "then_with (s, Inl e) f = (s, Inl e)"
  "then_with (s, Inr a) f = f s a"
  by (simp_all add: then_with_def)

lemma then_with_Inr:
  "then_with p f = (t, Inr b) \<longleftrightarrow> (\<exists>s a. p = (s, Inr a) \<and> f s a = (t, Inr b))"
  by (cases p; cases "snd p") auto

lemma try_with_Inr: "try_with s r f = (t, Inr b) \<longleftrightarrow> (\<exists>a. r = Inr a \<and> f a = (t, Inr b))"
  by (cases r) simp_all

text \<open>How a stateful operation can have ended, as an elimination rule.\<close>

lemma try_with_cases:
  assumes "try_with s r f = (t, out)"
  obtains (failed) e where "r = Inl e" "t = s" "out = Inl e"
    | (passed) a where "r = Inr a" "f a = (t, out)"
  using assms by (cases r) auto

lemma option_eq_by_Some: "(\<And>a. x = Some a \<longleftrightarrow> y = Some a) \<Longrightarrow> x = y"
  by (metis not_Some_eq)

lemma succeeded:
  assumes "\<not> isl (snd p)"
  shows "\<exists>t x. p = (t, Inr x)"
proof (cases p)
  case (Pair t out)
  with assms show ?thesis by (cases out) auto
qed

lemma set_map_filter: "x \<in> set (List.map_filter f xs) \<longleftrightarrow> (\<exists>y \<in> set xs. f y = Some x)"
  by (induction xs) (auto simp: List.map_filter_simps split: option.splits)

section \<open>Refinement of outcomes\<close>

text \<open>
  A concrete outcome refines an abstract one when both have the same result and the abstract
  state is the abstraction of the concrete one, which moreover satisfies its invariant.
\<close>

definition refines ::
  "('s \<Rightarrow> 'a) \<Rightarrow> ('s \<Rightarrow> bool) \<Rightarrow> ('s, 'e, 'r) outcome \<Rightarrow> ('a, 'e, 'r) outcome \<Rightarrow> bool" where
  "refines view ok p q \<longleftrightarrow> q = (view (fst p), snd p) \<and> ok (fst p)"

lemma refines_pair [simp]: "refines view ok (s, out) (a, out') \<longleftrightarrow> a = view s \<and> out' = out \<and> ok s"
  by (auto simp: refines_def)

lemma refinesD: "refines view ok p q \<Longrightarrow> p = (t, out) \<Longrightarrow> q = (view t, out) \<and> ok t"
  by (auto simp: refines_def)

lemma refines_try_with:
  assumes "ok s" "a = view s" "r' = r"
    and "\<And>x. r = Inr x \<Longrightarrow> refines view ok (f x) (g x)"
  shows "refines view ok (try_with s r f) (try_with a r' g)"
  using assms by (cases r) simp_all

lemma refines_if:
  assumes "b' = b" "b \<Longrightarrow> refines view ok p p'" "\<not> b \<Longrightarrow> refines view ok q q'"
  shows "refines view ok (if b then p else q) (if b' then p' else q')"
  using assms by simp

section \<open>JavaScript maps\<close>

text \<open>
  A \<^verbatim>\<open>Map\<close> is an association list with distinct keys: \<^verbatim>\<open>set\<close> on a present key keeps its
  position and on a new key appends, which is what the update of HOL-Library.AList does.
\<close>

type_synonym ('k, 'v) js_map = "('k \<times> 'v) list"

abbreviation js_get :: "('k, 'v) js_map \<Rightarrow> 'k \<Rightarrow> 'v option" where
  "js_get m k \<equiv> map_of m k"

abbreviation js_has :: "('k, 'v) js_map \<Rightarrow> 'k \<Rightarrow> bool" where
  "js_has m k \<equiv> map_of m k \<noteq> None"

abbreviation js_set :: "'k \<Rightarrow> 'v \<Rightarrow> ('k, 'v) js_map \<Rightarrow> ('k, 'v) js_map" where
  "js_set \<equiv> AList.update"

abbreviation js_delete :: "'k \<Rightarrow> ('k, 'v) js_map \<Rightarrow> ('k, 'v) js_map" where
  "js_delete \<equiv> AList.delete"

abbreviation js_size :: "('k, 'v) js_map \<Rightarrow> nat" where
  "js_size \<equiv> length"

abbreviation js_map_ok :: "('k, 'v) js_map \<Rightarrow> bool" where
  "js_map_ok m \<equiv> distinct (map fst m)"

text \<open>Look-ups are kept as look-ups, not turned into membership of the list of pairs.\<close>

declare map_of_eq_Some_iff [simp del] Some_eq_map_of_iff [simp del]

lemma js_get_set [simp]: "js_get (js_set k v m) k' = (if k' = k then Some v else js_get m k')"
  by (simp add: AList.update_conv')

lemma js_get_delete [simp]: "js_get (js_delete k m) k' = (if k' = k then None else js_get m k')"
  by (simp add: AList.delete_conv')

lemma js_map_ok_set [simp, intro]: "js_map_ok m \<Longrightarrow> js_map_ok (js_set k v m)"
  by (rule AList.distinct_update)

lemma js_map_ok_delete [simp, intro]: "js_map_ok m \<Longrightarrow> js_map_ok (js_delete k m)"
  by (rule AList.distinct_delete)

lemma js_size_set: "js_size (js_set k v m) = (if js_has m k then js_size m else Suc (js_size m))"
  by (induction m) auto

lemma js_size_delete_le: "js_size (js_delete k m) \<le> js_size m"
  by (rule AList.length_delete_le)

lemma js_size_delete_less: "js_has m k \<Longrightarrow> js_size (js_delete k m) < js_size m"
proof (induction m)
  case (Cons p m)
  show ?case
  proof (cases "fst p = k")
    case True
    then show ?thesis using AList.length_delete_le [of k m] by (cases p) simp
  next
    case False
    with Cons show ?thesis by (cases p) auto
  qed
qed simp

lemma js_map_ok_filter [simp, intro]: "js_map_ok m \<Longrightarrow> js_map_ok (filter P m)"
  by (induction m) auto

lemma js_get_in_set: "js_map_ok m \<Longrightarrow> (k, v) \<in> set m \<longleftrightarrow> js_get m k = Some v"
  by (simp add: map_of_eq_Some_iff)

lemma js_get_filter:
  assumes "js_map_ok m"
  shows "js_get (filter P m) k = (case js_get m k of None \<Rightarrow> None | Some v \<Rightarrow> if P (k, v) then Some v else None)"
  using assms
proof (induction m)
  case Nil
  then show ?case by simp
next
  case (Cons p m)
  obtain k' v' where p: "p = (k', v')" by (cases p)
  from Cons.prems p have fresh: "js_get m k' = None" by (simp add: map_of_eq_None_iff)
  then have "js_get (filter P m) k' = None"
    using Cons.prems p by (auto simp: map_of_eq_None_iff)
  with Cons p fresh show ?case by (auto split: option.splits)
qed

text \<open>A map whose values carry their key lists its keys when it lists its values.\<close>

lemma js_map_keyed:
  assumes "js_map_ok m" and "\<And>k v. js_get m k = Some v \<Longrightarrow> f v = k"
  shows "map f (map snd m) = map fst m"
proof -
  have "f (snd p) = fst p" if "p \<in> set m" for p
    using that assms(1) by (intro assms(2)) simp
  then show ?thesis by simp
qed

lemma js_map_values_all:
  "js_map_ok m \<Longrightarrow> (\<forall>v \<in> snd ` set m. Q v) \<longleftrightarrow> (\<forall>k v. js_get m k = Some v \<longrightarrow> Q v)"
  by (auto simp flip: js_get_in_set)

text \<open>Updating every value keeps the keys and acts pointwise.\<close>

definition js_map_values :: "('v \<Rightarrow> 'v) \<Rightarrow> ('k, 'v) js_map \<Rightarrow> ('k, 'v) js_map" where
  "js_map_values f m = map (\<lambda>(k, v). (k, f v)) m"

lemma js_get_map_values [simp]: "js_get (js_map_values f m) k = map_option f (js_get m k)"
  unfolding js_map_values_def by (induction m) auto

lemma js_map_ok_map_values [simp]: "js_map_ok (js_map_values f m) = js_map_ok m"
  unfolding js_map_values_def by (simp add: case_prod_unfold comp_def)

lemma js_size_map_values [simp]: "js_size (js_map_values f m) = js_size m"
  by (simp add: js_map_values_def)

section \<open>JavaScript sets\<close>

type_synonym 'a js_set = "'a list"

definition js_add :: "'a \<Rightarrow> 'a js_set \<Rightarrow> 'a js_set" where
  "js_add x s = (if x \<in> set s then s else s @ [x])"

lemma set_js_add [simp]: "set (js_add x s) = insert x (set s)"
  by (auto simp: js_add_def)

lemma distinct_js_add [simp, intro]: "distinct s \<Longrightarrow> distinct (js_add x s)"
  by (simp add: js_add_def)

lemma js_add_not_Nil [simp]: "js_add x s \<noteq> []"
  by (auto simp: js_add_def)

section \<open>Runs of a machine\<close>

text \<open>
  A component is a step function over commands; what one step keeps, every run keeps.
  Each stateful component interprets this locale on its own step function.
\<close>

locale kept_by_steps =
  fixes step :: "'s \<Rightarrow> 'c \<Rightarrow> 's"
    and good :: "'s \<Rightarrow> bool"
  assumes step_keeps: "good s \<Longrightarrow> good (step s c)"
begin

lemma run_keeps: "good s \<Longrightarrow> good (foldl step s cs)"
  by (induction cs arbitrary: s) (simp_all add: step_keeps)

lemma run_prefix_keeps: "good s \<Longrightarrow> good (foldl step s (take n cs))"
  by (rule run_keeps)

end

text \<open>The same for a relation every step lies in, when it is reflexive and transitive.\<close>

locale ordered_steps =
  fixes step :: "'s \<Rightarrow> 'c \<Rightarrow> 's"
    and good :: "'s \<Rightarrow> bool"
    and below :: "'s \<Rightarrow> 's \<Rightarrow> bool"
  assumes step_good: "good s \<Longrightarrow> good (step s c)"
    and step_below: "good s \<Longrightarrow> below s (step s c)"
    and below_refl: "below s s"
    and below_trans: "below s t \<Longrightarrow> below t u \<Longrightarrow> below s u"
begin

lemma run_below: "good s \<Longrightarrow> below s (foldl step s cs)"
proof (induction cs arbitrary: s)
  case Nil
  show ?case by (simp add: below_refl)
next
  case (Cons c cs)
  have "below (step s c) (foldl step (step s c) cs)"
    using Cons.prems by (intro Cons.IH step_good)
  with Cons.prems show ?case
    by (auto intro: below_trans step_below)
qed

end

sublocale ordered_steps \<subseteq> kept_by_steps
  by unfold_locales (rule step_good)

context ordered_steps
begin

text \<open>Every state of a run is below the states the run reaches later.\<close>

lemma run_take_below:
  assumes "good s"
  shows "below (foldl step s (take n cs)) (foldl step s cs)"
proof -
  have "below (foldl step s (take n cs)) (foldl step (foldl step s (take n cs)) (drop n cs))"
    by (rule run_below [OF run_prefix_keeps [OF assms]])
  then show ?thesis by (simp flip: foldl_append)
qed

end

end
