(* ===== verification/Js_Values.thy ===== *)
theory Js_Values
  imports Prelude
begin

text \<open>
  What the program uses of JavaScript's standard library: numbers and the
  \<^verbatim>\<open>Number.is...\<close> tests, \<^verbatim>\<open>Date\<close> time values, strings (as lists of Latin-1 code units)
  with case conversion, \<^verbatim>\<open>trim\<close> and the fixed-shape regular expressions of the schemas,
  and bytes with their hexadecimal rendering. WebCrypto's digest is left a parameter of the
  definitions that call it.
\<close>

section \<open>Numbers\<close>

text \<open>
  A number is finite (an exact rational here) or one of the three special values.
  The tests are the ones the program's constructors run on their options.
\<close>

datatype js_number = JsNum rat | JsNaN | JsInf | JsNegInf

fun js_is_finite :: "js_number \<Rightarrow> bool" where
  "js_is_finite (JsNum r) = True"
| "js_is_finite _ = False"

fun js_is_integer :: "js_number \<Rightarrow> bool" where
  "js_is_integer (JsNum r) = (of_int \<lfloor>r\<rfloor> = r)"
| "js_is_integer _ = False"

definition max_safe_integer :: int where
  "max_safe_integer = 9007199254740991"

fun js_is_safe_integer :: "js_number \<Rightarrow> bool" where
  "js_is_safe_integer (JsNum r) = (of_int \<lfloor>r\<rfloor> = r \<and> \<bar>\<lfloor>r\<rfloor>\<bar> \<le> max_safe_integer)"
| "js_is_safe_integer _ = False"

fun js_to_int :: "js_number \<Rightarrow> int" where
  "js_to_int (JsNum r) = \<lfloor>r\<rfloor>"
| "js_to_int _ = 0"

abbreviation js_int :: "int \<Rightarrow> js_number" where
  "js_int i \<equiv> JsNum (of_int i)"

text \<open>Comparison with zero is false on \<^verbatim>\<open>NaN\<close>.\<close>

fun js_le_zero :: "js_number \<Rightarrow> bool" where
  "js_le_zero (JsNum r) = (r \<le> 0)"
| "js_le_zero JsNaN = False"
| "js_le_zero JsInf = False"
| "js_le_zero JsNegInf = True"

lemma js_is_safe_integer_int [simp]:
  "js_is_safe_integer (js_int i) = (\<bar>i\<bar> \<le> max_safe_integer)"
  by simp

section \<open>Dates\<close>

text \<open>
  A \<^verbatim>\<open>Date\<close> is its time value in milliseconds, or \<open>None\<close> for an invalid date, on which
  \<^verbatim>\<open>getTime()\<close> is \<^verbatim>\<open>NaN\<close>. The constructor clips to the range of the language
  specification. Re-wrapping the time value of a valid date gives that date back.
\<close>

type_synonym js_date = "int option"

definition max_time_value :: int where
  "max_time_value = 8640000000000000"

definition mk_date :: "int \<Rightarrow> js_date" where
  "mk_date t = (if \<bar>t\<bar> \<le> max_time_value then Some t else None)"

lemma mk_date_Some: "mk_date t = Some u \<longleftrightarrow> u = t \<and> \<bar>t\<bar> \<le> max_time_value"
  by (auto simp: mk_date_def)

section \<open>Strings\<close>

abbreviation code_unit :: "char \<Rightarrow> nat" where
  "code_unit c \<equiv> of_char c"

definition in_range :: "char \<Rightarrow> char \<Rightarrow> char \<Rightarrow> bool" where
  "in_range lo hi c = (code_unit lo \<le> code_unit c \<and> code_unit c \<le> code_unit hi)"

text \<open>\<^verbatim>\<open>[0-9a-f]\<close>, \<^verbatim>\<open>[0-9a-f]\<close> under the flag \<^verbatim>\<open>i\<close>, and \<^verbatim>\<open>[A-Za-z0-9]\<close>.\<close>

definition is_lower_hex :: "char \<Rightarrow> bool" where
  "is_lower_hex c = (in_range CHR ''0'' CHR ''9'' c \<or> in_range CHR ''a'' CHR ''f'' c)"

definition is_hex_i :: "char \<Rightarrow> bool" where
  "is_hex_i c = (is_lower_hex c \<or> in_range CHR ''A'' CHR ''F'' c)"

definition is_alnum :: "char \<Rightarrow> bool" where
  "is_alnum c = (in_range CHR ''0'' CHR ''9'' c \<or> in_range CHR ''A'' CHR ''Z'' c
     \<or> in_range CHR ''a'' CHR ''z'' c)"

text \<open>The members of \<^verbatim>\<open>\s\<close> (the characters \<^verbatim>\<open>trim\<close> strips) among the Latin-1 code units.\<close>

definition is_js_space :: "char \<Rightarrow> bool" where
  "is_js_space c = (code_unit c \<in> {9, 10, 11, 12, 13, 32, 160})"

definition lower_char :: "char \<Rightarrow> char" where
  "lower_char c =
     (let n = code_unit c in
      if 65 \<le> n \<and> n \<le> 90 \<or> 192 \<le> n \<and> n \<le> 222 \<and> n \<noteq> 215 then char_of (n + 32) else c)"

definition js_lower :: "string \<Rightarrow> string" where
  "js_lower s = map lower_char s"

text \<open>
  Upper case turns \<^verbatim>\<open>\u00df\<close> into two letters. The two Latin-1 letters whose upper case lies
  outside Latin-1 (code units 181 and 255) are kept: neither they nor their images are in any
  alphabet the program compares with.
\<close>

definition upper_char :: "char \<Rightarrow> string" where
  "upper_char c =
     (let n = code_unit c in
      if n = 223 then ''SS''
      else if 97 \<le> n \<and> n \<le> 122 \<or> 224 \<le> n \<and> n \<le> 254 \<and> n \<noteq> 247 then [char_of (n - 32)]
      else [c])"

definition js_upper :: "string \<Rightarrow> string" where
  "js_upper s = concat (map upper_char s)"

definition js_trim :: "string \<Rightarrow> string" where
  "js_trim s = rev (dropWhile is_js_space (rev (dropWhile is_js_space s)))"

text \<open>An anchored regular expression of fixed length is a list of character classes.\<close>

definition matches_classes :: "(char \<Rightarrow> bool) list \<Rightarrow> string \<Rightarrow> bool" where
  "matches_classes ps s = list_all2 (\<lambda>p c. p c) ps s"

text \<open>
  The character classes on the bits of a code unit, as they are evaluated on closed strings.
\<close>

lemma code_unit_bits:
  "code_unit (Char b0 b1 b2 b3 b4 b5 b6 b7) =
     of_bool b0 + 2 * of_bool b1 + 4 * of_bool b2 + 8 * of_bool b3 + 16 * of_bool b4
     + 32 * of_bool b5 + 64 * of_bool b6 + (128 :: nat) * of_bool b7"
  by (simp add: of_char_def horner_sum_eq_sum numeral_eq_Suc)

lemma is_lower_hex_code [code]:
  "is_lower_hex (Char b0 b1 b2 b3 b4 b5 b6 b7) =
     (\<not> b7 \<and> b5 \<and>
      (if b6 then \<not> b4 \<and> \<not> b3 \<and> (b0 \<or> b1 \<or> b2) \<and> \<not> (b0 \<and> b1 \<and> b2)
       else b4 \<and> (\<not> b3 \<or> \<not> b2 \<and> \<not> b1)))"
  unfolding is_lower_hex_def in_range_def code_unit_bits
  by (cases b7; cases b6; cases b5; cases b4; cases b3; cases b2; cases b1; cases b0; simp)

lemma is_hex_i_code [code]:
  "is_hex_i (Char b0 b1 b2 b3 b4 b5 b6 b7) =
     (\<not> b7 \<and>
      (if b6 then \<not> b4 \<and> \<not> b3 \<and> (b0 \<or> b1 \<or> b2) \<and> \<not> (b0 \<and> b1 \<and> b2)
       else b5 \<and> b4 \<and> (\<not> b3 \<or> \<not> b2 \<and> \<not> b1)))"
  unfolding is_hex_i_def is_lower_hex_def in_range_def code_unit_bits
  by (cases b7; cases b6; cases b5; cases b4; cases b3; cases b2; cases b1; cases b0; simp)

lemma is_alnum_code [code]:
  "is_alnum (Char b0 b1 b2 b3 b4 b5 b6 b7) =
     (\<not> b7 \<and>
      (if b6 then (b0 \<or> b1 \<or> b2 \<or> b3 \<or> b4) \<and> \<not> (b4 \<and> b3 \<and> (b2 \<or> b1 \<and> b0))
       else b5 \<and> b4 \<and> (\<not> b3 \<or> \<not> b2 \<and> \<not> b1)))"
  unfolding is_alnum_def in_range_def code_unit_bits
  by (cases b7; cases b6; cases b5; cases b4; cases b3; cases b2; cases b1; cases b0; simp)

lemma is_js_space_code [code]: "is_js_space c \<longleftrightarrow> c \<in> set [CHR 0x09, CHR 0x0A, CHR 0x0B, CHR 0x0C, CHR 0x0D, CHR 0x20, CHR 0xA0]"
proof (cases c)
  case (Char b0 b1 b2 b3 b4 b5 b6 b7)
  show ?thesis unfolding Char is_js_space_def code_unit_bits
    by (cases b7; cases b6; cases b5; cases b4; cases b3; cases b2; cases b1; cases b0; simp)
qed

lemma char_of_unit: "n = code_unit c \<Longrightarrow> char_of n = c"
  by simp

lemma lower_char_code [code]:
  "lower_char (Char b0 b1 b2 b3 b4 b5 b6 b7) =
     Char b0 b1 b2 b3 b4
       (b5 \<or> b6 \<and> (if b7 then \<not> (b0 \<and> b1 \<and> b2 \<and> b4)
                       else (b0 \<or> b1 \<or> b2 \<or> b3 \<or> b4) \<and> \<not> (b4 \<and> b3 \<and> (b2 \<or> b1 \<and> b0)))) b6 b7"
  unfolding lower_char_def Let_def
  by (cases b7; cases b6; cases b5; cases b4; cases b3; cases b2; cases b1; cases b0; simp add: code_unit_bits char_of_unit)
lemma lower_char_hex_i: "is_hex_i c \<Longrightarrow> is_lower_hex (lower_char c)"
  by (auto simp: is_hex_i_def is_lower_hex_def in_range_def lower_char_def)

lemma lower_char_lower_hex: "is_lower_hex c \<Longrightarrow> lower_char c = c"
  by (auto simp: is_lower_hex_def in_range_def lower_char_def Let_def)

lemma is_lower_hex_hex_i: "is_lower_hex c \<Longrightarrow> is_hex_i c"
  by (simp add: is_hex_i_def)

lemma lower_char_idem [simp]: "lower_char (lower_char c) = lower_char c"
  by (auto simp: lower_char_def Let_def)

lemma js_lower_idem [simp]: "js_lower (js_lower s) = js_lower s"
  by (simp add: js_lower_def)

lemma length_js_lower [simp]: "length (js_lower s) = length s"
  by (simp add: js_lower_def)

lemma dropWhile_trimmed:
  "(s = [] \<or> \<not> is_js_space (hd s)) \<Longrightarrow> dropWhile is_js_space s = s"
  by (cases s) auto

lemma dropWhile_same_length:
  assumes "length (dropWhile P xs) = length xs"
  shows "dropWhile P xs = xs"
proof -
  have "length (takeWhile P xs) + length (dropWhile P xs) = length xs"
    by (metis length_append takeWhile_dropWhile_id)
  with assms have "takeWhile P xs = []" by simp
  then show ?thesis by (metis append_Nil takeWhile_dropWhile_id)
qed

text \<open>A trimmed string is empty or starts and ends with a character that is no white space.\<close>

definition is_trimmed :: "string \<Rightarrow> bool" where
  "is_trimmed s = (s = [] \<or> \<not> is_js_space (hd s) \<and> \<not> is_js_space (last s))"

lemma js_trim_of_trimmed: "is_trimmed s \<Longrightarrow> js_trim s = s"
  by (cases "s = []")
    (simp_all add: js_trim_def is_trimmed_def dropWhile_trimmed hd_rev)

lemma is_trimmed_js_trim: "is_trimmed (js_trim s)"
proof (cases "js_trim s = []")
  case False
  define d where "d = dropWhile is_js_space s"
  define e where "e = dropWhile is_js_space (rev d)"
  have t: "js_trim s = rev e" by (simp add: js_trim_def d_def e_def)
  with False have e: "e \<noteq> []" by simp
  then have last: "\<not> is_js_space (last (rev e))"
    unfolding e_def by (metis hd_dropWhile last_rev)
  have split: "d = rev e @ rev (takeWhile is_js_space (rev d))"
    unfolding e_def by (metis rev_append rev_rev_ident takeWhile_dropWhile_id)
  with e have "d \<noteq> []" "hd d = hd (rev e)"
    by (auto simp: hd_append) (metis hd_append rev_is_Nil_conv split)
  moreover have "d \<noteq> [] \<Longrightarrow> \<not> is_js_space (hd d)"
    unfolding d_def by (rule hd_dropWhile)
  ultimately show ?thesis
    using t last by (simp add: is_trimmed_def)
qed (simp add: is_trimmed_def)

lemma js_trim_id_iff: "js_trim s = s \<longleftrightarrow> is_trimmed s"
  by (metis is_trimmed_js_trim js_trim_of_trimmed)

lemma js_trim_idem [simp]: "js_trim (js_trim s) = js_trim s"
  by (rule js_trim_of_trimmed [OF is_trimmed_js_trim])

section \<open>Bytes\<close>

type_synonym byte = "8 word"

text \<open>UTF-8 encoding of a Latin-1 string, as \<^verbatim>\<open>TextEncoder\<close> computes it.\<close>

definition utf8_of_char :: "char \<Rightarrow> byte list" where
  "utf8_of_char c =
     (let n = code_unit c in
      if n < 128 then [of_nat n] else [of_nat (192 + n div 64), of_nat (128 + n mod 64)])"

definition utf8_encode :: "string \<Rightarrow> byte list" where
  "utf8_encode s = concat (map utf8_of_char s)"

text \<open>\<^verbatim>\<open>byte.toString(16).padStart(2, "0")\<close>, joined over a byte array.\<close>

definition hex_digit :: "nat \<Rightarrow> char" where
  "hex_digit n = (if n < 10 then char_of (48 + n) else char_of (87 + n))"

definition hex_byte :: "byte \<Rightarrow> string" where
  "hex_byte b = [hex_digit (unat b div 16), hex_digit (unat b mod 16)]"

definition hex_bytes :: "byte list \<Rightarrow> string" where
  "hex_bytes bs = concat (map hex_byte bs)"

lemma hex_digit_lower_hex: "n < 16 \<Longrightarrow> is_lower_hex (hex_digit n)"
  by (auto simp: hex_digit_def is_lower_hex_def in_range_def)

lemma hex_digit_inj: "m < 16 \<Longrightarrow> n < 16 \<Longrightarrow> hex_digit m = hex_digit n \<Longrightarrow> m = n"
  by (auto simp: hex_digit_def char_of_eq_iff take_bit_eq_mod split: if_splits)

lemma unat_byte_digits: "unat (b :: byte) div 16 < 16" "unat (b :: byte) mod 16 < 16"
proof -
  have "unat b < 256" using unsigned_less [of b] by simp
  then show "unat b div 16 < 16" "unat b mod 16 < 16" by auto
qed

lemma hex_bytes_simps [simp]:
  "hex_bytes [] = []"
  "hex_bytes (b # bs) = hex_digit (unat b div 16) # hex_digit (unat b mod 16) # hex_bytes bs"
  by (simp_all add: hex_bytes_def hex_byte_def)

lemma length_hex_bytes [simp]: "length (hex_bytes bs) = 2 * length bs"
  by (induction bs) simp_all

lemma hex_bytes_lower_hex: "list_all is_lower_hex (hex_bytes bs)"
  by (induction bs) (simp_all add: hex_digit_lower_hex unat_byte_digits)

lemma hex_byte_inj:
  assumes "hex_digit (unat a div 16) = hex_digit (unat b div 16)"
    and "hex_digit (unat a mod 16) = hex_digit (unat b mod 16)"
  shows "(a :: byte) = b"
proof -
  have "unat a div 16 = unat b div 16" "unat a mod 16 = unat b mod 16"
    using assms by (auto intro: hex_digit_inj simp: unat_byte_digits)
  then have "unat a = unat b" by (metis div_mult_mod_eq)
  then show ?thesis by (rule unsigned_word_eqI)
qed

lemma hex_bytes_inj: "hex_bytes as = hex_bytes bs \<Longrightarrow> as = bs"
proof (induction as arbitrary: bs)
  case Nil
  then show ?case by (cases bs) simp_all
next
  case (Cons a as)
  then show ?case by (cases bs) (auto intro: hex_byte_inj)
qed

text \<open>
  The loop of \<^verbatim>\<open>constantTimeEqualHex\<close>: the differences of all code units are accumulated
  with bitwise operations, and the strings are equal when nothing was accumulated.
\<close>

end
