(* ===== verification/Schemas.thy ===== *)
theory Schemas
  imports Js_Values
begin

text \<open>
  The domain schemas of \<^verbatim>\<open>packages/schemas/src\<close>: device, pairing and device credential.
  A schema is its parser: \<open>None\<close> where \<^verbatim>\<open>safeParse\<close> fails, otherwise the transformed value
  (identifiers in lower case, names trimmed). The TypeScript types give the shape of an
  input, so an input is a record here; unknown keys, which the strict schemas of the wire
  messages refuse, are modelled in the theory of the bridge protocol.
\<close>

section \<open>Devices (\<^verbatim>\<open>device.ts\<close>)\<close>

definition is_dash :: "char \<Rightarrow> bool" where
  "is_dash c = (c = CHR ''-'')"

text \<open>The version-4 UUID pattern, shared by the three identifier schemas.\<close>

definition uuid_v4_classes :: "(char \<Rightarrow> bool) list" where
  "uuid_v4_classes =
     replicate 8 is_hex_i @ [is_dash] @ replicate 4 is_hex_i @ [is_dash]
     @ [\<lambda>c. c = CHR ''4''] @ replicate 3 is_hex_i @ [is_dash]
     @ [\<lambda>c. c \<in> set ''89abAB''] @ replicate 3 is_hex_i @ [is_dash] @ replicate 12 is_hex_i"

definition parse_uuid_v4 :: "string \<Rightarrow> string option" where
  "parse_uuid_v4 s = (if matches_classes uuid_v4_classes s then Some (js_lower s) else None)"

definition device_id_schema :: "string \<Rightarrow> string option" where
  "device_id_schema s = parse_uuid_v4 s"

definition owner_id_schema :: "string \<Rightarrow> string option" where
  "owner_id_schema s =
     (if 1 \<le> length s \<and> length s \<le> 200 \<and> js_trim s = s then Some s else None)"

definition device_name_schema :: "string \<Rightarrow> string option" where
  "device_name_schema s =
     (let t = js_trim s in if 1 \<le> length t \<and> length t \<le> 100 then Some t else None)"

definition identifier_pattern :: "string \<Rightarrow> string \<Rightarrow> bool" where
  "identifier_pattern extra s =
     (case s of [] \<Rightarrow> False
      | c # cs \<Rightarrow> is_alnum c \<and> list_all (\<lambda>d. is_alnum d \<or> d \<in> set extra) cs)"

definition device_platform_schema :: "string \<Rightarrow> string option" where
  "device_platform_schema s =
     (let t = js_trim s in
      if 1 \<le> length t \<and> length t \<le> 64 \<and> identifier_pattern ''._-'' t then Some t else None)"

definition device_version_schema :: "string \<Rightarrow> string option" where
  "device_version_schema s =
     (let t = js_trim s in
      if 1 \<le> length t \<and> length t \<le> 64 \<and> identifier_pattern ''.+_-'' t then Some t else None)"

text \<open>\<^verbatim>\<open>.optional()\<close>: an absent field stays absent, a present one must parse.\<close>

definition optional_schema :: "('a \<Rightarrow> 'b option) \<Rightarrow> 'a option \<Rightarrow> 'b option option" where
  "optional_schema p x = (case x of None \<Rightarrow> Some None | Some a \<Rightarrow> map_option Some (p a))"

record device_metadata =
  md_platform :: string
  md_appVersion :: "string option"
  md_runtimeVersion :: "string option"

definition device_metadata_schema :: "device_metadata \<Rightarrow> device_metadata option" where
  "device_metadata_schema m =
     (case (device_platform_schema (md_platform m),
            optional_schema device_version_schema (md_appVersion m),
            optional_schema device_version_schema (md_runtimeVersion m)) of
        (Some p, Some a, Some r) \<Rightarrow>
          Some \<lparr>md_platform = p, md_appVersion = a, md_runtimeVersion = r\<rparr>
      | _ \<Rightarrow> None)"

record create_device_input =
  ci_ownerId :: string
  ci_deviceName :: string
  ci_metadata :: device_metadata

definition create_device_input_schema :: "create_device_input \<Rightarrow> create_device_input option" where
  "create_device_input_schema i =
     (case (owner_id_schema (ci_ownerId i), device_name_schema (ci_deviceName i),
            device_metadata_schema (ci_metadata i)) of
        (Some ow, Some n, Some m) \<Rightarrow> Some \<lparr>ci_ownerId = ow, ci_deviceName = n, ci_metadata = m\<rparr>
      | _ \<Rightarrow> None)"

record update_device_input =
  ui_deviceName :: "string option"
  ui_metadata :: "device_metadata option"

definition update_device_input_schema :: "update_device_input \<Rightarrow> update_device_input option" where
  "update_device_input_schema i =
     (case (optional_schema device_name_schema (ui_deviceName i),
            optional_schema device_metadata_schema (ui_metadata i)) of
        (Some n, Some m) \<Rightarrow>
          if n \<noteq> None \<or> m \<noteq> None then Some \<lparr>ui_deviceName = n, ui_metadata = m\<rparr> else None
      | _ \<Rightarrow> None)"

record device =
  dev_deviceId :: string
  dev_ownerId :: string
  dev_deviceName :: string
  dev_metadata :: device_metadata
  dev_createdAt :: int
  dev_updatedAt :: int

definition device_schema :: "device \<Rightarrow> device option" where
  "device_schema d =
     (case (device_id_schema (dev_deviceId d), owner_id_schema (dev_ownerId d),
            device_name_schema (dev_deviceName d), device_metadata_schema (dev_metadata d)) of
        (Some i, Some ow, Some n, Some m) \<Rightarrow>
          if dev_createdAt d \<le> dev_updatedAt d then
            Some (d\<lparr>dev_deviceId := i, dev_ownerId := ow, dev_deviceName := n, dev_metadata := m\<rparr>)
          else None
      | _ \<Rightarrow> None)"

section \<open>Pairing (\<^verbatim>\<open>pairing.ts\<close> of the schemas package)\<close>

definition pairing_session_id_schema :: "string \<Rightarrow> string option" where
  "pairing_session_id_schema s = parse_uuid_v4 s"

datatype pairing_state = Pending | Claimed | Expired | Cancelled

text \<open>
  The lifecycle order of a pairing session: \<open>Pending\<close> is below the three terminal states,
  which are unrelated.
\<close>

instantiation pairing_state :: order
begin

definition less_eq_pairing_state :: "pairing_state \<Rightarrow> pairing_state \<Rightarrow> bool" where
  "less_eq_pairing_state a b = (a = Pending \<or> a = b)"

definition less_pairing_state :: "pairing_state \<Rightarrow> pairing_state \<Rightarrow> bool" where
  "less_pairing_state a b = (a = Pending \<and> b \<noteq> Pending)"

instance
  by standard (auto simp: less_eq_pairing_state_def less_pairing_state_def)

end

definition pairing_correlation_id_schema :: "string \<Rightarrow> string option" where
  "pairing_correlation_id_schema s =
     (if 1 \<le> length s \<and> length s \<le> 200 \<and> js_trim s = s then Some s else None)"

text \<open>The claim input has exactly the fields of a device creation input.\<close>

type_synonym claim_pairing_input = create_device_input

definition claim_pairing_input_schema :: "claim_pairing_input \<Rightarrow> claim_pairing_input option" where
  "claim_pairing_input_schema i =
     (case (owner_id_schema (ci_ownerId i), device_name_schema (ci_deviceName i),
            device_metadata_schema (ci_metadata i)) of
        (Some ow, Some n, Some m) \<Rightarrow> Some \<lparr>ci_ownerId = ow, ci_deviceName = n, ci_metadata = m\<rparr>
      | _ \<Rightarrow> None)"

record pairing_session =
  ps_pairingSessionId :: string
  ps_state :: pairing_state
  ps_createdAt :: int
  ps_expiresAt :: int
  ps_localCorrelationId :: "string option"
  ps_claimedAt :: "int option"
  ps_deviceId :: "string option"

text \<open>The refinement of \<^verbatim>\<open>pairingSessionSchema\<close>: what the fields of a session say of each other.\<close>

definition pairing_session_refined :: "pairing_session \<Rightarrow> bool" where
  "pairing_session_refined s =
     (ps_createdAt s < ps_expiresAt s \<and>
      (case ps_state s of
         Claimed \<Rightarrow>
           (case (ps_claimedAt s, ps_deviceId s) of
              (Some c, Some _) \<Rightarrow> ps_createdAt s \<le> c \<and> c < ps_expiresAt s
            | _ \<Rightarrow> False)
       | _ \<Rightarrow> ps_claimedAt s = None \<and> ps_deviceId s = None))"

definition pairing_session_schema :: "pairing_session \<Rightarrow> pairing_session option" where
  "pairing_session_schema s =
     (case (pairing_session_id_schema (ps_pairingSessionId s),
            optional_schema pairing_correlation_id_schema (ps_localCorrelationId s),
            optional_schema device_id_schema (ps_deviceId s)) of
        (Some i, Some c, Some d) \<Rightarrow>
          if pairing_session_refined s then
            Some (s\<lparr>ps_pairingSessionId := i, ps_localCorrelationId := c, ps_deviceId := d\<rparr>)
          else None
      | _ \<Rightarrow> None)"

section \<open>Device credentials (\<^verbatim>\<open>device-credential.ts\<close> of the schemas package)\<close>

definition is_base64url :: "char \<Rightarrow> bool" where
  "is_base64url c = (is_alnum c \<or> c = CHR ''_'' \<or> c = CHR ''-'')"

definition device_credential_secret_schema :: "string \<Rightarrow> string option" where
  "device_credential_secret_schema s =
     (if length s = 43 \<and> list_all is_base64url s then Some s else None)"

definition device_credential_id_schema :: "string \<Rightarrow> string option" where
  "device_credential_id_schema s = parse_uuid_v4 s"

datatype credential_state = Active | Revoked

instantiation credential_state :: linorder
begin

definition less_eq_credential_state :: "credential_state \<Rightarrow> credential_state \<Rightarrow> bool" where
  "less_eq_credential_state a b = (a = Active \<or> b = Revoked)"

definition less_credential_state :: "credential_state \<Rightarrow> credential_state \<Rightarrow> bool" where
  "less_credential_state a b = (a = Active \<and> b = Revoked)"

instance
proof
  fix a b c :: credential_state
  show "a < b \<longleftrightarrow> a \<le> b \<and> \<not> b \<le> a"
    by (cases a; cases b) (simp_all add: less_eq_credential_state_def less_credential_state_def)
  show "a \<le> a" by (cases a) (simp_all add: less_eq_credential_state_def)
  show "a \<le> b \<Longrightarrow> b \<le> c \<Longrightarrow> a \<le> c" by (auto simp: less_eq_credential_state_def)
  show "a \<le> b \<Longrightarrow> b \<le> a \<Longrightarrow> a = b" by (auto simp: less_eq_credential_state_def)
  show "a \<le> b \<or> b \<le> a"
    by (cases a; cases b) (simp_all add: less_eq_credential_state_def)
qed

end

record device_credential =
  cred_credentialId :: string
  cred_version :: int
  cred_deviceId :: string
  cred_state :: credential_state
  cred_createdAt :: int
  cred_revokedAt :: "int option"

definition device_credential_refined :: "device_credential \<Rightarrow> bool" where
  "device_credential_refined c =
     ((cred_state c = Active \<longrightarrow> cred_revokedAt c = None) \<and>
      (cred_state c = Revoked \<longrightarrow> cred_revokedAt c \<noteq> None) \<and>
      (case cred_revokedAt c of None \<Rightarrow> True | Some r \<Rightarrow> cred_createdAt c \<le> r))"

definition device_credential_schema :: "device_credential \<Rightarrow> device_credential option" where
  "device_credential_schema c =
     (case (device_credential_id_schema (cred_credentialId c), device_id_schema (cred_deviceId c)) of
        (Some i, Some d) \<Rightarrow>
          if 0 < cred_version c \<and> cred_version c \<le> max_safe_integer \<and> device_credential_refined c then
            Some (c\<lparr>cred_credentialId := i, cred_deviceId := d\<rparr>)
          else None
      | _ \<Rightarrow> None)"

record device_identity =
  idn_ownerId :: string
  idn_deviceId :: string

definition authenticated_device_identity_schema :: "device_identity \<Rightarrow> device_identity option" where
  "authenticated_device_identity_schema i =
     (case (owner_id_schema (idn_ownerId i), device_id_schema (idn_deviceId i)) of
        (Some ow, Some d) \<Rightarrow> Some \<lparr>idn_ownerId = ow, idn_deviceId = d\<rparr>
      | _ \<Rightarrow> None)"

text \<open>The digest pattern \<^verbatim>\<open>/^[0-9a-f]{64}$/\<close> of the credential and pairing repositories.\<close>

definition is_sha256_hex :: "string \<Rightarrow> bool" where
  "is_sha256_hex s = (length s = 64 \<and> list_all is_lower_hex s)"

lemma is_sha256_hex_bytes: "length bs = 32 \<Longrightarrow> is_sha256_hex (hex_bytes bs)"
  by (simp add: is_sha256_hex_def hex_bytes_lower_hex)

text \<open>What the program relies on of SHA-256: a digest has 32 bytes.\<close>

definition sha256_like :: "(byte list \<Rightarrow> byte list) \<Rightarrow> bool" where
  "sha256_like sha256 \<longleftrightarrow> (\<forall>m. length (sha256 m) = 32)"

lemma sha256_like_hex: "sha256_like sha256 \<Longrightarrow> is_sha256_hex (hex_bytes (sha256 m))"
  by (simp add: sha256_like_def is_sha256_hex_bytes)

text \<open>A function of that kind, for concrete instances.\<close>

definition example_sha256 :: "byte list \<Rightarrow> byte list" where
  "example_sha256 m = take 32 (rev m @ replicate 32 0)"

lemma example_sha256_like: "sha256_like example_sha256"
  by (auto simp: sha256_like_def example_sha256_def min_def)

section \<open>Canonical forms\<close>

lemma list_all2_lower:
  assumes "list_all2 (\<lambda>p c. p c) ps s"
    and "\<forall>p \<in> set ps. \<forall>c. p c \<longrightarrow> p (lower_char c)"
  shows "list_all2 (\<lambda>p c. p c) ps (js_lower s)"
  using assms
  by (induction ps arbitrary: s) (auto simp: js_lower_def list_all2_Cons1)

lemma lower_char_AB:
  "lower_char CHR ''A'' = CHR ''a''" "lower_char CHR ''B'' = CHR ''b''"
  by code_simp+

lemma lower_char_id:
  "lower_char CHR ''-'' = CHR ''-''" "lower_char CHR ''4'' = CHR ''4''"
  "lower_char CHR ''8'' = CHR ''8''" "lower_char CHR ''9'' = CHR ''9''"
  "lower_char CHR ''a'' = CHR ''a''" "lower_char CHR ''b'' = CHR ''b''"
  by code_simp+

lemma uuid_class_cases:
  assumes "p \<in> set uuid_v4_classes"
  obtains (hex) "p = is_hex_i" | (dash) "p = is_dash" | (version) "p = (\<lambda>c. c = CHR ''4'')"
    | (variant) "p = (\<lambda>c. c \<in> set ''89abAB'')"
  using assms by (auto simp: uuid_v4_classes_def)

lemma uuid_class_lower:
  assumes "p \<in> set uuid_v4_classes" and "p c"
  shows "p (lower_char c)"
  using assms(1)
proof (cases rule: uuid_class_cases)
  case hex
  with assms(2) show ?thesis by (simp add: is_lower_hex_hex_i lower_char_hex_i)
next
  case dash
  with assms(2) show ?thesis by (simp add: is_dash_def lower_char_id)
next
  case version
  with assms(2) show ?thesis by (simp add: lower_char_id)
next
  case variant
  with assms(2) show ?thesis by (auto simp: lower_char_id lower_char_AB)
qed

lemma uuid_matches_lower:
  "matches_classes uuid_v4_classes s \<Longrightarrow> matches_classes uuid_v4_classes (js_lower s)"
  unfolding matches_classes_def
  by (rule list_all2_lower) (auto intro: uuid_class_lower)

text \<open>Parsing is idempotent: what a schema returns, it accepts unchanged.\<close>

lemma parse_uuid_v4_canonical: "parse_uuid_v4 s = Some t \<Longrightarrow> parse_uuid_v4 t = Some t"
  by (auto simp: parse_uuid_v4_def uuid_matches_lower split: if_splits)

lemma device_id_canonical: "device_id_schema s = Some t \<Longrightarrow> device_id_schema t = Some t"
  by (simp add: device_id_schema_def parse_uuid_v4_canonical)

lemma pairing_session_id_canonical:
  "pairing_session_id_schema s = Some t \<Longrightarrow> pairing_session_id_schema t = Some t"
  by (simp add: pairing_session_id_schema_def parse_uuid_v4_canonical)

lemma device_credential_id_canonical:
  "device_credential_id_schema s = Some t \<Longrightarrow> device_credential_id_schema t = Some t"
  by (simp add: device_credential_id_schema_def parse_uuid_v4_canonical)

lemma owner_id_same: "owner_id_schema s = Some t \<Longrightarrow> t = s"
  by (auto simp: owner_id_schema_def split: if_splits)

lemma owner_id_canonical: "owner_id_schema s = Some t \<Longrightarrow> owner_id_schema t = Some t"
  by (auto simp: owner_id_schema_def split: if_splits)

lemma device_name_canonical: "device_name_schema s = Some t \<Longrightarrow> device_name_schema t = Some t"
  by (auto simp: device_name_schema_def Let_def split: if_splits)

lemma device_platform_canonical:
  "device_platform_schema s = Some t \<Longrightarrow> device_platform_schema t = Some t"
  by (auto simp: device_platform_schema_def Let_def split: if_splits)

lemma device_version_canonical:
  "device_version_schema s = Some t \<Longrightarrow> device_version_schema t = Some t"
  by (auto simp: device_version_schema_def Let_def split: if_splits)

lemma optional_canonical:
  assumes "\<And>s t. p s = Some t \<Longrightarrow> p t = Some t"
  shows "optional_schema p x = Some y \<Longrightarrow> optional_schema p y = Some y"
  using assms by (auto simp: optional_schema_def split: option.splits)

lemma device_metadata_canonical:
  "device_metadata_schema m = Some t \<Longrightarrow> device_metadata_schema t = Some t"
  by (auto simp: device_metadata_schema_def device_platform_canonical
      optional_canonical [OF device_version_canonical] split: option.splits)

lemmas schema_canonical =
  device_id_canonical pairing_session_id_canonical device_credential_id_canonical
  owner_id_canonical
  device_name_canonical device_metadata_canonical

end
