(* ===== verification/Credential_Store.thy ===== *)
theory Credential_Store
  imports Schemas
begin

text \<open>
  The interface \<^verbatim>\<open>DeviceCredentialRepository\<close> of \<^verbatim>\<open>apps/server/src/device-credential.ts\<close>, the
  checks of its arguments and the comparison of digests that both implementations share; an
  abstract specification of what a credential repository promises; and the contract of the
  interface as the locale \<open>credential_store\<close>, whose laws say that every operation does what
  the specification does (or fails without effect).
\<close>

section \<open>Interface\<close>

text \<open>
  The codes of \<^verbatim>\<open>DeviceCredentialError\<close>; the last constructor stands for any other exception
  a storage adapter throws.
\<close>

datatype credential_error =
  InvalidCredentialInput | CredentialInvalidClock | CredentialDeviceNotFound
| CredentialAlreadyExists | CredentialIdConflict | CredentialUnavailable
| CredentialStorageFailure

record 's credential_repository =
  cri_issue :: "'s \<Rightarrow> string \<Rightarrow> string \<Rightarrow> string \<Rightarrow> js_date
      \<Rightarrow> ('s, credential_error, device_credential) outcome"
  cri_getActive :: "'s \<Rightarrow> string \<Rightarrow> (credential_error, device_credential option) result"
  cri_verify :: "'s \<Rightarrow> string \<Rightarrow> string \<Rightarrow> (credential_error, device_credential option) result"
  cri_revoke :: "'s \<Rightarrow> string \<Rightarrow> string \<Rightarrow> js_number \<Rightarrow> js_date
      \<Rightarrow> ('s, credential_error, device_credential option) outcome"
  cri_rotate :: "'s \<Rightarrow> string \<Rightarrow> string \<Rightarrow> js_number \<Rightarrow> string \<Rightarrow> string \<Rightarrow> js_date
      \<Rightarrow> ('s, credential_error, device_credential) outcome"

section \<open>Argument checks\<close>

definition cred_read_time :: "js_date \<Rightarrow> (credential_error, int) result" where
  "cred_read_time d = require CredentialInvalidClock d"

definition cred_parse_device_id :: "string \<Rightarrow> (credential_error, string) result" where
  "cred_parse_device_id s = require InvalidCredentialInput (device_id_schema s)"

definition cred_parse_credential_id :: "string \<Rightarrow> (credential_error, string) result" where
  "cred_parse_credential_id s = require InvalidCredentialInput (device_credential_id_schema s)"

definition cred_parse_version :: "js_number \<Rightarrow> (credential_error, int) result" where
  "cred_parse_version v =
     (if \<not> js_is_integer v \<or> js_le_zero v then Inl InvalidCredentialInput else Inr (js_to_int v))"

definition cred_parse_digest :: "string \<Rightarrow> (credential_error, string) result" where
  "cred_parse_digest g = (if is_sha256_hex g then Inr g else Inl InvalidCredentialInput)"

lemmas cred_parse_defs =
  cred_read_time_def cred_parse_device_id_def cred_parse_credential_id_def
  cred_parse_version_def cred_parse_digest_def

lemma cred_parse_version_int [simp]:
  "cred_parse_version (js_int v) = (if 0 < v then Inr v else Inl InvalidCredentialInput)"
  by (simp add: cred_parse_version_def)

lemma cred_parse_digest_simps [simp]:
  "is_sha256_hex g \<Longrightarrow> cred_parse_digest g = Inr g"
  "cred_parse_digest g = Inr h \<longleftrightarrow> is_sha256_hex g \<and> h = g"
  by (auto simp: cred_parse_digest_def)

section \<open>Comparison of digests\<close>

text \<open>
  The loop of \<^verbatim>\<open>constantTimeEqualHex\<close> accumulates \<^verbatim>\<open>diff |= left ^ right\<close> over all positions,
  on the 32-bit integers of JavaScript's bitwise operators.
\<close>

unbundle bit_operations_syntax

fun xor_difference :: "32 word \<Rightarrow> string \<Rightarrow> string \<Rightarrow> 32 word" where
  "xor_difference diff (a # as) (b # bs) =
     xor_difference (diff OR (of_nat (code_unit a) XOR of_nat (code_unit b))) as bs"
| "xor_difference diff _ _ = diff"

definition constant_time_equal_hex :: "string \<Rightarrow> string \<Rightarrow> bool" where
  "constant_time_equal_hex left right =
     (if length left \<noteq> length right then False else xor_difference 0 left right = 0)"

lemma or_word_zero: "(a :: 32 word) OR b = 0 \<longleftrightarrow> a = 0 \<and> b = 0"
  by (rule or_eq_0_iff)

lemma xor_word_zero: "(a :: 32 word) XOR b = 0 \<longleftrightarrow> a = b"
  by (auto simp: bit_eq_iff bit_simps)

lemma code_unit_word_inj:
  "(of_nat (code_unit a) :: 32 word) = of_nat (code_unit b) \<longleftrightarrow> a = b"
proof
  assume "(of_nat (code_unit a) :: 32 word) = of_nat (code_unit b)"
  moreover have "code_unit c < 2 ^ 32" for c :: char
    by (rule less_trans [OF nat_of_char_less_256]) simp
  ultimately have "code_unit a = code_unit b"
    by (simp add: word_of_nat_eq_iff take_bit_nat_eq_self)
  then show "a = b" by simp
qed simp

lemma xor_difference_zero:
  "length left = length right \<Longrightarrow>
   xor_difference diff left right = 0 \<longleftrightarrow> diff = 0 \<and> left = right"
  by (induction diff left right rule: xor_difference.induct)
    (auto simp: or_word_zero xor_word_zero code_unit_word_inj)

lemma constant_time_equal_hex_iff: "constant_time_equal_hex left right \<longleftrightarrow> left = right"
  by (auto simp: constant_time_equal_hex_def xor_difference_zero)

section \<open>Abstract specification\<close>

text \<open>
  What a credential repository promises: per device the latest generation with the digest of
  its secret, and the set of all credential ids ever used. Generations are compared and
  swapped: a mutation names the generation it expects.
\<close>

record credential_spec =
  csp_latest :: "string \<Rightarrow> (device_credential \<times> string) option"
  csp_used :: "string set"

definition spec_active :: "credential_spec \<Rightarrow> string \<Rightarrow> (device_credential \<times> string) option" where
  "spec_active a d =
     (case csp_latest a d of
        None \<Rightarrow> None
      | Some (c, g) \<Rightarrow> if cred_state c = Active then Some (c, g) else None)"

definition spec_install :: "credential_spec \<Rightarrow> device_credential \<Rightarrow> string \<Rightarrow> credential_spec" where
  "spec_install a c g =
     a\<lparr>csp_latest := (csp_latest a)(cred_deviceId c \<mapsto> (c, g)),
       csp_used := insert (cred_credentialId c) (csp_used a)\<rparr>"

definition active_credential :: "string \<Rightarrow> string \<Rightarrow> int \<Rightarrow> int \<Rightarrow> device_credential" where
  "active_credential d ci v t =
     \<lparr>cred_credentialId = ci, cred_version = v, cred_deviceId = d, cred_state = Active,
      cred_createdAt = t, cred_revokedAt = None\<rparr>"

definition spec_issue ::
  "credential_spec \<Rightarrow> string \<Rightarrow> string \<Rightarrow> string \<Rightarrow> js_date
     \<Rightarrow> (credential_spec, credential_error, device_credential) outcome" where
  "spec_issue a dIn ciIn gIn tIn =
     try_with a (cred_parse_device_id dIn) (\<lambda>d.
     try_with a (cred_parse_credential_id ciIn) (\<lambda>ci.
     try_with a (cred_parse_digest gIn) (\<lambda>g.
     try_with a (cred_read_time tIn) (\<lambda>t.
     try_with a (ensure CredentialAlreadyExists (spec_active a d = None)) (\<lambda>_.
     try_with a (ensure CredentialIdConflict (ci \<notin> csp_used a)) (\<lambda>_.
       let v = (case csp_latest a d of None \<Rightarrow> 0 | Some (c, _) \<Rightarrow> cred_version c) + 1;
           c = active_credential d ci v t
       in try_with a (ensure InvalidCredentialInput (v \<le> max_safe_integer)) (\<lambda>_.
            (spec_install a c g, Inr c))))))))"

definition spec_getActive :: "credential_spec \<Rightarrow> string \<Rightarrow> (credential_error, device_credential option) result" where
  "spec_getActive a dIn =
     bind_result (cred_parse_device_id dIn) (\<lambda>d. Inr (map_option fst (spec_active a d)))"

definition spec_verify ::
  "credential_spec \<Rightarrow> string \<Rightarrow> string \<Rightarrow> (credential_error, device_credential option) result" where
  "spec_verify a dIn gIn =
     bind_result (cred_parse_device_id dIn) (\<lambda>d.
     bind_result (cred_parse_digest gIn) (\<lambda>g.
       Inr (case spec_active a d of None \<Rightarrow> None | Some (c, h) \<Rightarrow> if h = g then Some c else None)))"

definition expected_generation :: "credential_spec \<Rightarrow> string \<Rightarrow> string \<Rightarrow> int \<Rightarrow> (device_credential \<times> string) option" where
  "expected_generation a d ci v =
     (case spec_active a d of
        None \<Rightarrow> None
      | Some (c, g) \<Rightarrow> if cred_credentialId c = ci \<and> cred_version c = v then Some (c, g) else None)"

definition spec_revoke ::
  "credential_spec \<Rightarrow> string \<Rightarrow> string \<Rightarrow> js_number \<Rightarrow> js_date
     \<Rightarrow> (credential_spec, credential_error, device_credential option) outcome" where
  "spec_revoke a dIn eciIn evIn tIn =
     try_with a (cred_parse_device_id dIn) (\<lambda>d.
     try_with a (cred_parse_credential_id eciIn) (\<lambda>eci.
     try_with a (cred_parse_version evIn) (\<lambda>ev.
     try_with a (cred_read_time tIn) (\<lambda>t.
       case expected_generation a d eci ev of
         None \<Rightarrow> (a, Inr None)
       | Some (c, g) \<Rightarrow>
           if t < cred_createdAt c then (a, Inl CredentialInvalidClock)
           else let c' = c\<lparr>cred_state := Revoked, cred_revokedAt := Some t\<rparr>
                in (a\<lparr>csp_latest := (csp_latest a)(d \<mapsto> (c', g))\<rparr>, Inr (Some c'))))))"

definition spec_rotate ::
  "credential_spec \<Rightarrow> string \<Rightarrow> string \<Rightarrow> js_number \<Rightarrow> string \<Rightarrow> string \<Rightarrow> js_date
     \<Rightarrow> (credential_spec, credential_error, device_credential) outcome" where
  "spec_rotate a dIn eciIn evIn ciIn gIn tIn =
     try_with a (cred_parse_device_id dIn) (\<lambda>d.
     try_with a (cred_parse_credential_id eciIn) (\<lambda>eci.
     try_with a (cred_parse_version evIn) (\<lambda>ev.
     try_with a (cred_parse_credential_id ciIn) (\<lambda>ci.
     try_with a (cred_parse_digest gIn) (\<lambda>g.
     try_with a (cred_read_time tIn) (\<lambda>t.
       case expected_generation a d eci ev of
         None \<Rightarrow> (a, Inl CredentialUnavailable)
       | Some (c, _) \<Rightarrow>
           try_with a (ensure CredentialIdConflict (ci \<notin> csp_used a)) (\<lambda>_.
           try_with a (ensure CredentialInvalidClock (\<not> t < cred_createdAt c)) (\<lambda>_.
             let c' = active_credential d ci (cred_version c + 1) t
             in try_with a (ensure InvalidCredentialInput (cred_version c' \<le> max_safe_integer)) (\<lambda>_.
                  (spec_install a c' g, Inr c'))))))))))"

text \<open>Every generation a specification state holds is a well-formed credential.\<close>

definition spec_ok :: "credential_spec \<Rightarrow> bool" where
  "spec_ok a \<longleftrightarrow>
     (\<forall>d c g. csp_latest a d = Some (c, g) \<longrightarrow>
        cred_deviceId c = d \<and> cred_credentialId c \<in> csp_used a \<and> is_sha256_hex g \<and>
        device_credential_schema c = Some c)"

text \<open>
  The order in which states follow each other: versions of a device never go down, a
  generation changes only from active to revoked, and no later generation carries an id that
  was in use before.
\<close>

definition same_generation :: "device_credential \<times> string \<Rightarrow> device_credential \<times> string \<Rightarrow> bool" where
  "same_generation x y \<longleftrightarrow>
     cred_credentialId (fst x) = cred_credentialId (fst y) \<and>
     cred_version (fst x) = cred_version (fst y) \<and> snd x = snd y \<and>
     cred_state (fst x) \<le> cred_state (fst y)"

definition generation_below :: "device_credential \<times> string \<Rightarrow> device_credential \<times> string \<Rightarrow> bool" where
  "generation_below x y \<longleftrightarrow> cred_version (fst x) < cred_version (fst y) \<or> same_generation x y"

definition spec_extends :: "credential_spec \<Rightarrow> credential_spec \<Rightarrow> bool" where
  "spec_extends a b \<longleftrightarrow>
     csp_used a \<subseteq> csp_used b \<and>
     (\<forall>d x. csp_latest a d = Some x \<longrightarrow> (\<exists>y. csp_latest b d = Some y \<and> generation_below x y)) \<and>
     (\<forall>d y. csp_latest b d = Some y \<longrightarrow>
        cred_credentialId (fst y) \<notin> csp_used a \<or>
        (\<exists>x. csp_latest a d = Some x \<and> same_generation x y))"

section \<open>The specification keeps its invariant and its order\<close>

text \<open>A credential built from parsed parts is its own parse whenever it parses.\<close>

lemma credential_schema_fix:
  assumes "device_credential_schema c = Some c'"
    and "device_credential_id_schema (cred_credentialId c) = Some (cred_credentialId c)"
    and "device_id_schema (cred_deviceId c) = Some (cred_deviceId c)"
  shows "c' = c"
  using assms by (auto simp: device_credential_schema_def split: if_splits)

lemma credential_schema_parts:
  assumes "device_credential_schema c = Some c'"
  shows "device_credential_id_schema (cred_credentialId c) = Some (cred_credentialId c')"
    and "device_id_schema (cred_deviceId c) = Some (cred_deviceId c')"
    and "0 < cred_version c" and "cred_version c \<le> max_safe_integer"
    and "device_credential_refined c"
    and "cred_version c' = cred_version c" and "cred_state c' = cred_state c"
    and "cred_createdAt c' = cred_createdAt c" and "cred_revokedAt c' = cred_revokedAt c"
  using assms by (auto simp: device_credential_schema_def split: option.splits if_splits)

lemma credential_schema_self:
  "device_credential_schema c = Some c \<longleftrightarrow>
     device_credential_id_schema (cred_credentialId c) = Some (cred_credentialId c) \<and>
     device_id_schema (cred_deviceId c) = Some (cred_deviceId c) \<and>
     0 < cred_version c \<and> cred_version c \<le> max_safe_integer \<and> device_credential_refined c"
  (is "?l \<longleftrightarrow> ?r")
proof
  assume ?l
  from credential_schema_parts [OF this] show ?r by simp
next
  assume ?r
  then show ?l by (auto simp: device_credential_schema_def)
qed

lemma spec_ok_latest:
  assumes "spec_ok a" "csp_latest a d = Some (c, g)"
  shows "cred_deviceId c = d" "cred_credentialId c \<in> csp_used a" "is_sha256_hex g"
    "device_credential_schema c = Some c" "0 < cred_version c"
proof -
  from assms show *: "cred_deviceId c = d" "cred_credentialId c \<in> csp_used a" "is_sha256_hex g"
    "device_credential_schema c = Some c"
    unfolding spec_ok_def by blast+
  from credential_schema_parts(3) [OF *(4)] show "0 < cred_version c" .
qed

lemma spec_active_Some:
  "spec_active a d = Some (c, g) \<longleftrightarrow> csp_latest a d = Some (c, g) \<and> cred_state c = Active"
  by (auto simp: spec_active_def split: option.splits)

lemma expected_generation_Some:
  "expected_generation a d ci v = Some (c, g) \<longleftrightarrow>
     csp_latest a d = Some (c, g) \<and> cred_state c = Active \<and> cred_credentialId c = ci \<and> cred_version c = v"
  by (auto simp: expected_generation_def spec_active_def split: option.splits if_splits prod.splits)

lemma active_credential_sel [simp]:
  "cred_credentialId (active_credential d ci v t) = ci" "cred_version (active_credential d ci v t) = v"
  "cred_deviceId (active_credential d ci v t) = d" "cred_state (active_credential d ci v t) = Active"
  "cred_createdAt (active_credential d ci v t) = t" "cred_revokedAt (active_credential d ci v t) = None"
  by (simp_all add: active_credential_def)

lemma active_credential_schema:
  "device_id_schema d = Some d \<Longrightarrow> device_credential_id_schema ci = Some ci \<Longrightarrow>
   device_credential_schema (active_credential d ci v t) =
     (if 0 < v \<and> v \<le> max_safe_integer then Some (active_credential d ci v t) else None)"
  by (auto simp: device_credential_schema_def device_credential_refined_def active_credential_def)

text \<open>What a successful operation of the specification did.\<close>

lemma spec_issue_Inr:
  "spec_issue a dIn ciIn gIn tIn = (b, Inr c) \<longleftrightarrow>
     (\<exists>d ci t. device_id_schema dIn = Some d \<and> device_credential_id_schema ciIn = Some ci \<and>
        is_sha256_hex gIn \<and> tIn = Some t \<and> spec_active a d = None \<and> ci \<notin> csp_used a \<and>
        c = active_credential d ci
              ((case csp_latest a d of None \<Rightarrow> 0 | Some (c, _) \<Rightarrow> cred_version c) + 1) t \<and>
        cred_version c \<le> max_safe_integer \<and> b = spec_install a c gIn)"
  unfolding spec_issue_def Let_def cred_parse_device_id_def cred_parse_credential_id_def cred_read_time_def
  by (auto split: try_splits)

lemma spec_issue_Inl: "spec_issue a dIn ciIn gIn tIn = (b, Inl e) \<Longrightarrow> b = a"
  unfolding spec_issue_def Let_def by (auto split: try_splits)

lemma spec_revoke_Some:
  "spec_revoke a dIn eciIn evIn tIn = (b, Inr (Some c')) \<longleftrightarrow>
     (\<exists>d ci v t c g. device_id_schema dIn = Some d \<and> device_credential_id_schema eciIn = Some ci \<and>
        cred_parse_version evIn = Inr v \<and> tIn = Some t \<and> expected_generation a d ci v = Some (c, g) \<and>
        cred_createdAt c \<le> t \<and> c' = c\<lparr>cred_state := Revoked, cred_revokedAt := Some t\<rparr> \<and>
        b = a\<lparr>csp_latest := (csp_latest a)(d \<mapsto> (c', g))\<rparr>)"
  unfolding spec_revoke_def Let_def cred_parse_device_id_def cred_parse_credential_id_def cred_read_time_def
  by (auto split: try_splits option.splits if_splits)

lemma spec_revoke_other:
  "spec_revoke a dIn eciIn evIn tIn = (b, out) \<Longrightarrow> (\<forall>c. out \<noteq> Inr (Some c)) \<Longrightarrow> b = a"
  unfolding spec_revoke_def Let_def by (auto split: try_splits option.splits if_splits)

lemma spec_rotate_Inr:
  "spec_rotate a dIn eciIn evIn ciIn gIn tIn = (b, Inr c') \<longleftrightarrow>
     (\<exists>d eci v ci t c g. device_id_schema dIn = Some d \<and> device_credential_id_schema eciIn = Some eci \<and>
        cred_parse_version evIn = Inr v \<and> device_credential_id_schema ciIn = Some ci \<and>
        is_sha256_hex gIn \<and> tIn = Some t \<and> expected_generation a d eci v = Some (c, g) \<and>
        ci \<notin> csp_used a \<and> cred_createdAt c \<le> t \<and>
        c' = active_credential d ci (cred_version c + 1) t \<and> cred_version c' \<le> max_safe_integer \<and>
        b = spec_install a c' gIn)"
  unfolding spec_rotate_def Let_def cred_parse_device_id_def cred_parse_credential_id_def cred_read_time_def
  by (auto split: try_splits option.splits)

lemma spec_rotate_Inl: "spec_rotate a dIn eciIn evIn ciIn gIn tIn = (b, Inl e) \<Longrightarrow> b = a"
  unfolding spec_rotate_def Let_def by (auto split: try_splits option.splits)

lemma spec_ok_install:
  assumes "spec_ok a" "device_credential_schema c = Some c" "is_sha256_hex g"
  shows "spec_ok (spec_install a c g)"
  using assms by (auto simp: spec_ok_def spec_install_def)

lemma spec_extends_refl: "spec_extends a a"
  by (auto simp: spec_extends_def generation_below_def same_generation_def)

lemma generation_below_trans:
  "generation_below x y \<Longrightarrow> generation_below y z \<Longrightarrow> generation_below x z"
  by (auto simp: generation_below_def same_generation_def)

lemma spec_extends_trans:
  assumes "spec_extends a b" "spec_extends b c"
  shows "spec_extends a c"
proof -
  have "\<exists>z. csp_latest c d = Some z \<and> generation_below x z" if "csp_latest a d = Some x" for d x
    using assms that unfolding spec_extends_def by (meson generation_below_trans)
  moreover have "cred_credentialId (fst z) \<notin> csp_used a \<or>
      (\<exists>x. csp_latest a d = Some x \<and> same_generation x z)" if z: "csp_latest c d = Some z" for d z
  proof -
    from assms(2) z consider "cred_credentialId (fst z) \<notin> csp_used b"
      | y where "csp_latest b d = Some y" "same_generation y z"
      unfolding spec_extends_def by blast
    then show ?thesis
    proof cases
      case 1
      with assms(1) show ?thesis by (auto simp: spec_extends_def)
    next
      case (2 y)
      with assms(1) consider "cred_credentialId (fst y) \<notin> csp_used a"
        | x where "csp_latest a d = Some x" "same_generation x y"
        unfolding spec_extends_def by blast
      then show ?thesis
      proof cases
        case 1
        with 2 show ?thesis by (simp add: same_generation_def)
      next
        case (2 x)
        with \<open>same_generation y z\<close> have "same_generation x z" by (auto simp: same_generation_def)
        with 2 show ?thesis by blast
      qed
    qed
  qed
  moreover have "csp_used a \<subseteq> csp_used c"
    using assms by (auto simp: spec_extends_def)
  ultimately show ?thesis by (auto simp: spec_extends_def)
qed

lemma spec_extends_latest:
  assumes "spec_extends a b" "csp_latest a d = Some x"
  shows "\<exists>y. csp_latest b d = Some y \<and> generation_below x y \<and>
    (cred_credentialId (fst y) \<notin> csp_used a \<or> same_generation x y)"
proof -
  from assms obtain y where y: "csp_latest b d = Some y" "generation_below x y"
    unfolding spec_extends_def by blast
  with assms have "cred_credentialId (fst y) \<notin> csp_used a \<or> same_generation x y"
    unfolding spec_extends_def by (metis option.inject)
  with y show ?thesis by blast
qed

lemma spec_extends_install:
  assumes "cred_credentialId c \<notin> csp_used a"
    and "\<And>x. csp_latest a (cred_deviceId c) = Some x \<Longrightarrow> cred_version (fst x) < cred_version c"
  shows "spec_extends a (spec_install a c g)"
  using assms
  by (auto simp: spec_extends_def spec_install_def generation_below_def same_generation_def)

lemma active_least [simp]: "Active \<le> s"
  by (cases s) (simp_all add: less_eq_credential_state_def)

text \<open>Each operation of the specification keeps the invariant and goes up in the order.\<close>

lemma spec_issue_step:
  assumes "spec_ok a" "spec_issue a dIn ciIn gIn tIn = (b, out)"
  shows "spec_ok b \<and> spec_extends a b"
proof (cases out)
  case (Inl e)
  with assms show ?thesis by (auto dest: spec_issue_Inl simp: spec_extends_refl)
next
  case (Inr c)
  with assms(2) obtain d ci t where *:
    "device_id_schema dIn = Some d" "device_credential_id_schema ciIn = Some ci" "is_sha256_hex gIn"
    "spec_active a d = None" "ci \<notin> csp_used a" "cred_version c \<le> max_safe_integer"
    "b = spec_install a c gIn"
    and c: "c = active_credential d ci ((case csp_latest a d of None \<Rightarrow> 0 | Some (c, _) \<Rightarrow> cred_version c) + 1) t"
    unfolding Inr spec_issue_Inr by blast
  have "0 < cred_version c"
    using spec_ok_latest(5) [OF assms(1), of d]
    by (auto simp: c active_credential_def split: option.splits intro: add_pos_pos)
  with * c have "device_credential_schema c = Some c"
    by (simp add: active_credential_schema device_id_canonical device_credential_id_canonical)
  with * assms(1) have "spec_ok b" by (simp add: spec_ok_install)
  moreover have "spec_extends a b" unfolding \<open>b = _\<close>
    using * by (intro spec_extends_install) (auto simp: c)
  ultimately show ?thesis by simp
qed

lemma spec_revoke_step:
  assumes "spec_ok a" "spec_revoke a dIn eciIn evIn tIn = (b, out)"
  shows "spec_ok b \<and> spec_extends a b"
proof (cases "\<exists>c'. out = Inr (Some c')")
  case False
  with assms show ?thesis by (auto dest: spec_revoke_other simp: spec_extends_refl)
next
  case True
  with assms(2) obtain d ci v t c g c' where *:
    "expected_generation a d ci v = Some (c, g)" "cred_createdAt c \<le> t"
    "c' = c\<lparr>cred_state := Revoked, cred_revokedAt := Some t\<rparr>"
    "b = a\<lparr>csp_latest := (csp_latest a)(d \<mapsto> (c', g))\<rparr>"
    by (auto simp: spec_revoke_Some)
  then have l: "csp_latest a d = Some (c, g)" "cred_state c = Active"
    by (auto simp: expected_generation_Some)
  with assms(1) have c: "cred_deviceId c = d" "cred_credentialId c \<in> csp_used a" "is_sha256_hex g"
    "device_credential_schema c = Some c"
    by (auto simp: spec_ok_def)
  then have "device_credential_schema c' = Some c'"
    using * by (simp add: credential_schema_self device_credential_refined_def)
  with * c assms(1) have "spec_ok b" by (auto simp: spec_ok_def)
  moreover have "spec_extends a b"
    using * l by (auto simp: spec_extends_def generation_below_def same_generation_def)
  ultimately show ?thesis by simp
qed

lemma spec_rotate_step:
  assumes "spec_ok a" "spec_rotate a dIn eciIn evIn ciIn gIn tIn = (b, out)"
  shows "spec_ok b \<and> spec_extends a b"
proof (cases out)
  case (Inl e)
  with assms show ?thesis by (auto dest: spec_rotate_Inl simp: spec_extends_refl)
next
  case (Inr c')
  with assms(2) obtain d eci v ci t c g where *:
    "device_id_schema dIn = Some d" "device_credential_id_schema ciIn = Some ci" "is_sha256_hex gIn"
    "expected_generation a d eci v = Some (c, g)" "ci \<notin> csp_used a"
    "c' = active_credential d ci (cred_version c + 1) t" "cred_version c' \<le> max_safe_integer"
    "b = spec_install a c' gIn"
    unfolding Inr spec_rotate_Inr by blast
  then have l: "csp_latest a d = Some (c, g)" by (auto simp: expected_generation_Some)
  note pos = spec_ok_latest(5) [OF assms(1) l]
  with * pos have "device_credential_schema c' = Some c'"
    by (simp add: active_credential_schema device_id_canonical device_credential_id_canonical)
  with * assms(1) have "spec_ok b" by (simp add: spec_ok_install)
  moreover have "spec_extends a b" unfolding \<open>b = _\<close>
    using * l by (intro spec_extends_install) auto
  ultimately show ?thesis by simp
qed

section \<open>The contract of the interface\<close>

text \<open>
  An operation of an implementation is sound when it has the result and the effect of the
  specification, or fails and changes nothing the specification sees.
\<close>

definition sound_outcome :: "'a \<Rightarrow> ('a, 'e, 'r) outcome \<Rightarrow> 'a \<Rightarrow> ('e, 'r) result \<Rightarrow> bool" where
  "sound_outcome a spec b out \<longleftrightarrow> spec = (b, out) \<or> (b = a \<and> (\<exists>e. out = Inl e))"

lemma sound_outcome_Inr: "sound_outcome a spec b (Inr r) \<Longrightarrow> spec = (b, Inr r)"
  by (simp add: sound_outcome_def)

datatype credential_command =
  IssueCredential string string string js_date
| RevokeCredential string string js_number js_date
| RotateCredential string string js_number string string js_date

fun credential_step :: "'s credential_repository \<Rightarrow> 's \<Rightarrow> credential_command \<Rightarrow> 's" where
  "credential_step R s (IssueCredential d ci g t) = fst (cri_issue R s d ci g t)"
| "credential_step R s (RevokeCredential d ci v t) = fst (cri_revoke R s d ci v t)"
| "credential_step R s (RotateCredential d eci ev ci g t) = fst (cri_rotate R s d eci ev ci g t)"

locale credential_store =
  fixes R :: "'s credential_repository"
    and abs :: "'s \<Rightarrow> credential_spec"
    and ok :: "'s \<Rightarrow> bool"
  assumes ok_spec: "ok s \<Longrightarrow> spec_ok (abs s)"
    and get_active: "ok s \<Longrightarrow> cri_getActive R s d = spec_getActive (abs s) d"
    and verify: "ok s \<Longrightarrow> cri_verify R s d g = spec_verify (abs s) d g"
    and issue: "ok s \<Longrightarrow> cri_issue R s d ci g t = (s', issued) \<Longrightarrow>
      ok s' \<and> sound_outcome (abs s) (spec_issue (abs s) d ci g t) (abs s') issued"
    and revoke: "ok s \<Longrightarrow> cri_revoke R s d ci v t = (s', revoked) \<Longrightarrow>
      ok s' \<and> sound_outcome (abs s) (spec_revoke (abs s) d ci v t) (abs s') revoked"
    and rotate: "ok s \<Longrightarrow> cri_rotate R s d eci ev ci g t = (s', rotated) \<Longrightarrow>
      ok s' \<and> sound_outcome (abs s) (spec_rotate (abs s) d eci ev ci g t) (abs s') rotated"
begin

lemma step_good_and_below:
  assumes "ok s"
  shows "ok (credential_step R s c) \<and> spec_extends (abs s) (abs (credential_step R s c))"
proof (cases c)
  case (IssueCredential d ci g t)
  obtain s' out where r: "cri_issue R s d ci g t = (s', out)" by fastforce
  with issue [OF assms r] IssueCredential show ?thesis
    using spec_issue_step [OF ok_spec [OF assms]] by (auto simp: sound_outcome_def spec_extends_refl)
next
  case (RevokeCredential d ci v t)
  obtain s' out where r: "cri_revoke R s d ci v t = (s', out)" by fastforce
  with revoke [OF assms r] RevokeCredential show ?thesis
    using spec_revoke_step [OF ok_spec [OF assms]] by (auto simp: sound_outcome_def spec_extends_refl)
next
  case (RotateCredential d eci ev ci g t)
  obtain s' out where r: "cri_rotate R s d eci ev ci g t = (s', out)" by fastforce
  with rotate [OF assms r] RotateCredential show ?thesis
    using spec_rotate_step [OF ok_spec [OF assms]] by (auto simp: sound_outcome_def spec_extends_refl)
qed

end

sublocale credential_store \<subseteq> ordered_steps "credential_step R" ok "\<lambda>s t. spec_extends (abs s) (abs t)"
  by unfold_locales (auto simp: step_good_and_below spec_extends_refl intro: spec_extends_trans)

context credential_store
begin

text \<open>A revoked device authenticates with no secret until a new credential is issued.\<close>

lemma revoked_cannot_verify:
  assumes "ok s" "cri_revoke R s d ci v t = (s', Inr (Some c))"
  shows "cri_getActive R s' d = Inr None"
    and "is_sha256_hex g \<Longrightarrow> cri_verify R s' d g = Inr None"
    and "cred_state c = Revoked"
proof -
  from revoke [OF assms] have ok': "ok s'"
    and sp: "spec_revoke (abs s) d ci v t = (abs s', Inr (Some c))"
    by (auto dest: sound_outcome_Inr)
  then obtain d' where "device_id_schema d = Some d'" "spec_active (abs s') d' = None" "cred_state c = Revoked"
    by (fastforce simp: spec_revoke_Some spec_active_def)
  then show "cri_getActive R s' d = Inr None" "cred_state c = Revoked"
    "is_sha256_hex g \<Longrightarrow> cri_verify R s' d g = Inr None"
    using ok' by (simp_all add: get_active verify spec_getActive_def spec_verify_def cred_parse_device_id_def)
qed

text \<open>After a rotation exactly the new secret authenticates.\<close>

lemma rotated_verifies_new_only:
  assumes "ok s" "cri_rotate R s d eci ev ci g t = (s', Inr c)"
  shows "cri_getActive R s' d = Inr (Some c)"
    and "is_sha256_hex h \<Longrightarrow> cri_verify R s' d h = Inr (if h = g then Some c else None)"
    and "spec_extends (abs s) (abs s') \<and> cred_credentialId c \<notin> csp_used (abs s)"
proof -
  from rotate [OF assms] have ok': "ok s'"
    and sp: "spec_rotate (abs s) d eci ev ci g t = (abs s', Inr c)"
    by (auto dest: sound_outcome_Inr)
  then obtain d' where "device_id_schema d = Some d'" "spec_active (abs s') d' = Some (c, g)"
    "cred_credentialId c \<notin> csp_used (abs s)"
    by (fastforce simp: spec_rotate_Inr spec_active_def spec_install_def)
  then show "cri_getActive R s' d = Inr (Some c)"
    "is_sha256_hex h \<Longrightarrow> cri_verify R s' d h = Inr (if h = g then Some c else None)"
    "spec_extends (abs s) (abs s') \<and> cred_credentialId c \<notin> csp_used (abs s)"
    using ok' spec_rotate_step [OF ok_spec [OF assms(1)] sp]
    by (simp_all add: get_active verify spec_getActive_def spec_verify_def cred_parse_device_id_def)
qed

text \<open>
  Compare and swap: a mutation that names a generation which is not the active one changes
  nothing, so of two racing mutations of one generation only the first takes effect.
\<close>

lemma stale_revoke:
  assumes "ok s" "device_id_schema d = Some d'" "device_credential_id_schema ci = Some ci'" "0 < v"
    and "expected_generation (abs s) d' ci' v = None"
    and "cri_revoke R s d ci (js_int v) t = (s', out)"
  shows "abs s' = abs s \<and> (\<forall>c. out \<noteq> Inr (Some c))"
  using revoke [OF assms(1,6)] assms(2-5)
  by (auto simp: sound_outcome_def spec_revoke_def cred_parse_device_id_def cred_parse_credential_id_def
      split: try_splits)

lemma stale_rotate:
  assumes "ok s" "device_id_schema d = Some d'" "device_credential_id_schema eci = Some eci'" "0 < ev"
    and "expected_generation (abs s) d' eci' ev = None"
    and "cri_rotate R s d eci (js_int ev) ci g t = (s', out)"
  shows "abs s' = abs s \<and> (\<exists>e. out = Inl e)"
  using rotate [OF assms(1,6)] assms(2-5)
  by (auto simp: sound_outcome_def spec_rotate_def cred_parse_device_id_def cred_parse_credential_id_def
      split: try_splits)

end

end
