(* ===== verification/Device_Credential.thy ===== *)
theory Device_Credential
  imports Credential_Store
begin

text \<open>
  \<^verbatim>\<open>apps/server/src/device-credential.ts\<close>, the in-memory repository, with its invariant and
  the proof that it implements the contract of \<open>Credential_Store\<close>. Every mutation runs inside
  the promise-chain lock of the class, so an operation is one step.
\<close>

section \<open>The in-memory repository\<close>

record stored_credential =
  sc_credentialId :: string
  sc_deviceId :: string
  sc_version :: int
  sc_secretDigest :: string
  sc_createdAtMs :: int
  sc_state :: credential_state
  sc_revokedAtMs :: "int option"

record memory_credentials =
  mc_byDeviceId :: "(string, stored_credential) js_map"
  mc_usedCredentialIds :: "string js_set"

definition empty_credentials :: memory_credentials where
  "empty_credentials = \<lparr>mc_byDeviceId = [], mc_usedCredentialIds = []\<rparr>"

definition credential_of_record :: "stored_credential \<Rightarrow> device_credential" where
  "credential_of_record r =
     \<lparr>cred_credentialId = sc_credentialId r, cred_version = sc_version r,
      cred_deviceId = sc_deviceId r, cred_state = sc_state r,
      cred_createdAt = sc_createdAtMs r, cred_revokedAt = sc_revokedAtMs r\<rparr>"

definition credential_snapshot :: "stored_credential \<Rightarrow> (credential_error, device_credential) result" where
  "credential_snapshot r =
     require InvalidCredentialInput (device_credential_schema (credential_of_record r))"

definition require_unused_credential_id ::
  "memory_credentials \<Rightarrow> string \<Rightarrow> (credential_error, unit) result" where
  "require_unused_credential_id s credentialId =
     ensure CredentialIdConflict (credentialId \<notin> set (mc_usedCredentialIds s))"

definition store_credential :: "memory_credentials \<Rightarrow> string \<Rightarrow> stored_credential \<Rightarrow> memory_credentials" where
  "store_credential s d r =
     s\<lparr>mc_byDeviceId := js_set d r (mc_byDeviceId s),
       mc_usedCredentialIds := js_add (sc_credentialId r) (mc_usedCredentialIds s)\<rparr>"

definition mem_credential_issue ::
  "memory_credentials \<Rightarrow> string \<Rightarrow> string \<Rightarrow> string \<Rightarrow> js_date
     \<Rightarrow> (memory_credentials, credential_error, device_credential) outcome" where
  "mem_credential_issue s deviceIdIn credentialIdIn secretDigestIn createdAt =
     try_with s (cred_parse_device_id deviceIdIn) (\<lambda>deviceId.
     try_with s (cred_parse_credential_id credentialIdIn) (\<lambda>credentialId.
     try_with s (cred_parse_digest secretDigestIn) (\<lambda>secretDigest.
     try_with s (cred_read_time createdAt) (\<lambda>createdAtMs.
       let existing = js_get (mc_byDeviceId s) deviceId in
       if map_option sc_state existing = Some Active then (s, Inl CredentialAlreadyExists)
       else
         try_with s (require_unused_credential_id s credentialId) (\<lambda>_.
           let r = \<lparr>sc_credentialId = credentialId, sc_deviceId = deviceId,
                    sc_version = (case existing of None \<Rightarrow> 0 | Some e \<Rightarrow> sc_version e) + 1,
                    sc_secretDigest = secretDigest, sc_createdAtMs = createdAtMs,
                    sc_state = Active, sc_revokedAtMs = None\<rparr>
           in try_with s (credential_snapshot r) (\<lambda>result.
                (store_credential s deviceId r, Inr result)))))))"

definition mem_credential_getActive ::
  "memory_credentials \<Rightarrow> string \<Rightarrow> (credential_error, device_credential option) result" where
  "mem_credential_getActive s deviceId =
     bind_result (cred_parse_device_id deviceId) (\<lambda>d.
       case js_get (mc_byDeviceId s) d of
         None \<Rightarrow> Inr None
       | Some r \<Rightarrow>
           if sc_state r = Active then bind_result (credential_snapshot r) (\<lambda>c. Inr (Some c))
           else Inr None)"

definition mem_credential_verify ::
  "memory_credentials \<Rightarrow> string \<Rightarrow> string \<Rightarrow> (credential_error, device_credential option) result" where
  "mem_credential_verify s deviceId secretDigest =
     bind_result (cred_parse_device_id deviceId) (\<lambda>d.
     bind_result (cred_parse_digest secretDigest) (\<lambda>g.
       case js_get (mc_byDeviceId s) d of
         None \<Rightarrow> Inr None
       | Some r \<Rightarrow>
           if sc_state r \<noteq> Active \<or> \<not> constant_time_equal_hex (sc_secretDigest r) g then Inr None
           else bind_result (credential_snapshot r) (\<lambda>c. Inr (Some c))))"

definition mem_credential_revoke ::
  "memory_credentials \<Rightarrow> string \<Rightarrow> string \<Rightarrow> js_number \<Rightarrow> js_date
     \<Rightarrow> (memory_credentials, credential_error, device_credential option) outcome" where
  "mem_credential_revoke s deviceIdIn expectedCredentialIdIn expectedVersionIn revokedAt =
     try_with s (cred_parse_device_id deviceIdIn) (\<lambda>deviceId.
     try_with s (cred_parse_credential_id expectedCredentialIdIn) (\<lambda>expectedCredentialId.
     try_with s (cred_parse_version expectedVersionIn) (\<lambda>expectedVersion.
     try_with s (cred_read_time revokedAt) (\<lambda>revokedAtMs.
       case js_get (mc_byDeviceId s) deviceId of
         None \<Rightarrow> (s, Inr None)
       | Some r \<Rightarrow>
           if sc_state r \<noteq> Active \<or> sc_credentialId r \<noteq> expectedCredentialId
              \<or> sc_version r \<noteq> expectedVersion then (s, Inr None)
           else if revokedAtMs < sc_createdAtMs r then (s, Inl CredentialInvalidClock)
           else
             let r' = r\<lparr>sc_state := Revoked, sc_revokedAtMs := Some revokedAtMs\<rparr>;
                 s' = s\<lparr>mc_byDeviceId := js_set deviceId r' (mc_byDeviceId s)\<rparr>
             in try_with s' (credential_snapshot r') (\<lambda>c. (s', Inr (Some c)))))))"

definition mem_credential_rotate ::
  "memory_credentials \<Rightarrow> string \<Rightarrow> string \<Rightarrow> js_number \<Rightarrow> string \<Rightarrow> string \<Rightarrow> js_date
     \<Rightarrow> (memory_credentials, credential_error, device_credential) outcome" where
  "mem_credential_rotate s deviceIdIn expectedCredentialIdIn expectedVersionIn credentialIdIn
       secretDigestIn rotatedAt =
     try_with s (cred_parse_device_id deviceIdIn) (\<lambda>deviceId.
     try_with s (cred_parse_credential_id expectedCredentialIdIn) (\<lambda>expectedCredentialId.
     try_with s (cred_parse_version expectedVersionIn) (\<lambda>expectedVersion.
     try_with s (cred_parse_credential_id credentialIdIn) (\<lambda>credentialId.
     try_with s (cred_parse_digest secretDigestIn) (\<lambda>secretDigest.
     try_with s (cred_read_time rotatedAt) (\<lambda>rotatedAtMs.
       case js_get (mc_byDeviceId s) deviceId of
         None \<Rightarrow> (s, Inl CredentialUnavailable)
       | Some r \<Rightarrow>
           if sc_state r \<noteq> Active \<or> sc_credentialId r \<noteq> expectedCredentialId
              \<or> sc_version r \<noteq> expectedVersion then (s, Inl CredentialUnavailable)
           else
             try_with s (require_unused_credential_id s credentialId) (\<lambda>_.
             try_with s (ensure CredentialInvalidClock (\<not> rotatedAtMs < sc_createdAtMs r)) (\<lambda>_.
               let next = \<lparr>sc_credentialId = credentialId, sc_deviceId = deviceId,
                           sc_version = sc_version r + 1, sc_secretDigest = secretDigest,
                           sc_createdAtMs = rotatedAtMs, sc_state = Active, sc_revokedAtMs = None\<rparr>
               in try_with s (credential_snapshot next) (\<lambda>result.
                    (store_credential s deviceId next, Inr result))))))))))"

definition memory_credential_repository :: "memory_credentials credential_repository" where
  "memory_credential_repository =
     \<lparr>cri_issue = mem_credential_issue, cri_getActive = mem_credential_getActive,
      cri_verify = mem_credential_verify, cri_revoke = mem_credential_revoke,
      cri_rotate = mem_credential_rotate\<rparr>"

section \<open>Invariant of the in-memory repository\<close>

definition stored_credential_ok :: "string \<Rightarrow> string set \<Rightarrow> stored_credential \<Rightarrow> bool" where
  "stored_credential_ok d used r =
     (sc_deviceId r = d \<and> sc_credentialId r \<in> used \<and> is_sha256_hex (sc_secretDigest r) \<and>
      device_credential_schema (credential_of_record r) = Some (credential_of_record r))"

definition memory_credentials_ok :: "memory_credentials \<Rightarrow> bool" where
  "memory_credentials_ok s =
     (js_map_ok (mc_byDeviceId s) \<and> distinct (mc_usedCredentialIds s) \<and>
      (\<forall>d r. js_get (mc_byDeviceId s) d = Some r \<longrightarrow>
         stored_credential_ok d (set (mc_usedCredentialIds s)) r))"

lemma empty_credentials_ok: "memory_credentials_ok empty_credentials"
  by (simp add: memory_credentials_ok_def empty_credentials_def)

lemma stored_credential_snapshot:
  "stored_credential_ok d used r \<Longrightarrow> credential_snapshot r = Inr (credential_of_record r)"
  by (simp add: stored_credential_ok_def credential_snapshot_def)

section \<open>Refinement of the specification\<close>

definition mem_cred_abs :: "memory_credentials \<Rightarrow> credential_spec" where
  "mem_cred_abs s =
     \<lparr>csp_latest = (\<lambda>d. map_option (\<lambda>r. (credential_of_record r, sc_secretDigest r)) (js_get (mc_byDeviceId s) d)),
      csp_used = set (mc_usedCredentialIds s)\<rparr>"

lemma credential_of_record_sel [simp]:
  "cred_credentialId (credential_of_record r) = sc_credentialId r"
  "cred_version (credential_of_record r) = sc_version r"
  "cred_deviceId (credential_of_record r) = sc_deviceId r"
  "cred_state (credential_of_record r) = sc_state r"
  "cred_createdAt (credential_of_record r) = sc_createdAtMs r"
  "cred_revokedAt (credential_of_record r) = sc_revokedAtMs r"
  by (simp_all add: credential_of_record_def)

lemma mem_cred_abs_latest [simp]:
  "csp_latest (mem_cred_abs s) d =
     map_option (\<lambda>r. (credential_of_record r, sc_secretDigest r)) (js_get (mc_byDeviceId s) d)"
  "csp_used (mem_cred_abs s) = set (mc_usedCredentialIds s)"
  by (simp_all add: mem_cred_abs_def)

lemma mem_cred_abs_store:
  "sc_deviceId r = d \<Longrightarrow>
   mem_cred_abs (store_credential s d r) =
     spec_install (mem_cred_abs s) (credential_of_record r) (sc_secretDigest r)"
  by (auto simp: mem_cred_abs_def store_credential_def spec_install_def)

lemma memory_credentials_ok_get:
  "memory_credentials_ok s \<Longrightarrow> js_get (mc_byDeviceId s) d = Some r \<Longrightarrow>
   stored_credential_ok d (set (mc_usedCredentialIds s)) r"
  by (simp add: memory_credentials_ok_def)

lemma stored_credential_ok_mono:
  "stored_credential_ok d used r \<Longrightarrow> used \<subseteq> used' \<Longrightarrow> stored_credential_ok d used' r"
  by (auto simp: stored_credential_ok_def)

lemma memory_credentials_ok_store [inv_intros]:
  assumes "memory_credentials_ok s" "sc_deviceId r = d" "is_sha256_hex (sc_secretDigest r)"
    and "credential_snapshot r = Inr (credential_of_record r)"
  shows "memory_credentials_ok (store_credential s d r)"
proof -
  have "stored_credential_ok d (set (mc_usedCredentialIds (store_credential s d r))) r"
    using assms(2-4) by (simp add: stored_credential_ok_def credential_snapshot_def store_credential_def)
  moreover have "stored_credential_ok k (set (mc_usedCredentialIds (store_credential s d r))) q"
    if "js_get (mc_byDeviceId s) k = Some q" for k q
    by (rule stored_credential_ok_mono [OF memory_credentials_ok_get [OF assms(1) that]])
      (auto simp: store_credential_def)
  ultimately show ?thesis
    using assms(1) by (auto simp: memory_credentials_ok_def store_credential_def)
qed

lemma memory_credentials_ok_replace:
  assumes "memory_credentials_ok s" "stored_credential_ok d (set (mc_usedCredentialIds s)) r"
  shows "memory_credentials_ok (s\<lparr>mc_byDeviceId := js_set d r (mc_byDeviceId s)\<rparr>)"
  using assms by (auto simp: memory_credentials_ok_def)

lemma snapshot_of_parsed:
  assumes "device_id_schema (sc_deviceId r) = Some (sc_deviceId r)"
    and "device_credential_id_schema (sc_credentialId r) = Some (sc_credentialId r)"
    and "sc_state r = Active" "sc_revokedAtMs r = None" "0 < sc_version r"
  shows "credential_snapshot r =
    (if sc_version r \<le> max_safe_integer then Inr (credential_of_record r) else Inl InvalidCredentialInput)"
proof -
  have "device_credential_refined (credential_of_record r)"
    using assms by (simp add: device_credential_refined_def)
  then show ?thesis
    using assms by (simp add: credential_snapshot_def device_credential_schema_def)
qed

lemma mem_spec_ok: "memory_credentials_ok s \<Longrightarrow> spec_ok (mem_cred_abs s)"
  by (auto simp: spec_ok_def dest!: memory_credentials_ok_get simp: stored_credential_ok_def)

lemma mem_spec_active:
  "spec_active (mem_cred_abs s) d =
     (case js_get (mc_byDeviceId s) d of
        None \<Rightarrow> None
      | Some r \<Rightarrow> if sc_state r = Active then Some (credential_of_record r, sc_secretDigest r) else None)"
  by (simp add: spec_active_def split: option.splits)

lemma mem_expected_generation:
  "expected_generation (mem_cred_abs s) d ci v =
     (case js_get (mc_byDeviceId s) d of
        None \<Rightarrow> None
      | Some r \<Rightarrow> if sc_state r \<noteq> Active \<or> sc_credentialId r \<noteq> ci \<or> sc_version r \<noteq> v then None
                   else Some (credential_of_record r, sc_secretDigest r))"
  by (simp add: expected_generation_def mem_spec_active split: option.splits)

text \<open>Each operation has exactly the result and the effect of the specification.\<close>

lemma cred_parse_canonical:
  "cred_parse_device_id x = Inr d \<Longrightarrow> device_id_schema d = Some d"
  "cred_parse_credential_id y = Inr ci \<Longrightarrow> device_credential_id_schema ci = Some ci"
  "cred_parse_digest z = Inr g \<Longrightarrow> is_sha256_hex g"
  by (auto simp: cred_parse_device_id_def cred_parse_credential_id_def
      dest: device_id_canonical device_credential_id_canonical)

lemma new_generation_refines:
  assumes ok: "memory_credentials_ok s"
    and r: "r = \<lparr>sc_credentialId = ci, sc_deviceId = d, sc_version = v, sc_secretDigest = g,
        sc_createdAtMs = t, sc_state = Active, sc_revokedAtMs = None\<rparr>"
    and c: "c = active_credential d ci v t"
    and v: "v' = v"
    and parsed: "device_id_schema d = Some d" "device_credential_id_schema ci = Some ci"
      "is_sha256_hex g" "0 < v"
  shows "refines mem_cred_abs memory_credentials_ok
      (try_with s (credential_snapshot r) (\<lambda>result. (store_credential s d r, Inr result)))
      (try_with (mem_cred_abs s) (ensure InvalidCredentialInput (v' \<le> max_safe_integer))
        (\<lambda>_. (spec_install (mem_cred_abs s) c g, Inr c)))"
proof -
  have rsel: "sc_credentialId r = ci" "sc_deviceId r = d" "sc_version r = v" "sc_state r = Active"
    "sc_revokedAtMs r = None"
    by (simp_all add: r)
  have c': "credential_of_record r = c"
    by (simp add: r c active_credential_def credential_of_record_def)
  have snap: "credential_snapshot r = (if v \<le> max_safe_integer then Inr c else Inl InvalidCredentialInput)"
    using parsed rsel by (subst snapshot_of_parsed) (simp_all add: c')
  have "memory_credentials_ok (store_credential s d r)" if "v \<le> max_safe_integer"
    using parsed that by (intro memory_credentials_ok_store [OF ok]) (simp_all add: snap c', simp_all add: r)
  moreover have "mem_cred_abs (store_credential s d r) = spec_install (mem_cred_abs s) c g"
    by (subst mem_cred_abs_store) (simp_all add: c', simp_all add: r)
  ultimately show ?thesis
    using ok by (simp add: snap v)
qed

lemma stored_version_pos:
  assumes "memory_credentials_ok s" "js_get (mc_byDeviceId s) d = Some r"
  shows "0 < sc_version r"
  using memory_credentials_ok_get [OF assms] credential_schema_parts(3)
  by (fastforce simp: stored_credential_ok_def)

lemma mem_issue_refines:
  assumes ok: "memory_credentials_ok s"
  shows "refines mem_cred_abs memory_credentials_ok (mem_credential_issue s dIn ciIn gIn tIn)
    (spec_issue (mem_cred_abs s) dIn ciIn gIn tIn)"
  unfolding mem_credential_issue_def spec_issue_def
proof (intro refines_try_with ok refl)
  fix d ci g t
  assume p: "cred_parse_device_id dIn = Inr d" "cred_parse_credential_id ciIn = Inr ci"
    "cred_parse_digest gIn = Inr g"
  show "refines mem_cred_abs memory_credentials_ok
    (let existing = js_get (mc_byDeviceId s) d in
       if map_option sc_state existing = Some Active then (s, Inl CredentialAlreadyExists)
       else
         try_with s (require_unused_credential_id s ci) (\<lambda>_.
           let r = \<lparr>sc_credentialId = ci, sc_deviceId = d,
                    sc_version = (case existing of None \<Rightarrow> 0 | Some e \<Rightarrow> sc_version e) + 1,
                    sc_secretDigest = g, sc_createdAtMs = t,
                    sc_state = Active, sc_revokedAtMs = None\<rparr>
           in try_with s (credential_snapshot r) (\<lambda>result. (store_credential s d r, Inr result))))
    (try_with (mem_cred_abs s) (ensure CredentialAlreadyExists (spec_active (mem_cred_abs s) d = None)) (\<lambda>_.
       try_with (mem_cred_abs s) (ensure CredentialIdConflict (ci \<notin> csp_used (mem_cred_abs s))) (\<lambda>_.
       let v = (case csp_latest (mem_cred_abs s) d of None \<Rightarrow> 0 | Some (c, _) \<Rightarrow> cred_version c) + 1;
           c = active_credential d ci v t
       in try_with (mem_cred_abs s) (ensure InvalidCredentialInput (v \<le> max_safe_integer)) (\<lambda>_.
            (spec_install (mem_cred_abs s) c g, Inr c)))))"
    using ok cred_parse_canonical(1) [OF p(1)] cred_parse_canonical(2) [OF p(2)] cred_parse_canonical(3) [OF p(3)]
      stored_version_pos [OF ok, of d]
    by (auto simp: Let_def require_unused_credential_id_def mem_spec_active
        intro!: refines_try_with new_generation_refines split: option.splits intro: add_pos_pos)
qed

lemma mem_revoke_refines:
  assumes ok: "memory_credentials_ok s"
  shows "refines mem_cred_abs memory_credentials_ok (mem_credential_revoke s dIn eciIn evIn tIn)
    (spec_revoke (mem_cred_abs s) dIn eciIn evIn tIn)"
  unfolding mem_credential_revoke_def spec_revoke_def
proof (intro refines_try_with ok refl, goal_cases)
  case (1 d eci ev t)
  show ?case
  proof (cases "js_get (mc_byDeviceId s) d")
    case None
    with ok show ?thesis by (simp add: mem_expected_generation)
  next
    case (Some r)
    let ?r = "r\<lparr>sc_state := Revoked, sc_revokedAtMs := Some t\<rparr>"
    let ?s = "s\<lparr>mc_byDeviceId := js_set d ?r (mc_byDeviceId s)\<rparr>"
    note r_ok = memory_credentials_ok_get [OF ok Some]
    have good: "stored_credential_ok d (set (mc_usedCredentialIds s)) ?r" if "\<not> t < sc_createdAtMs r"
      using r_ok that
      by (auto simp: stored_credential_ok_def credential_schema_self device_credential_refined_def)
    have s_ok: "memory_credentials_ok ?s" if "\<not> t < sc_createdAtMs r"
      by (rule memory_credentials_ok_replace [OF ok good [OF that]])
    have cor: "credential_of_record ?r = (credential_of_record r)\<lparr>cred_state := Revoked, cred_revokedAt := Some t\<rparr>"
      by (simp add: credential_of_record_def)
    have "mem_cred_abs ?s = (mem_cred_abs s)
        \<lparr>csp_latest := (csp_latest (mem_cred_abs s))(d \<mapsto> (credential_of_record ?r, sc_secretDigest r))\<rparr>"
      by (auto simp: mem_cred_abs_def)
    then show ?thesis
      using ok Some s_ok stored_credential_snapshot [OF good]
      by (simp add: Let_def mem_expected_generation cor)
  qed
qed

lemma mem_rotate_refines:
  assumes ok: "memory_credentials_ok s"
  shows "refines mem_cred_abs memory_credentials_ok (mem_credential_rotate s dIn eciIn evIn ciIn gIn tIn)
    (spec_rotate (mem_cred_abs s) dIn eciIn evIn ciIn gIn tIn)"
  unfolding mem_credential_rotate_def spec_rotate_def
proof (intro refines_try_with ok refl, goal_cases)
  case (1 d eci ev ci g t)
  note p = cred_parse_canonical(1) [OF 1(1)] cred_parse_canonical(2) [OF 1(4)] cred_parse_canonical(3) [OF 1(5)]
  show ?case
  proof (cases "js_get (mc_byDeviceId s) d")
    case None
    with ok show ?thesis by (simp add: mem_expected_generation)
  next
    case (Some r)
    then have "0 < sc_version r + 1" using stored_version_pos [OF ok Some] by simp
    with ok Some p show ?thesis
      by (auto simp: Let_def require_unused_credential_id_def mem_expected_generation
          intro!: refines_try_with new_generation_refines)
  qed
qed

lemma mem_getActive_spec:
  "memory_credentials_ok s \<Longrightarrow> mem_credential_getActive s d = spec_getActive (mem_cred_abs s) d"
  by (auto simp: mem_credential_getActive_def spec_getActive_def mem_spec_active bind_result_def
      stored_credential_snapshot [OF memory_credentials_ok_get] split: sum.splits option.splits)

lemma mem_verify_spec:
  "memory_credentials_ok s \<Longrightarrow> mem_credential_verify s d g = spec_verify (mem_cred_abs s) d g"
  by (auto simp: mem_credential_verify_def spec_verify_def mem_spec_active bind_result_def
      constant_time_equal_hex_iff stored_credential_snapshot [OF memory_credentials_ok_get]
      split: sum.splits option.splits)

interpretation memory_credentials:
  credential_store memory_credential_repository mem_cred_abs memory_credentials_ok
proof
  fix s :: memory_credentials and s' d ci g t v eci ev issued revoked rotated
  assume ok: "memory_credentials_ok s"
  show "spec_ok (mem_cred_abs s)" using ok by (rule mem_spec_ok)
  show "cri_getActive memory_credential_repository s d = spec_getActive (mem_cred_abs s) d"
    by (simp add: memory_credential_repository_def mem_getActive_spec ok)
  show "cri_verify memory_credential_repository s d g = spec_verify (mem_cred_abs s) d g"
    by (simp add: memory_credential_repository_def mem_verify_spec ok)
  show "memory_credentials_ok s' \<and> sound_outcome (mem_cred_abs s) (spec_issue (mem_cred_abs s) d ci g t) (mem_cred_abs s') issued"
    if "cri_issue memory_credential_repository s d ci g t = (s', issued)"
    using refinesD [OF mem_issue_refines [OF ok]] that
    by (simp add: memory_credential_repository_def sound_outcome_def)
  show "memory_credentials_ok s' \<and> sound_outcome (mem_cred_abs s) (spec_revoke (mem_cred_abs s) d ci v t) (mem_cred_abs s') revoked"
    if "cri_revoke memory_credential_repository s d ci v t = (s', revoked)"
    using refinesD [OF mem_revoke_refines [OF ok]] that
    by (simp add: memory_credential_repository_def sound_outcome_def)
  show "memory_credentials_ok s' \<and> sound_outcome (mem_cred_abs s) (spec_rotate (mem_cred_abs s) d eci ev ci g t) (mem_cred_abs s') rotated"
    if "cri_rotate memory_credential_repository s d eci ev ci g t = (s', rotated)"
    using refinesD [OF mem_rotate_refines [OF ok]] that
    by (simp add: memory_credential_repository_def sound_outcome_def)
qed

section \<open>Properties\<close>

text \<open>
  C12: In every history of issues, revocations and rotations (accepted or refused), a generation
  the repository holds at some moment is at every later moment still the device's generation,
  with the same id, version and secret digest and at most turned from active to revoked, or has
  been replaced by one of a higher version whose credential id had never been used by any
  device before.
\<close>

theorem credential_generations_grow:
  assumes "s = foldl (credential_step memory_credential_repository) empty_credentials (take n cs)"
    and "t = foldl (credential_step memory_credential_repository) empty_credentials cs"
    and "js_get (mc_byDeviceId s) d = Some r"
  shows "\<exists>r'. js_get (mc_byDeviceId t) d = Some r' \<and>
    ((sc_credentialId r' = sc_credentialId r \<and> sc_version r' = sc_version r \<and>
      sc_secretDigest r' = sc_secretDigest r \<and> sc_state r \<le> sc_state r') \<or>
     (sc_version r < sc_version r' \<and> sc_credentialId r' \<notin> set (mc_usedCredentialIds s)))"
proof -
  have ext: "spec_extends (mem_cred_abs s) (mem_cred_abs t)"
    unfolding assms(1,2) by (rule memory_credentials.run_take_below [OF empty_credentials_ok])
  have ok: "memory_credentials_ok s"
    unfolding assms(1) by (rule memory_credentials.run_keeps [OF empty_credentials_ok])
  have "csp_latest (mem_cred_abs s) d = Some (credential_of_record r, sc_secretDigest r)"
    using assms(3) by simp
  from spec_extends_latest [OF ext this] obtain r' where r': "js_get (mc_byDeviceId t) d = Some r'"
    and below: "generation_below (credential_of_record r, sc_secretDigest r) (credential_of_record r', sc_secretDigest r')"
    and old_or_new: "sc_credentialId r' \<notin> set (mc_usedCredentialIds s) \<or>
      same_generation (credential_of_record r, sc_secretDigest r) (credential_of_record r', sc_secretDigest r')"
    by auto
  have "sc_credentialId r \<in> set (mc_usedCredentialIds s)"
    using memory_credentials_ok_get [OF ok assms(3)] by (simp add: stored_credential_ok_def)
  with below old_or_new r' show ?thesis
    by (auto simp: generation_below_def same_generation_def)
qed

definition example_digest :: "char \<Rightarrow> string" where
  "example_digest c = replicate 64 c"

definition example_device_id :: string where
  "example_device_id = ''0a1b2c3d-1111-4111-8111-0123456789AB''"

definition example_credential_id :: "char \<Rightarrow> string" where
  "example_credential_id c = replicate 8 c @ ''-2222-4222-8222-222222222222''"

definition example_credential_history :: "credential_command list" where
  "example_credential_history =
     [IssueCredential example_device_id (example_credential_id CHR ''a'') (example_digest CHR ''0'') (Some 10),
      RotateCredential example_device_id (example_credential_id CHR ''a'') (js_int 1)
        (example_credential_id CHR ''b'') (example_digest CHR ''1'') (Some 20)]"

definition example_issued_record :: stored_credential where
  "example_issued_record =
     \<lparr>sc_credentialId = example_credential_id CHR ''a'', sc_deviceId = js_lower example_device_id,
      sc_version = 1, sc_secretDigest = example_digest CHR ''0'', sc_createdAtMs = 10,
      sc_state = Active, sc_revokedAtMs = None\<rparr>"

lemma example_issued_get:
  "js_get (mc_byDeviceId (foldl (credential_step memory_credential_repository) empty_credentials
     (take 1 example_credential_history))) (js_lower example_device_id) = Some example_issued_record"
  by code_simp

lemma credential_generations_grow_witness:
  "let s = foldl (credential_step memory_credential_repository) empty_credentials (take 1 example_credential_history);
       t = foldl (credential_step memory_credential_repository) empty_credentials example_credential_history;
       r = example_issued_record
   in \<exists>r'. js_get (mc_byDeviceId t) (js_lower example_device_id) = Some r' \<and>
    ((sc_credentialId r' = sc_credentialId r \<and> sc_version r' = sc_version r \<and>
      sc_secretDigest r' = sc_secretDigest r \<and> sc_state r \<le> sc_state r') \<or>
     (sc_version r < sc_version r' \<and> sc_credentialId r' \<notin> set (mc_usedCredentialIds s)))"
  unfolding Let_def
  by (rule credential_generations_grow [OF refl refl example_issued_get])

text \<open>
  When a revocation of a device's credential succeeds, in any well-formed state, the device
  has no active credential afterwards and no digest at all verifies for it.
\<close>

theorem revocation_locks_out:
  assumes "memory_credentials_ok s"
    and "mem_credential_revoke s d ci v t = (s', Inr (Some c))" and "is_sha256_hex g"
  shows "mem_credential_getActive s' d = Inr None \<and> mem_credential_verify s' d g = Inr None \<and>
    memory_credentials_ok s'"
  using memory_credentials.revoked_cannot_verify [of s d ci v t s' c]
    memory_credentials.revoke [of s d ci v t s' "Inr (Some c)"] assms
  by (simp add: memory_credential_repository_def)

lemma revocation_locks_out_witness:
  "\<exists>s' c. mem_credential_revoke
       (foldl (credential_step memory_credential_repository) empty_credentials (take 1 example_credential_history))
       example_device_id (example_credential_id CHR ''a'') (js_int 1) (Some 12) = (s', Inr (Some c)) \<and>
     mem_credential_getActive s' example_device_id = Inr None \<and>
     mem_credential_verify s' example_device_id (example_digest CHR ''0'') = Inr None \<and>
     memory_credentials_ok s'"
proof -
  let ?s = "foldl (credential_step memory_credential_repository) empty_credentials (take 1 example_credential_history)"
  let ?p = "mem_credential_revoke ?s example_device_id (example_credential_id CHR ''a'') (js_int 1) (Some 12)"
  have "memory_credentials_ok ?s"
    by (rule memory_credentials.run_keeps [OF empty_credentials_ok])
  moreover have "map_sum (\<lambda>_. ()) (\<lambda>x. x \<noteq> None) (snd ?p) = Inr True" by code_simp
  then obtain s' c where "?p = (s', Inr (Some c))" by (cases ?p; cases "snd ?p") auto
  moreover have "is_sha256_hex (example_digest CHR ''0'')" by code_simp
  ultimately show ?thesis using revocation_locks_out by blast
qed

text \<open>
  When a rotation succeeds, the returned credential is the device's active one, exactly the
  digest given to the rotation verifies, to that credential, and every other digest (in
  particular the one before) verifies to nothing.
\<close>

theorem rotation_replaces_secret:
  assumes "memory_credentials_ok s"
    and "mem_credential_rotate s d eci ev ci g t = (s', Inr c)" and "is_sha256_hex h"
  shows "mem_credential_getActive s' d = Inr (Some c) \<and>
    mem_credential_verify s' d h = Inr (if h = g then Some c else None)"
  using memory_credentials.rotated_verifies_new_only [of s d eci ev ci g t s' c] assms
  by (simp add: memory_credential_repository_def)

lemma rotation_replaces_secret_witness:
  "\<exists>s' c. mem_credential_rotate
       (foldl (credential_step memory_credential_repository) empty_credentials (take 1 example_credential_history))
       example_device_id (example_credential_id CHR ''a'') (js_int 1)
       (example_credential_id CHR ''b'') (example_digest CHR ''1'') (Some 20) = (s', Inr c) \<and>
     mem_credential_getActive s' example_device_id = Inr (Some c) \<and>
     mem_credential_verify s' example_device_id (example_digest CHR ''0'') =
       Inr (if example_digest CHR ''0'' = example_digest CHR ''1'' then Some c else None)"
proof -
  let ?s = "foldl (credential_step memory_credential_repository) empty_credentials (take 1 example_credential_history)"
  let ?p = "mem_credential_rotate ?s example_device_id (example_credential_id CHR ''a'') (js_int 1)
       (example_credential_id CHR ''b'') (example_digest CHR ''1'') (Some 20)"
  have "memory_credentials_ok ?s"
    by (rule memory_credentials.run_keeps [OF empty_credentials_ok])
  moreover have "map_sum (\<lambda>_. ()) (\<lambda>_. ()) (snd ?p) = Inr ()" by code_simp
  then obtain s' c where "?p = (s', Inr c)" by (cases ?p; cases "snd ?p") auto
  moreover have "is_sha256_hex (example_digest CHR ''0'')" by code_simp
  ultimately show ?thesis using rotation_replaces_secret by blast
qed

end
