(* ===== verification/Device_Repository.thy ===== *)
theory Device_Repository
  imports Schemas
begin

text \<open>
  \<^verbatim>\<open>apps/server/src/device-repository.ts\<close>: the in-memory device repository, its interface
  \<^verbatim>\<open>DeviceRepository\<close> as a record of operations, and the contract its clients (the pairing
  repository, the credential service, the router) rely on as the locale \<open>device_store\<close>,
  interpreted on the in-memory repository. The id generator and the clock are arguments of
  the operations that call them.
\<close>

section \<open>Interface\<close>

datatype device_repo_error =
  InvalidDeviceInput | InvalidDeviceId | DeviceInvalidClock | DeviceAlreadyExists

text \<open>The asynchronous methods of the interface, over an implementation's state.\<close>

record 's device_repository =
  dri_create :: "'s \<Rightarrow> string \<Rightarrow> js_date \<Rightarrow> create_device_input \<Rightarrow> ('s, device_repo_error, device) outcome"
  dri_getById :: "'s \<Rightarrow> string \<Rightarrow> (device_repo_error, device option) result"
  dri_getForOwner :: "'s \<Rightarrow> string \<Rightarrow> string \<Rightarrow> (device_repo_error, device option) result"
  dri_listByOwnerId :: "'s \<Rightarrow> string \<Rightarrow> (device_repo_error, device list) result"
  dri_updateForOwner :: "'s \<Rightarrow> js_date \<Rightarrow> string \<Rightarrow> string \<Rightarrow> update_device_input
      \<Rightarrow> ('s, device_repo_error, device option) outcome"
  dri_isOwnedBy :: "'s \<Rightarrow> string \<Rightarrow> string \<Rightarrow> (device_repo_error, bool) result"

section \<open>The in-memory repository\<close>

record stored_device =
  sd_deviceId :: string
  sd_ownerId :: string
  sd_deviceName :: string
  sd_metadata :: device_metadata
  sd_createdAtMs :: int
  sd_updatedAtMs :: int

record memory_devices =
  md_records :: "(string, stored_device) js_map"

definition empty_devices :: memory_devices where
  "empty_devices = \<lparr>md_records = []\<rparr>"

definition parse_owner_id :: "string \<Rightarrow> (device_repo_error, string) result" where
  "parse_owner_id ow = require InvalidDeviceInput (owner_id_schema ow)"

definition parse_device_id :: "string \<Rightarrow> (device_repo_error, string) result" where
  "parse_device_id d = require InvalidDeviceId (device_id_schema d)"

definition to_device_snapshot :: "stored_device \<Rightarrow> device" where
  "to_device_snapshot r =
     \<lparr>dev_deviceId = sd_deviceId r, dev_ownerId = sd_ownerId r, dev_deviceName = sd_deviceName r,
      dev_metadata = sd_metadata r, dev_createdAt = sd_createdAtMs r,
      dev_updatedAt = sd_updatedAtMs r\<rparr>"

definition device_read_now :: "js_date \<Rightarrow> (device_repo_error, int) result" where
  "device_read_now now = require DeviceInvalidClock now"

definition mem_device_create ::
  "memory_devices \<Rightarrow> string \<Rightarrow> js_date \<Rightarrow> create_device_input
     \<Rightarrow> (memory_devices, device_repo_error, device) outcome" where
  "mem_device_create s generated now input =
     try_with s (require InvalidDeviceInput (create_device_input_schema input)) (\<lambda>parsed.
     try_with s (require InvalidDeviceId (device_id_schema generated)) (\<lambda>deviceId.
     try_with s (ensure DeviceAlreadyExists (\<not> js_has (md_records s) deviceId)) (\<lambda>_.
     try_with s (device_read_now now) (\<lambda>nowMs.
       let r = \<lparr>sd_deviceId = deviceId, sd_ownerId = ci_ownerId parsed,
                sd_deviceName = ci_deviceName parsed, sd_metadata = ci_metadata parsed,
                sd_createdAtMs = nowMs, sd_updatedAtMs = nowMs\<rparr>
       in (s\<lparr>md_records := js_set deviceId r (md_records s)\<rparr>, Inr (to_device_snapshot r))))))"

definition mem_device_getById :: "memory_devices \<Rightarrow> string \<Rightarrow> (device_repo_error, device option) result" where
  "mem_device_getById s deviceId =
     bind_result (parse_device_id deviceId) (\<lambda>d.
       Inr (map_option to_device_snapshot (js_get (md_records s) d)))"

definition mem_device_getForOwner ::
  "memory_devices \<Rightarrow> string \<Rightarrow> string \<Rightarrow> (device_repo_error, device option) result" where
  "mem_device_getForOwner s ownerId deviceId =
     bind_result (parse_owner_id ownerId) (\<lambda>ow.
     bind_result (parse_device_id deviceId) (\<lambda>d.
       case js_get (md_records s) d of
         None \<Rightarrow> Inr None
       | Some r \<Rightarrow> if sd_ownerId r \<noteq> ow then Inr None else Inr (Some (to_device_snapshot r))))"

text \<open>
  The comparator orders by creation time and then by \<^verbatim>\<open>localeCompare\<close> of the identifiers;
  on canonical identifiers (lower-case hexadecimal with dashes in fixed places) that is the
  lexicographic order of their code units. The sort is stable, like \<^verbatim>\<open>Array.sort\<close>.
\<close>

definition device_sort_key :: "stored_device \<Rightarrow> int \<times> nat list" where
  "device_sort_key r = (sd_createdAtMs r, map code_unit (sd_deviceId r))"

definition mem_device_listByOwnerId ::
  "memory_devices \<Rightarrow> string \<Rightarrow> (device_repo_error, device list) result" where
  "mem_device_listByOwnerId s ownerId =
     bind_result (parse_owner_id ownerId) (\<lambda>ow.
       Inr (map to_device_snapshot
         (sort_key device_sort_key (filter (\<lambda>r. sd_ownerId r = ow) (map snd (md_records s))))))"

definition patched_device :: "stored_device \<Rightarrow> update_device_input \<Rightarrow> int \<Rightarrow> stored_device" where
  "patched_device r p nextMs =
     r\<lparr>sd_deviceName := (case ui_deviceName p of None \<Rightarrow> sd_deviceName r | Some n \<Rightarrow> n),
       sd_metadata := (case ui_metadata p of None \<Rightarrow> sd_metadata r | Some m \<Rightarrow> m),
       sd_updatedAtMs := nextMs\<rparr>"

definition mem_device_updateForOwner ::
  "memory_devices \<Rightarrow> js_date \<Rightarrow> string \<Rightarrow> string \<Rightarrow> update_device_input
     \<Rightarrow> (memory_devices, device_repo_error, device option) outcome" where
  "mem_device_updateForOwner s now ownerId deviceId patch =
     try_with s (parse_owner_id ownerId) (\<lambda>ow.
     try_with s (parse_device_id deviceId) (\<lambda>d.
     try_with s (require InvalidDeviceInput (update_device_input_schema patch)) (\<lambda>p.
       case js_get (md_records s) d of
         None \<Rightarrow> (s, Inr None)
       | Some r \<Rightarrow>
           if sd_ownerId r \<noteq> ow then (s, Inr None)
           else
             try_with s (device_read_now now) (\<lambda>nextMs.
             try_with s (ensure DeviceInvalidClock (\<not> nextMs < sd_updatedAtMs r)) (\<lambda>_.
               let r' = patched_device r p nextMs
               in (s\<lparr>md_records := js_set d r' (md_records s)\<rparr>,
                   Inr (Some (to_device_snapshot r'))))))))"

definition mem_device_isOwnedBy ::
  "memory_devices \<Rightarrow> string \<Rightarrow> string \<Rightarrow> (device_repo_error, bool) result" where
  "mem_device_isOwnedBy s ownerId deviceId =
     bind_result (parse_owner_id ownerId) (\<lambda>ow.
     bind_result (parse_device_id deviceId) (\<lambda>d.
       Inr (map_option sd_ownerId (js_get (md_records s) d) = Some ow)))"

definition memory_device_repository :: "memory_devices device_repository" where
  "memory_device_repository =
     \<lparr>dri_create = mem_device_create, dri_getById = mem_device_getById,
      dri_getForOwner = mem_device_getForOwner, dri_listByOwnerId = mem_device_listByOwnerId,
      dri_updateForOwner = mem_device_updateForOwner, dri_isOwnedBy = mem_device_isOwnedBy\<rparr>"

lemmas [op_defs] =
  mem_device_create_def mem_device_getById_def mem_device_getForOwner_def
  mem_device_listByOwnerId_def mem_device_updateForOwner_def mem_device_isOwnedBy_def
  parse_owner_id_def parse_device_id_def device_read_now_def

section \<open>Invariant\<close>

definition stored_device_ok :: "stored_device \<Rightarrow> bool" where
  "stored_device_ok r =
     (device_id_schema (sd_deviceId r) = Some (sd_deviceId r) \<and>
      owner_id_schema (sd_ownerId r) = Some (sd_ownerId r) \<and>
      device_name_schema (sd_deviceName r) = Some (sd_deviceName r) \<and>
      device_metadata_schema (sd_metadata r) = Some (sd_metadata r) \<and>
      sd_createdAtMs r \<le> sd_updatedAtMs r)"

definition memory_devices_ok :: "memory_devices \<Rightarrow> bool" where
  "memory_devices_ok s =
     (js_map_ok (md_records s) \<and>
      (\<forall>d r. js_get (md_records s) d = Some r \<longrightarrow> sd_deviceId r = d \<and> stored_device_ok r))"

lemma empty_devices_ok: "memory_devices_ok empty_devices"
  by (simp add: memory_devices_ok_def empty_devices_def)

lemma create_input_parsed:
  assumes "create_device_input_schema i = Some p"
  shows "owner_id_schema (ci_ownerId p) = Some (ci_ownerId p)"
    and "ci_ownerId p = ci_ownerId i"
    and "device_name_schema (ci_deviceName p) = Some (ci_deviceName p)"
    and "device_metadata_schema (ci_metadata p) = Some (ci_metadata p)"
  using assms
  by (auto simp: create_device_input_schema_def schema_canonical owner_id_same
      split: option.splits)

lemma update_input_parsed:
  assumes "update_device_input_schema i = Some p"
  shows "ui_deviceName p = Some n \<Longrightarrow> device_name_schema n = Some n"
    and "ui_metadata p = Some m \<Longrightarrow> device_metadata_schema m = Some m"
  using assms
  by (auto simp: update_device_input_schema_def optional_schema_def schema_canonical
      split: option.splits if_splits)

text \<open>The snapshot a repository returns satisfies the public device schema unchanged.\<close>

lemma snapshot_satisfies_schema:
  "stored_device_ok r \<Longrightarrow> device_schema (to_device_snapshot r) = Some (to_device_snapshot r)"
  by (simp add: stored_device_ok_def device_schema_def to_device_snapshot_def)

text \<open>Each mutation either succeeds in exactly one way or leaves the repository as it was.\<close>

lemma mem_device_create_Inr:
  "mem_device_create s g now i = (t, Inr x) \<longleftrightarrow>
     (\<exists>p d ms r. create_device_input_schema i = Some p \<and> device_id_schema g = Some d \<and>
        js_get (md_records s) d = None \<and> now = Some ms \<and>
        r = \<lparr>sd_deviceId = d, sd_ownerId = ci_ownerId p, sd_deviceName = ci_deviceName p,
             sd_metadata = ci_metadata p, sd_createdAtMs = ms, sd_updatedAtMs = ms\<rparr> \<and>
        t = s\<lparr>md_records := js_set d r (md_records s)\<rparr> \<and> x = to_device_snapshot r)"
  unfolding mem_device_create_def device_read_now_def Let_def
  by (auto split: try_splits)

lemma mem_device_create_Inl: "mem_device_create s g now i = (t, Inl e) \<Longrightarrow> t = s"
  unfolding mem_device_create_def Let_def by (auto split: try_splits)

lemma mem_device_update_Some:
  "mem_device_updateForOwner s now ow d patch = (t, Inr (Some x)) \<longleftrightarrow>
     (\<exists>c p r ms. device_id_schema d = Some c \<and> update_device_input_schema patch = Some p \<and>
        js_get (md_records s) c = Some r \<and> owner_id_schema ow = Some (sd_ownerId r) \<and>
        now = Some ms \<and> sd_updatedAtMs r \<le> ms \<and>
        t = s\<lparr>md_records := js_set c (patched_device r p ms) (md_records s)\<rparr> \<and>
        x = to_device_snapshot (patched_device r p ms))"
  unfolding mem_device_updateForOwner_def op_defs Let_def
  by (auto split: try_splits option.splits if_splits)

lemma mem_device_update_other:
  "mem_device_updateForOwner s now ow d patch = (t, out) \<Longrightarrow> (\<forall>x. out \<noteq> Inr (Some x)) \<Longrightarrow> t = s"
  unfolding mem_device_updateForOwner_def op_defs Let_def
  by (auto split: try_splits option.splits if_splits)

lemma memory_devices_ok_set:
  assumes "memory_devices_ok s" "stored_device_ok r" "sd_deviceId r = d"
  shows "memory_devices_ok (s\<lparr>md_records := js_set d r (md_records s)\<rparr>)"
  using assms by (auto simp: memory_devices_ok_def)

lemma patched_device_ok:
  assumes "stored_device_ok r" "update_device_input_schema patch = Some p" "sd_updatedAtMs r \<le> ms"
  shows "stored_device_ok (patched_device r p ms)"
  using assms update_input_parsed [OF assms(2)]
  by (auto simp: stored_device_ok_def patched_device_def split: option.splits)

lemma mem_device_create_ok [inv_intros]:
  assumes "memory_devices_ok s"
  shows "memory_devices_ok (fst (mem_device_create s g now i))"
proof (cases "mem_device_create s g now i")
  case (Pair t out)
  show ?thesis
  proof (cases out)
    case (Inr x)
    with Pair obtain p d ms where
      p: "create_device_input_schema i = Some p" and d: "device_id_schema g = Some d" and
      t: "t = s\<lparr>md_records := js_set d \<lparr>sd_deviceId = d, sd_ownerId = ci_ownerId p,
         sd_deviceName = ci_deviceName p, sd_metadata = ci_metadata p, sd_createdAtMs = ms,
         sd_updatedAtMs = ms\<rparr> (md_records s)\<rparr>"
      by (auto simp: mem_device_create_Inr)
    show ?thesis unfolding Pair t fst_conv
      using create_input_parsed [OF p] d
      by (intro memory_devices_ok_set assms)
        (simp_all add: stored_device_ok_def device_id_canonical)
  qed (use Pair assms in \<open>auto dest: mem_device_create_Inl\<close>)
qed

lemma mem_device_update_ok [inv_intros]:
  assumes "memory_devices_ok s"
  shows "memory_devices_ok (fst (mem_device_updateForOwner s now ow d patch))"
proof (cases "mem_device_updateForOwner s now ow d patch")
  case (Pair t out)
  show ?thesis
  proof (cases "\<exists>x. out = Inr (Some x)")
    case True
    with Pair obtain c p r ms where
      r: "js_get (md_records s) c = Some r" and
      p: "update_device_input_schema patch = Some p" "sd_updatedAtMs r \<le> ms" and
      t: "t = s\<lparr>md_records := js_set c (patched_device r p ms) (md_records s)\<rparr>"
      by (auto simp: mem_device_update_Some)
    from r assms have "stored_device_ok r" "sd_deviceId r = c"
      by (auto simp: memory_devices_ok_def)
    then show ?thesis unfolding Pair t fst_conv
      by (intro memory_devices_ok_set assms patched_device_ok [OF _ p])
        (simp_all add: patched_device_def)
  qed (use Pair assms in \<open>auto dest: mem_device_update_other\<close>)
qed

section \<open>The contract of the interface\<close>

text \<open>
  What the clients of \<^verbatim>\<open>DeviceRepository\<close> rely on, over an abstract view of the state as a
  map from canonical device identifiers to devices.
\<close>

locale device_store =
  fixes R :: "'s device_repository"
    and view :: "'s \<Rightarrow> string \<Rightarrow> device option"
    and ok :: "'s \<Rightarrow> bool"
  assumes get_by_id: "device_id_schema d = Some c \<Longrightarrow> dri_getById R s d = Inr (view s c)"
    and get_for_owner: "owner_id_schema ow = Some ow' \<Longrightarrow> device_id_schema d = Some c \<Longrightarrow>
      dri_getForOwner R s ow d =
        Inr (case view s c of None \<Rightarrow> None | Some v \<Rightarrow> if dev_ownerId v = ow' then Some v else None)"
    and view_key: "ok s \<Longrightarrow> view s c = Some v \<Longrightarrow>
      dev_deviceId v = c \<and> device_id_schema c = Some c \<and> owner_id_schema (dev_ownerId v) = Some (dev_ownerId v)"
    and create_view: "ok s \<Longrightarrow> dri_create R s g now i = (t, Inr v) \<Longrightarrow>
      ok t \<and> view s (dev_deviceId v) = None \<and> view t = (view s)(dev_deviceId v \<mapsto> v)
      \<and> dev_ownerId v = ci_ownerId i"
    and create_fail: "dri_create R s g now i = (t, Inl e) \<Longrightarrow> t = s"
begin

lemma get_for_owner_owned:
  assumes "owner_id_schema ow = Some ow'" "device_id_schema d = Some c"
    and "dri_getForOwner R s ow d = Inr (Some v)"
  shows "dev_ownerId v = ow' \<and> view s c = Some v"
  using assms by (auto simp: get_for_owner split: option.splits if_splits)

lemma created_is_found:
  assumes "ok s" "dri_create R s g now i = (t, Inr v)"
  shows "dri_getById R t (dev_deviceId v) = Inr (Some v)"
    and "dri_getForOwner R t (ci_ownerId i) (dev_deviceId v) = Inr (Some v)"
    and "owner_id_schema other = Some ow' \<Longrightarrow> ow' \<noteq> ci_ownerId i \<Longrightarrow>
           dri_getForOwner R t other (dev_deviceId v) = Inr None"
proof -
  from create_view [OF assms] have v: "view t (dev_deviceId v) = Some v" and "ok t"
    and ow: "dev_ownerId v = ci_ownerId i" by auto
  from view_key [OF \<open>ok t\<close> v] ow
  have c: "device_id_schema (dev_deviceId v) = Some (dev_deviceId v)"
    "owner_id_schema (ci_ownerId i) = Some (ci_ownerId i)" by auto
  with v ow show "dri_getById R t (dev_deviceId v) = Inr (Some v)"
    "dri_getForOwner R t (ci_ownerId i) (dev_deviceId v) = Inr (Some v)"
    by (simp_all add: get_by_id get_for_owner)
  show "owner_id_schema other = Some ow' \<Longrightarrow> ow' \<noteq> ci_ownerId i \<Longrightarrow>
      dri_getForOwner R t other (dev_deviceId v) = Inr None"
    using c v ow by (simp add: get_for_owner)
qed

lemma create_keeps_others:
  assumes "ok s" "dri_create R s g now i = (t, Inr v)" "view s c = Some w"
  shows "view t c = Some w"
  using create_view [OF assms(1,2)] assms(3) by auto

end

definition mem_device_view :: "memory_devices \<Rightarrow> string \<Rightarrow> device option" where
  "mem_device_view s c = map_option to_device_snapshot (js_get (md_records s) c)"

lemma to_device_snapshot_sel [simp]:
  "dev_deviceId (to_device_snapshot r) = sd_deviceId r"
  "dev_ownerId (to_device_snapshot r) = sd_ownerId r"
  "dev_createdAt (to_device_snapshot r) = sd_createdAtMs r"
  "dev_updatedAt (to_device_snapshot r) = sd_updatedAtMs r"
  by (simp_all add: to_device_snapshot_def)

interpretation memory_store: device_store memory_device_repository mem_device_view memory_devices_ok
proof
  show "device_id_schema d = Some c \<Longrightarrow>
      dri_getById memory_device_repository s d = Inr (mem_device_view s c)" for d c s
    by (simp add: memory_device_repository_def op_defs mem_device_view_def)
  show "owner_id_schema ow = Some ow' \<Longrightarrow> device_id_schema d = Some c \<Longrightarrow>
      dri_getForOwner memory_device_repository s ow d =
        Inr (case mem_device_view s c of None \<Rightarrow> None
             | Some v \<Rightarrow> if dev_ownerId v = ow' then Some v else None)" for ow ow' d c s
    by (simp add: memory_device_repository_def op_defs mem_device_view_def split: option.splits)
  show "memory_devices_ok s \<Longrightarrow> mem_device_view s c = Some v \<Longrightarrow>
      dev_deviceId v = c \<and> device_id_schema c = Some c \<and>
      owner_id_schema (dev_ownerId v) = Some (dev_ownerId v)" for s c v
    by (auto simp: memory_devices_ok_def mem_device_view_def stored_device_ok_def)
  show "memory_devices_ok t \<and> mem_device_view s (dev_deviceId v) = None \<and>
      mem_device_view t = (mem_device_view s)(dev_deviceId v \<mapsto> v) \<and> dev_ownerId v = ci_ownerId i"
    if "memory_devices_ok s" "dri_create memory_device_repository s g now i = (t, Inr v)" for s g now i t v
  proof -
    from that(2) have c: "mem_device_create s g now i = (t, Inr v)"
      by (simp add: memory_device_repository_def)
    have "memory_devices_ok t"
      using mem_device_create_ok [OF that(1), of g now i] c by simp
    with c show ?thesis
      by (auto simp: mem_device_create_Inr mem_device_view_def fun_eq_iff create_input_parsed(2))
  qed
  show "dri_create memory_device_repository s g now i = (t, Inl e) \<Longrightarrow> t = s" for s g now i t e
    by (simp add: memory_device_repository_def mem_device_create_Inl)
qed

section \<open>Runs of the repository\<close>

datatype device_command =
  CreateDevice string js_date create_device_input
| UpdateDevice js_date string string update_device_input

fun device_step :: "memory_devices \<Rightarrow> device_command \<Rightarrow> memory_devices" where
  "device_step s (CreateDevice g now i) = fst (mem_device_create s g now i)"
| "device_step s (UpdateDevice now ow d p) = fst (mem_device_updateForOwner s now ow d p)"

text \<open>
  A later state extends an earlier one: no device disappears, and its owner and creation time
  are fixed while its modification time never goes back.
\<close>

definition devices_extend :: "memory_devices \<Rightarrow> memory_devices \<Rightarrow> bool" where
  "devices_extend s t \<longleftrightarrow>
     (\<forall>d r. js_get (md_records s) d = Some r \<longrightarrow>
        (\<exists>r'. js_get (md_records t) d = Some r' \<and> sd_ownerId r' = sd_ownerId r \<and>
              sd_createdAtMs r' = sd_createdAtMs r \<and> sd_updatedAtMs r \<le> sd_updatedAtMs r'))"

lemma devices_extend_refl: "devices_extend s s"
  by (simp add: devices_extend_def)

lemma devices_extend_trans: "devices_extend s t \<Longrightarrow> devices_extend t u \<Longrightarrow> devices_extend s u"
  unfolding devices_extend_def by (fastforce intro: order_trans)

lemma create_extends: "mem_device_create s g now i = (t, out) \<Longrightarrow> devices_extend s t"
  by (cases out)
    (auto simp: devices_extend_def mem_device_create_Inr dest: mem_device_create_Inl)

lemma update_extends:
  assumes "mem_device_updateForOwner s now ow d p = (t, out)"
  shows "devices_extend s t"
proof (cases "\<exists>x. out = Inr (Some x)")
  case True
  with assms show ?thesis
    by (auto simp: devices_extend_def mem_device_update_Some patched_device_def)
next
  case False
  with assms have "t = s" by (auto dest: mem_device_update_other)
  then show ?thesis by (simp add: devices_extend_refl)
qed

interpretation device_runs: ordered_steps device_step memory_devices_ok devices_extend
proof
  show "memory_devices_ok s \<Longrightarrow> memory_devices_ok (device_step s c)" for s c
    by (cases c) (simp_all add: inv_intros)
  show "memory_devices_ok s \<Longrightarrow> devices_extend s (device_step s c)" for s c
    by (cases c) (auto intro: create_extends update_extends surjective_pairing)
qed (auto intro: devices_extend_refl devices_extend_trans)

section \<open>Properties\<close>

text \<open>
  C23: In every history of creations and updates, accepted or refused, every stored device is
  well formed under the public schema and filed under its own canonical id; and no later
  command removes a device, changes its owner or its creation time, or moves its
  modification time back.
\<close>

theorem device_history:
  "memory_devices_ok (foldl device_step empty_devices cs) \<and>
   devices_extend (foldl device_step empty_devices (take n cs)) (foldl device_step empty_devices cs)"
proof
  show "memory_devices_ok (foldl device_step empty_devices cs)"
    by (rule device_runs.run_keeps [OF empty_devices_ok])
  show "devices_extend (foldl device_step empty_devices (take n cs)) (foldl device_step empty_devices cs)"
    by (rule device_runs.run_take_below [OF empty_devices_ok])
qed

text \<open>
  Listing the devices of an owner returns exactly the stored devices of that owner, each
  once, ordered by creation time and then by identifier.
\<close>

theorem list_by_owner_exact:
  assumes "memory_devices_ok s" and "owner_id_schema ow = Some ow'"
  shows "\<exists>ds. mem_device_listByOwnerId s ow = Inr ds \<and>
    set ds = {v. \<exists>d. mem_device_getById s d = Inr (Some v) \<and> dev_ownerId v = ow'} \<and>
    distinct (map dev_deviceId ds) \<and>
    sorted (map (\<lambda>v. (dev_createdAt v, map code_unit (dev_deviceId v))) ds)"
proof -
  let ?rs = "sort_key device_sort_key (filter (\<lambda>r. sd_ownerId r = ow') (map snd (md_records s)))"
  let ?ds = "map to_device_snapshot ?rs"
  have ok: "js_map_ok (md_records s)"
    and key: "\<And>d r. js_get (md_records s) d = Some r \<Longrightarrow> sd_deviceId r = d \<and> device_id_schema d = Some d"
    using assms(1) by (auto simp: memory_devices_ok_def stored_device_ok_def)
  have vals: "map sd_deviceId (map snd (md_records s)) = map fst (md_records s)"
    by (rule js_map_keyed [OF ok]) (rule conjunct1 [OF key])
  have "distinct (map sd_deviceId (map snd (md_records s)))"
    unfolding vals by (rule ok)
  then have "distinct (map dev_deviceId ?ds)"
    by (simp add: comp_def distinct_map inj_on_def) blast
  moreover have "set ?ds = {v. \<exists>d. mem_device_getById s d = Inr (Some v) \<and> dev_ownerId v = ow'}"
    (is "_ = ?R")
  proof (intro equalityI subsetI)
    fix v assume "v \<in> set ?ds"
    then obtain d r where "(d, r) \<in> set (md_records s)" "sd_ownerId r = ow'" "v = to_device_snapshot r"
      by auto
    then have "js_get (md_records s) d = Some r" by (simp add: ok)
    then have "mem_device_getById s d = Inr (Some v)"
      using conjunct2 [OF key] \<open>v = _\<close> by (simp add: op_defs)
    with \<open>sd_ownerId r = ow'\<close> \<open>v = _\<close> show "v \<in> ?R" by auto
  next
    fix v assume "v \<in> ?R"
    then obtain d c r where "js_get (md_records s) c = Some r" "v = to_device_snapshot r" "sd_ownerId r = ow'"
      by (auto simp: op_defs bind_result_Inr)
    then show "v \<in> set ?ds" by (force dest: map_of_SomeD)
  qed
  moreover have "sorted (map (\<lambda>v. (dev_createdAt v, map code_unit (dev_deviceId v))) ?ds)"
  proof -
    have "map (\<lambda>v. (dev_createdAt v, map code_unit (dev_deviceId v))) ?ds = map device_sort_key ?rs"
      by (simp add: device_sort_key_def)
    then show ?thesis by (simp only: sorted_sort_key)
  qed
  moreover have "mem_device_listByOwnerId s ow = Inr ?ds"
    using assms(2) by (simp add: op_defs)
  ultimately show ?thesis by blast
qed

lemma list_by_owner_exact_witness:
  "let s = fst (mem_device_create empty_devices ''0a1b2c3d-1111-4111-8111-0123456789AB'' (Some 5)
             \<lparr>ci_ownerId = ''owner-1'', ci_deviceName = '' laptop '',
              ci_metadata = \<lparr>md_platform = ''linux'', md_appVersion = None, md_runtimeVersion = None\<rparr>\<rparr>)
   in \<exists>ds. mem_device_listByOwnerId s ''owner-1'' = Inr ds \<and>
    set ds = {v. \<exists>d. mem_device_getById s d = Inr (Some v) \<and> dev_ownerId v = ''owner-1''} \<and>
    distinct (map dev_deviceId ds) \<and>
    sorted (map (\<lambda>v. (dev_createdAt v, map code_unit (dev_deviceId v))) ds)"
  unfolding Let_def
  by (rule list_by_owner_exact [OF mem_device_create_ok [OF empty_devices_ok]]) code_simp

end
