(* ===== verification/Secret_Generation.thy ===== *)
theory Secret_Generation
  imports Schemas
begin

text \<open>
  \<^verbatim>\<open>generateDeviceCredentialSecret\<close> of \<^verbatim>\<open>apps/server/src/device-credential.ts\<close>: 32 random
  bytes in unpadded base64url. The random bytes are an argument; \<^verbatim>\<open>btoa\<close> and the string
  replacements are those of the language's library.
\<close>

section \<open>Secrets\<close>

text \<open>\<^verbatim>\<open>btoa\<close> of a binary string, given by its bytes.\<close>

definition base64_alphabet :: string where
  "base64_alphabet = ''ABCDEFGHIJKLMNOPQRSTUVWXYZabcdefghijklmnopqrstuvwxyz0123456789+/''"

definition base64_char :: "nat \<Rightarrow> char" where
  "base64_char n = base64_alphabet ! n"

fun btoa :: "byte list \<Rightarrow> string" where
  "btoa [] = []"
| "btoa [a] =
     (let n = unat a * 16 in [base64_char (n div 64), base64_char (n mod 64), CHR ''='', CHR ''=''])"
| "btoa [a, b] =
     (let n = (unat a * 256 + unat b) * 4 in
      [base64_char (n div 4096), base64_char (n div 64 mod 64), base64_char (n mod 64), CHR ''=''])"
| "btoa (a # b # c # bs) =
     (let n = unat a * 65536 + unat b * 256 + unat c in
      [base64_char (n div 262144), base64_char (n div 4096 mod 64),
       base64_char (n div 64 mod 64), base64_char (n mod 64)] @ btoa bs)"

definition replace_all_char :: "char \<Rightarrow> char \<Rightarrow> string \<Rightarrow> string" where
  "replace_all_char old new s = map (\<lambda>c. if c = old then new else c) s"

definition strip_trailing :: "char \<Rightarrow> string \<Rightarrow> string" where
  "strip_trailing x s = rev (dropWhile (\<lambda>c. c = x) (rev s))"

definition generateDeviceCredentialSecret :: "byte list \<Rightarrow> string" where
  "generateDeviceCredentialSecret bytes =
     strip_trailing CHR ''=''
       (replace_all_char CHR ''/'' CHR ''_'' (replace_all_char CHR ''+'' CHR ''-'' (btoa bytes)))"

section \<open>The encoding as a list of six-bit digits\<close>

fun sextets :: "byte list \<Rightarrow> nat list" where
  "sextets [] = []"
| "sextets [a] = (let n = unat a * 16 in [n div 64, n mod 64])"
| "sextets [a, b] = (let n = (unat a * 256 + unat b) * 4 in [n div 4096, n div 64 mod 64, n mod 64])"
| "sextets (a # b # c # bs) =
     (let n = unat a * 65536 + unat b * 256 + unat c in
      [n div 262144, n div 4096 mod 64, n div 64 mod 64, n mod 64] @ sextets bs)"

definition url_char :: "nat \<Rightarrow> char" where
  "url_char n = (if n = 62 then CHR ''-'' else if n = 63 then CHR ''_'' else base64_char n)"

lemma url_table: "map url_char [0..<64] = 
  ''ABCDEFGHIJKLMNOPQRSTUVWXYZabcdefghijklmnopqrstuvwxyz0123456789-_''"
  by code_simp

lemma url_char_inj: 
  assumes "m < 64" "n < 64" "url_char m = url_char n" shows "m = n"
proof -
  have "distinct (map url_char [0..<64])" unfolding url_table by code_simp
  with assms show ?thesis by (auto simp: distinct_map inj_on_def)
qed

lemma url_char_base64url:
  assumes "n < 64" shows "is_base64url (url_char n) \<and> url_char n \<noteq> CHR ''=''"
proof -
  have "list_all (\<lambda>c. is_base64url c \<and> c \<noteq> CHR ''='') (map url_char [0..<64])"
    unfolding url_table by code_simp
  with assms show ?thesis by (simp add: list_all_iff)
qed

definition url_safe :: "char \<Rightarrow> char" where
  "url_safe c =
     (let d = if c = CHR ''+'' then CHR ''-'' else c in if d = CHR ''/'' then CHR ''_'' else d)"

lemma url_char_replace:
  assumes "n < 64"
  shows "url_safe (base64_char n) = url_char n"
proof -
  have "map url_safe (map base64_char [0..<64]) = map url_char [0..<64]"
    unfolding url_table by code_simp
  then show ?thesis using assms by simp
qed

lemma unat_byte_less: "unat (b :: byte) < 256"
  by (rule less_le_trans [OF unsigned_less]) simp

lemma sextets_less: "n \<in> set (sextets bs) \<Longrightarrow> n < 64"
proof (induction bs rule: sextets.induct)
  case (2 a)
  then show ?case using unat_byte_less [of a] by (auto simp: Let_def)
next
  case (3 a b)
  then show ?case using unat_byte_less [of a] unat_byte_less [of b] by (auto simp: Let_def)
next
  case (4 a b c bs)
  then show ?case using unat_byte_less [of a] unat_byte_less [of b] unat_byte_less [of c]
    by (auto simp: Let_def)
qed simp

lemma length_sextets: "length (sextets bs) = (8 * length bs + 5) div 6"
  by (induction bs rule: sextets.induct) (auto simp: Let_def)

lemma btoa_sextets: "\<exists>k. btoa bs = map base64_char (sextets bs) @ replicate k CHR ''=''"
proof (induction bs rule: sextets.induct)
  case (2 a) then show ?case by (intro exI [of _ 2]) (simp add: Let_def numeral_2_eq_2)
next
  case (3 a b) then show ?case by (intro exI [of _ 1]) (simp add: Let_def)
qed (auto simp: Let_def)

lemma replace_sextets:
  "(\<And>n. n \<in> set ns \<Longrightarrow> n < 64) \<Longrightarrow>
   replace_all_char CHR ''/'' CHR ''_'' (replace_all_char CHR ''+'' CHR ''-''
     (map base64_char ns @ replicate k CHR ''='')) = map url_char ns @ replicate k CHR ''=''"
  using url_char_replace
  by (induction ns) (auto simp: replace_all_char_def url_safe_def Let_def)

lemma strip_padding:
  assumes "cs \<noteq> [] \<Longrightarrow> last cs \<noteq> x"
  shows "strip_trailing x (cs @ replicate k x) = cs"
proof -
  have pad: "dropWhile (\<lambda>c. c = x) (replicate k x @ ds) = dropWhile (\<lambda>c. c = x) ds" for ds
    by (induction k) simp_all
  show ?thesis
  proof (cases cs rule: rev_cases)
    case Nil
    have "dropWhile (\<lambda>c. c = x) (replicate k x) = []"
      using pad [of "[]"] by simp
    with Nil show ?thesis by (simp add: strip_trailing_def)
  next
    case (snoc ys y)
    with assms show ?thesis by (simp add: strip_trailing_def pad)
  qed
qed

lemma generated_secret_sextets: "generateDeviceCredentialSecret bs = map url_char (sextets bs)"
proof -
  obtain k where b: "btoa bs = map base64_char (sextets bs) @ replicate k CHR ''=''"
    using btoa_sextets by blast
  have "last (map url_char (sextets bs)) \<noteq> CHR ''=''" if "sextets bs \<noteq> []"
    using url_char_base64url [OF sextets_less [OF last_in_set [OF that]]] that by (simp add: last_map)
  then have "strip_trailing CHR ''='' (map url_char (sextets bs) @ replicate k CHR ''='')
      = map url_char (sextets bs)"
    by (intro strip_padding) simp
  then show ?thesis
    by (simp add: generateDeviceCredentialSecret_def b replace_sextets sextets_less)
qed

lemma div_mod_join:
  assumes "(n :: nat) div 64 = m div 64" "n mod 64 = m mod 64"
  shows "n = m"
proof -
  have "n = n div 64 * 64 + n mod 64" by (rule div_mult_mod_eq [symmetric])
  also have "\<dots> = m" by (simp only: assms div_mult_mod_eq)
  finally show ?thesis .
qed

lemma div_64_64: "(x :: nat) div 64 div 64 = x div 4096" "(x :: nat) div 4096 div 64 = x div 262144"
  by (simp_all flip: div_mult2_eq)

lemma sextets_join:
  assumes "(n :: nat) div 262144 = m div 262144" "n div 4096 mod 64 = m div 4096 mod 64"
    "n div 64 mod 64 = m div 64 mod 64" "n mod 64 = m mod 64"
  shows "n = m"
proof -
  have "n div 4096 = m div 4096"
    by (rule div_mod_join) (simp only: div_64_64 assms(1), rule assms(2))
  then have "n div 64 div 64 = m div 64 div 64" by (simp only: div_64_64)
  then have "n div 64 = m div 64" by (rule div_mod_join [OF _ assms(3)])
  then show ?thesis by (rule div_mod_join [OF _ assms(4)])
qed

lemma bytes_join:
  fixes a b c a' b' c' :: byte
  assumes "unat a * 65536 + unat b * 256 + unat c = unat a' * 65536 + unat b' * 256 + unat c'"
  shows "a = a' \<and> b = b' \<and> c = c'"
proof -
  note l = unat_byte_less [of b] unat_byte_less [of c] unat_byte_less [of b'] unat_byte_less [of c']
  from assms l have "unat a = unat a'" by linarith
  moreover from this assms l have "unat b = unat b'" by linarith
  ultimately show ?thesis using assms by (simp add: word_unat_eq_iff)
qed

lemma sextets_inj: "length as = length bs \<Longrightarrow> sextets as = sextets bs \<Longrightarrow> as = bs"
proof (induction as arbitrary: bs rule: sextets.induct)
  case (2 a)
  then obtain a' where bs: "bs = [a']" by (cases bs) auto
  have "unat a * 16 = unat a' * 16"
    by (rule div_mod_join) (use 2(2) bs in \<open>simp_all only: sextets.simps Let_def list.inject\<close>)
  with bs show ?case by (simp add: word_unat_eq_iff)
next
  case (3 a b)
  then obtain a' b' where bs: "bs = [a', b']" by (cases bs; cases "tl bs") auto
  let ?n = "(unat a * 256 + unat b) * 4" and ?m = "(unat a' * 256 + unat b') * 4"
  from 3(2) bs have e: "?n div 4096 = ?m div 4096" "?n div 64 mod 64 = ?m div 64 mod 64" "?n mod 64 = ?m mod 64"
    by (simp_all only: sextets.simps Let_def list.inject)
  from e(1) have "?n div 64 div 64 = ?m div 64 div 64" by (simp only: div_64_64)
  then have "?n div 64 = ?m div 64" by (rule div_mod_join [OF _ e(2)])
  then have "?n = ?m" by (rule div_mod_join [OF _ e(3)])
  with bs bytes_join [of 0 a b 0 a' b'] show ?case by simp
next
  case (4 a b c as)
  then obtain a' b' c' bs' where bs: "bs = a' # b' # c' # bs'"
    by (cases bs; cases "tl bs"; cases "tl (tl bs)") auto
  have "unat a * 65536 + unat b * 256 + unat c = unat a' * 65536 + unat b' * 256 + unat c'"
    by (rule sextets_join) (use 4(3) bs in \<open>simp_all only: sextets.simps Let_def list.inject append.simps\<close>)
  from bytes_join [OF this] have abc: "a = a' \<and> b = b' \<and> c = c'" .
  have "sextets as = sextets bs'"
    using 4(3) bs by (simp only: sextets.simps Let_def list.inject append.simps)
  then have "as = bs'" using 4(1) [OF refl, of bs'] 4(2) bs by simp
  with abc bs show ?case by simp
qed simp
section \<open>Properties\<close>

text \<open>
  C24: The secret made of 32 random bytes is 43 base64url characters, so the published schema of
  credential secrets accepts it, and different random bytes give different secrets: no entropy
  is lost in the encoding.
\<close>

theorem generated_secret_valid:
  assumes "length bytes = 32" "length other = 32"
  shows "device_credential_secret_schema (generateDeviceCredentialSecret bytes) =
      Some (generateDeviceCredentialSecret bytes) \<and>
    (generateDeviceCredentialSecret other = generateDeviceCredentialSecret bytes \<longleftrightarrow> other = bytes)"
proof (intro conjI iffI)
  have "list_all is_base64url (generateDeviceCredentialSecret bytes)"
    unfolding generated_secret_sextets
    using url_char_base64url sextets_less by (auto simp: list_all_iff)
  then show "device_credential_secret_schema (generateDeviceCredentialSecret bytes) =
      Some (generateDeviceCredentialSecret bytes)"
    using assms by (simp add: device_credential_secret_schema_def generated_secret_sextets length_sextets)
  assume "generateDeviceCredentialSecret other = generateDeviceCredentialSecret bytes"
  then have "map url_char (sextets other) = map url_char (sextets bytes)"
    by (simp only: generated_secret_sextets)
  then have "sextets other = sextets bytes"
    by (rule map_inj_on) (auto intro!: inj_onI url_char_inj dest: sextets_less)
  then show "other = bytes" using assms by (intro sextets_inj) simp_all
qed simp

lemma generated_secret_valid_witness:
  "device_credential_secret_schema (generateDeviceCredentialSecret (replicate 32 7)) =
      Some (generateDeviceCredentialSecret (replicate 32 7)) \<and>
   (generateDeviceCredentialSecret (replicate 32 8) = generateDeviceCredentialSecret (replicate 32 7) \<longleftrightarrow>
      replicate 32 8 = replicate 32 (7 :: byte))"
  by (rule generated_secret_valid) simp_all

end
