(* ===== verification/Credential_Service.thy ===== *)
theory Credential_Service
  imports Device_Credential Device_Repository Secret_Generation
begin

text \<open>
  The class \<^verbatim>\<open>DeviceCredentialService\<close> of \<^verbatim>\<open>apps/server/src/device-credential.ts\<close>, over any
  credential repository and any device repository, with the digest of secrets. SHA-256 is the platform's (\<open>sha256\<close>, a parameter); the values the clock and the
  generators return are arguments of the operations that call them.
\<close>

section \<open>Digests of secrets\<close>

definition device_credential_digest_prefix :: string where
  "device_credential_digest_prefix = ''doctmcp-device-credential:v1:''"

definition digestDeviceCredentialSecret :: "(byte list \<Rightarrow> byte list) \<Rightarrow> string \<Rightarrow> string" where
  "digestDeviceCredentialSecret sha256 secret =
     hex_bytes (sha256 (utf8_encode (device_credential_digest_prefix @ secret)))"

section \<open>The service\<close>

record issued_credential =
  iss_credential :: device_credential
  iss_secret :: string

record verified_credential =
  ver_credential :: device_credential
  ver_identity :: device_identity

definition service_require_device ::
  "'d device_repository \<Rightarrow> 'd \<Rightarrow> string \<Rightarrow> (credential_error, device) result" where
  "service_require_device D ds deviceId =
     bind_result (require InvalidCredentialInput (device_id_schema deviceId)) (\<lambda>parsed.
       case dri_getById D ds parsed of
         Inl _ \<Rightarrow> Inl CredentialStorageFailure
       | Inr None \<Rightarrow> Inl CredentialDeviceNotFound
       | Inr (Some device) \<Rightarrow> Inr device)"

definition service_require_active ::
  "'s credential_repository \<Rightarrow> 's \<Rightarrow> string \<Rightarrow> (credential_error, device_credential) result" where
  "service_require_active R s deviceId =
     bind_result (cri_getActive R s deviceId) (require CredentialUnavailable)"

definition service_issue ::
  "'s credential_repository \<Rightarrow> 'd device_repository \<Rightarrow> (byte list \<Rightarrow> byte list) \<Rightarrow> 's \<Rightarrow> 'd
     \<Rightarrow> string \<Rightarrow> string \<Rightarrow> js_date \<Rightarrow> string \<Rightarrow> ('s, credential_error, issued_credential) outcome" where
  "service_issue R D sha256 s ds secret newId now deviceId =
     try_with s (service_require_device D ds deviceId) (\<lambda>device.
       let secretDigest = digestDeviceCredentialSecret sha256 secret in
       try_with s (cred_parse_credential_id newId) (\<lambda>credentialId.
       try_with s (cred_read_time now) (\<lambda>createdAt.
         case cri_issue R s (dev_deviceId device) credentialId secretDigest (Some createdAt) of
           (s', Inl e) \<Rightarrow> (s', Inl e)
         | (s', Inr c) \<Rightarrow> (s', Inr \<lparr>iss_credential = c, iss_secret = secret\<rparr>))))"

definition service_getActive ::
  "'s credential_repository \<Rightarrow> 'd device_repository \<Rightarrow> 's \<Rightarrow> 'd \<Rightarrow> string
     \<Rightarrow> (credential_error, device_credential) result" where
  "service_getActive R D s ds deviceId =
     bind_result (service_require_device D ds deviceId) (\<lambda>device.
       service_require_active R s (dev_deviceId device))"

text \<open>The arguments of \<^verbatim>\<open>verify\<close> are of unknown type: \<open>None\<close> is a value that is not a string.\<close>

definition service_verify ::
  "'s credential_repository \<Rightarrow> 'd device_repository \<Rightarrow> (byte list \<Rightarrow> byte list) \<Rightarrow> 's \<Rightarrow> 'd
     \<Rightarrow> string option \<Rightarrow> string option \<Rightarrow> (credential_error, verified_credential) result" where
  "service_verify R D sha256 s ds deviceId secret =
     (case (deviceId, secret) of
        (Some d, Some x) \<Rightarrow>
          if x = [] then Inl CredentialUnavailable
          else bind_result (require CredentialUnavailable (device_id_schema d)) (\<lambda>parsedId.
            case dri_getById D ds parsedId of
              Inl _ \<Rightarrow> Inl CredentialStorageFailure
            | Inr None \<Rightarrow> Inl CredentialUnavailable
            | Inr (Some device) \<Rightarrow>
                bind_result (cri_verify R s (dev_deviceId device) (digestDeviceCredentialSecret sha256 x)) (\<lambda>found.
                bind_result (require CredentialUnavailable found) (\<lambda>c.
                  Inr \<lparr>ver_credential = c,
                       ver_identity = \<lparr>idn_ownerId = dev_ownerId device, idn_deviceId = dev_deviceId device\<rparr>\<rparr>)))
      | _ \<Rightarrow> Inl CredentialUnavailable)"

definition service_revoke ::
  "'s credential_repository \<Rightarrow> 'd device_repository \<Rightarrow> 's \<Rightarrow> 'd \<Rightarrow> js_date \<Rightarrow> string
     \<Rightarrow> ('s, credential_error, device_credential) outcome" where
  "service_revoke R D s ds now deviceId =
     try_with s (service_require_device D ds deviceId) (\<lambda>device.
     try_with s (service_require_active R s (dev_deviceId device)) (\<lambda>current.
     try_with s (cred_read_time now) (\<lambda>revokedAt.
       case cri_revoke R s (dev_deviceId device) (cred_credentialId current)
              (js_int (cred_version current)) (Some revokedAt) of
         (s', Inl e) \<Rightarrow> (s', Inl e)
       | (s', Inr revoked) \<Rightarrow> (s', require CredentialUnavailable revoked))))"

definition service_rotateExpectedWithCredentialId ::
  "'s credential_repository \<Rightarrow> 'd device_repository \<Rightarrow> (byte list \<Rightarrow> byte list) \<Rightarrow> 's \<Rightarrow> 'd
     \<Rightarrow> string \<Rightarrow> js_date \<Rightarrow> string \<Rightarrow> string \<Rightarrow> js_number \<Rightarrow> string
     \<Rightarrow> ('s, credential_error, issued_credential) outcome" where
  "service_rotateExpectedWithCredentialId R D sha256 s ds secret now deviceId
       expectedCredentialId expectedVersion credentialId =
     try_with s (service_require_device D ds deviceId) (\<lambda>device.
     try_with s (cred_parse_credential_id credentialId) (\<lambda>parsedCredentialId.
       let digest = digestDeviceCredentialSecret sha256 secret in
       try_with s (cred_read_time now) (\<lambda>rotatedAt.
         case cri_rotate R s (dev_deviceId device) expectedCredentialId expectedVersion
                parsedCredentialId digest (Some rotatedAt) of
           (s', Inl e) \<Rightarrow> (s', Inl e)
         | (s', Inr c) \<Rightarrow> (s', Inr \<lparr>iss_credential = c, iss_secret = secret\<rparr>))))"

definition service_rotateExpected ::
  "'s credential_repository \<Rightarrow> 'd device_repository \<Rightarrow> (byte list \<Rightarrow> byte list) \<Rightarrow> 's \<Rightarrow> 'd
     \<Rightarrow> string \<Rightarrow> string \<Rightarrow> js_date \<Rightarrow> string \<Rightarrow> string \<Rightarrow> js_number
     \<Rightarrow> ('s, credential_error, issued_credential) outcome" where
  "service_rotateExpected R D sha256 s ds secret newId now deviceId expectedCredentialId expectedVersion =
     try_with s (cred_parse_credential_id newId) (\<lambda>credentialId.
       service_rotateExpectedWithCredentialId R D sha256 s ds secret now deviceId
         expectedCredentialId expectedVersion credentialId)"

definition service_rotate ::
  "'s credential_repository \<Rightarrow> 'd device_repository \<Rightarrow> (byte list \<Rightarrow> byte list) \<Rightarrow> 's \<Rightarrow> 'd
     \<Rightarrow> string \<Rightarrow> string \<Rightarrow> js_date \<Rightarrow> string \<Rightarrow> ('s, credential_error, issued_credential) outcome" where
  "service_rotate R D sha256 s ds secret newId now deviceId =
     try_with s (service_getActive R D s ds deviceId) (\<lambda>current.
       service_rotateExpected R D sha256 s ds secret newId now (cred_deviceId current)
         (cred_credentialId current) (js_int (cred_version current)))"

lemma digest_is_sha256_hex:
  "sha256_like sha256 \<Longrightarrow> is_sha256_hex (digestDeviceCredentialSecret sha256 x)"
  by (simp add: digestDeviceCredentialSecret_def sha256_like_def is_sha256_hex_bytes)

section \<open>The service on any pair of repositories that keep their contracts\<close>

lemma service_require_device_Inr:
  "service_require_device D ds d = Inr device \<longleftrightarrow>
     (\<exists>c. device_id_schema d = Some c \<and> dri_getById D ds c = Inr (Some device))"
  by (cases "device_id_schema d")
    (auto simp: service_require_device_def split: sum.splits option.splits)

lemma service_rotate_expected_Inr:
  "service_rotateExpectedWithCredentialId R D sha256 s ds secret now d eci ev ci = (s', Inr x) \<longleftrightarrow>
     (\<exists>device ci' t. service_require_device D ds d = Inr device \<and>
        device_credential_id_schema ci = Some ci' \<and> now = Some t \<and> iss_secret x = secret \<and>
        cri_rotate R s (dev_deviceId device) eci ev ci' (digestDeviceCredentialSecret sha256 secret) (Some t)
          = (s', Inr (iss_credential x)))"
  unfolding service_rotateExpectedWithCredentialId_def Let_def cred_parse_credential_id_def cred_read_time_def
  by (auto split: try_splits prod.splits sum.splits)

lemma service_rotate_Inr:
  assumes "service_rotate R D sha256 s ds secret newId now d = (s', Inr x)"
  shows "\<exists>device current t. service_require_device D ds d = Inr device \<and>
    cri_getActive R s (dev_deviceId device) = Inr (Some current) \<and>
    service_rotateExpectedWithCredentialId R D sha256 s ds secret now (cred_deviceId current)
      (cred_credentialId current) (js_int (cred_version current)) t = (s', Inr x)"
  using assms
  by (auto simp: service_rotate_def service_getActive_def service_rotateExpected_def
      service_require_active_def bind_result_Inr split: try_splits)

lemma service_revoke_Inr:
  assumes "service_revoke R D s ds now d = (s', Inr c)"
  shows "\<exists>device (current :: device_credential) t. service_require_device D ds d = Inr device \<and>
    cri_revoke R s (dev_deviceId device) (cred_credentialId current) (js_int (cred_version current)) (Some t)
      = (s', Inr (Some c))"
  using assms unfolding service_revoke_def cred_read_time_def
  by (auto split: try_splits prod.splits sum.splits)

locale credential_service =
  cs: credential_store R abs ok + ds: device_store D dview dok
  for R :: "'s credential_repository" and abs ok and D :: "'d device_repository" and dview dok
begin

lemma device_found:
  assumes "dok ds" "device_id_schema d = Some c" "dview ds c = Some device"
  shows "service_require_device D ds d = Inr device" "dev_deviceId device = c"
    "device_id_schema c = Some c"
  using assms ds.view_key [OF assms(1,3)]
  by (auto simp: service_require_device_Inr ds.get_by_id device_id_canonical)

lemma verify_cases:
  assumes "dok ds" "ok s" and len: "sha256_like sha256"
  shows "service_verify R D sha256 s ds deviceId secret =
    (case (deviceId, secret) of
       (Some d, Some x) \<Rightarrow>
         if x = [] then Inl CredentialUnavailable
         else (case device_id_schema d of
             None \<Rightarrow> Inl CredentialUnavailable
           | Some c \<Rightarrow> (case (dview ds c, spec_active (abs s) c) of
               (Some device, Some (cred, g)) \<Rightarrow>
                 if g = digestDeviceCredentialSecret sha256 x
                 then Inr \<lparr>ver_credential = cred,
                           ver_identity = \<lparr>idn_ownerId = dev_ownerId device, idn_deviceId = c\<rparr>\<rparr>
                 else Inl CredentialUnavailable
             | _ \<Rightarrow> Inl CredentialUnavailable))
     | _ \<Rightarrow> Inl CredentialUnavailable)"
proof (cases "\<exists>d x c device. deviceId = Some d \<and> secret = Some x \<and> x \<noteq> [] \<and>
    device_id_schema d = Some c \<and> dview ds c = Some device")
  case True
  then obtain d x c device where *: "deviceId = Some d" "secret = Some x" "x \<noteq> []"
    "device_id_schema d = Some c" "dview ds c = Some device" by blast
  have "is_sha256_hex (digestDeviceCredentialSecret sha256 x)"
    by (rule digest_is_sha256_hex [OF len])
  with * device_found [OF assms(1) *(4,5)] show ?thesis
    by (auto simp: service_verify_def ds.get_by_id cs.verify [OF assms(2)] spec_verify_def
        cred_parse_device_id_def split: option.splits)
next
  case False
  then show ?thesis
    by (auto simp: service_verify_def ds.get_by_id device_id_canonical split: option.splits)
qed

lemma rotate_expected_step:
  assumes dok: "dok ds" and ok: "ok s"
    and rot: "service_rotateExpectedWithCredentialId R D sha256 s ds secret now d eci ev ci = (s', Inr x)"
  shows "\<exists>c device. device_id_schema d = Some c \<and> dview ds c = Some device \<and> iss_secret x = secret \<and> ok s' \<and>
    spec_active (abs s') c = Some (iss_credential x, digestDeviceCredentialSecret sha256 secret)"
proof -
  from rot obtain device ci' t where
    1: "service_require_device D ds d = Inr device" "iss_secret x = secret"
      "cri_rotate R s (dev_deviceId device) eci ev ci' (digestDeviceCredentialSecret sha256 secret) (Some t)
        = (s', Inr (iss_credential x))"
    by (auto simp: service_rotate_expected_Inr)
  from 1(1) dok obtain c where c: "device_id_schema d = Some c" "dview ds c = Some device"
    by (auto simp: service_require_device_Inr ds.get_by_id device_id_canonical)
  note found = device_found [OF dok c]
  from cs.rotate [OF ok 1(3)] have ok': "ok s'"
    and sp: "spec_rotate (abs s) c eci ev ci' (digestDeviceCredentialSecret sha256 secret) (Some t)
      = (abs s', Inr (iss_credential x))"
    using found by (auto dest: sound_outcome_Inr)
  from sp found(3) have "spec_active (abs s') c = Some (iss_credential x, digestDeviceCredentialSecret sha256 secret)"
    by (auto simp: spec_rotate_Inr spec_active_def spec_install_def)
  with ok' c 1(2) show ?thesis by blast
qed

text \<open>After a rotation that names the generation, the new secret authenticates.\<close>

lemma rotate_expected_verifies:
  assumes "dok ds" "ok s" "sha256_like sha256" "secret \<noteq> []"
    and "service_rotateExpectedWithCredentialId R D sha256 s ds secret now d eci ev ci = (s', Inr x)"
  shows "ok s' \<and> iss_secret x = secret \<and>
    (\<exists>ident. service_verify R D sha256 s' ds (Some d) (Some secret) =
       Inr \<lparr>ver_credential = iss_credential x, ver_identity = ident\<rparr>)"
proof -
  from rotate_expected_step [OF assms(1,2,5)] obtain c device where
    "device_id_schema d = Some c" "dview ds c = Some device" "iss_secret x = secret" "ok s'"
    "spec_active (abs s') c = Some (iss_credential x, digestDeviceCredentialSecret sha256 secret)" by blast
  then show ?thesis
    using assms(4) by (auto simp: verify_cases [OF assms(1) _ assms(3)])
qed

lemma service_issue_Inr:
  "service_issue R D sha256 s ds secret newId now d = (s', Inr x) \<longleftrightarrow>
     (\<exists>device ci t. service_require_device D ds d = Inr device \<and>
        device_credential_id_schema newId = Some ci \<and> now = Some t \<and> iss_secret x = secret \<and>
        cri_issue R s (dev_deviceId device) ci (digestDeviceCredentialSecret sha256 secret) (Some t)
          = (s', Inr (iss_credential x)))"
  unfolding service_issue_def Let_def cred_parse_credential_id_def cred_read_time_def
  by (auto split: try_splits prod.splits sum.splits)

text \<open>An issued secret authenticates.\<close>

lemma issue_verifies:
  assumes dok: "dok ds" and ok: "ok s" and len: "sha256_like sha256" and secret: "secret \<noteq> []"
    and iss: "service_issue R D sha256 s ds secret newId now d = (s', Inr x)"
  shows "ok s' \<and> iss_secret x = secret \<and>
    (\<exists>ident. service_verify R D sha256 s' ds (Some d) (Some secret) =
       Inr \<lparr>ver_credential = iss_credential x, ver_identity = ident\<rparr>)"
proof -
  from iss obtain device ci t where
    1: "service_require_device D ds d = Inr device" "iss_secret x = secret"
      "cri_issue R s (dev_deviceId device) ci (digestDeviceCredentialSecret sha256 secret) (Some t)
        = (s', Inr (iss_credential x))"
    by (auto simp: service_issue_Inr)
  from 1(1) dok obtain c where c: "device_id_schema d = Some c" "dview ds c = Some device"
    by (auto simp: service_require_device_Inr ds.get_by_id device_id_canonical)
  note found = device_found [OF dok c]
  from cs.issue [OF ok 1(3)] have ok': "ok s'"
    and sp: "spec_issue (abs s) c ci (digestDeviceCredentialSecret sha256 secret) (Some t)
      = (abs s', Inr (iss_credential x))"
    using found by (auto dest: sound_outcome_Inr)
  from sp found(3) have "spec_active (abs s') c = Some (iss_credential x, digestDeviceCredentialSecret sha256 secret)"
    by (auto simp: spec_issue_Inr spec_active_def spec_install_def active_credential_def)
  with ok' c 1(2) secret show ?thesis by (auto simp: verify_cases [OF dok ok' len])
qed

lemma rotate_step:
  assumes "dok ds" "ok s" and len: "sha256_like sha256"
    and "service_rotate R D sha256 s ds secret newId now d = (s', Inr x)"
  shows "\<exists>c device. device_id_schema d = Some c \<and> dview ds c = Some device \<and> iss_secret x = secret \<and> ok s' \<and>
    spec_active (abs s') c = Some (iss_credential x, digestDeviceCredentialSecret sha256 secret)"
proof -
  from service_rotate_Inr [OF assms(4)] obtain device current t where
    "service_rotateExpectedWithCredentialId R D sha256 s ds secret now (cred_deviceId current)
        (cred_credentialId current) (js_int (cred_version current)) t = (s', Inr x)"
    "service_require_device D ds d = Inr device" "cri_getActive R s (dev_deviceId device) = Inr (Some current)"
    by blast
  moreover from this(2) assms(1) obtain c where c: "device_id_schema d = Some c" "dview ds c = Some device"
    by (auto simp: service_require_device_Inr ds.get_by_id device_id_canonical)
  moreover note found = device_found [OF assms(1) c]
  ultimately have "cred_deviceId current = c"
    using cs.ok_spec [OF assms(2)]
    by (auto simp: cs.get_active [OF assms(2)] spec_getActive_def cred_parse_device_id_def
        spec_active_Some dest: spec_ok_latest(1))
  with rotate_expected_step [OF assms(1,2)] c found(3)
  show ?thesis
    using \<open>service_rotateExpectedWithCredentialId R D sha256 s ds secret now (cred_deviceId current)
        (cred_credentialId current) (js_int (cred_version current)) t = (s', Inr x)\<close>
    by fastforce
qed

lemma revoke_step:
  assumes "dok ds" "ok s" "service_revoke R D s ds now d = (s', Inr x)"
  shows "\<exists>c. device_id_schema d = Some c \<and> ok s' \<and> spec_active (abs s') c = None"
proof -
  from service_revoke_Inr [OF assms(3)] obtain device and current :: device_credential and t where
    1: "service_require_device D ds d = Inr device"
      "cri_revoke R s (dev_deviceId device) (cred_credentialId current) (js_int (cred_version current)) (Some t)
        = (s', Inr (Some x))"
    by blast
  from 1(1) assms(1) obtain c where c: "device_id_schema d = Some c" "dview ds c = Some device"
    by (auto simp: service_require_device_Inr ds.get_by_id device_id_canonical)
  note found = device_found [OF assms(1) c]
  from cs.revoke [OF assms(2) 1(2)] have ok': "ok s'"
    and sp: "spec_revoke (abs s) c (cred_credentialId current) (js_int (cred_version current)) (Some t)
      = (abs s', Inr (Some x))"
    using found by (auto dest: sound_outcome_Inr)
  from sp found(3) have "spec_active (abs s') c = None"
    by (auto simp: spec_revoke_Some spec_active_def)
  with c ok' show ?thesis by blast
qed

end

interpretation memory_service: credential_service
  memory_credential_repository mem_cred_abs memory_credentials_ok
  memory_device_repository mem_device_view memory_devices_ok
  by unfold_locales

section \<open>Properties\<close>

text \<open>
  C2: Authentication is uniform and exact. Over the in-memory repositories the service accepts
  precisely a non-empty secret whose digest is the one stored for the active credential of an
  existing device, and then returns that credential with the identity of the device and its
  registered owner; every other input, whatever is wrong with it (types, malformed or unknown
  id, no credential, revoked credential, wrong secret), gets the same error.
\<close>

theorem authentication_exact:
  assumes "memory_devices_ok ds" "memory_credentials_ok s" "sha256_like sha256"
  shows "service_verify memory_credential_repository memory_device_repository sha256 s ds deviceId secret =
    (case (deviceId, secret) of
       (Some d, Some x) \<Rightarrow>
         if x = [] then Inl CredentialUnavailable
         else (case device_id_schema d of
             None \<Rightarrow> Inl CredentialUnavailable
           | Some c \<Rightarrow> (case (js_get (md_records ds) c, js_get (mc_byDeviceId s) c) of
               (Some dev, Some r) \<Rightarrow>
                 if sc_state r = Active \<and> sc_secretDigest r = digestDeviceCredentialSecret sha256 x
                 then Inr \<lparr>ver_credential = credential_of_record r,
                           ver_identity = \<lparr>idn_ownerId = sd_ownerId dev, idn_deviceId = c\<rparr>\<rparr>
                 else Inl CredentialUnavailable
             | _ \<Rightarrow> Inl CredentialUnavailable))
     | _ \<Rightarrow> Inl CredentialUnavailable)"
  by (auto simp: memory_service.verify_cases [OF assms] mem_spec_active mem_device_view_def
      split: option.splits)

text \<open>
  A successful rotation through the service replaces the secret: the new secret
  authenticates immediately with the new credential, and any secret with another digest is
  refused.
\<close>

theorem service_rotation_effective:
  assumes "memory_devices_ok ds" "memory_credentials_ok s" "sha256_like sha256"
    and "service_rotate memory_credential_repository memory_device_repository sha256 s ds secret newId now d
      = (s', Inr x)" and "other \<noteq> []"
  shows "\<exists>ow c. service_verify memory_credential_repository memory_device_repository sha256 s' ds (Some d) (Some other) =
    (if digestDeviceCredentialSecret sha256 other = digestDeviceCredentialSecret sha256 secret
     then Inr \<lparr>ver_credential = iss_credential x, ver_identity = \<lparr>idn_ownerId = ow, idn_deviceId = c\<rparr>\<rparr>
     else Inl CredentialUnavailable) \<and> device_id_schema d = Some c \<and> memory_credentials_ok s'"
proof -
  from memory_service.rotate_step [OF assms(1-4)] obtain c device where
    c: "device_id_schema d = Some c" "mem_device_view ds c = Some device" "memory_credentials_ok s'"
      "spec_active (mem_cred_abs s') c = Some (iss_credential x, digestDeviceCredentialSecret sha256 secret)"
    by blast
  from c assms(5) show ?thesis
    by (auto simp: memory_service.verify_cases [OF assms(1) c(3) assms(3)])
qed

text \<open>After a successful revocation through the service no secret authenticates for the device.\<close>

theorem service_revocation_effective:
  assumes "memory_devices_ok ds" "memory_credentials_ok s" "sha256_like sha256"
    and "service_revoke memory_credential_repository memory_device_repository s ds now d = (s', Inr x)"
  shows "service_verify memory_credential_repository memory_device_repository sha256 s' ds (Some d) secret
    = Inl CredentialUnavailable"
proof -
  from memory_service.revoke_step [OF assms(1,2,4)] obtain c where
    c: "device_id_schema d = Some c" "memory_credentials_ok s'" "spec_active (mem_cred_abs s') c = None"
    by blast
  then show ?thesis
    by (auto simp: memory_service.verify_cases [OF assms(1) c(2) assms(3)] split: option.splits)
qed

section \<open>Witnesses\<close>

definition example_devices :: memory_devices where
  "example_devices = fst (mem_device_create empty_devices example_device_id (Some 5)
     \<lparr>ci_ownerId = ''owner-1'', ci_deviceName = '' laptop '',
      ci_metadata = \<lparr>md_platform = ''linux'', md_appVersion = None, md_runtimeVersion = None\<rparr>\<rparr>)"

definition example_issued :: memory_credentials where
  "example_issued = fst (service_issue memory_credential_repository memory_device_repository example_sha256
     empty_credentials example_devices ''first secret'' (example_credential_id CHR ''a'') (Some 10) example_device_id)"

text \<open>Both states written out, so that evaluations start from values.\<close>

definition example_stored_device :: memory_devices where
  "example_stored_device = \<lparr>md_records =
    [(''0a1b2c3d-1111-4111-8111-0123456789ab'',
      \<lparr>sd_deviceId = ''0a1b2c3d-1111-4111-8111-0123456789ab'', sd_ownerId = ''owner-1'', sd_deviceName = ''laptop'',
        sd_metadata = \<lparr>md_platform = ''linux'', md_appVersion = None, md_runtimeVersion = None\<rparr>,
        sd_createdAtMs = 5, sd_updatedAtMs = 5\<rparr>)]\<rparr>"

definition example_stored_credential :: memory_credentials where
  "example_stored_credential = \<lparr>mc_byDeviceId =
    [(''0a1b2c3d-1111-4111-8111-0123456789ab'',
      \<lparr>sc_credentialId = ''aaaaaaaa-2222-4222-8222-222222222222'', sc_deviceId = ''0a1b2c3d-1111-4111-8111-0123456789ab'',
        sc_version = 1, sc_secretDigest = ''7465726365732074737269663a31763a6c6169746e65646572632d6563697665'',
        sc_createdAtMs = 10, sc_state = Active, sc_revokedAtMs = None\<rparr>)],
    mc_usedCredentialIds = [''aaaaaaaa-2222-4222-8222-222222222222'']\<rparr>"

lemma example_devices_eq: "example_devices = example_stored_device"
  by code_simp

lemma example_issued_eq: "example_issued = example_stored_credential"
  by code_simp

lemma example_devices_ok: "memory_devices_ok example_devices"
  unfolding example_devices_def by (rule mem_device_create_ok [OF empty_devices_ok])

lemma mem_issue_ok [inv_intros]:
  "memory_credentials_ok s \<Longrightarrow> memory_credentials_ok (fst (mem_credential_issue s d ci g t))"
  using mem_issue_refines [of s d ci g t] by (simp add: refines_def)

lemma service_issue_ok:
  "memory_credentials_ok s \<Longrightarrow>
   memory_credentials_ok (fst (service_issue memory_credential_repository D sha256 s ds x ci now d))"
  using mem_issue_ok [of s]
  by (auto simp: service_issue_def Let_def memory_credential_repository_def
      split: try_splits prod.splits sum.splits) (metis fst_conv)+

lemma example_issued_ok: "memory_credentials_ok example_issued"
  unfolding example_issued_def by (rule service_issue_ok [OF empty_credentials_ok])

lemma authentication_exact_witness:
  "service_verify memory_credential_repository memory_device_repository example_sha256 example_issued
     example_devices (Some example_device_id) None = Inl CredentialUnavailable"
  by (simp add: authentication_exact [OF example_devices_ok example_issued_ok example_sha256_like])

lemma service_rotation_effective_witness:
  "\<exists>s' x ow c. service_rotate memory_credential_repository memory_device_repository example_sha256
      example_issued example_devices ''second secret'' (example_credential_id CHR ''b'') (Some 20) example_device_id
      = (s', Inr x) \<and>
    service_verify memory_credential_repository memory_device_repository example_sha256 s' example_devices
      (Some example_device_id) (Some ''second secret'') =
      Inr \<lparr>ver_credential = iss_credential x, ver_identity = \<lparr>idn_ownerId = ow, idn_deviceId = c\<rparr>\<rparr>"
proof -
  let ?p = "service_rotate memory_credential_repository memory_device_repository example_sha256
      example_issued example_devices ''second secret'' (example_credential_id CHR ''b'') (Some 20) example_device_id"
  have "map_sum (\<lambda>_. ()) (\<lambda>_. ()) (snd ?p) = Inr ()" unfolding example_issued_eq example_devices_eq by code_simp
  then obtain s' x where "?p = (s', Inr x)" by (cases ?p; cases "snd ?p") auto
  then show ?thesis
    using service_rotation_effective [OF example_devices_ok example_issued_ok example_sha256_like,
        of "''second secret''" "example_credential_id CHR ''b''" "Some 20" example_device_id s' x "''second secret''"]
    by auto
qed

lemma service_revocation_effective_witness:
  "\<exists>s' x. service_revoke memory_credential_repository memory_device_repository
      example_issued example_devices (Some 20) example_device_id = (s', Inr x) \<and>
    service_verify memory_credential_repository memory_device_repository example_sha256 s' example_devices
      (Some example_device_id) (Some ''first secret'') = Inl CredentialUnavailable"
proof -
  let ?p = "service_revoke memory_credential_repository memory_device_repository
      example_issued example_devices (Some 20) example_device_id"
  have "map_sum (\<lambda>_. ()) (\<lambda>_. ()) (snd ?p) = Inr ()" unfolding example_issued_eq example_devices_eq by code_simp
  then obtain s' x where "?p = (s', Inr x)" by (cases ?p; cases "snd ?p") auto
  then show ?thesis
    using service_revocation_effective [OF example_devices_ok example_issued_ok example_sha256_like] by blast
qed

end
