(* ===== verification/Pairing_Store.thy ===== *)
theory Pairing_Store
  imports Device_Repository
begin

text \<open>
  The interface \<^verbatim>\<open>PairingSessionRepository\<close> of \<^verbatim>\<open>apps/server/src/pairing.ts\<close>, the checks of
  its arguments that its implementations share, and its contract as the locale
  \<open>pairing_store\<close>: what a claim does to sessions and devices, what every operation keeps,
  and (proved from the laws) that a code is good for one device.
\<close>

section \<open>Interface\<close>

text \<open>
  The codes of \<^verbatim>\<open>PairingRepositoryError\<close>, an exception of the device repository passed through,
  and any other exception of a storage adapter.
\<close>

datatype pairing_repo_error =
  PairingSessionAlreadyExists | PairingCodeDigestAlreadyExists | PairingCodeUnavailable
| PairingSessionNotFound | PairingSessionNotPending | PairingCapacityExceeded
| InvalidPairingRecord | PairingInvalidClock
| PairingDeviceError device_repo_error | PairingStorageFailure

record create_pairing_record =
  cpr_pairingSessionId :: string
  cpr_codeDigest :: string
  cpr_createdAt :: js_date
  cpr_expiresAt :: js_date
  cpr_localCorrelationId :: "string option"

record claim_pairing_record =
  clr_codeDigest :: string
  clr_input :: claim_pairing_input

record claim_pairing_result =
  cpx_session :: pairing_session
  cpx_device :: device

text \<open>
  A claim reads the repository's clock and lets the device repository generate an id and read
  its own clock: the three values are arguments.
\<close>

record 's pairing_repository =
  pri_create :: "'s \<Rightarrow> create_pairing_record \<Rightarrow> ('s, pairing_repo_error, pairing_session) outcome"
  pri_getById :: "'s \<Rightarrow> string \<Rightarrow> (pairing_repo_error, pairing_session option) result"
  pri_claim :: "'s \<Rightarrow> js_date \<Rightarrow> string \<Rightarrow> js_date \<Rightarrow> claim_pairing_record
      \<Rightarrow> ('s, pairing_repo_error, claim_pairing_result) outcome"
  pri_cancel :: "'s \<Rightarrow> string \<Rightarrow> js_date \<Rightarrow> ('s, pairing_repo_error, pairing_session) outcome"
  pri_expire :: "'s \<Rightarrow> js_date \<Rightarrow> ('s, pairing_repo_error, nat) outcome"
  pri_pruneExpired :: "'s \<Rightarrow> js_date \<Rightarrow> ('s, pairing_repo_error, nat) outcome"

section \<open>Argument checks\<close>

definition parse_pairing_session_id :: "string \<Rightarrow> (pairing_repo_error, string) result" where
  "parse_pairing_session_id i = require InvalidPairingRecord (pairing_session_id_schema i)"

definition parse_code_digest :: "string \<Rightarrow> (pairing_repo_error, string) result" where
  "parse_code_digest g = (if is_sha256_hex g then Inr g else Inl InvalidPairingRecord)"

definition read_timestamp :: "js_date \<Rightarrow> (pairing_repo_error, int) result" where
  "read_timestamp d = require PairingInvalidClock d"

lemma parse_code_digest_Inr [simp]: "parse_code_digest g = Inr h \<longleftrightarrow> is_sha256_hex g \<and> h = g"
  by (auto simp: parse_code_digest_def)

lemma parse_code_digest_Inl [simp]: "parse_code_digest g = Inl e \<longleftrightarrow> \<not> is_sha256_hex g \<and> e = InvalidPairingRecord"
  by (auto simp: parse_code_digest_def)

section \<open>Commands\<close>

datatype pairing_command =
  CreatePairing create_pairing_record
| ClaimPairing js_date string js_date claim_pairing_record
| CancelPairing string js_date
| ExpirePairings js_date
| PrunePairings js_date

fun pairing_step :: "'s pairing_repository \<Rightarrow> 's \<Rightarrow> pairing_command \<Rightarrow> 's" where
  "pairing_step R s (CreatePairing i) = fst (pri_create R s i)"
| "pairing_step R s (ClaimPairing now g dnow i) = fst (pri_claim R s now g dnow i)"
| "pairing_step R s (CancelPairing i t) = fst (pri_cancel R s i t)"
| "pairing_step R s (ExpirePairings t) = fst (pri_expire R s t)"
| "pairing_step R s (PrunePairings t) = fst (pri_pruneExpired R s t)"

fun creates_code :: "string \<Rightarrow> pairing_command \<Rightarrow> bool" where
  "creates_code g (CreatePairing i) \<longleftrightarrow> cpr_codeDigest i = g"
| "creates_code g _ \<longleftrightarrow> False"

section \<open>The contract of the interface\<close>

text \<open>
  What is seen of a state: the session a code digest leads to, and the devices. A code is spent
  when it leads to no session or to one that is no longer pending.
\<close>

definition code_spent :: "(string \<Rightarrow> pairing_session option) \<Rightarrow> string \<Rightarrow> bool" where
  "code_spent code g \<longleftrightarrow> (\<forall>p. code g = Some p \<longrightarrow> ps_state p \<noteq> Pending)"

locale pairing_store =
  fixes R :: "'s pairing_repository"
    and code :: "'s \<Rightarrow> string \<Rightarrow> pairing_session option"
    and devices :: "'s \<Rightarrow> string \<Rightarrow> device option"
    and ok :: "'s \<Rightarrow> bool"
  assumes claim_Inr: "ok s \<Longrightarrow> pri_claim R s now gen dnow i = (t, Inr x) \<Longrightarrow>
      \<exists>p ms. code s (clr_codeDigest i) = Some p \<and> ps_state p = Pending \<and> now = Some ms \<and>
        ps_createdAt p \<le> ms \<and> ms < ps_expiresAt p \<and>
        cpx_session x = p\<lparr>ps_state := Claimed, ps_claimedAt := Some ms,
                          ps_deviceId := Some (dev_deviceId (cpx_device x))\<rparr> \<and>
        code t (clr_codeDigest i) = Some (cpx_session x) \<and>
        (\<forall>g. g \<noteq> clr_codeDigest i \<longrightarrow> code t g = code s g) \<and>
        dev_ownerId (cpx_device x) = ci_ownerId (clr_input i) \<and>
        devices s (dev_deviceId (cpx_device x)) = None \<and>
        devices t = (devices s)(dev_deviceId (cpx_device x) \<mapsto> cpx_device x)"
    and claim_Inl: "ok s \<Longrightarrow> pri_claim R s now gen dnow i = (t, Inl e) \<Longrightarrow>
      devices t = devices s \<and> (\<forall>g. code_spent (code s) g \<longrightarrow> code_spent (code t) g)"
    and claim_spent: "ok s \<Longrightarrow> code_spent (code s) (clr_codeDigest i) \<Longrightarrow>
      is_sha256_hex (clr_codeDigest i) \<Longrightarrow> now = Some ms \<Longrightarrow>
      snd (pri_claim R s now gen dnow i) = Inl PairingCodeUnavailable"
    and step_ok: "ok s \<Longrightarrow> ok (pairing_step R s c)"
    and step_devices: "ok s \<Longrightarrow> (\<forall>now g dnow i. c \<noteq> ClaimPairing now g dnow i) \<Longrightarrow>
      devices (pairing_step R s c) = devices s"
    and step_spent: "ok s \<Longrightarrow> code_spent (code s) g \<Longrightarrow> \<not> creates_code g c \<Longrightarrow>
      (\<forall>now g' dnow i. c \<noteq> ClaimPairing now g' dnow i) \<Longrightarrow> code_spent (code (pairing_step R s c)) g"
begin

lemma spent_kept:
  assumes "ok s" "code_spent (code s) g" "\<not> creates_code g c"
  shows "code_spent (code (pairing_step R s c)) g"
proof (cases "\<exists>now gen dnow i. c = ClaimPairing now gen dnow i")
  case False
  with assms show ?thesis by (intro step_spent) auto
next
  case True
  then obtain now gen dnow i where c: "c = ClaimPairing now gen dnow i" by blast
  obtain t out where r: "pri_claim R s now gen dnow i = (t, out)" by (cases "pri_claim R s now gen dnow i")
  show ?thesis
  proof (cases out)
    case (Inl e)
    with claim_Inl [OF assms(1)] r c assms(2) show ?thesis by auto
  next
    case (Inr x)
    from claim_Inr [OF assms(1) r [unfolded Inr]] assms(2) c r show ?thesis
      by (auto simp: code_spent_def) (metis option.inject)
  qed
qed

lemma spent_forever:
  assumes "ok s" "code_spent (code s) g" "\<forall>c \<in> set cs. \<not> creates_code g c"
  shows "ok (foldl (pairing_step R) s cs) \<and> code_spent (code (foldl (pairing_step R) s cs)) g"
  using assms
  by (induction cs arbitrary: s) (auto intro: step_ok spent_kept)

lemma claim_spends:
  assumes "ok s" "pri_claim R s now gen dnow i = (t, Inr x)"
  shows "code_spent (code t) (clr_codeDigest i) \<and> ok t"
  using claim_Inr [OF assms] step_ok [OF assms(1), of "ClaimPairing now gen dnow i"] assms(2)
  by (auto simp: code_spent_def)

text \<open>A code pairs at most one device: after a successful claim every later claim is refused.\<close>

lemma single_use:
  assumes "ok s" "pri_claim R s now gen dnow i = (t, Inr x)"
    and "\<forall>c \<in> set cs. \<not> creates_code (clr_codeDigest i) c"
    and "clr_codeDigest i' = clr_codeDigest i" "is_sha256_hex (clr_codeDigest i)" "now' = Some ms"
  shows "snd (pri_claim R (foldl (pairing_step R) t cs) now' gen' dnow' i') = Inl PairingCodeUnavailable"
proof -
  from claim_spends [OF assms(1,2)] assms(3)
  have "ok (foldl (pairing_step R) t cs)" "code_spent (code (foldl (pairing_step R) t cs)) (clr_codeDigest i)"
    using spent_forever by blast+
  then show ?thesis using assms(4-6) by (intro claim_spent) simp_all
qed

text \<open>Devices come into being only by a successful claim, which adds exactly one.\<close>

lemma devices_grow:
  assumes "ok s" "devices s d = Some v"
  shows "devices (pairing_step R s c) d = Some v"
proof (cases "\<exists>now gen dnow i. c = ClaimPairing now gen dnow i")
  case False
  with assms step_devices [of s c] show ?thesis by simp
next
  case True
  then obtain now gen dnow i where c: "c = ClaimPairing now gen dnow i" by blast
  obtain t out where r: "pri_claim R s now gen dnow i = (t, out)" by (cases "pri_claim R s now gen dnow i")
  show ?thesis
  proof (cases out)
    case (Inl e)
    with claim_Inl [OF assms(1)] r c assms(2) show ?thesis by auto
  next
    case (Inr x)
    from claim_Inr [OF assms(1) r [unfolded Inr]] assms(2) c r show ?thesis by auto
  qed
qed

end

end
