(* ===== verification/Pairing.thy ===== *)
theory Pairing
  imports Pairing_Store
begin

text \<open>
  The class \<^verbatim>\<open>InMemoryPairingSessionRepository\<close> of \<^verbatim>\<open>apps/server/src/pairing.ts\<close>: sessions by
  id, ids by code digest, and the bounded memory of the digests of pruned sessions. Every
  mutation runs inside the promise-chain lock of the class, device creation included, so an
  operation is one step on the pair of the repository's own state and the state of the device
  repository it holds.
\<close>

section \<open>State\<close>

record stored_pairing =
  sp_pairingSessionId :: string
  sp_codeDigest :: string
  sp_createdAtMs :: int
  sp_expiresAtMs :: int
  sp_localCorrelationId :: "string option"
  sp_state :: pairing_state
  sp_claimedAtMs :: "int option"
  sp_deviceId :: "string option"

record memory_pairings =
  mp_expiredCodeTombstones :: "string js_set"
  mp_expiredCodeTombstoneOrder :: "string list"
  mp_recordsById :: "(string, stored_pairing) js_map"
  mp_sessionIdByDigest :: "(string, string) js_map"

record pairing_limits =
  pl_maxSessions :: int
  pl_claimedRetentionMs :: int

definition empty_pairings :: memory_pairings where
  "empty_pairings =
     \<lparr>mp_expiredCodeTombstones = [], mp_expiredCodeTombstoneOrder = [],
      mp_recordsById = [], mp_sessionIdByDigest = []\<rparr>"

text \<open>The constructor refuses limits that are not positive safe integers.\<close>

definition new_memory_pairings :: "js_number \<Rightarrow> js_number \<Rightarrow> (pairing_limits \<times> memory_pairings) option" where
  "new_memory_pairings maxSessions claimedRetentionMs =
     (if \<not> js_is_safe_integer maxSessions \<or> js_le_zero maxSessions then None
      else if \<not> js_is_safe_integer claimedRetentionMs \<or> js_le_zero claimedRetentionMs then None
      else Some (\<lparr>pl_maxSessions = js_to_int maxSessions,
                  pl_claimedRetentionMs = js_to_int claimedRetentionMs\<rparr>, empty_pairings))"

definition session_candidate :: "stored_pairing \<Rightarrow> pairing_session" where
  "session_candidate r =
     (let claimed = sp_claimedAtMs r \<noteq> None \<and> sp_deviceId r \<noteq> None in
      \<lparr>ps_pairingSessionId = sp_pairingSessionId r, ps_state = sp_state r,
       ps_createdAt = sp_createdAtMs r, ps_expiresAt = sp_expiresAtMs r,
       ps_localCorrelationId = sp_localCorrelationId r,
       ps_claimedAt = (if claimed then sp_claimedAtMs r else None),
       ps_deviceId = (if claimed then sp_deviceId r else None)\<rparr>)"

definition to_session_snapshot :: "stored_pairing \<Rightarrow> (pairing_repo_error, pairing_session) result" where
  "to_session_snapshot r = require InvalidPairingRecord (pairing_session_schema (session_candidate r))"

section \<open>Pruning\<close>

definition default_tombstones :: nat where
  "default_tombstones = 100000"

text \<open>The inner loop shifts the oldest digests out while there are too many.\<close>

fun trim_tombstones :: "nat \<Rightarrow> string js_set \<Rightarrow> string list \<Rightarrow> string js_set \<times> string list" where
  "trim_tombstones cap set' [] = (set', [])"
| "trim_tombstones cap set' (oldest # order) =
     (if length (oldest # order) > cap
      then trim_tombstones cap (removeAll oldest set') order
      else (set', oldest # order))"

definition prune_at :: "pairing_limits \<Rightarrow> stored_pairing \<Rightarrow> int" where
  "prune_at L r =
     (case (sp_state r, sp_claimedAtMs r) of
        (Claimed, Some c) \<Rightarrow> c + pl_claimedRetentionMs L
      | _ \<Rightarrow> sp_expiresAtMs r)"

definition prune_record :: "string \<Rightarrow> stored_pairing \<Rightarrow> memory_pairings \<Rightarrow> memory_pairings" where
  "prune_record i r s =
     (let order = mp_expiredCodeTombstoneOrder s @ [sp_codeDigest r];
          (stones, order') = trim_tombstones default_tombstones
             (js_add (sp_codeDigest r) (mp_expiredCodeTombstones s)) order
      in s\<lparr>mp_recordsById := js_delete i (mp_recordsById s),
           mp_sessionIdByDigest := js_delete (sp_codeDigest r) (mp_sessionIdByDigest s),
           mp_expiredCodeTombstones := stones, mp_expiredCodeTombstoneOrder := order'\<rparr>)"

text \<open>The loop visits the entries present when it starts; it deletes only the entry it visits.\<close>

fun prune_loop ::
  "pairing_limits \<Rightarrow> int \<Rightarrow> (string \<times> stored_pairing) list \<Rightarrow> memory_pairings \<Rightarrow> nat \<Rightarrow> memory_pairings \<times> nat" where
  "prune_loop L expiredAtMs [] s count = (s, count)"
| "prune_loop L expiredAtMs ((i, r) # es) s count =
     (if expiredAtMs < prune_at L r then prune_loop L expiredAtMs es s count
      else prune_loop L expiredAtMs es (prune_record i r s) (count + 1))"

definition prune_expired_records :: "pairing_limits \<Rightarrow> int \<Rightarrow> memory_pairings \<Rightarrow> memory_pairings \<times> nat" where
  "prune_expired_records L expiredAtMs s = prune_loop L expiredAtMs (mp_recordsById s) s 0"

section \<open>Operations\<close>

definition set_record :: "stored_pairing \<Rightarrow> memory_pairings \<Rightarrow> memory_pairings" where
  "set_record r s = s\<lparr>mp_recordsById := js_set (sp_pairingSessionId r) r (mp_recordsById s)\<rparr>"

definition mem_pairing_create ::
  "pairing_limits \<Rightarrow> memory_pairings \<times> 'd \<Rightarrow> create_pairing_record
     \<Rightarrow> (memory_pairings \<times> 'd, pairing_repo_error, pairing_session) outcome" where
  "mem_pairing_create L sd input =
     try_with sd (parse_pairing_session_id (cpr_pairingSessionId input)) (\<lambda>pairingSessionId.
     try_with sd (parse_code_digest (cpr_codeDigest input)) (\<lambda>codeDigest.
     try_with sd (read_timestamp (cpr_createdAt input)) (\<lambda>createdAtMs.
     try_with sd (read_timestamp (cpr_expiresAt input)) (\<lambda>expiresAtMs.
     if expiresAtMs \<le> createdAtMs then (sd, Inl InvalidPairingRecord)
     else
       let s = fst (prune_expired_records L createdAtMs (fst sd));
           sd' = (s, snd sd)
       in if js_has (mp_recordsById s) pairingSessionId then (sd', Inl PairingSessionAlreadyExists)
          else if js_has (mp_sessionIdByDigest s) codeDigest
                  \<or> codeDigest \<in> set (mp_expiredCodeTombstones s) then
            (sd', Inl PairingCodeDigestAlreadyExists)
          else if int (js_size (mp_recordsById s)) \<ge> pl_maxSessions L then
            (sd', Inl PairingCapacityExceeded)
          else
            let r = \<lparr>sp_pairingSessionId = pairingSessionId, sp_codeDigest = codeDigest,
                     sp_createdAtMs = createdAtMs, sp_expiresAtMs = expiresAtMs,
                     sp_localCorrelationId = cpr_localCorrelationId input, sp_state = Pending,
                     sp_claimedAtMs = None, sp_deviceId = None\<rparr>
            in try_with sd' (to_session_snapshot r) (\<lambda>snapshot.
                 ((set_record r s
                     \<lparr>mp_sessionIdByDigest := js_set codeDigest pairingSessionId (mp_sessionIdByDigest s)\<rparr>,
                   snd sd), Inr snapshot))))))"

definition mem_pairing_getById ::
  "memory_pairings \<times> 'd \<Rightarrow> string \<Rightarrow> (pairing_repo_error, pairing_session option) result" where
  "mem_pairing_getById sd pairingSessionId =
     bind_result (parse_pairing_session_id pairingSessionId) (\<lambda>i.
       case js_get (mp_recordsById (fst sd)) i of
         None \<Rightarrow> Inr None
       | Some r \<Rightarrow> bind_result (to_session_snapshot r) (\<lambda>p. Inr (Some p)))"

definition expire_if_due :: "int \<Rightarrow> stored_pairing \<Rightarrow> stored_pairing" where
  "expire_if_due t r =
     (if sp_state r = Pending \<and> sp_expiresAtMs r \<le> t then r\<lparr>sp_state := Expired\<rparr> else r)"

definition claimed_record :: "int \<Rightarrow> string \<Rightarrow> stored_pairing \<Rightarrow> stored_pairing" where
  "claimed_record t d r =
     r\<lparr>sp_state := Claimed, sp_claimedAtMs := Some t, sp_deviceId := Some d\<rparr>"

definition find_by_digest :: "memory_pairings \<Rightarrow> string \<Rightarrow> stored_pairing option" where
  "find_by_digest s g =
     (case js_get (mp_sessionIdByDigest s) g of
        None \<Rightarrow> None
      | Some i \<Rightarrow> js_get (mp_recordsById s) i)"

definition mem_pairing_claim ::
  "'d device_repository \<Rightarrow> memory_pairings \<times> 'd \<Rightarrow> js_date \<Rightarrow> string \<Rightarrow> js_date \<Rightarrow> claim_pairing_record
     \<Rightarrow> (memory_pairings \<times> 'd, pairing_repo_error, claim_pairing_result) outcome" where
  "mem_pairing_claim D sd now generated deviceNow input =
     try_with sd (parse_code_digest (clr_codeDigest input)) (\<lambda>codeDigest.
     try_with sd (read_timestamp now) (\<lambda>claimedAtMs.
       case find_by_digest (fst sd) codeDigest of
         None \<Rightarrow> (sd, Inl PairingCodeUnavailable)
       | Some r0 \<Rightarrow>
           let r = expire_if_due claimedAtMs r0;
               s = set_record r (fst sd);
               sd' = (s, snd sd)
           in if sp_state r \<noteq> Pending then (sd', Inl PairingCodeUnavailable)
              else if claimedAtMs < sp_createdAtMs r then (sd', Inl PairingInvalidClock)
              else
                case dri_create D (snd sd) generated deviceNow (clr_input input) of
                  (d', Inl e) \<Rightarrow> ((s, d'), Inl (PairingDeviceError e))
                | (d', Inr device) \<Rightarrow>
                    let r' = claimed_record claimedAtMs (dev_deviceId device) r;
                        sd'' = (set_record r' s, d')
                    in try_with sd'' (to_session_snapshot r') (\<lambda>session.
                         (sd'', Inr \<lparr>cpx_session = session, cpx_device = device\<rparr>))))"

definition mem_pairing_cancel ::
  "memory_pairings \<times> 'd \<Rightarrow> string \<Rightarrow> js_date
     \<Rightarrow> (memory_pairings \<times> 'd, pairing_repo_error, pairing_session) outcome" where
  "mem_pairing_cancel sd pairingSessionId cancelledAt =
     try_with sd (parse_pairing_session_id pairingSessionId) (\<lambda>i.
     try_with sd (read_timestamp cancelledAt) (\<lambda>cancelledAtMs.
       case js_get (mp_recordsById (fst sd)) i of
         None \<Rightarrow> (sd, Inl PairingSessionNotFound)
       | Some r \<Rightarrow>
           if sp_state r = Pending \<and> sp_expiresAtMs r \<le> cancelledAtMs then
             let r' = r\<lparr>sp_state := Expired\<rparr>; sd' = (set_record r' (fst sd), snd sd)
             in try_with sd' (to_session_snapshot r') (\<lambda>p. (sd', Inr p))
           else if sp_state r \<noteq> Pending then (sd, Inl PairingSessionNotPending)
           else if cancelledAtMs < sp_createdAtMs r then (sd, Inl PairingInvalidClock)
           else
             let r' = r\<lparr>sp_state := Cancelled\<rparr>; sd' = (set_record r' (fst sd), snd sd)
             in try_with sd' (to_session_snapshot r') (\<lambda>p. (sd', Inr p))))"

definition mem_pairing_expire ::
  "memory_pairings \<times> 'd \<Rightarrow> js_date \<Rightarrow> (memory_pairings \<times> 'd, pairing_repo_error, nat) outcome" where
  "mem_pairing_expire sd expiredAt =
     try_with sd (read_timestamp expiredAt) (\<lambda>t.
       let due = (\<lambda>(i, r). sp_state r = Pending \<and> sp_expiresAtMs r \<le> t);
           m = mp_recordsById (fst sd)
       in (((fst sd)\<lparr>mp_recordsById := js_map_values (expire_if_due t) m\<rparr>, snd sd),
           Inr (length (filter due m))))"

definition mem_pairing_prune ::
  "pairing_limits \<Rightarrow> memory_pairings \<times> 'd \<Rightarrow> js_date
     \<Rightarrow> (memory_pairings \<times> 'd, pairing_repo_error, nat) outcome" where
  "mem_pairing_prune L sd expiredAt =
     try_with sd (read_timestamp expiredAt) (\<lambda>t.
       case prune_expired_records L t (fst sd) of (s, count) \<Rightarrow> ((s, snd sd), Inr count))"

definition memory_pairing_repository ::
  "pairing_limits \<Rightarrow> 'd device_repository \<Rightarrow> (memory_pairings \<times> 'd) pairing_repository" where
  "memory_pairing_repository L D =
     \<lparr>pri_create = mem_pairing_create L, pri_getById = mem_pairing_getById,
      pri_claim = mem_pairing_claim D, pri_cancel = mem_pairing_cancel,
      pri_expire = mem_pairing_expire, pri_pruneExpired = mem_pairing_prune L\<rparr>"

section \<open>Invariant\<close>

definition stored_pairing_ok :: "stored_pairing \<Rightarrow> bool" where
  "stored_pairing_ok r \<longleftrightarrow>
     is_sha256_hex (sp_codeDigest r) \<and>
     pairing_session_schema (session_candidate r) = Some (session_candidate r) \<and>
     (sp_state r = Claimed \<longleftrightarrow> sp_claimedAtMs r \<noteq> None) \<and>
     (sp_claimedAtMs r = None \<longleftrightarrow> sp_deviceId r = None)"

definition index_ok :: "memory_pairings \<Rightarrow> bool" where
  "index_ok s \<longleftrightarrow>
     js_map_ok (mp_recordsById s) \<and> js_map_ok (mp_sessionIdByDigest s) \<and>
     (\<forall>i r. js_get (mp_recordsById s) i = Some r \<longrightarrow>
        sp_pairingSessionId r = i \<and> stored_pairing_ok r \<and>
        js_get (mp_sessionIdByDigest s) (sp_codeDigest r) = Some i) \<and>
     (\<forall>g i. js_get (mp_sessionIdByDigest s) g = Some i \<longrightarrow>
        (\<exists>r. js_get (mp_recordsById s) i = Some r \<and> sp_codeDigest r = g))"

definition tombstones_ok :: "memory_pairings \<Rightarrow> bool" where
  "tombstones_ok s \<longleftrightarrow>
     set (mp_expiredCodeTombstones s) = set (mp_expiredCodeTombstoneOrder s) \<and>
     distinct (mp_expiredCodeTombstoneOrder s) \<and>
     length (mp_expiredCodeTombstoneOrder s) \<le> default_tombstones \<and>
     (\<forall>g \<in> set (mp_expiredCodeTombstoneOrder s). js_get (mp_sessionIdByDigest s) g = None)"

definition memory_pairings_ok :: "pairing_limits \<Rightarrow> memory_pairings \<Rightarrow> bool" where
  "memory_pairings_ok L s \<longleftrightarrow>
     index_ok s \<and> tombstones_ok s \<and> int (js_size (mp_recordsById s)) \<le> pl_maxSessions L"

lemma empty_pairings_ok: "0 \<le> pl_maxSessions L \<Longrightarrow> memory_pairings_ok L empty_pairings"
  by (simp add: memory_pairings_ok_def index_ok_def tombstones_ok_def empty_pairings_def)

lemma trim_tombstones_spec:
  assumes "set stones = set order" "distinct order" "trim_tombstones cap stones order = (stones', order')"
  shows "set stones' = set order' \<and> distinct order' \<and> length order' \<le> cap \<and> set order' \<subseteq> set order"
  using assms
proof (induction cap stones order rule: trim_tombstones.induct)
  case (2 cap stones oldest order)
  show ?case
  proof (cases "length (oldest # order) > cap")
    case True
    then have "set stones' = set order' \<and> distinct order' \<and> length order' \<le> cap \<and> set order' \<subseteq> set order"
    proof (intro "2.IH" True)
      show "set (removeAll oldest stones) = set order"
        unfolding set_removeAll "2.prems"(1) using "2.prems"(2) by simp
      show "distinct order" using "2.prems"(2) by simp
      show "trim_tombstones cap (removeAll oldest stones) order = (stones', order')"
        using "2.prems"(3) True by simp
    qed
    then show ?thesis by auto
  next
    case False
    with "2.prems"(3) have "stones' = stones" "order' = oldest # order" by simp_all
    with False "2.prems"(1,2) show ?thesis by (simp only: not_less simp_thms order_refl)
  qed
qed simp

lemma index_okD:
  assumes "index_ok s" "js_get (mp_recordsById s) i = Some r"
  shows "sp_pairingSessionId r = i" "stored_pairing_ok r"
    "js_get (mp_sessionIdByDigest s) (sp_codeDigest r) = Some i"
  using assms by (auto simp: index_ok_def)

lemma index_ok_digest:
  assumes "index_ok s" "js_get (mp_sessionIdByDigest s) g = Some i"
  shows "\<exists>r. js_get (mp_recordsById s) i = Some r \<and> sp_codeDigest r = g"
  using assms unfolding index_ok_def by blast

lemma index_ok_digest_inj:
  assumes "index_ok s" "js_get (mp_recordsById s) i = Some r" "js_get (mp_recordsById s) j = Some q"
    "sp_codeDigest r = sp_codeDigest q"
  shows "i = j"
  using index_okD(3) [OF assms(1,2)] index_okD(3) [OF assms(1,3)] assms(4) by simp

lemma find_by_digest_Some:
  assumes "index_ok s"
  shows "find_by_digest s g = Some r \<longleftrightarrow>
    js_get (mp_recordsById s) (sp_pairingSessionId r) = Some r \<and> sp_codeDigest r = g"
proof
  assume "find_by_digest s g = Some r"
  then obtain i where i: "js_get (mp_sessionIdByDigest s) g = Some i" "js_get (mp_recordsById s) i = Some r"
    by (auto simp: find_by_digest_def split: option.splits)
  with assms have "sp_codeDigest r = g" unfolding index_ok_def by (metis option.inject)
  with i index_okD(1) [OF assms i(2)]
  show "js_get (mp_recordsById s) (sp_pairingSessionId r) = Some r \<and> sp_codeDigest r = g" by simp
next
  assume "js_get (mp_recordsById s) (sp_pairingSessionId r) = Some r \<and> sp_codeDigest r = g"
  with index_okD(3) [OF assms, of "sp_pairingSessionId r" r] show "find_by_digest s g = Some r"
    by (auto simp: find_by_digest_def)
qed

lemma find_by_digest_ok:
  "index_ok s \<Longrightarrow> find_by_digest s g = Some r \<Longrightarrow>
   js_get (mp_recordsById s) (sp_pairingSessionId r) = Some r \<and> sp_codeDigest r = g \<and> stored_pairing_ok r"
  using find_by_digest_Some index_okD(2) by blast

section \<open>Pruning keeps the invariant\<close>

lemma prune_record_sel [simp]:
  "mp_recordsById (prune_record i r s) = js_delete i (mp_recordsById s)"
  "mp_sessionIdByDigest (prune_record i r s) = js_delete (sp_codeDigest r) (mp_sessionIdByDigest s)"
  by (simp_all add: prune_record_def Let_def split: prod.splits)

lemma prune_record_index_ok:
  assumes "index_ok s" "js_get (mp_recordsById s) i = Some r"
  shows "index_ok (prune_record i r s)"
proof -
  note r = index_okD [OF assms]
  have "js_get (mp_sessionIdByDigest s) (sp_codeDigest q) = Some j \<and> sp_codeDigest q \<noteq> sp_codeDigest r"
    if "js_get (mp_recordsById s) j = Some q" "j \<noteq> i" for j q
    using index_okD(3) [OF assms(1) that(1)] index_ok_digest_inj [OF assms(1) that(1) assms(2)] that(2) by blast
  moreover have "\<exists>q. js_get (mp_recordsById s) j = Some q \<and> sp_codeDigest q = g \<and> j \<noteq> i"
    if "js_get (mp_sessionIdByDigest s) g = Some j" "g \<noteq> sp_codeDigest r" for g j
    using assms that unfolding index_ok_def by (metis option.inject)
  ultimately show ?thesis
    using assms(1) by (auto simp: index_ok_def)
qed

lemma prune_record_tombstones_ok:
  assumes "tombstones_ok s" "index_ok s" "js_get (mp_recordsById s) i = Some r"
  shows "tombstones_ok (prune_record i r s)"
proof -
  let ?order = "mp_expiredCodeTombstoneOrder s @ [sp_codeDigest r]"
  obtain stones order where t: "trim_tombstones default_tombstones
      (js_add (sp_codeDigest r) (mp_expiredCodeTombstones s)) ?order = (stones, order)"
    by fastforce
  have "js_get (mp_sessionIdByDigest s) (sp_codeDigest r) \<noteq> None"
    using index_okD(3) [OF assms(2,3)] by simp
  then have "sp_codeDigest r \<notin> set (mp_expiredCodeTombstoneOrder s)"
    using assms(1) by (auto simp: tombstones_ok_def)
  then have "set stones = set order \<and> distinct order \<and> length order \<le> default_tombstones \<and> set order \<subseteq> set ?order"
    using assms(1) by (intro trim_tombstones_spec [OF _ _ t]) (auto simp: tombstones_ok_def)
  then show ?thesis
    using assms(1) t by (auto simp: tombstones_ok_def prune_record_def)
qed

lemma prune_loop_ok:
  assumes "index_ok s" "tombstones_ok s" "distinct (map fst es)"
    "\<And>i r. (i, r) \<in> set es \<Longrightarrow> js_get (mp_recordsById s) i = Some r"
    "prune_loop L t es s n = (s', m)"
  shows "index_ok s' \<and> tombstones_ok s' \<and> js_size (mp_recordsById s') \<le> js_size (mp_recordsById s) \<and>
    (\<forall>i. js_get (mp_recordsById s') i =
       (case js_get (mp_recordsById s) i of
          None \<Rightarrow> None
        | Some r \<Rightarrow> if (i, r) \<in> set es \<and> prune_at L r \<le> t then None else Some r))"
  using assms
proof (induction L t es s n rule: prune_loop.induct)
  case (1 L t s n)
  then show ?case by (simp split: option.splits)
next
  case (2 L t i r es s n)
  show ?case
  proof (cases "t < prune_at L r")
    case True
    have "index_ok s' \<and> tombstones_ok s' \<and> js_size (mp_recordsById s') \<le> js_size (mp_recordsById s) \<and>
      (\<forall>j. js_get (mp_recordsById s') j =
         (case js_get (mp_recordsById s) j of
            None \<Rightarrow> None
          | Some q \<Rightarrow> if (j, q) \<in> set es \<and> prune_at L q \<le> t then None else Some q))"
      using True 2(3,4,5,7) 2(6) by (intro 2(1)) auto
    with True show ?thesis by (auto split: option.splits)
  next
    case False
    have r: "js_get (mp_recordsById s) i = Some r" using 2(6) by simp
    let ?s = "prune_record i r s"
    have fresh: "i \<notin> fst ` set es" using 2(5) by simp
    have es: "js_get (mp_recordsById ?s) j = Some q" if "(j, q) \<in> set es" for j q
      using 2(6) [of j q] that fresh by (auto simp: rev_image_eqI)
    have "index_ok s' \<and> tombstones_ok s' \<and> js_size (mp_recordsById s') \<le> js_size (mp_recordsById ?s) \<and>
      (\<forall>j. js_get (mp_recordsById s') j =
         (case js_get (mp_recordsById ?s) j of
            None \<Rightarrow> None
          | Some q \<Rightarrow> if (j, q) \<in> set es \<and> prune_at L q \<le> t then None else Some q))"
      using False 2(5,7) es prune_record_index_ok [OF 2(3) r] prune_record_tombstones_ok [OF 2(4,3) r]
      by (intro 2(2)) simp_all
    with False r js_size_delete_le [of i "mp_recordsById s"] show ?thesis
      by (auto split: option.splits)
  qed
qed

lemma prune_expired_spec:
  assumes "memory_pairings_ok L s" "prune_expired_records L t s = (s', n)"
  shows "memory_pairings_ok L s' \<and>
    (\<forall>i. js_get (mp_recordsById s') i =
       (case js_get (mp_recordsById s) i of
          None \<Rightarrow> None
        | Some r \<Rightarrow> if prune_at L r \<le> t then None else Some r))"
proof -
  from assms(1) have ok: "index_ok s" "tombstones_ok s" "js_map_ok (mp_recordsById s)"
    by (auto simp: memory_pairings_ok_def index_ok_def)
  note * = prune_loop_ok [OF ok(1,2,3) _ assms(2) [unfolded prune_expired_records_def]]
  from ok(3) have mem: "(i, r) \<in> set (mp_recordsById s) \<longleftrightarrow> js_get (mp_recordsById s) i = Some r" for i r
    by (rule js_get_in_set)
  from * [unfolded mem] assms(1) show ?thesis
    by (auto simp: memory_pairings_ok_def mem split: option.splits)
qed

lemma prune_find:
  assumes "memory_pairings_ok L s" "prune_expired_records L t s = (s', n)"
  shows "find_by_digest s' g =
    (case find_by_digest s g of None \<Rightarrow> None | Some r \<Rightarrow> if prune_at L r \<le> t then None else Some r)"
proof -
  from prune_expired_spec [OF assms] assms(1) have ok: "index_ok s" "index_ok s'"
    and get: "\<And>i. js_get (mp_recordsById s') i =
       (case js_get (mp_recordsById s) i of
          None \<Rightarrow> None
        | Some r \<Rightarrow> if prune_at L r \<le> t then None else Some r)"
    by (auto simp: memory_pairings_ok_def)
  have *: "find_by_digest s' g = Some r \<longleftrightarrow> find_by_digest s g = Some r \<and> \<not> prune_at L r \<le> t" for r
    unfolding find_by_digest_Some [OF ok(1)] find_by_digest_Some [OF ok(2)] get
    by (auto split: option.splits)
  show ?thesis
  proof (cases "find_by_digest s' g")
    case None
    have "find_by_digest s g = Some r \<Longrightarrow> prune_at L r \<le> t" for r
      using * [of r] None by simp
    with None show ?thesis by (simp split: option.splits)
  next
    case (Some r)
    with * [of r] show ?thesis by simp
  qed
qed

section \<open>Changing one record\<close>

lemma session_schema_self:
  "pairing_session_schema p = Some p \<longleftrightarrow>
     pairing_session_id_schema (ps_pairingSessionId p) = Some (ps_pairingSessionId p) \<and>
     optional_schema pairing_correlation_id_schema (ps_localCorrelationId p) = Some (ps_localCorrelationId p) \<and>
     optional_schema device_id_schema (ps_deviceId p) = Some (ps_deviceId p) \<and>
     pairing_session_refined p"
  (is "?l \<longleftrightarrow> ?r")
proof
  assume l: ?l
  then obtain i c d where *: "pairing_session_id_schema (ps_pairingSessionId p) = Some i"
    "optional_schema pairing_correlation_id_schema (ps_localCorrelationId p) = Some c"
    "optional_schema device_id_schema (ps_deviceId p) = Some d" "pairing_session_refined p"
    by (auto simp: pairing_session_schema_def split: option.splits if_splits)
  with l have "p\<lparr>ps_pairingSessionId := i, ps_localCorrelationId := c, ps_deviceId := d\<rparr> = p"
    by (simp add: pairing_session_schema_def)
  then have "i = ps_pairingSessionId p" "c = ps_localCorrelationId p" "d = ps_deviceId p"
    by (metis pairing_session.select_convs pairing_session.surjective pairing_session.update_convs)+
  with * show ?r by simp
next
  assume ?r
  then show ?l by (simp add: pairing_session_schema_def)
qed

lemma pending_unclaimed:
  "stored_pairing_ok r \<Longrightarrow> sp_state r = Pending \<Longrightarrow> sp_claimedAtMs r = None \<and> sp_deviceId r = None"
  by (auto simp: stored_pairing_ok_def)

lemma close_record_ok:
  assumes "stored_pairing_ok r" "sp_state r = Pending" "x = Expired \<or> x = Cancelled"
  shows "stored_pairing_ok (r\<lparr>sp_state := x\<rparr>)"
    and "to_session_snapshot (r\<lparr>sp_state := x\<rparr>) = Inr (session_candidate (r\<lparr>sp_state := x\<rparr>))"
  using assms
  by (auto simp: stored_pairing_ok_def session_schema_self to_session_snapshot_def session_candidate_def
      pairing_session_refined_def)

lemma claimed_record_ok:
  assumes "stored_pairing_ok r" "sp_state r = Pending" "sp_createdAtMs r \<le> t" "t < sp_expiresAtMs r"
    "device_id_schema d = Some d"
  shows "stored_pairing_ok (claimed_record t d r)"
    and "to_session_snapshot (claimed_record t d r) = Inr (session_candidate (claimed_record t d r))"
    and "session_candidate (claimed_record t d r) =
      (session_candidate r)\<lparr>ps_state := Claimed, ps_claimedAt := Some t, ps_deviceId := Some d\<rparr>"
  using assms
  by (auto simp: stored_pairing_ok_def session_schema_self to_session_snapshot_def session_candidate_def
      pairing_session_refined_def claimed_record_def optional_schema_def)

lemma set_record_spec:
  assumes "memory_pairings_ok L s" "js_get (mp_recordsById s) (sp_pairingSessionId r) = Some r"
    "sp_pairingSessionId r' = sp_pairingSessionId r" "sp_codeDigest r' = sp_codeDigest r" "stored_pairing_ok r'"
  shows "memory_pairings_ok L (set_record r' s)"
    and "find_by_digest (set_record r' s) g = (if g = sp_codeDigest r then Some r' else find_by_digest s g)"
proof -
  from assms(1) have ok: "index_ok s" by (simp add: memory_pairings_ok_def)
  note r = index_okD [OF ok assms(2)]
  have digests: "mp_sessionIdByDigest (set_record r' s) = mp_sessionIdByDigest s"
    by (simp add: set_record_def)
  have get: "js_get (mp_recordsById (set_record r' s)) i =
      (if i = sp_pairingSessionId r then Some r' else js_get (mp_recordsById s) i)" for i
    by (simp add: set_record_def assms(3))
  have ix: "index_ok (set_record r' s)"
    unfolding index_ok_def get digests
  proof (intro conjI allI impI)
    show "js_map_ok (mp_recordsById (set_record r' s))" "js_map_ok (mp_sessionIdByDigest s)"
      using ok by (auto simp: index_ok_def set_record_def)
    fix i q assume q: "(if i = sp_pairingSessionId r then Some r' else js_get (mp_recordsById s) i) = Some q"
    show "sp_pairingSessionId q = i" "stored_pairing_ok q"
      "js_get (mp_sessionIdByDigest s) (sp_codeDigest q) = Some i"
      using q r assms(3-5) index_okD [OF ok] by (auto split: if_splits)
  next
    fix g i assume "js_get (mp_sessionIdByDigest s) g = Some i"
    then obtain q where "js_get (mp_recordsById s) i = Some q" "sp_codeDigest q = g"
      using index_ok_digest [OF ok] by blast
    then show "\<exists>q. (if i = sp_pairingSessionId r then Some r' else js_get (mp_recordsById s) i) = Some q
        \<and> sp_codeDigest q = g"
      using assms(2,4) by auto
  qed
  then show "memory_pairings_ok L (set_record r' s)"
    using assms(1,2) by (auto simp: memory_pairings_ok_def tombstones_ok_def set_record_def js_size_set assms(3))
  have inj: "sp_pairingSessionId q = sp_pairingSessionId r"
    if "js_get (mp_recordsById s) (sp_pairingSessionId q) = Some q" "sp_codeDigest q = sp_codeDigest r" for q
    using index_ok_digest_inj [OF ok that(1) assms(2) that(2)] .
  show "find_by_digest (set_record r' s) g = (if g = sp_codeDigest r then Some r' else find_by_digest s g)"
  proof (cases "g = sp_codeDigest r")
    case True
    have "find_by_digest (set_record r' s) g = Some r'"
      unfolding find_by_digest_Some [OF ix] get using True assms(3,4) by simp
    with True show ?thesis by simp
  next
    case False
    have "find_by_digest (set_record r' s) g = Some q \<longleftrightarrow> find_by_digest s g = Some q" for q
    proof (cases "sp_pairingSessionId q = sp_pairingSessionId r")
      case True
      then have "find_by_digest (set_record r' s) g \<noteq> Some q" "find_by_digest s g \<noteq> Some q"
        unfolding find_by_digest_Some [OF ix] find_by_digest_Some [OF ok] get
        using False assms(2,4) by auto
      then show ?thesis by simp
    next
      case False
      then show ?thesis
        unfolding find_by_digest_Some [OF ix] find_by_digest_Some [OF ok] get by simp
    qed
    with False show ?thesis by (simp add: option_eq_by_Some)
  qed
qed

section \<open>What each operation does\<close>

definition add_record :: "stored_pairing \<Rightarrow> memory_pairings \<Rightarrow> memory_pairings" where
  "add_record r s = set_record r s
     \<lparr>mp_sessionIdByDigest := js_set (sp_codeDigest r) (sp_pairingSessionId r) (mp_sessionIdByDigest s)\<rparr>"

lemma add_record_spec:
  assumes "memory_pairings_ok L s" "stored_pairing_ok r"
    "js_get (mp_recordsById s) (sp_pairingSessionId r) = None"
    "js_get (mp_sessionIdByDigest s) (sp_codeDigest r) = None"
    "sp_codeDigest r \<notin> set (mp_expiredCodeTombstones s)"
    "int (js_size (mp_recordsById s)) < pl_maxSessions L"
  shows "memory_pairings_ok L (add_record r s)"
    and "find_by_digest (add_record r s) g = (if g = sp_codeDigest r then Some r else find_by_digest s g)"
proof -
  from assms(1) have ok: "index_ok s" by (simp add: memory_pairings_ok_def)
  have gets: "js_get (mp_recordsById (add_record r s)) i =
      (if i = sp_pairingSessionId r then Some r else js_get (mp_recordsById s) i)"
    "js_get (mp_sessionIdByDigest (add_record r s)) h =
      (if h = sp_codeDigest r then Some (sp_pairingSessionId r) else js_get (mp_sessionIdByDigest s) h)" for i h
    by (simp_all add: add_record_def set_record_def)
  have ix: "index_ok (add_record r s)"
    unfolding index_ok_def gets
  proof (intro conjI allI impI)
    show "js_map_ok (mp_recordsById (add_record r s))" "js_map_ok (mp_sessionIdByDigest (add_record r s))"
      using ok by (auto simp: index_ok_def add_record_def set_record_def)
    fix i q assume q: "(if i = sp_pairingSessionId r then Some r else js_get (mp_recordsById s) i) = Some q"
    show "sp_pairingSessionId q = i" "stored_pairing_ok q"
      "(if sp_codeDigest q = sp_codeDigest r then Some (sp_pairingSessionId r)
        else js_get (mp_sessionIdByDigest s) (sp_codeDigest q)) = Some i"
      using q assms(2,4) index_okD [OF ok, of i q] by (auto split: if_splits)
  next
    fix g i assume g: "(if g = sp_codeDigest r then Some (sp_pairingSessionId r)
        else js_get (mp_sessionIdByDigest s) g) = Some i"
    show "\<exists>q. (if i = sp_pairingSessionId r then Some r else js_get (mp_recordsById s) i) = Some q
        \<and> sp_codeDigest q = g"
    proof (cases "g = sp_codeDigest r")
      case True
      with g show ?thesis by auto
    next
      case False
      with g obtain q where "js_get (mp_recordsById s) i = Some q" "sp_codeDigest q = g"
        using index_ok_digest [OF ok, of g i] by auto
      then show ?thesis using assms(3) by auto
    qed
  qed
  have "tombstones_ok s" using assms(1) by (simp add: memory_pairings_ok_def)
  then have "tombstones_ok (add_record r s)"
    using assms(5) by (auto simp: tombstones_ok_def gets) (auto simp: add_record_def set_record_def)
  with ix show "memory_pairings_ok L (add_record r s)"
    using assms(3,6) by (simp add: memory_pairings_ok_def add_record_def set_record_def js_size_set)
  show "find_by_digest (add_record r s) g = (if g = sp_codeDigest r then Some r else find_by_digest s g)"
  proof (rule option_eq_by_Some)
    fix q
    have fresh: "js_get (mp_recordsById s) (sp_pairingSessionId q) = Some q \<Longrightarrow>
        sp_pairingSessionId q \<noteq> sp_pairingSessionId r \<and> sp_codeDigest q \<noteq> sp_codeDigest r"
      using assms(3,4) index_okD(3) [OF ok] by force
    have "(if g = sp_codeDigest r then Some r else find_by_digest s g) = Some q \<longleftrightarrow>
        (if g = sp_codeDigest r then q = r
         else js_get (mp_recordsById s) (sp_pairingSessionId q) = Some q \<and> sp_codeDigest q = g)"
      by (auto simp: find_by_digest_Some [OF ok])
    with fresh show "find_by_digest (add_record r s) g = Some q \<longleftrightarrow>
        (if g = sp_codeDigest r then Some r else find_by_digest s g) = Some q"
      unfolding find_by_digest_Some [OF ix] gets by auto
  qed
qed

definition pending_record :: "string \<Rightarrow> create_pairing_record \<Rightarrow> int \<Rightarrow> int \<Rightarrow> stored_pairing" where
  "pending_record d i tc te =
     \<lparr>sp_pairingSessionId = d, sp_codeDigest = cpr_codeDigest i, sp_createdAtMs = tc,
      sp_expiresAtMs = te, sp_localCorrelationId = cpr_localCorrelationId i, sp_state = Pending,
      sp_claimedAtMs = None, sp_deviceId = None\<rparr>"

lemma create_Inr:
  "mem_pairing_create L sd i = (t, Inr p) \<longleftrightarrow>
     (\<exists>d tc te s. pairing_session_id_schema (cpr_pairingSessionId i) = Some d \<and>
        is_sha256_hex (cpr_codeDigest i) \<and> cpr_createdAt i = Some tc \<and> cpr_expiresAt i = Some te \<and> tc < te \<and>
        s = fst (prune_expired_records L tc (fst sd)) \<and>
        js_get (mp_recordsById s) d = None \<and> js_get (mp_sessionIdByDigest s) (cpr_codeDigest i) = None \<and>
        cpr_codeDigest i \<notin> set (mp_expiredCodeTombstones s) \<and>
        int (js_size (mp_recordsById s)) < pl_maxSessions L \<and>
        to_session_snapshot (pending_record d i tc te) = Inr p \<and>
        t = (add_record (pending_record d i tc te) s, snd sd))"
  unfolding mem_pairing_create_def Let_def parse_pairing_session_id_def read_timestamp_def
    pending_record_def [symmetric]
  by (auto split: try_splits if_splits simp: add_record_def pending_record_def)

lemma create_Inl:
  "mem_pairing_create L sd i = (t, Inl e) \<Longrightarrow>
   snd t = snd sd \<and> (t = sd \<or> (\<exists>tc. fst t = fst (prune_expired_records L tc (fst sd))))"
  unfolding mem_pairing_create_def Let_def
  by (auto split: try_splits if_splits)

lemma pending_record_ok:
  assumes "to_session_snapshot (pending_record d i tc te) = Inr p" "is_sha256_hex (cpr_codeDigest i)"
    "pairing_session_id_schema (cpr_pairingSessionId i) = Some d"
  shows "stored_pairing_ok (pending_record d i tc te)" "p = session_candidate (pending_record d i tc te)"
proof -
  let ?c = "session_candidate (pending_record d i tc te)"
  from assms(1) have p: "pairing_session_schema ?c = Some p"
    by (simp add: to_session_snapshot_def)
  have "pairing_session_schema ?c = Some ?c"
    using p pairing_session_id_canonical [OF assms(3)]
    by (auto simp: pairing_session_schema_def session_candidate_def optional_schema_def pending_record_def
        pairing_correlation_id_schema_def split: option.splits if_splits)
  with p assms(2) show "stored_pairing_ok (pending_record d i tc te)" "p = ?c"
    by (simp_all add: stored_pairing_ok_def) (simp_all add: pending_record_def)
qed

lemma create_spec:
  assumes "memory_pairings_ok L (fst sd)" "mem_pairing_create L sd i = (t, out)"
  shows "memory_pairings_ok L (fst t)" "snd t = snd sd"
    and "g \<noteq> cpr_codeDigest i \<Longrightarrow> find_by_digest (fst t) g = None \<or>
       find_by_digest (fst t) g = find_by_digest (fst sd) g"
proof -
  have pruned: "memory_pairings_ok L (fst (prune_expired_records L tc (fst sd))) \<and>
    (find_by_digest (fst (prune_expired_records L tc (fst sd))) g = None \<or>
     find_by_digest (fst (prune_expired_records L tc (fst sd))) g = find_by_digest (fst sd) g)" for tc g
    using prune_expired_spec [OF assms(1)] prune_find [OF assms(1)]
    by (cases "prune_expired_records L tc (fst sd)") (auto split: option.splits)
  have "memory_pairings_ok L (fst t) \<and> snd t = snd sd \<and> (g \<noteq> cpr_codeDigest i \<longrightarrow>
      find_by_digest (fst t) g = None \<or> find_by_digest (fst t) g = find_by_digest (fst sd) g)"
  proof (cases out)
    case (Inl e)
    from create_Inl [OF assms(2) [unfolded Inl]] have "snd t = snd sd"
      and "t = sd \<or> (\<exists>tc. fst t = fst (prune_expired_records L tc (fst sd)))" by blast+
    then show ?thesis using pruned [of _ g] assms(1) by metis
  next
    case (Inr p)
    from assms(2) [unfolded Inr create_Inr] obtain d tc te s where
      *: "pairing_session_id_schema (cpr_pairingSessionId i) = Some d" "is_sha256_hex (cpr_codeDigest i)"
        "s = fst (prune_expired_records L tc (fst sd))"
        "js_get (mp_recordsById s) d = None" "js_get (mp_sessionIdByDigest s) (cpr_codeDigest i) = None"
        "cpr_codeDigest i \<notin> set (mp_expiredCodeTombstones s)"
        "int (js_size (mp_recordsById s)) < pl_maxSessions L"
        "to_session_snapshot (pending_record d i tc te) = Inr p"
        "t = (add_record (pending_record d i tc te) s, snd sd)"
      by blast
    have sel: "sp_pairingSessionId (pending_record d i tc te) = d"
      "sp_codeDigest (pending_record d i tc te) = cpr_codeDigest i"
      by (simp_all add: pending_record_def)
    have ok: "memory_pairings_ok L s" using pruned *(3) by simp
    have "memory_pairings_ok L (fst t)"
      "find_by_digest (fst t) g = (if g = cpr_codeDigest i then Some (pending_record d i tc te) else find_by_digest s g)"
      using add_record_spec [OF ok pending_record_ok(1) [OF *(8,2,1)]] * sel by simp_all
    with pruned [of tc g] * show ?thesis by simp
  qed
  then show "memory_pairings_ok L (fst t)" "snd t = snd sd"
    and "g \<noteq> cpr_codeDigest i \<Longrightarrow> find_by_digest (fst t) g = None \<or>
       find_by_digest (fst t) g = find_by_digest (fst sd) g" by auto
qed

lemma cancel_cases:
  assumes "mem_pairing_cancel sd i tIn = (t, out)"
  shows "(t = sd \<and> (\<exists>e. out = Inl e)) \<or>
    (\<exists>d tc r x. pairing_session_id_schema i = Some d \<and> tIn = Some tc \<and>
       js_get (mp_recordsById (fst sd)) d = Some r \<and> sp_state r = Pending \<and>
       x = (if sp_expiresAtMs r \<le> tc then Expired else Cancelled) \<and>
       t = (set_record (r\<lparr>sp_state := x\<rparr>) (fst sd), snd sd) \<and>
       out = to_session_snapshot (r\<lparr>sp_state := x\<rparr>))"
  using assms
  unfolding mem_pairing_cancel_def Let_def parse_pairing_session_id_def read_timestamp_def
  by (auto split: try_splits option.splits if_splits)

lemma cancel_spec:
  assumes "memory_pairings_ok L (fst sd)" "mem_pairing_cancel sd i tIn = (t, out)"
  shows "memory_pairings_ok L (fst t) \<and> snd t = snd sd \<and>
    (find_by_digest (fst t) g = find_by_digest (fst sd) g \<or>
     (\<exists>r. find_by_digest (fst t) g = Some r \<and> sp_state r \<noteq> Pending))"
  using cancel_cases [OF assms(2)]
proof (elim disjE exE conjE)
  fix d tc r x
  assume r: "js_get (mp_recordsById (fst sd)) d = Some r" "sp_state r = Pending"
    and x: "x = (if sp_expiresAtMs r \<le> tc then Expired else Cancelled)"
    and t: "t = (set_record (r\<lparr>sp_state := x\<rparr>) (fst sd), snd sd)"
  from assms(1) have ok: "index_ok (fst sd)" by (simp add: memory_pairings_ok_def)
  note d = index_okD [OF ok r(1)]
  have "stored_pairing_ok (r\<lparr>sp_state := x\<rparr>)" by (rule close_record_ok(1) [OF d(2) r(2)]) (simp add: x)
  with set_record_spec [OF assms(1), of r "r\<lparr>sp_state := x\<rparr>"] r d x t show ?thesis by auto
qed (use assms(1) in auto)

lemma expire_if_due_ok:
  assumes "stored_pairing_ok r"
  shows "stored_pairing_ok (expire_if_due t r)" "sp_pairingSessionId (expire_if_due t r) = sp_pairingSessionId r"
    "sp_codeDigest (expire_if_due t r) = sp_codeDigest r"
  using assms close_record_ok(1) [of r Expired] by (auto simp: expire_if_due_def)

lemma expire_spec:
  assumes "memory_pairings_ok L (fst sd)" "mem_pairing_expire sd tIn = (t, out)"
  shows "memory_pairings_ok L (fst t) \<and> snd t = snd sd \<and>
    (case tIn of None \<Rightarrow> t = sd
     | Some ms \<Rightarrow> find_by_digest (fst t) g = map_option (expire_if_due ms) (find_by_digest (fst sd) g))"
proof (cases tIn)
  case None
  with assms show ?thesis by (auto simp: mem_pairing_expire_def read_timestamp_def)
next
  case (Some ms)
  let ?s = "fst sd" and ?t = "(fst sd)\<lparr>mp_recordsById := js_map_values (expire_if_due ms) (mp_recordsById (fst sd))\<rparr>"
  from Some assms(2) have t: "t = (?t, snd sd)"
    by (auto simp: mem_pairing_expire_def read_timestamp_def Let_def)
  from assms(1) have ok: "index_ok ?s" by (simp add: memory_pairings_ok_def)
  have "index_ok ?t"
    unfolding index_ok_def
  proof (intro conjI allI impI)
    show "js_map_ok (mp_recordsById ?t)" "js_map_ok (mp_sessionIdByDigest ?t)"
      using ok by (simp_all add: index_ok_def)
    fix i q assume "js_get (mp_recordsById ?t) i = Some q"
    then obtain r where r: "js_get (mp_recordsById ?s) i = Some r" "q = expire_if_due ms r" by auto
    from index_okD [OF ok r(1)] expire_if_due_ok [of r ms]
    show "sp_pairingSessionId q = i" "stored_pairing_ok q"
      "js_get (mp_sessionIdByDigest ?t) (sp_codeDigest q) = Some i"
      by (simp_all add: r(2))
  next
    fix g i assume "js_get (mp_sessionIdByDigest ?t) g = Some i"
    then obtain r where "js_get (mp_recordsById ?s) i = Some r" "sp_codeDigest r = g"
      using index_ok_digest [OF ok] by auto
    with index_okD(2) [OF ok this(1)] expire_if_due_ok(3) [of r ms]
    show "\<exists>q. js_get (mp_recordsById ?t) i = Some q \<and> sp_codeDigest q = g" by simp
  qed
  moreover have "find_by_digest ?t g = map_option (expire_if_due ms) (find_by_digest ?s g)"
    by (simp add: find_by_digest_def split: option.split)
  ultimately show ?thesis
    using assms(1) Some t by (simp add: memory_pairings_ok_def tombstones_ok_def)
qed

lemma prune_spec:
  assumes "memory_pairings_ok L (fst sd)" "mem_pairing_prune L sd tIn = (t, out)"
  shows "memory_pairings_ok L (fst t) \<and> snd t = snd sd \<and>
    (find_by_digest (fst t) g = find_by_digest (fst sd) g \<or> find_by_digest (fst t) g = None)"
proof (cases tIn)
  case None
  with assms show ?thesis by (auto simp: mem_pairing_prune_def read_timestamp_def)
next
  case (Some ms)
  obtain s n where s: "prune_expired_records L ms (fst sd) = (s, n)" by fastforce
  with Some assms(2) have "t = (s, snd sd)"
    by (simp add: mem_pairing_prune_def read_timestamp_def)
  with prune_expired_spec [OF assms(1) s] prune_find [OF assms(1) s, of g] show ?thesis
    by (simp split: option.splits)
qed

section \<open>Claims\<close>

definition claim_attempt ::
  "'d device_repository \<Rightarrow> memory_pairings \<times> 'd \<Rightarrow> js_date \<Rightarrow> string \<Rightarrow> js_date \<Rightarrow> claim_pairing_record
     \<Rightarrow> int \<Rightarrow> stored_pairing \<Rightarrow> 'd \<Rightarrow> device \<Rightarrow> bool" where
  "claim_attempt D sd now gen dnow i ms r d' dev \<longleftrightarrow>
     is_sha256_hex (clr_codeDigest i) \<and> now = Some ms \<and>
     find_by_digest (fst sd) (clr_codeDigest i) = Some r \<and> sp_state r = Pending \<and>
     ms < sp_expiresAtMs r \<and> sp_createdAtMs r \<le> ms \<and>
     dri_create D (snd sd) gen dnow (clr_input i) = (d', Inr dev)"

lemma expire_if_due_sel [simp]:
  "sp_createdAtMs (expire_if_due t r) = sp_createdAtMs r"
  "sp_expiresAtMs (expire_if_due t r) = sp_expiresAtMs r"
  "sp_state (expire_if_due t r) = Pending \<longleftrightarrow> sp_state r = Pending \<and> t < sp_expiresAtMs r"
  by (auto simp: expire_if_due_def)

lemma expire_if_due_id: "t < sp_expiresAtMs r \<Longrightarrow> expire_if_due t r = r"
  by (simp add: expire_if_due_def)

lemma claim_Inr_cases:
  assumes "mem_pairing_claim D sd now gen dnow i = (t, Inr x)"
  shows "\<exists>ms r d'. claim_attempt D sd now gen dnow i ms r d' (cpx_device x) \<and>
    to_session_snapshot (claimed_record ms (dev_deviceId (cpx_device x)) r) = Inr (cpx_session x) \<and>
    t = (set_record (claimed_record ms (dev_deviceId (cpx_device x)) r) (set_record r (fst sd)), d')"
  using assms
  unfolding mem_pairing_claim_def Let_def read_timestamp_def claim_attempt_def
  by (auto split: try_splits option.splits if_splits prod.splits sum.splits simp: expire_if_due_id)

lemma claim_Inl_cases:
  assumes "mem_pairing_claim D sd now gen dnow i = (t, Inl e)"
  shows "t = sd \<or>
    (\<exists>ms r. find_by_digest (fst sd) (clr_codeDigest i) = Some r \<and>
       fst t = set_record (expire_if_due ms r) (fst sd) \<and>
       (snd t = snd sd \<or> (\<exists>e'. dri_create D (snd sd) gen dnow (clr_input i) = (snd t, Inl e')))) \<or>
    (\<exists>ms r d' dev. claim_attempt D sd now gen dnow i ms r d' dev \<and>
       to_session_snapshot (claimed_record ms (dev_deviceId dev) (expire_if_due ms r)) = Inl e)"
  using assms
  unfolding mem_pairing_claim_def Let_def read_timestamp_def claim_attempt_def
  by (auto split: try_splits option.splits if_splits prod.splits sum.splits)

context device_store
begin

lemma claim_attempt_ok:
  assumes "memory_pairings_ok L (fst sd)" "ok (snd sd)" "claim_attempt R sd now gen dnow i ms r d' dev"
  shows "stored_pairing_ok (claimed_record ms (dev_deviceId dev) r)"
    and "to_session_snapshot (claimed_record ms (dev_deviceId dev) r) =
      Inr (session_candidate (claimed_record ms (dev_deviceId dev) r))"
    and "session_candidate (claimed_record ms (dev_deviceId dev) r) = (session_candidate r)
      \<lparr>ps_state := Claimed, ps_claimedAt := Some ms, ps_deviceId := Some (dev_deviceId dev)\<rparr>"
    and "memory_pairings_ok L (set_record (claimed_record ms (dev_deviceId dev) r) (set_record r (fst sd)))"
    and "find_by_digest (set_record (claimed_record ms (dev_deviceId dev) r) (set_record r (fst sd))) g =
      (if g = clr_codeDigest i then Some (claimed_record ms (dev_deviceId dev) r) else find_by_digest (fst sd) g)"
    and "ok d'" "view (snd sd) (dev_deviceId dev) = None"
    and "view d' = (view (snd sd))(dev_deviceId dev \<mapsto> dev)" "dev_ownerId dev = ci_ownerId (clr_input i)"
proof -
  from assms(3) have *: "find_by_digest (fst sd) (clr_codeDigest i) = Some r" "sp_state r = Pending"
    "ms < sp_expiresAtMs r" "sp_createdAtMs r \<le> ms"
    "dri_create R (snd sd) gen dnow (clr_input i) = (d', Inr dev)"
    by (auto simp: claim_attempt_def)
  from create_view [OF assms(2) *(5)] show dev: "ok d'" "view (snd sd) (dev_deviceId dev) = None"
    "view d' = (view (snd sd))(dev_deviceId dev \<mapsto> dev)" "dev_ownerId dev = ci_ownerId (clr_input i)"
    by blast+
  have id: "device_id_schema (dev_deviceId dev) = Some (dev_deviceId dev)"
    using view_key [OF dev(1), of "dev_deviceId dev" dev] dev(3) by simp
  from assms(1) have ix: "index_ok (fst sd)" by (simp add: memory_pairings_ok_def)
  note r = find_by_digest_ok [OF ix *(1)]
  note c = claimed_record_ok [OF conjunct2 [OF conjunct2 [OF r]] *(2,4,3) id]
  from c show "stored_pairing_ok (claimed_record ms (dev_deviceId dev) r)"
    "to_session_snapshot (claimed_record ms (dev_deviceId dev) r) =
      Inr (session_candidate (claimed_record ms (dev_deviceId dev) r))"
    "session_candidate (claimed_record ms (dev_deviceId dev) r) = (session_candidate r)
      \<lparr>ps_state := Claimed, ps_claimedAt := Some ms, ps_deviceId := Some (dev_deviceId dev)\<rparr>"
    by blast+
  have sel: "sp_pairingSessionId (claimed_record ms (dev_deviceId dev) r) = sp_pairingSessionId r"
    "sp_codeDigest (claimed_record ms (dev_deviceId dev) r) = sp_codeDigest r"
    by (simp_all add: claimed_record_def)
  have s1: "memory_pairings_ok L (set_record r (fst sd))"
    "js_get (mp_recordsById (set_record r (fst sd))) (sp_pairingSessionId r) = Some r"
    using set_record_spec(1) [OF assms(1) conjunct1 [OF r] refl refl] r by (simp_all add: set_record_def)
  have f1: "find_by_digest (set_record r (fst sd)) g = (if g = sp_codeDigest r then Some r else find_by_digest (fst sd) g)"
    using set_record_spec(2) [OF assms(1) conjunct1 [OF r] refl refl] r by simp
  from set_record_spec [OF s1 sel c(1)] f1 r
  show "memory_pairings_ok L (set_record (claimed_record ms (dev_deviceId dev) r) (set_record r (fst sd)))"
    "find_by_digest (set_record (claimed_record ms (dev_deviceId dev) r) (set_record r (fst sd))) g =
      (if g = clr_codeDigest i then Some (claimed_record ms (dev_deviceId dev) r) else find_by_digest (fst sd) g)"
    by simp_all
qed

lemma claim_failed:
  assumes "memory_pairings_ok L (fst sd)" "ok (snd sd)" "mem_pairing_claim R sd now gen dnow i = (t, Inl e)"
  shows "memory_pairings_ok L (fst t) \<and> snd t = snd sd \<and>
    (find_by_digest (fst t) g = find_by_digest (fst sd) g \<or>
     (\<exists>r. find_by_digest (fst t) g = Some r \<and> sp_state r \<noteq> Pending))"
  using claim_Inl_cases [OF assms(3)]
proof (elim disjE exE conjE)
  assume "t = sd"
  with assms(1) show ?thesis by simp
next
  fix ms r d' dev
  assume a: "claim_attempt R sd now gen dnow i ms r d' dev"
    and "to_session_snapshot (claimed_record ms (dev_deviceId dev) (expire_if_due ms r)) = Inl e"
  moreover from a have "expire_if_due ms r = r" by (simp add: claim_attempt_def expire_if_due_id)
  ultimately show ?thesis using claim_attempt_ok(2) [OF assms(1,2) a] by simp
next
  fix ms r
  assume r: "find_by_digest (fst sd) (clr_codeDigest i) = Some r"
    and t: "fst t = set_record (expire_if_due ms r) (fst sd)" "snd t = snd sd"
  from assms(1) have ix: "index_ok (fst sd)" by (simp add: memory_pairings_ok_def)
  note q = find_by_digest_ok [OF ix r]
  note e = expire_if_due_ok [of r ms]
  from set_record_spec [OF assms(1) conjunct1 [OF q], of "expire_if_due ms r"] e q r t
  show ?thesis by (auto simp: expire_if_due_def)
next
  fix ms r e'
  assume r: "find_by_digest (fst sd) (clr_codeDigest i) = Some r"
    and t: "fst t = set_record (expire_if_due ms r) (fst sd)"
      "dri_create R (snd sd) gen dnow (clr_input i) = (snd t, Inl e')"
  from create_fail [OF t(2)] have "snd t = snd sd" .
  from assms(1) have ix: "index_ok (fst sd)" by (simp add: memory_pairings_ok_def)
  note q = find_by_digest_ok [OF ix r]
  note e = expire_if_due_ok [of r ms]
  from set_record_spec [OF assms(1) conjunct1 [OF q], of "expire_if_due ms r"] e q r t \<open>snd t = snd sd\<close>
  show ?thesis by (auto simp: expire_if_due_def)
qed

end

text \<open>The session a code leads to.\<close>

definition mem_pairing_code :: "memory_pairings \<times> 'd \<Rightarrow> string \<Rightarrow> pairing_session option" where
  "mem_pairing_code sd g = map_option session_candidate (find_by_digest (fst sd) g)"

lemma session_candidate_state [simp]:
  "ps_state (session_candidate r) = sp_state r"
  "ps_createdAt (session_candidate r) = sp_createdAtMs r"
  "ps_expiresAt (session_candidate r) = sp_expiresAtMs r"
  by (simp_all add: session_candidate_def Let_def)

lemma mem_code_spent:
  "code_spent (mem_pairing_code sd) g \<longleftrightarrow>
     (\<forall>r. find_by_digest (fst sd) g = Some r \<longrightarrow> sp_state r \<noteq> Pending)"
  by (auto simp: code_spent_def mem_pairing_code_def)

section \<open>The contract, on the in-memory device repository\<close>

definition pairing_state_ok :: "pairing_limits \<Rightarrow> memory_pairings \<times> memory_devices \<Rightarrow> bool" where
  "pairing_state_ok L sd \<longleftrightarrow> memory_pairings_ok L (fst sd) \<and> memory_devices_ok (snd sd)"

interpretation memory_pairing: pairing_store "memory_pairing_repository L memory_device_repository"
  mem_pairing_code "\<lambda>sd. mem_device_view (snd sd)" "pairing_state_ok L" for L
proof
  fix s t :: "memory_pairings \<times> memory_devices" and now gen dnow i x
  assume ok: "pairing_state_ok L s"
    and c: "pri_claim (memory_pairing_repository L memory_device_repository) s now gen dnow i = (t, Inr x)"
  then have c': "mem_pairing_claim memory_device_repository s now gen dnow i = (t, Inr x)"
    and ok': "memory_pairings_ok L (fst s)" "memory_devices_ok (snd s)"
    by (simp_all add: memory_pairing_repository_def pairing_state_ok_def)
  from claim_Inr_cases [OF c'] obtain ms r d' where
    a: "claim_attempt memory_device_repository s now gen dnow i ms r d' (cpx_device x)" and
    p: "to_session_snapshot (claimed_record ms (dev_deviceId (cpx_device x)) r) = Inr (cpx_session x)" and
    t: "t = (set_record (claimed_record ms (dev_deviceId (cpx_device x)) r) (set_record r (fst s)), d')"
    by blast
  note k = memory_store.claim_attempt_ok [OF ok' a]
  from p k(2) have "cpx_session x = session_candidate (claimed_record ms (dev_deviceId (cpx_device x)) r)"
    by simp
  with k(3-5,7-9) a t
  show "\<exists>p ms. mem_pairing_code s (clr_codeDigest i) = Some p \<and> ps_state p = Pending \<and> now = Some ms \<and>
      ps_createdAt p \<le> ms \<and> ms < ps_expiresAt p \<and>
      cpx_session x = p\<lparr>ps_state := Claimed, ps_claimedAt := Some ms,
                        ps_deviceId := Some (dev_deviceId (cpx_device x))\<rparr> \<and>
      mem_pairing_code t (clr_codeDigest i) = Some (cpx_session x) \<and>
      (\<forall>g. g \<noteq> clr_codeDigest i \<longrightarrow> mem_pairing_code t g = mem_pairing_code s g) \<and>
      dev_ownerId (cpx_device x) = ci_ownerId (clr_input i) \<and>
      mem_device_view (snd s) (dev_deviceId (cpx_device x)) = None \<and>
      mem_device_view (snd t) = (mem_device_view (snd s))(dev_deviceId (cpx_device x) \<mapsto> cpx_device x)"
    by (intro exI [of _ "session_candidate r"] exI [of _ ms])
      (simp add: claim_attempt_def mem_pairing_code_def)
next
  fix s t :: "memory_pairings \<times> memory_devices" and now gen dnow i e
  assume ok: "pairing_state_ok L s"
    and "pri_claim (memory_pairing_repository L memory_device_repository) s now gen dnow i = (t, Inl e)"
  then have c: "mem_pairing_claim memory_device_repository s now gen dnow i = (t, Inl e)"
    and ok': "memory_pairings_ok L (fst s)" "memory_devices_ok (snd s)"
    by (simp_all add: memory_pairing_repository_def pairing_state_ok_def)
  note k = memory_store.claim_failed [OF ok' c]
  have "code_spent (mem_pairing_code t) g" if "code_spent (mem_pairing_code s) g" for g
    using k [of g] that by (auto simp: mem_code_spent)
  with k show "mem_device_view (snd t) = mem_device_view (snd s) \<and>
      (\<forall>g. code_spent (mem_pairing_code s) g \<longrightarrow> code_spent (mem_pairing_code t) g)"
    by simp
next
  fix s :: "memory_pairings \<times> memory_devices" and now gen dnow and i :: claim_pairing_record and ms :: int
  assume "pairing_state_ok L s" "code_spent (mem_pairing_code s) (clr_codeDigest i)"
    "is_sha256_hex (clr_codeDigest i)" "now = Some ms"
  then show "snd (pri_claim (memory_pairing_repository L memory_device_repository) s now gen dnow i) =
      Inl PairingCodeUnavailable"
    by (auto simp: memory_pairing_repository_def mem_pairing_claim_def read_timestamp_def Let_def
        parse_code_digest_def mem_code_spent split: option.splits)
next
  fix s :: "memory_pairings \<times> memory_devices" and c
  let ?R = "memory_pairing_repository L memory_device_repository"
  assume ok: "pairing_state_ok L s"
  then have ok': "memory_pairings_ok L (fst s)" "memory_devices_ok (snd s)"
    by (simp_all add: pairing_state_ok_def)
  show "pairing_state_ok L (pairing_step ?R s c)"
  proof (cases c)
    case (CreatePairing i)
    then show ?thesis using create_spec(1,2) [OF ok'(1)] ok'
      by (cases "mem_pairing_create L s i") (simp add: memory_pairing_repository_def pairing_state_ok_def)
  next
    case (ClaimPairing now gen dnow i)
    obtain t out where r: "mem_pairing_claim memory_device_repository s now gen dnow i = (t, out)" by fastforce
    have "pairing_state_ok L t"
    proof (cases out)
      case (Inl e)
      with memory_store.claim_failed [OF ok'] r ok' show ?thesis by (simp add: pairing_state_ok_def)
    next
      case (Inr x)
      from claim_Inr_cases [OF r [unfolded Inr]] obtain ms q d' where
        a: "claim_attempt memory_device_repository s now gen dnow i ms q d' (cpx_device x)" and
        t: "t = (set_record (claimed_record ms (dev_deviceId (cpx_device x)) q) (set_record q (fst s)), d')"
        by blast
      from memory_store.claim_attempt_ok(4,6) [OF ok' a] t show ?thesis
        by (simp add: pairing_state_ok_def)
    qed
    with r ClaimPairing show ?thesis by (simp add: memory_pairing_repository_def)
  next
    case (CancelPairing i tc)
    then show ?thesis using cancel_spec [OF ok'(1)] ok'
      by (cases "mem_pairing_cancel s i tc") (simp add: memory_pairing_repository_def pairing_state_ok_def)
  next
    case (ExpirePairings tc)
    then show ?thesis using expire_spec [OF ok'(1)] ok'
      by (cases "mem_pairing_expire s tc") (simp add: memory_pairing_repository_def pairing_state_ok_def)
  next
    case (PrunePairings tc)
    then show ?thesis using prune_spec [OF ok'(1)] ok'
      by (cases "mem_pairing_prune L s tc") (simp add: memory_pairing_repository_def pairing_state_ok_def)
  qed
  show "mem_device_view (snd (pairing_step ?R s c)) = mem_device_view (snd s)"
    if "\<forall>now g dnow i. c \<noteq> ClaimPairing now g dnow i"
    using that create_spec(2) [OF ok'(1) surjective_pairing] cancel_spec [OF ok'(1) surjective_pairing]
      expire_spec [OF ok'(1) surjective_pairing] prune_spec [OF ok'(1) surjective_pairing]
    by (cases c) (simp_all add: memory_pairing_repository_def)
  show "code_spent (mem_pairing_code (pairing_step ?R s c)) g"
    if g: "code_spent (mem_pairing_code s) g" "\<not> creates_code g c"
      and nc: "\<forall>now g' dnow i. c \<noteq> ClaimPairing now g' dnow i" for g
  proof (cases c)
    case (CreatePairing i)
    with g create_spec(3) [OF ok'(1), of i _ _ g] show ?thesis
      by (cases "mem_pairing_create L s i") (auto simp: memory_pairing_repository_def mem_code_spent)
  next
    case (CancelPairing i tc)
    with g cancel_spec [OF ok'(1), of i tc _ _ g] show ?thesis
      by (cases "mem_pairing_cancel s i tc") (auto simp: memory_pairing_repository_def mem_code_spent)
  next
    case (ExpirePairings tc)
    with g expire_spec [OF ok'(1), of tc _ _ g] show ?thesis
      by (cases "mem_pairing_expire s tc")
        (auto simp: memory_pairing_repository_def mem_code_spent expire_if_due_def split: option.splits)
  next
    case (PrunePairings tc)
    with g prune_spec [OF ok'(1), of tc _ _ g] show ?thesis
      by (cases "mem_pairing_prune L s tc") (auto simp: memory_pairing_repository_def mem_code_spent)
  qed (use nc in blast)
qed

section \<open>A remembered digest cannot be created again\<close>

text \<open>
  A digest is guarded as long as no session can be created with it: it belongs to a session that is
  still held, or it is remembered. \<open>b\<close> more sessions may be created before it can be forgotten: every
  pruned session pushes the remembered digests one place further, and what can be pruned is held
  already or created later.
\<close>

definition guarded :: "string \<Rightarrow> nat \<Rightarrow> memory_pairings \<Rightarrow> bool" where
  "guarded g b s \<longleftrightarrow>
     js_get (mp_sessionIdByDigest s) g \<noteq> None \<and> js_size (mp_recordsById s) + b \<le> default_tombstones \<or>
     (\<exists>older newer. mp_expiredCodeTombstoneOrder s = older @ g # newer \<and>
        Suc (length newer) + js_size (mp_recordsById s) + b \<le> default_tombstones)"

fun is_create :: "pairing_command \<Rightarrow> bool" where
  "is_create (CreatePairing i) \<longleftrightarrow> True"
| "is_create _ \<longleftrightarrow> False"

lemma trim_keeps:
  "Suc (length newer) \<le> cap \<Longrightarrow> trim_tombstones cap stones (older @ g # newer) = (stones', order') \<Longrightarrow>
   \<exists>older'. order' = older' @ g # newer"
  by (induction older arbitrary: stones) (auto split: if_splits)

lemma guarded_mono: "guarded g b s \<Longrightarrow> c \<le> b \<Longrightarrow> guarded g c s"
  by (fastforce simp: guarded_def)

lemma guarded_same:
  "mp_sessionIdByDigest t = mp_sessionIdByDigest s \<Longrightarrow>
   mp_expiredCodeTombstoneOrder t = mp_expiredCodeTombstoneOrder s \<Longrightarrow>
   js_size (mp_recordsById t) = js_size (mp_recordsById s) \<Longrightarrow> guarded g b t = guarded g b s"
  by (simp add: guarded_def)

lemma guarded_prune_record:
  assumes "guarded g b s" "js_get (mp_recordsById s) i = Some r"
  shows "guarded g b (prune_record i r s)"
proof -
  let ?order = "mp_expiredCodeTombstoneOrder s @ [sp_codeDigest r]"
  let ?t = "prune_record i r s"
  have "js_has (mp_recordsById s) i" using assms(2) by simp
  from js_size_delete_less [OF this] have less: "js_size (mp_recordsById ?t) < js_size (mp_recordsById s)" by simp
  obtain stones order where trim: "trim_tombstones default_tombstones
      (js_add (sp_codeDigest r) (mp_expiredCodeTombstones s)) ?order = (stones, order)"
    by fastforce
  then have order: "mp_expiredCodeTombstoneOrder ?t = order" by (simp add: prune_record_def)
  have kept: "guarded g b ?t" if "?order = older @ g # newer"
    "Suc (length newer) + js_size (mp_recordsById ?t) + b \<le> default_tombstones" for older newer
    using trim_keeps [OF _ trim [unfolded that(1)]] that(2) order unfolding guarded_def by auto
  from assms(1) consider
      (held) "js_get (mp_sessionIdByDigest s) g \<noteq> None" "js_size (mp_recordsById s) + b \<le> default_tombstones"
    | (remembered) older newer where "mp_expiredCodeTombstoneOrder s = older @ g # newer"
        "Suc (length newer) + js_size (mp_recordsById s) + b \<le> default_tombstones"
    unfolding guarded_def by blast
  then show ?thesis
  proof cases
    case held
    show ?thesis
    proof (cases "sp_codeDigest r = g")
      case True
      with held less show ?thesis by (intro kept [of "mp_expiredCodeTombstoneOrder s" "[]"]) simp_all
    next
      case False
      with held less show ?thesis by (simp add: guarded_def)
    qed
  next
    case remembered
    with less show ?thesis by (intro kept [of older "newer @ [sp_codeDigest r]"]) simp_all
  qed
qed

lemma guarded_prune_loop:
  assumes "guarded g b s" "distinct (map fst es)" "\<And>i r. (i, r) \<in> set es \<Longrightarrow> js_get (mp_recordsById s) i = Some r"
  shows "guarded g b (fst (prune_loop L t es s n))"
  using assms
proof (induction L t es s n rule: prune_loop.induct)
  case (2 L t i r es s n)
  show ?case
  proof (cases "t < prune_at L r")
    case True
    with 2 show ?thesis by simp
  next
    case False
    have "guarded g b (prune_record i r s)" by (rule guarded_prune_record [OF 2(3)]) (use 2(5) in simp)
    moreover have "js_get (mp_recordsById (prune_record i r s)) j = Some q" if "(j, q) \<in> set es" for j q
      using 2(4,5) that by (auto simp: rev_image_eqI)
    ultimately show ?thesis using False 2(2) [OF False] 2(4) by simp
  qed
qed simp

lemma guarded_prune:
  assumes "memory_pairings_ok L s" "guarded g b s"
  shows "guarded g b (fst (prune_expired_records L t s))"
proof -
  have ok: "js_map_ok (mp_recordsById s)" using assms(1) by (simp add: memory_pairings_ok_def index_ok_def)
  then show ?thesis
    unfolding prune_expired_records_def by (rule guarded_prune_loop [OF assms(2)]) (use js_get_in_set [OF ok] in blast)
qed

lemma guarded_no_session:
  assumes "memory_pairings_ok L s" "guarded g b s"
  shows "js_get (mp_sessionIdByDigest s) g \<noteq> None \<or> g \<in> set (mp_expiredCodeTombstones s)"
  using assms by (auto simp: guarded_def memory_pairings_ok_def tombstones_ok_def)

lemma guarded_create_refused:
  assumes "memory_pairings_ok L (fst sd)" "guarded (cpr_codeDigest i) b (fst sd)"
  shows "isl (snd (mem_pairing_create L sd i))"
proof (rule ccontr)
  assume "\<not> isl (snd (mem_pairing_create L sd i))"
  then obtain t p where "mem_pairing_create L sd i = (t, Inr p)"
    by (cases "mem_pairing_create L sd i"; cases "snd (mem_pairing_create L sd i)") auto
  then obtain tc where "js_get (mp_sessionIdByDigest (fst (prune_expired_records L tc (fst sd)))) (cpr_codeDigest i) = None"
    "cpr_codeDigest i \<notin> set (mp_expiredCodeTombstones (fst (prune_expired_records L tc (fst sd))))"
    unfolding create_Inr by blast
  moreover have "memory_pairings_ok L (fst (prune_expired_records L tc (fst sd)))"
    using prune_expired_spec [OF assms(1) surjective_pairing] by blast
  ultimately show False using guarded_no_session guarded_prune [OF assms] by blast
qed

lemma guarded_set_record:
  assumes "js_get (mp_recordsById s) (sp_pairingSessionId r) \<noteq> None"
  shows "guarded g b (set_record r s) = guarded g b s"
  using assms by (intro guarded_same) (auto simp: set_record_def js_size_set)

lemma guarded_create:
  assumes ok: "memory_pairings_ok L (fst sd)" and g: "guarded g (Suc b) (fst sd)"
  shows "guarded g b (fst (fst (mem_pairing_create L sd i)))"
proof -
  obtain t out where r: "mem_pairing_create L sd i = (t, out)" by fastforce
  show ?thesis
  proof (cases out)
    case (Inl e)
    with create_Inl r guarded_prune [OF ok g] g show ?thesis
      by (metis fst_conv guarded_mono le_SucI order_refl)
  next
    case (Inr p)
    from r [unfolded Inr create_Inr] obtain d tc te s where
      *: "s = fst (prune_expired_records L tc (fst sd))" "js_get (mp_recordsById s) d = None"
        "js_get (mp_sessionIdByDigest s) (cpr_codeDigest i) = None"
        "cpr_codeDigest i \<notin> set (mp_expiredCodeTombstones s)"
        "t = (add_record (pending_record d i tc te) s, snd sd)"
      by blast
    have "memory_pairings_ok L s" unfolding *(1) using prune_expired_spec [OF ok surjective_pairing] by blast
    moreover have guard: "guarded g (Suc b) s" unfolding *(1) by (rule guarded_prune [OF ok g])
    ultimately have "g \<noteq> cpr_codeDigest i" using guarded_no_session [of L s] *(3,4) by blast
    with guard *(2) have "guarded g b (add_record (pending_record d i tc te) s)"
      by (auto simp: guarded_def add_record_def set_record_def pending_record_def js_size_set)
    with r *(5) show ?thesis by simp
  qed
qed

lemma guarded_step:
  assumes ok: "pairing_state_ok L sd" and g: "guarded g (b + (if is_create c then 1 else 0)) (fst sd)"
  shows "guarded g b (fst (pairing_step (memory_pairing_repository L memory_device_repository) sd c))"
proof -
  have ok': "memory_pairings_ok L (fst sd)" and ix: "index_ok (fst sd)"
    using ok by (simp_all add: pairing_state_ok_def memory_pairings_ok_def)
  show ?thesis
  proof (cases c)
    case (CreatePairing i)
    with guarded_create [OF ok', of g b i] g show ?thesis by (simp add: memory_pairing_repository_def)
  next
    case (ClaimPairing now gen dnow i)
    obtain t out where r: "mem_pairing_claim memory_device_repository sd now gen dnow i = (t, out)" by fastforce
    have changed: "guarded g b (set_record q' (set_record q (fst sd)))"
      if "find_by_digest (fst sd) h = Some q" "sp_pairingSessionId q' = sp_pairingSessionId q" for h q q'
    proof -
      have "js_get (mp_recordsById (fst sd)) (sp_pairingSessionId q) \<noteq> None"
        using find_by_digest_ok [OF ix that(1)] by simp
      then have "guarded g b (set_record q (fst sd))" using g ClaimPairing by (simp add: guarded_set_record)
      then show ?thesis by (subst guarded_set_record) (simp_all add: set_record_def that(2))
    qed
    have expired: "guarded g b (set_record (expire_if_due ms q) (fst sd))" if "find_by_digest (fst sd) h = Some q" for h q ms
      using find_by_digest_ok [OF ix that] g ClaimPairing by (subst guarded_set_record) (simp_all add: expire_if_due_ok)
    have "guarded g b (fst t)"
    proof (cases out)
      case (Inl e)
      from claim_Inl_cases [OF r [unfolded Inl]] show ?thesis
      proof (elim disjE exE conjE)
        assume "t = sd"
        with g ClaimPairing show ?thesis by simp
      next
        fix ms q assume "find_by_digest (fst sd) (clr_codeDigest i) = Some q"
          "fst t = set_record (expire_if_due ms q) (fst sd)"
        with expired show ?thesis by simp
      next
        fix ms q e' assume "find_by_digest (fst sd) (clr_codeDigest i) = Some q"
          "fst t = set_record (expire_if_due ms q) (fst sd)"
        with expired show ?thesis by simp
      next
        fix ms q d' dev
        assume a: "claim_attempt memory_device_repository sd now gen dnow i ms q d' dev"
          and e: "to_session_snapshot (claimed_record ms (dev_deviceId dev) (expire_if_due ms q)) = Inl e"
        have "expire_if_due ms q = q" using a by (simp add: claim_attempt_def expire_if_due_id)
        with e memory_store.claim_attempt_ok(2) [OF ok' _ a] ok show ?thesis by (simp add: pairing_state_ok_def)
      qed
    next
      case (Inr x)
      from claim_Inr_cases [OF r [unfolded Inr]] obtain ms q d' where
        "claim_attempt memory_device_repository sd now gen dnow i ms q d' (cpx_device x)"
        "t = (set_record (claimed_record ms (dev_deviceId (cpx_device x)) q) (set_record q (fst sd)), d')"
        by blast
      with changed [of "clr_codeDigest i" q] show ?thesis by (simp add: claim_attempt_def claimed_record_def)
    qed
    with r ClaimPairing show ?thesis by (simp add: memory_pairing_repository_def)
  next
    case (CancelPairing i tc)
    obtain t out where r: "mem_pairing_cancel sd i tc = (t, out)" by fastforce
    have "guarded g b (fst t)"
      using cancel_cases [OF r]
    proof (elim disjE exE conjE)
      fix d q x assume "js_get (mp_recordsById (fst sd)) d = Some q"
        "t = (set_record (q\<lparr>sp_state := x\<rparr>) (fst sd), snd sd)"
      with index_okD(1) [OF ix] g CancelPairing show ?thesis by (simp add: guarded_set_record)
    qed (use g CancelPairing in simp_all)
    with r CancelPairing show ?thesis by (simp add: memory_pairing_repository_def)
  next
    case (ExpirePairings tc)
    with g show ?thesis
      by (cases tc) (simp_all add: memory_pairing_repository_def mem_pairing_expire_def read_timestamp_def Let_def guarded_def)
  next
    case (PrunePairings tc)
    with g guarded_prune [OF ok'] show ?thesis
      by (cases tc) (simp_all add: memory_pairing_repository_def mem_pairing_prune_def read_timestamp_def split: prod.split,
        metis fst_conv)
  qed
qed

lemma refused_create_spent:
  assumes "memory_pairings_ok L (fst sd)" "isl (snd (mem_pairing_create L sd i))" "code_spent (mem_pairing_code sd) g"
  shows "code_spent (mem_pairing_code (fst (mem_pairing_create L sd i))) g"
proof -
  obtain t e where r: "mem_pairing_create L sd i = (t, Inl e)"
    using assms(2) by (cases "mem_pairing_create L sd i") (auto simp: isl_def)
  have "find_by_digest (fst (prune_expired_records L tc (fst sd))) g = None \<or>
     find_by_digest (fst (prune_expired_records L tc (fst sd))) g = find_by_digest (fst sd) g" for tc
    using prune_find [OF assms(1), of tc _ _ g]
    by (cases "prune_expired_records L tc (fst sd)") (auto split: option.splits)
  with create_Inl [OF r] have "find_by_digest (fst t) g = None \<or> find_by_digest (fst t) g = find_by_digest (fst sd) g"
    by metis
  with assms(3) r show ?thesis by (auto simp: mem_code_spent)
qed

lemma guarded_run:
  assumes "pairing_state_ok L sd" "guarded g (length (filter is_create cs)) (fst sd)" "code_spent (mem_pairing_code sd) g"
  shows "guarded g 0 (fst (foldl (pairing_step (memory_pairing_repository L memory_device_repository)) sd cs)) \<and>
    code_spent (mem_pairing_code (foldl (pairing_step (memory_pairing_repository L memory_device_repository)) sd cs)) g"
  using assms
proof (induction cs arbitrary: sd)
  case (Cons c cs)
  let ?t = "pairing_step (memory_pairing_repository L memory_device_repository) sd c"
  have "code_spent (mem_pairing_code ?t) g"
  proof (cases "creates_code g c")
    case True
    then obtain i where i: "c = CreatePairing i" "cpr_codeDigest i = g" by (cases c) auto
    have ok: "memory_pairings_ok L (fst sd)" using Cons.prems(1) by (simp add: pairing_state_ok_def)
    with i Cons.prems(2,3) refused_create_spent [OF ok guarded_create_refused [OF ok]] show ?thesis
      by (simp add: memory_pairing_repository_def)
  qed (rule memory_pairing.spent_kept [OF Cons.prems(1,3)])
  moreover have "guarded g (length (filter is_create cs)) (fst ?t)"
    by (rule guarded_step [OF Cons.prems(1)]) (use Cons.prems(2) in auto)
  ultimately show ?case using Cons.IH [OF memory_pairing.step_ok [OF Cons.prems(1)]] by simp
qed simp

section \<open>Properties\<close>

abbreviation pairing_run ::
  "pairing_limits \<Rightarrow> memory_pairings \<times> memory_devices \<Rightarrow> pairing_command list \<Rightarrow> memory_pairings \<times> memory_devices" where
  "pairing_run L s cs \<equiv> foldl (pairing_step (memory_pairing_repository L memory_device_repository)) s cs"

interpretation pairing_runs: kept_by_steps
  "pairing_step (memory_pairing_repository L memory_device_repository)" "pairing_state_ok L" for L
  by unfold_locales (rule memory_pairing.step_ok)

lemma initial_pairing_ok: "0 \<le> pl_maxSessions L \<Longrightarrow> pairing_state_ok L (empty_pairings, empty_devices)"
  by (simp add: pairing_state_ok_def empty_pairings_ok empty_devices_ok)

text \<open>
  C1: A pairing code is good for one device. In every history of the repository, once a claim of a
  code digest has succeeded, every later claim of that digest (with any owner, name, clock and
  device id) is refused as unavailable, whatever other commands run in between, creations with the
  same digest included, as long as the sessions held at the claim and the sessions whose creation is
  attempted since then are together no more than the 100000 digests the repository remembers;
  within this bound no session can be created with the digest either. Beyond it the claims are still
  refused as long as no creation with the digest is attempted.
\<close>

theorem pairing_code_single_use:
  assumes "0 \<le> pl_maxSessions L"
    and "mem_pairing_claim memory_device_repository (pairing_run L (empty_pairings, empty_devices) before)
           now gen dnow i = (t, Inr x)"
    and "js_size (mp_recordsById (fst t)) + length (filter is_create after) \<le> 100000 \<or>
         (\<forall>c \<in> set after. \<not> creates_code (clr_codeDigest i) c)"
    and "clr_codeDigest j = clr_codeDigest i"
  shows "snd (mem_pairing_claim memory_device_repository (pairing_run L t after) (Some later) gen' dnow' j)
      = Inl PairingCodeUnavailable \<and>
    (js_size (mp_recordsById (fst t)) + length (filter is_create after) \<le> 100000 \<longrightarrow>
     cpr_codeDigest k = clr_codeDigest i \<longrightarrow> isl (snd (mem_pairing_create L (pairing_run L t after) k)))"
proof -
  let ?g = "clr_codeDigest i" and ?R = "memory_pairing_repository L memory_device_repository"
  have ok: "pairing_state_ok L (pairing_run L (empty_pairings, empty_devices) before)"
    by (rule pairing_runs.run_keeps [OF initial_pairing_ok [OF assms(1)]])
  have claim: "pri_claim ?R (pairing_run L (empty_pairings, empty_devices) before) now gen dnow i = (t, Inr x)"
    using assms(2) by (simp add: memory_pairing_repository_def)
  have t: "code_spent (mem_pairing_code t) ?g" "pairing_state_ok L t"
    using memory_pairing.claim_spends [OF ok claim] by blast+
  have hex: "is_sha256_hex ?g"
    using claim_Inr_cases [OF assms(2)] by (auto simp: claim_attempt_def)
  have run: "pairing_state_ok L (pairing_run L t after)" by (rule pairing_runs.run_keeps [OF t(2)])
  have guard: "guarded ?g 0 (fst (pairing_run L t after)) \<and> code_spent (mem_pairing_code (pairing_run L t after)) ?g"
    if "js_size (mp_recordsById (fst t)) + length (filter is_create after) \<le> 100000"
  proof (rule guarded_run [OF t(2) _ t(1)])
    have "mem_pairing_code t ?g \<noteq> None" using memory_pairing.claim_Inr [OF ok claim] by auto
    then have "js_get (mp_sessionIdByDigest (fst t)) ?g \<noteq> None"
      by (auto simp: mem_pairing_code_def find_by_digest_def split: option.splits)
    with that show "guarded ?g (length (filter is_create after)) (fst t)"
      by (simp add: guarded_def default_tombstones_def)
  qed
  have "code_spent (mem_pairing_code (pairing_run L t after)) ?g"
    using assms(3) guard memory_pairing.spent_forever [OF t(2,1)] by blast
  then have "snd (mem_pairing_claim memory_device_repository (pairing_run L t after) (Some later) gen' dnow' j)
      = Inl PairingCodeUnavailable"
    using memory_pairing.claim_spent [OF run, of j "Some later"] hex assms(4) by (simp add: memory_pairing_repository_def)
  moreover have "isl (snd (mem_pairing_create L (pairing_run L t after) k))"
    if "js_size (mp_recordsById (fst t)) + length (filter is_create after) \<le> 100000" "cpr_codeDigest k = ?g"
    using guard [OF that(1)] guarded_create_refused [of L "pairing_run L t after" k 0] run that(2)
    by (simp add: pairing_state_ok_def)
  ultimately show ?thesis by blast
qed

text \<open>
  C15: What a claim does. A successful claim finds a session that is pending and inside its time
  window by the repository's own clock, turns exactly that session to claimed with this time
  and the id of the new device, and adds exactly one device, owned by the claimant; every
  failing claim leaves the devices as they were, and neither outcome makes a spent code usable
  again.
\<close>

theorem claim_creates_one_device:
  assumes "0 \<le> pl_maxSessions L"
    and "s = pairing_run L (empty_pairings, empty_devices) cs"
    and "mem_pairing_claim memory_device_repository s now gen dnow i = (t, out)"
  shows "case out of
      Inl e \<Rightarrow> mem_device_view (snd t) = mem_device_view (snd s) \<and>
        (\<forall>g. code_spent (mem_pairing_code s) g \<longrightarrow> code_spent (mem_pairing_code t) g)
    | Inr x \<Rightarrow> \<exists>p ms. mem_pairing_code s (clr_codeDigest i) = Some p \<and> ps_state p = Pending \<and>
        now = Some ms \<and> ps_createdAt p \<le> ms \<and> ms < ps_expiresAt p \<and>
        cpx_session x = p\<lparr>ps_state := Claimed, ps_claimedAt := Some ms,
                          ps_deviceId := Some (dev_deviceId (cpx_device x))\<rparr> \<and>
        mem_pairing_code t (clr_codeDigest i) = Some (cpx_session x) \<and>
        (\<forall>g. g \<noteq> clr_codeDigest i \<longrightarrow> mem_pairing_code t g = mem_pairing_code s g) \<and>
        dev_ownerId (cpx_device x) = ci_ownerId (clr_input i) \<and>
        mem_device_view (snd s) (dev_deviceId (cpx_device x)) = None \<and>
        mem_device_view (snd t) = (mem_device_view (snd s))(dev_deviceId (cpx_device x) \<mapsto> cpx_device x)"
proof -
  have ok: "pairing_state_ok L s"
    unfolding assms(2) by (rule pairing_runs.run_keeps [OF initial_pairing_ok [OF assms(1)]])
  show ?thesis
  proof (cases out)
    case (Inl e)
    with assms(3) memory_pairing.claim_Inl [OF ok] show ?thesis
      by (simp add: memory_pairing_repository_def)
  next
    case (Inr x)
    with assms(3) have "pri_claim (memory_pairing_repository L memory_device_repository) s now gen dnow i = (t, Inr x)"
      by (simp add: memory_pairing_repository_def)
    from memory_pairing.claim_Inr [OF ok this] Inr show ?thesis by simp
  qed
qed

text \<open>
  The repository stays consistent and bounded. After every history the two indexes agree
  (each session is filed under its own id and its code leads to it), every stored session
  satisfies the published schema, at most the configured number of sessions is held, at most
  100000 digests of pruned sessions are remembered, and no remembered digest belongs to a
  session that is still held.
\<close>

theorem pairing_repository_bounded:
  assumes "0 \<le> pl_maxSessions L"
  shows "memory_pairings_ok L (fst (pairing_run L (empty_pairings, empty_devices) cs)) \<and>
    memory_devices_ok (snd (pairing_run L (empty_pairings, empty_devices) cs))"
  using pairing_runs.run_keeps [OF initial_pairing_ok [OF assms], of cs]
  by (simp add: pairing_state_ok_def)

section \<open>Witnesses\<close>

definition example_limits :: pairing_limits where
  "example_limits = \<lparr>pl_maxSessions = 2, pl_claimedRetentionMs = 600000\<rparr>"

definition example_code_digest :: string where
  "example_code_digest = replicate 64 CHR ''a''"

definition example_claim :: claim_pairing_record where
  "example_claim = \<lparr>clr_codeDigest = example_code_digest,
     clr_input = \<lparr>ci_ownerId = ''owner-1'', ci_deviceName = ''laptop'',
       ci_metadata = \<lparr>md_platform = ''linux'', md_appVersion = None, md_runtimeVersion = None\<rparr>\<rparr>\<rparr>"

definition example_create :: pairing_command where
  "example_create = CreatePairing \<lparr>cpr_pairingSessionId = ''0a1b2c3d-3333-4333-8333-0123456789ab'',
     cpr_codeDigest = example_code_digest, cpr_createdAt = Some 0, cpr_expiresAt = Some 300000,
     cpr_localCorrelationId = None\<rparr>"

definition example_claimed ::
  "(memory_pairings \<times> memory_devices, pairing_repo_error, claim_pairing_result) outcome" where
  "example_claimed = mem_pairing_claim memory_device_repository
     (pairing_run example_limits (empty_pairings, empty_devices) [example_create])
     (Some 10) ''0a1b2c3d-1111-4111-8111-0123456789ab'' (Some 11) example_claim"

lemma example_claimed_Inr: "\<exists>t x. example_claimed = (t, Inr x)"
  by (rule succeeded) code_simp

lemma example_limits_pos: "0 \<le> pl_maxSessions example_limits"
  by (simp add: example_limits_def)

lemma pairing_code_single_use_witness:
  "\<exists>t x. example_claimed = (t, Inr x) \<and>
     snd (mem_pairing_claim memory_device_repository (pairing_run example_limits t [PrunePairings (Some 700000), example_create])
       (Some 30) ''0a1b2c3d-1111-4111-8111-0123456789ac'' (Some 31) example_claim) = Inl PairingCodeUnavailable"
proof -
  obtain t x where e: "example_claimed = (t, Inr x)" using example_claimed_Inr by blast
  have "pairing_state_ok example_limits (pairing_run example_limits (empty_pairings, empty_devices) [example_create])"
    by (rule pairing_runs.run_keeps [OF initial_pairing_ok [OF example_limits_pos]])
  from memory_pairing.step_ok [OF this, of "ClaimPairing (Some 10) ''0a1b2c3d-1111-4111-8111-0123456789ab'' (Some 11) example_claim"]
  have "pairing_state_ok example_limits t"
    using e by (simp add: memory_pairing_repository_def example_claimed_def)
  then have len: "js_size (mp_recordsById (fst t)) +
      length (filter is_create [PrunePairings (Some 700000), example_create]) \<le> 100000"
    by (simp add: pairing_state_ok_def memory_pairings_ok_def example_limits_def example_create_def)
  show ?thesis
    using e pairing_code_single_use [OF example_limits_pos e [unfolded example_claimed_def] disjI1 [OF len] refl]
    by blast
qed

lemma claim_creates_one_device_witness:
  "\<exists>t x. example_claimed = (t, Inr x) \<and> dev_ownerId (cpx_device x) = ''owner-1'' \<and>
     mem_device_view (snd t) (dev_deviceId (cpx_device x)) = Some (cpx_device x)"
proof -
  obtain t x where e: "example_claimed = (t, Inr x)" using example_claimed_Inr by blast
  from claim_creates_one_device [OF example_limits_pos refl e [unfolded example_claimed_def]]
  have "dev_ownerId (cpx_device x) = ''owner-1''"
    "mem_device_view (snd t) (dev_deviceId (cpx_device x)) = Some (cpx_device x)"
    by (auto simp: example_claim_def)
  with e show ?thesis by blast
qed

lemma pairing_repository_bounded_witness:
  "memory_pairings_ok example_limits
     (fst (pairing_run example_limits (empty_pairings, empty_devices) [example_create, PrunePairings (Some 400000)])) \<and>
   memory_devices_ok
     (snd (pairing_run example_limits (empty_pairings, empty_devices) [example_create, PrunePairings (Some 400000)]))"
  by (rule pairing_repository_bounded [OF example_limits_pos])

end
