(* ===== verification/Abuse_Guard.thy ===== *)
theory Abuse_Guard
  imports Js_Values
begin

text \<open>
  \<^verbatim>\<open>apps/server/src/pairing-abuse-guard.ts\<close>: the bounded fixed-window rate limiter in front of
  pairing starts (per remote address) and pairing claims (per owner). Times are the finite
  numbers the clock returns, as exact rationals; the sums and differences the guard forms of
  millisecond clock values are exact in the program's number type.
\<close>

section \<open>State and operations\<close>

datatype abuse_error = PairingRateLimited

record rate_bucket =
  rb_windowStartedAt :: rat
  rb_count :: int

record abuse_limits =
  al_windowMs :: int
  al_maxStartsPerAddress :: int
  al_maxClaimsPerOwner :: int
  al_maxBuckets :: int

type_synonym abuse_guard = "(string, rate_bucket) js_map"

definition positive_safe_integer :: "js_number \<Rightarrow> int option" where
  "positive_safe_integer v = (if \<not> js_is_safe_integer v \<or> js_le_zero v then None else Some (js_to_int v))"

text \<open>The constructor: every option is optional with its default, and each is checked.\<close>

definition new_abuse_guard ::
  "js_number option \<Rightarrow> js_number option \<Rightarrow> js_number option \<Rightarrow> js_number option
     \<Rightarrow> (abuse_limits \<times> abuse_guard) option" where
  "new_abuse_guard windowMs maxStarts maxClaims maxBuckets =
     (let given = (\<lambda>d x. positive_safe_integer (case x of None \<Rightarrow> js_int d | Some v \<Rightarrow> v)) in
      case (given 60000 windowMs, given 10 maxStarts, given 10 maxClaims, given 10000 maxBuckets) of
        (Some w, Some a, Some c, Some b) \<Rightarrow>
          Some (\<lparr>al_windowMs = w, al_maxStartsPerAddress = a, al_maxClaimsPerOwner = c, al_maxBuckets = b\<rparr>, [])
      | _ \<Rightarrow> None)"

definition window_over :: "abuse_limits \<Rightarrow> rat \<Rightarrow> rate_bucket \<Rightarrow> bool" where
  "window_over L now b \<longleftrightarrow> rb_windowStartedAt b \<le> now \<and> of_int (al_windowMs L) \<le> now - rb_windowStartedAt b"

definition abuse_cleanup :: "abuse_limits \<Rightarrow> rat \<Rightarrow> abuse_guard \<Rightarrow> abuse_guard" where
  "abuse_cleanup L now s = filter (\<lambda>(k, b). \<not> window_over L now b) s"

definition count_in_bucket ::
  "int \<Rightarrow> string \<Rightarrow> rate_bucket \<Rightarrow> abuse_guard \<Rightarrow> (abuse_guard, abuse_error, unit) outcome" where
  "count_in_bucket limit key b s =
     (if limit \<le> rb_count b then (js_set key b s, Inl PairingRateLimited)
      else (js_set key (b\<lparr>rb_count := rb_count b + 1\<rparr>) s, Inr ()))"

definition abuse_consume ::
  "abuse_limits \<Rightarrow> abuse_guard \<Rightarrow> js_number \<Rightarrow> string \<Rightarrow> int \<Rightarrow> (abuse_guard, abuse_error, unit) outcome" where
  "abuse_consume L s nowN key limit =
     (case nowN of
        JsNum now \<Rightarrow>
          let s1 = abuse_cleanup L now s in
          (case js_get s1 key of
             None \<Rightarrow>
               if al_maxBuckets L \<le> int (js_size s1) then (s1, Inl PairingRateLimited)
               else count_in_bucket limit key \<lparr>rb_windowStartedAt = now, rb_count = 0\<rparr> s1
           | Some b \<Rightarrow>
               if now < rb_windowStartedAt b then (s1, Inl PairingRateLimited)
               else if of_int (al_windowMs L) \<le> now - rb_windowStartedAt b then
                 count_in_bucket limit key \<lparr>rb_windowStartedAt = now, rb_count = 0\<rparr> s1
               else count_in_bucket limit key b s1)
      | _ \<Rightarrow> (s, Inl PairingRateLimited))"

definition abuse_start_key :: "string option \<Rightarrow> string" where
  "abuse_start_key remoteAddress =
     (case remoteAddress of
        Some a \<Rightarrow> if a \<noteq> [] \<and> length a \<le> 128 then ''start:'' @ a else ''start:unknown''
      | None \<Rightarrow> ''start:unknown'')"

definition abuse_beforeStart ::
  "abuse_limits \<Rightarrow> abuse_guard \<Rightarrow> js_number \<Rightarrow> string option \<Rightarrow> (abuse_guard, abuse_error, unit) outcome" where
  "abuse_beforeStart L s now remoteAddress =
     abuse_consume L s now (abuse_start_key remoteAddress) (al_maxStartsPerAddress L)"

text \<open>The digest of the attempt is not used.\<close>

record claim_attempt_info =
  ca_ownerId :: string
  ca_codeDigest :: "string option"
  ca_remoteAddress :: "string option"

definition abuse_beforeClaim ::
  "abuse_limits \<Rightarrow> abuse_guard \<Rightarrow> js_number \<Rightarrow> claim_attempt_info \<Rightarrow> (abuse_guard, abuse_error, unit) outcome" where
  "abuse_beforeClaim L s now attempt =
     abuse_consume L s now (''claim:'' @ ca_ownerId attempt) (al_maxClaimsPerOwner L)"

section \<open>Invariant\<close>

datatype abuse_call = StartCall "string option" | ClaimCall claim_attempt_info

fun abuse_call_step :: "abuse_limits \<Rightarrow> abuse_guard \<Rightarrow> js_number \<times> abuse_call \<Rightarrow> (abuse_guard, abuse_error, unit) outcome" where
  "abuse_call_step L s (now, StartCall a) = abuse_beforeStart L s now a"
| "abuse_call_step L s (now, ClaimCall x) = abuse_beforeClaim L s now x"

fun call_key :: "abuse_call \<Rightarrow> string" where
  "call_key (StartCall a) = abuse_start_key a"
| "call_key (ClaimCall x) = ''claim:'' @ ca_ownerId x"

fun call_limit :: "abuse_limits \<Rightarrow> abuse_call \<Rightarrow> int" where
  "call_limit L (StartCall a) = al_maxStartsPerAddress L"
| "call_limit L (ClaimCall x) = al_maxClaimsPerOwner L"

lemma abuse_call_step_consume: "abuse_call_step L s (now, c) = abuse_consume L s now (call_key c) (call_limit L c)"
  by (cases c) (simp_all add: abuse_beforeStart_def abuse_beforeClaim_def)

definition key_limit :: "abuse_limits \<Rightarrow> string \<Rightarrow> int" where
  "key_limit L k = (if prefix ''start:'' k then al_maxStartsPerAddress L else al_maxClaimsPerOwner L)"

lemma call_limit_key: "call_limit L c = key_limit L (call_key c)"
  by (cases c) (auto simp: key_limit_def abuse_start_key_def split: option.splits)

definition abuse_limits_ok :: "abuse_limits \<Rightarrow> bool" where
  "abuse_limits_ok L \<longleftrightarrow> 0 < al_windowMs L \<and> 0 < al_maxStartsPerAddress L \<and>
     0 < al_maxClaimsPerOwner L \<and> 0 < al_maxBuckets L"

definition abuse_guard_ok :: "abuse_limits \<Rightarrow> abuse_guard \<Rightarrow> bool" where
  "abuse_guard_ok L s \<longleftrightarrow> js_map_ok s \<and> int (js_size s) \<le> al_maxBuckets L \<and>
     (\<forall>k b. js_get s k = Some b \<longrightarrow> 0 \<le> rb_count b \<and> rb_count b \<le> key_limit L k)"

lemma abuse_limits_of_constructor:
  "new_abuse_guard w a c b = Some (L, s) \<Longrightarrow> abuse_limits_ok L \<and> s = []"
proof -
  have pos: "positive_safe_integer v = Some i \<Longrightarrow> 0 < i" for v i
    by (cases v) (auto simp: positive_safe_integer_def split: if_splits)
  show "new_abuse_guard w a c b = Some (L, s) \<Longrightarrow> abuse_limits_ok L \<and> s = []"
    by (auto simp: new_abuse_guard_def abuse_limits_ok_def Let_def dest!: pos split: option.splits)
qed

lemma cleanup_get:
  assumes "js_map_ok s"
  shows "js_get (abuse_cleanup L now s) k =
    (case js_get s k of None \<Rightarrow> None | Some b \<Rightarrow> if window_over L now b then None else Some b)"
  unfolding abuse_cleanup_def js_get_filter [OF assms] by (auto split: option.splits)

lemma cleanup_ok: "abuse_guard_ok L s \<Longrightarrow> abuse_guard_ok L (abuse_cleanup L now s)"
proof -
  assume ok: "abuse_guard_ok L s"
  have "length (abuse_cleanup L now s) \<le> length s" "js_map_ok (abuse_cleanup L now s)"
    using ok by (simp_all add: abuse_cleanup_def abuse_guard_ok_def)
  then show ?thesis
    using ok by (auto simp: abuse_guard_ok_def cleanup_get split: option.splits if_splits)
qed

lemma count_in_bucket_ok:
  assumes "abuse_guard_ok L s" "js_has s key \<or> int (js_size s) < al_maxBuckets L"
    "0 \<le> rb_count b" "rb_count b \<le> key_limit L key"
  shows "abuse_guard_ok L (fst (count_in_bucket (key_limit L key) key b s))"
  using assms by (auto simp: abuse_guard_ok_def count_in_bucket_def js_size_set)

lemma key_limit_pos: "abuse_limits_ok L \<Longrightarrow> 0 < key_limit L k"
  by (simp add: key_limit_def abuse_limits_ok_def)

text \<open>What a request does to the buckets, after the clean-up, which removes every bucket whose window is over.\<close>

lemma consume_cases:
  assumes "abuse_guard_ok L s"
  obtains (not_finite) "\<forall>now. nowN \<noteq> JsNum now" "abuse_consume L s nowN key limit = (s, Inl PairingRateLimited)"
  | (refused) now where "nowN = JsNum now"
      "abuse_consume L s nowN key limit = (abuse_cleanup L now s, Inl PairingRateLimited)"
  | (opened) now where "nowN = JsNum now" "js_get (abuse_cleanup L now s) key = None"
      "int (js_size (abuse_cleanup L now s)) < al_maxBuckets L"
      "abuse_consume L s nowN key limit =
         count_in_bucket limit key \<lparr>rb_windowStartedAt = now, rb_count = 0\<rparr> (abuse_cleanup L now s)"
  | (counted) now b where "nowN = JsNum now" "js_get (abuse_cleanup L now s) key = Some b"
      "rb_windowStartedAt b \<le> now" "now - rb_windowStartedAt b < of_int (al_windowMs L)"
      "abuse_consume L s nowN key limit = count_in_bucket limit key b (abuse_cleanup L now s)"
proof (cases nowN)
  case (JsNum now)
  have ok: "js_map_ok s" using assms by (simp add: abuse_guard_ok_def)
  show ?thesis
  proof (cases "js_get (abuse_cleanup L now s) key")
    case None
    show ?thesis
    proof (cases "al_maxBuckets L \<le> int (js_size (abuse_cleanup L now s))")
      case True
      with JsNum None show ?thesis by (intro refused) (simp_all add: abuse_consume_def Let_def)
    next
      case False
      with JsNum None show ?thesis by (intro opened) (simp_all add: abuse_consume_def Let_def)
    qed
  next
    case (Some b)
    then have "\<not> window_over L now b" by (auto simp: cleanup_get [OF ok] split: option.splits if_splits)
    then consider "now < rb_windowStartedAt b" |
      "rb_windowStartedAt b \<le> now" "now - rb_windowStartedAt b < of_int (al_windowMs L)"
      by (cases "now < rb_windowStartedAt b") (auto simp: window_over_def)
    then show ?thesis
    proof cases
      case 1
      with JsNum Some show ?thesis by (intro refused) (simp_all add: abuse_consume_def Let_def)
    next
      case 2
      with JsNum Some show ?thesis by (intro counted) (simp_all add: abuse_consume_def Let_def not_le not_less)
    qed
  qed
qed (use not_finite in \<open>simp_all add: abuse_consume_def\<close>)

lemma consume_ok:
  assumes "abuse_limits_ok L" "abuse_guard_ok L s"
  shows "abuse_guard_ok L (fst (abuse_consume L s nowN key (key_limit L key)))"
proof (rule consume_cases [OF assms(2), of nowN key "key_limit L key"], goal_cases not_finite refused opened counted)
  case not_finite
  with assms show ?thesis by simp
next
  case (refused now)
  with cleanup_ok [OF assms(2)] show ?thesis by simp
next
  case (opened now)
  with cleanup_ok [OF assms(2)] key_limit_pos [OF assms(1), of key] show ?thesis
    by (simp add: count_in_bucket_ok)
next
  case (counted now b)
  with cleanup_ok [OF assms(2), of now] have "0 \<le> rb_count b" "rb_count b \<le> key_limit L key"
    by (auto simp: abuse_guard_ok_def)
  with counted cleanup_ok [OF assms(2)] show ?thesis by (simp add: count_in_bucket_ok)
qed

interpretation abuse_runs: kept_by_steps "\<lambda>s c. fst (abuse_call_step L s c)"
  "\<lambda>s. abuse_limits_ok L \<and> abuse_guard_ok L s" for L
proof
  show "abuse_limits_ok L \<and> abuse_guard_ok L s \<Longrightarrow>
      abuse_limits_ok L \<and> abuse_guard_ok L (fst (abuse_call_step L s c))" for s c
    by (cases c) (simp add: abuse_call_step_consume call_limit_key consume_ok)
qed

section \<open>How many requests a window lets through\<close>

fun accepted_calls :: "abuse_limits \<Rightarrow> abuse_guard \<Rightarrow> (js_number \<times> abuse_call) list \<Rightarrow> string \<Rightarrow> int" where
  "accepted_calls L s [] k = 0"
| "accepted_calls L s (c # cs) k =
     (case abuse_call_step L s c of
        (s', r) \<Rightarrow> (if call_key (snd c) = k \<and> r = Inr () then 1 else 0) + accepted_calls L s' cs k)"

text \<open>
  What is left for a key in the interval of one window's length that starts at \<open>a\<close>: the rest of
  its bucket, and one more full bucket if the present one was opened before \<open>a\<close>.
\<close>

definition budget :: "abuse_limits \<Rightarrow> rat \<Rightarrow> string \<Rightarrow> abuse_guard \<Rightarrow> int" where
  "budget L a k s =
     (case js_get s k of
        None \<Rightarrow> key_limit L k
      | Some b \<Rightarrow> (if a \<le> rb_windowStartedAt b then 0 else key_limit L k) + key_limit L k - rb_count b)"

lemma budget_bounds:
  assumes "abuse_limits_ok L" "abuse_guard_ok L s"
  shows "0 \<le> budget L a k s" "budget L a k s \<le> 2 * key_limit L k"
proof -
  have "0 \<le> rb_count b \<and> rb_count b \<le> key_limit L k" if "js_get s k = Some b" for b
    using assms(2) that by (simp add: abuse_guard_ok_def)
  then show "0 \<le> budget L a k s" "budget L a k s \<le> 2 * key_limit L k"
    using key_limit_pos [OF assms(1), of k] by (force simp: budget_def split: option.split)+
qed

lemma budget_cleanup:
  assumes "abuse_limits_ok L" "abuse_guard_ok L s" "now < a + of_int (al_windowMs L)"
  shows "budget L a k (abuse_cleanup L now s) \<le> budget L a k s"
  using assms key_limit_pos [OF assms(1), of k]
  by (auto simp: budget_def abuse_guard_ok_def cleanup_get window_over_def split: option.splits)

lemma budget_step:
  assumes "abuse_limits_ok L" "abuse_guard_ok L s" "a \<le> now" "now < a + of_int (al_windowMs L)"
    and "abuse_consume L s (JsNum now) key (key_limit L key) = (s', r)"
  shows "budget L a k s' + (if key = k \<and> r = Inr () then 1 else 0) \<le> budget L a k s"
proof (rule consume_cases [OF assms(2), of "JsNum now" key "key_limit L key"], goal_cases not_finite refused opened counted)
  case not_finite
  then show ?thesis by simp
next
  case (refused now')
  with assms(5) budget_cleanup [OF assms(1,2,4)] show ?thesis by auto
next
  case (opened now')
  with assms(3,5) budget_cleanup [OF assms(1,2,4), of k] key_limit_pos [OF assms(1), of key] show ?thesis
    by (auto simp: count_in_bucket_def budget_def)
next
  case (counted now' b)
  with assms(5) budget_cleanup [OF assms(1,2,4), of k] show ?thesis
    by (auto simp: count_in_bucket_def budget_def split: if_splits)
qed

lemma accepted_budget:
  assumes "abuse_limits_ok L" "abuse_guard_ok L s"
    "\<forall>(nowN, c) \<in> set cs. \<exists>now. nowN = JsNum now \<and> a \<le> now \<and> now < a + of_int (al_windowMs L)"
  shows "accepted_calls L s cs k \<le> budget L a k s"
  using assms(2,3)
proof (induction cs arbitrary: s)
  case Nil
  then show ?case using budget_bounds [OF assms(1)] by simp
next
  case (Cons nc cs)
  obtain now c where nc: "nc = (JsNum now, c)" "a \<le> now" "now < a + of_int (al_windowMs L)"
    using Cons.prems(2) by (cases nc) auto
  obtain s' r where r: "abuse_consume L s (JsNum now) (call_key c) (key_limit L (call_key c)) = (s', r)"
    by fastforce
  have "abuse_guard_ok L s'"
    using consume_ok [OF assms(1) Cons.prems(1), of "JsNum now" "call_key c"] r by simp
  then have "accepted_calls L s' cs k \<le> budget L a k s'"
    using Cons.prems(2) by (intro Cons.IH) auto
  with budget_step [OF assms(1) Cons.prems(1) nc(2,3) r, of k] r show ?case
    by (simp add: nc(1) abuse_call_step_consume call_limit_key)
qed

section \<open>Properties\<close>

text \<open>
  C20: Rate limit. Whatever requests of whatever keys are made, and whatever happened before, of
  the requests for one key whose clock readings lie in any interval shorter than the window
  (in any order), at most twice the limit of the key are let through; at most the limit when
  the key had no bucket at the start.
\<close>

theorem abuse_rate_limit:
  assumes "new_abuse_guard w st cl mb = Some (L, s0)"
    and "s = foldl (\<lambda>s c. fst (abuse_call_step L s c)) s0 before"
    and "\<forall>(nowN, c) \<in> set cs. \<exists>now. nowN = JsNum now \<and> a \<le> now \<and> now < a + of_int (al_windowMs L)"
  shows "accepted_calls L s cs k \<le> 2 * key_limit L k \<and>
    (js_get s k = None \<longrightarrow> accepted_calls L s cs k \<le> key_limit L k)"
proof -
  from abuse_limits_of_constructor [OF assms(1)] have L: "abuse_limits_ok L" and "s0 = []" by auto
  then have "abuse_limits_ok L \<and> abuse_guard_ok L s0"
    by (simp add: abuse_guard_ok_def abuse_limits_ok_def)
  then have ok: "abuse_guard_ok L s"
    unfolding assms(2) using abuse_runs.run_keeps by blast
  from accepted_budget [OF L ok assms(3), of k] budget_bounds(2) [OF L ok, of a k] show ?thesis
    by (auto simp: budget_def)
qed

lemma abuse_rate_limit_witness:
  "\<exists>L s0. new_abuse_guard (Some (js_int 1000)) (Some (js_int 1)) None None = Some (L, s0) \<and>
     accepted_calls L s0 [(js_int 5, StartCall None), (js_int 6, StartCall None)] ''start:unknown''
       \<le> 2 * key_limit L ''start:unknown''"
proof -
  have n: "new_abuse_guard (Some (js_int 1000)) (Some (js_int 1)) None None =
      Some (\<lparr>al_windowMs = 1000, al_maxStartsPerAddress = 1, al_maxClaimsPerOwner = 10, al_maxBuckets = 10000\<rparr>, [])"
    by code_simp
  from abuse_rate_limit [OF n, of "[]" "[]" "[(js_int 5, StartCall None), (js_int 6, StartCall None)]" 0 "''start:unknown''"] n
  show ?thesis by simp
qed

text \<open>
  Bounded memory. After every sequence of requests the guard holds at most the configured
  number of buckets, and no bucket has counted more than the limit of its key.
\<close>

theorem abuse_guard_bounded:
  assumes "new_abuse_guard w st cl mb = Some (L, s0)"
  shows "abuse_guard_ok L (foldl (\<lambda>s c. fst (abuse_call_step L s c)) s0 cs)"
proof -
  from abuse_limits_of_constructor [OF assms] have "abuse_limits_ok L \<and> abuse_guard_ok L s0"
    by (auto simp: abuse_guard_ok_def abuse_limits_ok_def)
  then show ?thesis using abuse_runs.run_keeps by blast
qed

lemma abuse_guard_bounded_witness:
  "\<exists>L s0. new_abuse_guard None None None None = Some (L, s0) \<and>
     abuse_guard_ok L (foldl (\<lambda>s c. fst (abuse_call_step L s c)) s0 [(js_int 5, StartCall None), (JsNaN, StartCall None)])"
proof -
  have n: "new_abuse_guard None None None None =
      Some (\<lparr>al_windowMs = 60000, al_maxStartsPerAddress = 10, al_maxClaimsPerOwner = 10, al_maxBuckets = 10000\<rparr>, [])"
    by code_simp
  show ?thesis using n abuse_guard_bounded [OF n] by blast
qed

end
