(* ===== verification/Pairing_Service.thy ===== *)
theory Pairing_Service
  imports Pairing Abuse_Guard
begin

text \<open>
  Pairing codes and the class \<^verbatim>\<open>PairingService\<close> of \<^verbatim>\<open>apps/server/src/pairing.ts\<close>, over any
  pairing repository and any claim guard. SHA-256 is a parameter; the clock, the generators and
  the random bytes are arguments.
\<close>

unbundle bit_operations_syntax

section \<open>Pairing codes\<close>

definition pairing_code_alphabet :: string where
  "pairing_code_alphabet = ''ABCDEFGHJKLMNPQRSTUVWXYZ23456789''"

text \<open>The loop takes slices of four symbols while the offset is below the length.\<close>

function code_groups :: "string \<Rightarrow> string list" where
  "code_groups s = (if s = [] then [] else take 4 s # code_groups (drop 4 s))"
  by pat_completeness auto

termination
  by (relation "measure length") auto

declare code_groups.simps [simp del]

fun join_dash :: "string list \<Rightarrow> string" where
  "join_dash [] = []"
| "join_dash [g] = g"
| "join_dash (g # gs) = g @ ''-'' @ join_dash gs"

definition formatPairingCode :: "string \<Rightarrow> string" where
  "formatPairingCode normalizedCode = join_dash (code_groups normalizedCode)"

definition is_code_separator :: "char \<Rightarrow> bool" where
  "is_code_separator c \<longleftrightarrow> is_js_space c \<or> c = CHR ''-''"

text \<open>The argument is of unknown type; \<open>None\<close> is a value that is no string.\<close>

definition normalizePairingCode :: "string option \<Rightarrow> string option" where
  "normalizePairingCode pairingCode =
     (case pairingCode of
        None \<Rightarrow> None
      | Some code \<Rightarrow>
          let compact = filter (\<lambda>c. \<not> is_code_separator c) (js_upper code) in
          if length compact \<noteq> 12 then None
          else if list_all (\<lambda>c. c \<in> set pairing_code_alphabet) compact then Some compact else None)"

definition generateSecurePairingCode :: "byte list \<Rightarrow> string" where
  "generateSecurePairingCode bytes =
     formatPairingCode (map (\<lambda>b. pairing_code_alphabet ! unat (b AND 31)) bytes)"

definition pairing_code_digest_prefix :: string where
  "pairing_code_digest_prefix = ''doctmcp-pairing:v1:''"

definition digestPairingCode :: "(byte list \<Rightarrow> byte list) \<Rightarrow> string \<Rightarrow> string" where
  "digestPairingCode sha256 normalizedCode =
     hex_bytes (sha256 (utf8_encode (pairing_code_digest_prefix @ normalizedCode)))"

section \<open>The service\<close>

text \<open>
  The errors of the service; an exception that is not one of the repository's own is passed
  on: one of the device repository, one of the claim guard, one of a storage adapter.
\<close>

datatype pairing_service_error =
  SvcInvalidInput | SvcInvalidClock | SvcCodeUnavailable | SvcSessionNotFound
| SvcSessionNotPending | SvcCreateFailed
| SvcDeviceError device_repo_error | SvcGuardRefused | SvcStorageFailure

definition map_pairing_error :: "pairing_repo_error \<Rightarrow> pairing_service_error" where
  "map_pairing_error e =
     (case e of
        PairingCodeUnavailable \<Rightarrow> SvcCodeUnavailable
      | PairingSessionNotFound \<Rightarrow> SvcSessionNotFound
      | PairingSessionNotPending \<Rightarrow> SvcSessionNotPending
      | PairingInvalidClock \<Rightarrow> SvcInvalidClock
      | PairingDeviceError d \<Rightarrow> SvcDeviceError d
      | PairingStorageFailure \<Rightarrow> SvcStorageFailure
      | _ \<Rightarrow> SvcCreateFailed)"

definition map_pairing_outcome ::
  "('s, pairing_repo_error, 'a) outcome \<Rightarrow> ('s, pairing_service_error, 'a) outcome" where
  "map_pairing_outcome p = (fst p, map_sum map_pairing_error id (snd p))"

record create_pairing_result =
  cpo_pairingCode :: string
  cpo_session :: pairing_session

definition svc_read_now :: "js_date \<Rightarrow> (pairing_service_error, js_date) result" where
  "svc_read_now now = (case now of None \<Rightarrow> Inl SvcInvalidClock | Some t \<Rightarrow> Inr (Some t))"

text \<open>The constructor's check of the lifetime of a session.\<close>

definition pairing_ttl :: "js_number option \<Rightarrow> int option" where
  "pairing_ttl ttlMs =
     (let v = (case ttlMs of None \<Rightarrow> js_int 300000 | Some x \<Rightarrow> x) in
      if \<not> js_is_safe_integer v \<or> js_le_zero v then None else Some (js_to_int v))"

text \<open>
  The attempts of the creation loop: each takes the next generated code and session id, and
  only a clash of the id or the digest leads to another attempt.
\<close>

fun create_attempts ::
  "'s pairing_repository \<Rightarrow> (byte list \<Rightarrow> byte list) \<Rightarrow> nat \<Rightarrow> 's \<Rightarrow> (nat \<Rightarrow> string \<times> string) \<Rightarrow> nat
     \<Rightarrow> js_date \<Rightarrow> js_date \<Rightarrow> string option \<Rightarrow> ('s, pairing_service_error, create_pairing_result) outcome" where
  "create_attempts R sha256 0 s gens attempt createdAt expiresAt corr = (s, Inl SvcCreateFailed)"
| "create_attempts R sha256 (Suc left) s gens attempt createdAt expiresAt corr =
     (case gens attempt of (generatedCode, generatedId) \<Rightarrow>
      case (normalizePairingCode (Some generatedCode), pairing_session_id_schema generatedId) of
        (Some normalizedCode, Some sessionId) \<Rightarrow>
          (case pri_create R s \<lparr>cpr_pairingSessionId = sessionId,
                  cpr_codeDigest = digestPairingCode sha256 normalizedCode,
                  cpr_createdAt = createdAt, cpr_expiresAt = expiresAt,
                  cpr_localCorrelationId = corr\<rparr> of
             (s', Inr session) \<Rightarrow>
               (s', Inr \<lparr>cpo_pairingCode = formatPairingCode normalizedCode, cpo_session = session\<rparr>)
           | (s', Inl e) \<Rightarrow>
               if e = PairingSessionAlreadyExists \<or> e = PairingCodeDigestAlreadyExists
               then create_attempts R sha256 left s' gens (Suc attempt) createdAt expiresAt corr
               else (s', Inl (map_pairing_error e)))
      | _ \<Rightarrow> (s, Inl SvcCreateFailed))"

definition pairing_create_max_attempts :: nat where
  "pairing_create_max_attempts = 5"

definition createPairingSession ::
  "'s pairing_repository \<Rightarrow> (byte list \<Rightarrow> byte list) \<Rightarrow> int \<Rightarrow> 's \<Rightarrow> js_date \<Rightarrow> (nat \<Rightarrow> string \<times> string)
     \<Rightarrow> string option \<Rightarrow> ('s, pairing_service_error, create_pairing_result) outcome" where
  "createPairingSession R sha256 ttlMs s now gens localCorrelationId =
     try_with s (require SvcInvalidInput (optional_schema pairing_correlation_id_schema localCorrelationId)) (\<lambda>corr.
     try_with s (require SvcInvalidClock now) (\<lambda>createdAt.
       create_attempts R sha256 pairing_create_max_attempts s gens 0 (Some createdAt)
         (mk_date (createdAt + ttlMs)) corr))"

text \<open>A claim guard: what it does to its state and whether it lets the attempt through.\<close>

type_synonym 'g claim_guard = "'g \<Rightarrow> claim_attempt_info \<Rightarrow> 'g \<times> bool"

definition allow_all_claim_attempts :: "'g claim_guard" where
  "allow_all_claim_attempts g attempt = (g, True)"

definition abuse_claim_guard :: "abuse_limits \<Rightarrow> js_number \<Rightarrow> abuse_guard claim_guard" where
  "abuse_claim_guard L now g attempt = (let (g', r) = abuse_beforeClaim L g now attempt in (g', r = Inr ()))"

definition claimPairingCode ::
  "'s pairing_repository \<Rightarrow> 'g claim_guard \<Rightarrow> (byte list \<Rightarrow> byte list) \<Rightarrow> 's \<times> 'g \<Rightarrow> js_date \<Rightarrow> string \<Rightarrow> js_date
     \<Rightarrow> string option \<Rightarrow> claim_pairing_input \<Rightarrow> string option
     \<Rightarrow> ('s \<times> 'g, pairing_service_error, claim_pairing_result) outcome" where
  "claimPairingCode R guard sha256 sg now gen dnow pairingCode input remoteAddress =
     try_with sg (require SvcInvalidInput (claim_pairing_input_schema input)) (\<lambda>parsed.
       let digest = map_option (digestPairingCode sha256) (normalizePairingCode pairingCode);
           (g', allowed) = guard (snd sg) \<lparr>ca_ownerId = ci_ownerId parsed, ca_codeDigest = digest,
                                           ca_remoteAddress = remoteAddress\<rparr>
       in if \<not> allowed then ((fst sg, g'), Inl SvcGuardRefused)
          else case digest of
            None \<Rightarrow> ((fst sg, g'), Inl SvcCodeUnavailable)
          | Some codeDigest \<Rightarrow>
              let (s', r) = map_pairing_outcome
                 (pri_claim R (fst sg) now gen dnow \<lparr>clr_codeDigest = codeDigest, clr_input = parsed\<rparr>)
              in ((s', g'), r))"

definition getPairingSession ::
  "'s pairing_repository \<Rightarrow> 's \<Rightarrow> string \<Rightarrow> (pairing_service_error, pairing_session option) result" where
  "getPairingSession R s i =
     bind_result (require SvcInvalidInput (pairing_session_id_schema i)) (\<lambda>parsed.
       map_sum map_pairing_error id (pri_getById R s parsed))"

definition cancelPairingSession ::
  "'s pairing_repository \<Rightarrow> 's \<Rightarrow> js_date \<Rightarrow> string \<Rightarrow> ('s, pairing_service_error, pairing_session) outcome" where
  "cancelPairingSession R s now i =
     try_with s (require SvcInvalidInput (pairing_session_id_schema i)) (\<lambda>parsed.
     try_with s (svc_read_now now) (\<lambda>cancelledAt.
       map_pairing_outcome (pri_cancel R s parsed cancelledAt)))"

definition expirePairingSessions ::
  "'s pairing_repository \<Rightarrow> 's \<Rightarrow> js_date \<Rightarrow> ('s, pairing_service_error, nat) outcome" where
  "expirePairingSessions R s now =
     try_with s (svc_read_now now) (\<lambda>t. map_pairing_outcome (pri_expire R s t))"

definition pruneExpiredPairingSessions ::
  "'s pairing_repository \<Rightarrow> 's \<Rightarrow> js_date \<Rightarrow> ('s, pairing_service_error, nat) outcome" where
  "pruneExpiredPairingSessions R s now =
     try_with s (svc_read_now now) (\<lambda>t. map_pairing_outcome (pri_pruneExpired R s t))"

section \<open>Codes: round trips\<close>

definition normalized_code :: "string \<Rightarrow> bool" where
  "normalized_code n \<longleftrightarrow> length n = 12 \<and> list_all (\<lambda>c. c \<in> set pairing_code_alphabet) n"

lemma normalize_result: "normalizePairingCode code = Some n \<Longrightarrow> normalized_code n"
  by (auto simp: normalizePairingCode_def normalized_code_def Let_def split: option.splits if_splits)

lemma alphabet_symbol:
  assumes "c \<in> set pairing_code_alphabet"
  shows "upper_char c = [c] \<and> \<not> is_code_separator c"
proof -
  have "list_all (\<lambda>c. upper_char c = [c] \<and> \<not> is_code_separator c) pairing_code_alphabet"
    by code_simp
  with assms show ?thesis by (simp add: list_all_iff)
qed

lemma concat_code_groups: "concat (code_groups s) = s"
proof (induction s rule: code_groups.induct)
  case (1 s)
  then show ?case by (subst code_groups.simps) simp
qed

lemma filter_join_dash:
  "filter (\<lambda>c. \<not> is_code_separator c) (join_dash gs) = filter (\<lambda>c. \<not> is_code_separator c) (concat gs)"
  by (induction gs rule: join_dash.induct) (simp_all add: is_code_separator_def)

lemma upper_join_dash:
  "js_upper (join_dash gs) = join_dash (map js_upper gs)"
proof -
  have "upper_char CHR ''-'' = ''-''" by code_simp
  then show ?thesis
    by (induction gs rule: join_dash.induct) (simp_all add: js_upper_def)
qed

lemma symbols_fixed:
  assumes "list_all (\<lambda>c. c \<in> set pairing_code_alphabet) n"
  shows "js_upper n = n" "filter (\<lambda>c. \<not> is_code_separator c) n = n"
  using assms by (induction n) (simp_all add: js_upper_def alphabet_symbol)

lemma groups_upper:
  assumes "list_all (\<lambda>c. c \<in> set pairing_code_alphabet) n"
  shows "map js_upper (code_groups n) = code_groups n"
proof (rule map_idI)
  fix g assume "g \<in> set (code_groups n)"
  then have "set g \<subseteq> set (concat (code_groups n))" by auto
  then have "list_all (\<lambda>c. c \<in> set pairing_code_alphabet) g"
    using assms by (auto simp: concat_code_groups list_all_iff)
  then show "js_upper g = g" by (rule symbols_fixed(1))
qed

lemma normalize_format:
  assumes "normalized_code n"
  shows "normalizePairingCode (Some (formatPairingCode n)) = Some n"
proof -
  have n: "list_all (\<lambda>c. c \<in> set pairing_code_alphabet) n" "length n = 12"
    using assms by (simp_all add: normalized_code_def)
  then have "filter (\<lambda>c. \<not> is_code_separator c) (js_upper (formatPairingCode n)) = n"
    by (simp add: formatPairingCode_def upper_join_dash groups_upper filter_join_dash concat_code_groups symbols_fixed)
  with n show ?thesis by (simp add: normalizePairingCode_def)
qed

lemma unat_and_31: "unat ((b :: byte) AND 31) < 32"
proof -
  have "b AND 31 \<le> 31" by (rule word_and_le1)
  then show ?thesis by (simp add: word_le_nat_alt)
qed

lemma generated_code_normalized:
  assumes "length bytes = 12"
  shows "normalized_code (map (\<lambda>b. pairing_code_alphabet ! unat ((b :: byte) AND 31)) bytes)"
proof -
  have "length pairing_code_alphabet = 32" by code_simp
  then have "pairing_code_alphabet ! unat (b AND 31) \<in> set pairing_code_alphabet" for b :: byte
    using unat_and_31 [of b] by (intro nth_mem) simp
  with assms show ?thesis by (simp add: normalized_code_def list_all_iff)
qed

text \<open>
  C22: Codes survive the user. Whatever is entered, if it normalizes at all then formatting the
  normal form and entering it again gives the same code; and the code shown for twelve random
  bytes normalizes to exactly the twelve symbols the bytes select.
\<close>

theorem pairing_code_roundtrip:
  assumes "normalizePairingCode code = Some n" "length bytes = 12"
  shows "normalizePairingCode (Some (formatPairingCode n)) = Some n \<and>
    normalizePairingCode (Some (generateSecurePairingCode bytes)) =
      Some (map (\<lambda>b. pairing_code_alphabet ! unat (b AND 31)) bytes)"
  using normalize_format [OF normalize_result [OF assms(1)]]
    normalize_format [OF generated_code_normalized [OF assms(2)]]
  by (simp add: generateSecurePairingCode_def)

lemma pairing_code_roundtrip_witness:
  "normalizePairingCode (Some (formatPairingCode ''ABCDEFGH2345'')) = Some ''ABCDEFGH2345'' \<and>
   normalizePairingCode (Some (generateSecurePairingCode (replicate 12 (33 :: byte)))) =
      Some (map (\<lambda>b. pairing_code_alphabet ! unat (b AND 31)) (replicate 12 (33 :: byte)))"
proof (rule pairing_code_roundtrip)
  show "normalizePairingCode (Some '' abcd-efgh 2345'') = Some ''ABCDEFGH2345''" by code_simp
qed simp

section \<open>A created code can be claimed\<close>

lemma mem_create_found:
  assumes "memory_pairings_ok L (fst sd)" "mem_pairing_create L sd i = (t, Inr p)"
  shows "\<exists>r tc te. cpr_createdAt i = Some tc \<and> cpr_expiresAt i = Some te \<and>
    find_by_digest (fst t) (cpr_codeDigest i) = Some r \<and> sp_state r = Pending \<and>
    sp_createdAtMs r = tc \<and> sp_expiresAtMs r = te \<and> p = session_candidate r \<and> snd t = snd sd"
proof -
  from assms(2) [unfolded create_Inr] obtain d tc te s where
    *: "pairing_session_id_schema (cpr_pairingSessionId i) = Some d" "is_sha256_hex (cpr_codeDigest i)"
      "cpr_createdAt i = Some tc" "cpr_expiresAt i = Some te"
      "s = fst (prune_expired_records L tc (fst sd))"
      "js_get (mp_recordsById s) d = None" "js_get (mp_sessionIdByDigest s) (cpr_codeDigest i) = None"
      "cpr_codeDigest i \<notin> set (mp_expiredCodeTombstones s)"
      "int (js_size (mp_recordsById s)) < pl_maxSessions L"
      "to_session_snapshot (pending_record d i tc te) = Inr p"
      "t = (add_record (pending_record d i tc te) s, snd sd)"
    by blast
  obtain n where "prune_expired_records L tc (fst sd) = (s, n)"
    using *(5) by (cases "prune_expired_records L tc (fst sd)") simp
  with prune_expired_spec [OF assms(1)] have ok: "memory_pairings_ok L s" by blast
  have sel: "sp_pairingSessionId (pending_record d i tc te) = d"
    "sp_codeDigest (pending_record d i tc te) = cpr_codeDigest i"
    "sp_state (pending_record d i tc te) = Pending"
    "sp_createdAtMs (pending_record d i tc te) = tc" "sp_expiresAtMs (pending_record d i tc te) = te"
    by (simp_all add: pending_record_def)
  note r = pending_record_ok [OF *(10,2,1)]
  have "find_by_digest (fst t) (cpr_codeDigest i) = Some (pending_record d i tc te)"
    using add_record_spec(2) [OF ok r(1), of "cpr_codeDigest i"] * sel by simp
  with r(2) sel * show ?thesis by fastforce
qed

lemma create_attempts_success:
  assumes "create_attempts R sha256 k s gens a c e corr = (t, Inr x)"
  shows "\<exists>s' n d. normalized_code n \<and> cpo_pairingCode x = formatPairingCode n \<and>
    pri_create R s' \<lparr>cpr_pairingSessionId = d, cpr_codeDigest = digestPairingCode sha256 n,
      cpr_createdAt = c, cpr_expiresAt = e, cpr_localCorrelationId = corr\<rparr> = (t, Inr (cpo_session x)) \<and>
    (\<exists>ins. s' = foldl (\<lambda>s i. fst (pri_create R s i)) s ins)"
  using assms
proof (induction R sha256 k s gens a c e corr rule: create_attempts.induct)
  case (2 R sha256 left s gens a c e corr)
  obtain gc gi where g: "gens a = (gc, gi)" by fastforce
  obtain n d where nd: "normalizePairingCode (Some gc) = Some n" "pairing_session_id_schema gi = Some d"
    using 2(2) g by (auto split: option.splits)
  let ?i = "\<lparr>cpr_pairingSessionId = d, cpr_codeDigest = digestPairingCode sha256 n,
      cpr_createdAt = c, cpr_expiresAt = e, cpr_localCorrelationId = corr\<rparr>"
  obtain s' out where r: "pri_create R s ?i = (s', out)" by fastforce
  show ?case
  proof (cases out)
    case (Inr p)
    with 2(2) g nd r have "t = s'" "x = \<lparr>cpo_pairingCode = formatPairingCode n, cpo_session = p\<rparr>"
      by simp_all
    with r Inr normalize_result [OF nd(1)] show ?thesis
      by (intro exI [of _ s] exI [of _ n] exI [of _ d]) (auto intro: exI [of _ "[]"])
  next
    case (Inl err)
    with 2(2) g nd r have rec: "create_attempts R sha256 left s' gens (Suc a) c e corr = (t, Inr x)"
      by (simp split: if_splits)
    from Inl 2(2) g nd r have "err = PairingSessionAlreadyExists \<or> err = PairingCodeDigestAlreadyExists"
      by (simp split: if_splits)
    from 2(1) [OF g [symmetric] refl nd r [symmetric] Inl this rec] obtain s'' n' d' ins where
      *: "normalized_code n'" "cpo_pairingCode x = formatPairingCode n'"
        "pri_create R s'' \<lparr>cpr_pairingSessionId = d', cpr_codeDigest = digestPairingCode sha256 n',
          cpr_createdAt = c, cpr_expiresAt = e, cpr_localCorrelationId = corr\<rparr> = (t, Inr (cpo_session x))"
        "s'' = foldl (\<lambda>s i. fst (pri_create R s i)) s' ins"
      by blast
    have "s'' = foldl (\<lambda>s i. fst (pri_create R s i)) s (?i # ins)"
      using r *(4) by simp
    with * show ?thesis by blast
  qed
qed simp

lemma create_run_ok:
  "pairing_state_ok L s \<Longrightarrow>
   pairing_state_ok L (foldl (\<lambda>s i. fst (pri_create (memory_pairing_repository L memory_device_repository) s i)) s ins)"
proof (induction ins arbitrary: s)
  case (Cons i ins)
  have "pairing_state_ok L (pairing_step (memory_pairing_repository L memory_device_repository) s (CreatePairing i))"
    by (rule memory_pairing.step_ok [OF Cons.prems])
  then show ?case by (simp add: Cons.IH)
qed simp

lemma claim_input_creates:
  "claim_pairing_input_schema input = Some parsed \<Longrightarrow> create_device_input_schema parsed = Some parsed"
  by (auto simp: claim_pairing_input_schema_def create_device_input_schema_def schema_canonical split: option.splits)

text \<open>
  C19: Liveness of pairing. If a session was created, after any history, then the code that was
  handed out, entered at a time within the session's window with a valid claim, through a guard
  that lets the attempt through, is accepted: the claim returns this very session, now claimed,
  and a new device of the claimant with the generated id.
\<close>

theorem created_code_claimable:
  assumes "0 \<le> pl_maxSessions L" "sha256_like sha256"
    and "s = pairing_run L (empty_pairings, empty_devices) before"
    and "createPairingSession (memory_pairing_repository L memory_device_repository) sha256 ttl s now gens corr
      = (t, Inr x)"
    and "ps_createdAt (cpo_session x) \<le> ms" "ms < ps_expiresAt (cpo_session x)"
    and "claim_pairing_input_schema input = Some parsed"
    and "device_id_schema gen = Some d" "js_get (md_records (snd t)) d = None"
  shows "\<exists>u y. claimPairingCode (memory_pairing_repository L memory_device_repository) allow_all_claim_attempts
      sha256 (t, ()) (Some ms) gen (Some dms) (Some (cpo_pairingCode x)) input addr = ((u, ()), Inr y) \<and>
    ps_pairingSessionId (cpx_session y) = ps_pairingSessionId (cpo_session x) \<and>
    ps_state (cpx_session y) = Claimed \<and>
    dev_deviceId (cpx_device y) = d \<and> dev_ownerId (cpx_device y) = ci_ownerId parsed"
proof -
  let ?R = "memory_pairing_repository L memory_device_repository"
  have ok: "pairing_state_ok L s"
    unfolding assms(3) by (rule pairing_runs.run_keeps [OF initial_pairing_ok [OF assms(1)]])
  from assms(4) obtain corr' tc where
    "create_attempts ?R sha256 pairing_create_max_attempts s gens 0 (Some tc) (mk_date (tc + ttl)) corr' = (t, Inr x)"
    by (auto simp: createPairingSession_def split: try_splits)
  from create_attempts_success [OF this] obtain s' n sid ins where
    n: "normalized_code n" "cpo_pairingCode x = formatPairingCode n" and
    c: "pri_create ?R s' \<lparr>cpr_pairingSessionId = sid, cpr_codeDigest = digestPairingCode sha256 n,
      cpr_createdAt = Some tc, cpr_expiresAt = mk_date (tc + ttl), cpr_localCorrelationId = corr'\<rparr> =
        (t, Inr (cpo_session x))" and
    s': "s' = foldl (\<lambda>s i. fst (pri_create ?R s i)) s ins"
    by blast
  have ok': "memory_pairings_ok L (fst s')" "memory_devices_ok (snd s')"
    using create_run_ok [OF ok, of ins] by (simp_all add: s' pairing_state_ok_def)
  from c have c': "mem_pairing_create L s' \<lparr>cpr_pairingSessionId = sid, cpr_codeDigest = digestPairingCode sha256 n,
      cpr_createdAt = Some tc, cpr_expiresAt = mk_date (tc + ttl), cpr_localCorrelationId = corr'\<rparr> =
        (t, Inr (cpo_session x))"
    by (simp add: memory_pairing_repository_def)
  from mem_create_found [OF ok'(1) c'] obtain r where
    r: "find_by_digest (fst t) (digestPairingCode sha256 n) = Some r" "sp_state r = Pending"
      "cpo_session x = session_candidate r"
    by auto
  have tok: "memory_pairings_ok L (fst t)" "memory_devices_ok (snd t)"
    using create_spec(1,2) [OF ok'(1) c'] ok'(2) by simp_all
  let ?i = "\<lparr>clr_codeDigest = digestPairingCode sha256 n, clr_input = parsed\<rparr>"
  have g: "is_sha256_hex (digestPairingCode sha256 n)"
    by (simp add: digestPairingCode_def sha256_like_hex assms(2))
  obtain d' dev where dev: "mem_device_create (snd t) gen (Some dms) parsed = (d', Inr dev)"
    "dev_deviceId dev = d"
    using assms(8,9) claim_input_creates [OF assms(7)]
    by (simp add: mem_device_create_def device_read_now_def Let_def)
  then have a: "claim_attempt memory_device_repository t (Some ms) gen (Some dms) ?i ms r d' dev"
    using r g assms(5,6) by (simp add: claim_attempt_def memory_device_repository_def)
  note k = memory_store.claim_attempt_ok [OF tok a]
  from a k(2) r(2) assms(6) have "mem_pairing_claim memory_device_repository t (Some ms) gen (Some dms) ?i =
      ((set_record (claimed_record ms d r) (set_record r (fst t)), d'),
       Inr \<lparr>cpx_session = session_candidate (claimed_record ms d r), cpx_device = dev\<rparr>)"
    by (simp add: mem_pairing_claim_def read_timestamp_def parse_code_digest_def claim_attempt_def
        expire_if_due_id Let_def dev(2))
  then show ?thesis
    using k(3,9) dev(2) r(3) assms(7)
    by (auto simp: claimPairingCode_def allow_all_claim_attempts_def n(2) normalize_format [OF n(1)]
        map_pairing_outcome_def memory_pairing_repository_def Let_def)
qed

definition example_gens :: "nat \<Rightarrow> string \<times> string" where
  "example_gens k = (''ABCD-EFGH-2345'', ''0a1b2c3d-3333-4333-8333-0123456789ab'')"

definition example_created ::
  "(memory_pairings \<times> memory_devices, pairing_service_error, create_pairing_result) outcome" where
  "example_created = createPairingSession (memory_pairing_repository example_limits memory_device_repository)
     (\<lambda>m. replicate 32 7) 1000 (pairing_run example_limits (empty_pairings, empty_devices) []) (Some 5) example_gens None"

lemma created_code_claimable_witness:
  "\<exists>t x u y. example_created = (t, Inr x) \<and>
     claimPairingCode (memory_pairing_repository example_limits memory_device_repository) allow_all_claim_attempts
       (\<lambda>m. replicate 32 7) (t, ()) (Some 6) ''0a1b2c3d-1111-4111-8111-0123456789ab'' (Some 9)
       (Some (cpo_pairingCode x)) (clr_input example_claim) None = ((u, ()), Inr y)"
proof -
  have "\<not> isl (snd example_created)" by code_simp
  from succeeded [OF this] obtain t x where e: "example_created = (t, Inr x)" by blast
  have "(case snd example_created of Inr x \<Rightarrow> ps_createdAt (cpo_session x) = 5 \<and> ps_expiresAt (cpo_session x) = 1005
      | _ \<Rightarrow> False)" by code_simp
  then have times: "ps_createdAt (cpo_session x) \<le> 6" "6 < ps_expiresAt (cpo_session x)"
    by (simp_all add: e)
  have "js_get (md_records (snd (fst example_created))) ''0a1b2c3d-1111-4111-8111-0123456789ab'' = None"
    by code_simp
  then have free: "js_get (md_records (snd t)) ''0a1b2c3d-1111-4111-8111-0123456789ab'' = None"
    by (simp add: e)
  have "device_id_schema ''0a1b2c3d-1111-4111-8111-0123456789ab'' = Some ''0a1b2c3d-1111-4111-8111-0123456789ab''"
    "claim_pairing_input_schema (clr_input example_claim) = Some (clr_input example_claim)" by code_simp+
  moreover have "sha256_like (\<lambda>m. replicate 32 7)" by (simp add: sha256_like_def)
  ultimately show ?thesis
    using created_code_claimable [OF example_limits_pos _ refl e [unfolded example_created_def] times _ _ free] e
    by blast
qed

end
