(* ===== verification/Bridge_Protocol.thy ===== *)
theory Bridge_Protocol
  imports Schemas
begin

text \<open>
  The messages of the bridge (\<^verbatim>\<open>packages/schemas/src/index.ts\<close>) and of the pairing channel
  (\<^verbatim>\<open>packages/schemas/src/pairing-control.ts\<close>) as data, their schemas as parsers of JSON
  values, and the JSON value that is sent for each message. A JSON object is the list of its
  fields with distinct names.
\<close>

section \<open>JSON values\<close>

datatype json =
  JNull | JBool bool | JNum js_number | JStr string | JArr "json list" | JObj "(string \<times> json) list"

definition json_string :: "json option \<Rightarrow> string option" where
  "json_string j = (case j of Some (JStr s) \<Rightarrow> Some s | _ \<Rightarrow> None)"

definition non_empty_string :: "json option \<Rightarrow> string option" where
  "non_empty_string j =
     (case json_string j of Some s \<Rightarrow> if s \<noteq> [] then Some s else None | None \<Rightarrow> None)"

text \<open>\<^verbatim>\<open>z.number().int().positive()\<close>: a positive safe integer.\<close>

definition positive_int :: "json option \<Rightarrow> int option" where
  "positive_int j =
     (case j of
        Some (JNum n) \<Rightarrow> if js_is_safe_integer n \<and> \<not> js_le_zero n then Some (js_to_int n) else None
      | _ \<Rightarrow> None)"

definition literal :: "string \<Rightarrow> json option \<Rightarrow> bool" where
  "literal s j \<longleftrightarrow> j = Some (JStr s)"

text \<open>\<^verbatim>\<open>.strict()\<close>: no field but the named ones.\<close>

definition strict_fields :: "string list \<Rightarrow> (string \<times> json) list \<Rightarrow> bool" where
  "strict_fields ks fs \<longleftrightarrow> list_all (\<lambda>(k, v). k \<in> set ks) fs"

text \<open>\<^verbatim>\<open>z.enum\<close>: a value is written as its name.\<close>

definition enum_of :: "('a \<Rightarrow> string) \<Rightarrow> 'a list \<Rightarrow> json option \<Rightarrow> 'a option" where
  "enum_of name vs j =
     (case json_string j of None \<Rightarrow> None | Some s \<Rightarrow> find (\<lambda>v. name v = s) vs)"

lemma enum_of_name:
  assumes "v \<in> set vs" "inj_on name (set vs)"
  shows "enum_of name vs (Some (JStr (name v))) = Some v"
proof -
  have "find (\<lambda>w. name w = name v) vs = Some v"
    using assms
  proof (induction vs)
    case (Cons w vs)
    then show ?case
      by (cases "w = v") (auto simp: inj_on_def)
  qed simp
  then show ?thesis by (simp add: enum_of_def json_string_def)
qed

lemma enum_of_member: "enum_of name vs j = Some v \<Longrightarrow> v \<in> set vs"
  by (auto simp: enum_of_def json_string_def find_Some_iff split: option.splits json.splits)

section \<open>Bridge messages\<close>

definition bridge_protocol_version :: string where
  "bridge_protocol_version = ''1''"

definition bridge_max_message_bytes :: nat where
  "bridge_max_message_bytes = 1048576"

definition bridge_max_queued_messages :: nat where
  "bridge_max_queued_messages = 256"

definition bridge_max_queued_bytes :: nat where
  "bridge_max_queued_bytes = 4194304"

datatype bridge_error_code =
  InvalidMessage | MessageTooLarge | UnsupportedVersion | HandshakeRequired | UnexpectedMessage
| SessionClosed | BridgeTimeout | Backpressure | AuthRequired | AuthFailed

fun bridge_error_name :: "bridge_error_code \<Rightarrow> string" where
  "bridge_error_name InvalidMessage = ''INVALID_MESSAGE''"
| "bridge_error_name MessageTooLarge = ''MESSAGE_TOO_LARGE''"
| "bridge_error_name UnsupportedVersion = ''UNSUPPORTED_VERSION''"
| "bridge_error_name HandshakeRequired = ''HANDSHAKE_REQUIRED''"
| "bridge_error_name UnexpectedMessage = ''UNEXPECTED_MESSAGE''"
| "bridge_error_name SessionClosed = ''SESSION_CLOSED''"
| "bridge_error_name BridgeTimeout = ''TIMEOUT''"
| "bridge_error_name Backpressure = ''BACKPRESSURE''"
| "bridge_error_name AuthRequired = ''AUTH_REQUIRED''"
| "bridge_error_name AuthFailed = ''AUTH_FAILED''"

definition bridge_error_codes :: "bridge_error_code list" where
  "bridge_error_codes =
     [InvalidMessage, MessageTooLarge, UnsupportedVersion, HandshakeRequired, UnexpectedMessage,
      SessionClosed, BridgeTimeout, Backpressure, AuthRequired, AuthFailed]"

datatype bridge_close_code = CloseNormal | CloseProtocolError | CloseTimeout | CloseServerShutdown

fun bridge_close_name :: "bridge_close_code \<Rightarrow> string" where
  "bridge_close_name CloseNormal = ''NORMAL''"
| "bridge_close_name CloseProtocolError = ''PROTOCOL_ERROR''"
| "bridge_close_name CloseTimeout = ''TIMEOUT''"
| "bridge_close_name CloseServerShutdown = ''SERVER_SHUTDOWN''"

definition bridge_close_codes :: "bridge_close_code list" where
  "bridge_close_codes = [CloseNormal, CloseProtocolError, CloseTimeout, CloseServerShutdown]"

record device_auth =
  auth_deviceId :: string
  auth_credential :: string

datatype bridge_message =
  BridgeHello (hello_version: string) (hello_sessionId: string) (hello_auth: "device_auth option")
| BridgeHelloAck (ack_version: string) (ack_sessionId: string)
| McpMessage (mcp_payload: "(string \<times> json) list")
| BridgeError (error_code: bridge_error_code) (error_message: string)
| BridgeClose (close_code: bridge_close_code)

definition bridge_device_auth_schema :: "json \<Rightarrow> device_auth option" where
  "bridge_device_auth_schema j =
     (case j of
        JObj fs \<Rightarrow>
          if literal ''device'' (js_get fs ''mode'') \<and> strict_fields [''mode'', ''deviceId'', ''credential''] fs
          then (case (Option.bind (json_string (js_get fs ''deviceId'')) device_id_schema,
                      Option.bind (json_string (js_get fs ''credential'')) device_credential_secret_schema) of
                  (Some d, Some c) \<Rightarrow> Some \<lparr>auth_deviceId = d, auth_credential = c\<rparr>
                | _ \<Rightarrow> None)
          else None
      | _ \<Rightarrow> None)"

definition bridge_hello_schema :: "(string \<times> json) list \<Rightarrow> bridge_message option" where
  "bridge_hello_schema fs =
     (if literal ''local-agent'' (js_get fs ''role'') \<and>
         strict_fields [''kind'', ''bridgeProtocolVersion'', ''role'', ''sessionId'', ''auth''] fs
      then (case (non_empty_string (js_get fs ''bridgeProtocolVersion''),
                  non_empty_string (js_get fs ''sessionId''),
                  optional_schema bridge_device_auth_schema (js_get fs ''auth'')) of
              (Some v, Some s, Some a) \<Rightarrow> Some (BridgeHello v s a)
            | _ \<Rightarrow> None)
      else None)"

definition bridge_hello_ack_schema :: "(string \<times> json) list \<Rightarrow> bridge_message option" where
  "bridge_hello_ack_schema fs =
     (if literal ''public-server'' (js_get fs ''role'') \<and>
         strict_fields [''kind'', ''bridgeProtocolVersion'', ''role'', ''sessionId''] fs
      then (case (non_empty_string (js_get fs ''bridgeProtocolVersion''),
                  non_empty_string (js_get fs ''sessionId'')) of
              (Some v, Some s) \<Rightarrow> Some (BridgeHelloAck v s)
            | _ \<Rightarrow> None)
      else None)"

definition bridge_mcp_message_schema :: "(string \<times> json) list \<Rightarrow> bridge_message option" where
  "bridge_mcp_message_schema fs =
     (case js_get fs ''payload'' of
        Some (JObj p) \<Rightarrow> if strict_fields [''kind'', ''payload''] fs then Some (McpMessage p) else None
      | _ \<Rightarrow> None)"

definition bridge_error_schema :: "(string \<times> json) list \<Rightarrow> bridge_message option" where
  "bridge_error_schema fs =
     (case (enum_of bridge_error_name bridge_error_codes (js_get fs ''code''),
            non_empty_string (js_get fs ''message'')) of
        (Some c, Some m) \<Rightarrow>
          if length m \<le> 500 \<and> strict_fields [''kind'', ''code'', ''message''] fs
          then Some (BridgeError c m) else None
      | _ \<Rightarrow> None)"

definition bridge_close_schema :: "(string \<times> json) list \<Rightarrow> bridge_message option" where
  "bridge_close_schema fs =
     (case enum_of bridge_close_name bridge_close_codes (js_get fs ''code'') of
        Some c \<Rightarrow> if strict_fields [''kind'', ''code''] fs then Some (BridgeClose c) else None
      | None \<Rightarrow> None)"

definition bridge_message_schema :: "json \<Rightarrow> bridge_message option" where
  "bridge_message_schema j =
     (case j of
        JObj fs \<Rightarrow>
          (case json_string (js_get fs ''kind'') of
             None \<Rightarrow> None
           | Some k \<Rightarrow>
               if k = ''bridge.hello'' then bridge_hello_schema fs
               else if k = ''bridge.hello.ack'' then bridge_hello_ack_schema fs
               else if k = ''mcp.message'' then bridge_mcp_message_schema fs
               else if k = ''bridge.error'' then bridge_error_schema fs
               else if k = ''bridge.close'' then bridge_close_schema fs
               else None)
      | _ \<Rightarrow> None)"

text \<open>The JSON value of a message, fields in the order of the schema.\<close>

definition device_auth_json :: "device_auth \<Rightarrow> json" where
  "device_auth_json a =
     JObj [(''mode'', JStr ''device''), (''deviceId'', JStr (auth_deviceId a)),
           (''credential'', JStr (auth_credential a))]"

fun bridge_message_json :: "bridge_message \<Rightarrow> json" where
  "bridge_message_json (BridgeHello v s a) =
     JObj ([(''kind'', JStr ''bridge.hello''), (''bridgeProtocolVersion'', JStr v),
            (''role'', JStr ''local-agent''), (''sessionId'', JStr s)]
           @ (case a of None \<Rightarrow> [] | Some x \<Rightarrow> [(''auth'', device_auth_json x)]))"
| "bridge_message_json (BridgeHelloAck v s) =
     JObj [(''kind'', JStr ''bridge.hello.ack''), (''bridgeProtocolVersion'', JStr v),
           (''role'', JStr ''public-server''), (''sessionId'', JStr s)]"
| "bridge_message_json (McpMessage p) = JObj [(''kind'', JStr ''mcp.message''), (''payload'', JObj p)]"
| "bridge_message_json (BridgeError c m) =
     JObj [(''kind'', JStr ''bridge.error''), (''code'', JStr (bridge_error_name c)), (''message'', JStr m)]"
| "bridge_message_json (BridgeClose c) =
     JObj [(''kind'', JStr ''bridge.close''), (''code'', JStr (bridge_close_name c))]"

fun bridge_message_ok :: "bridge_message \<Rightarrow> bool" where
  "bridge_message_ok (BridgeHello v s a) \<longleftrightarrow> v \<noteq> [] \<and> s \<noteq> [] \<and>
     (\<forall>x. a = Some x \<longrightarrow> device_id_schema (auth_deviceId x) = Some (auth_deviceId x) \<and>
        device_credential_secret_schema (auth_credential x) = Some (auth_credential x))"
| "bridge_message_ok (BridgeHelloAck v s) \<longleftrightarrow> v \<noteq> [] \<and> s \<noteq> []"
| "bridge_message_ok (McpMessage p) \<longleftrightarrow> True"
| "bridge_message_ok (BridgeError c m) \<longleftrightarrow> m \<noteq> [] \<and> length m \<le> 500"
| "bridge_message_ok (BridgeClose c) \<longleftrightarrow> True"

lemma error_name_inj: "inj_on bridge_error_name (set bridge_error_codes)"
proof -
  have "distinct (map bridge_error_name bridge_error_codes)" by code_simp
  then show ?thesis by (simp add: distinct_map)
qed

lemma close_name_inj: "inj_on bridge_close_name (set bridge_close_codes)"
proof -
  have "distinct (map bridge_close_name bridge_close_codes)" by code_simp
  then show ?thesis by (simp add: distinct_map)
qed

lemma codes_complete [simp]: "c \<in> set bridge_error_codes" "d \<in> set bridge_close_codes"
  by (cases c; simp add: bridge_error_codes_def) (cases d; simp add: bridge_close_codes_def)

lemma enum_codes [simp]:
  "enum_of bridge_error_name bridge_error_codes (Some (JStr (bridge_error_name c))) = Some c"
  "enum_of bridge_close_name bridge_close_codes (Some (JStr (bridge_close_name d))) = Some d"
  by (simp_all add: enum_of_name error_name_inj close_name_inj)

lemma secret_canonical [simp]:
  "device_credential_secret_schema s = Some t \<Longrightarrow> device_credential_secret_schema t = Some t"
  by (auto simp: device_credential_secret_schema_def split: if_splits)

lemmas json_read_defs = json_string_def non_empty_string_def literal_def strict_fields_def

lemma device_auth_roundtrip:
  assumes "device_id_schema (auth_deviceId x) = Some (auth_deviceId x)"
    "device_credential_secret_schema (auth_credential x) = Some (auth_credential x)"
  shows "bridge_device_auth_schema (device_auth_json x) = Some x"
  using assms by (simp add: bridge_device_auth_schema_def device_auth_json_def json_read_defs)

lemma bridge_message_roundtrip_ok:
  "bridge_message_ok m \<Longrightarrow> bridge_message_schema (bridge_message_json m) = Some m"
proof (cases m)
  case (BridgeHello v s a)
  moreover assume "bridge_message_ok m"
  ultimately show ?thesis
    by (cases a) (simp_all add: bridge_message_schema_def bridge_hello_schema_def json_read_defs
        optional_schema_def device_auth_roundtrip)
qed (simp_all add: bridge_message_schema_def bridge_hello_ack_schema_def bridge_mcp_message_schema_def
    bridge_error_schema_def bridge_close_schema_def json_read_defs)

lemma device_auth_parsed:
  "bridge_device_auth_schema j = Some x \<Longrightarrow>
   device_id_schema (auth_deviceId x) = Some (auth_deviceId x) \<and>
   device_credential_secret_schema (auth_credential x) = Some (auth_credential x)"
  by (auto simp: bridge_device_auth_schema_def bind_eq_Some_conv device_id_canonical
      split: json.splits option.splits if_splits)

lemma bridge_message_parsed: "bridge_message_schema j = Some m \<Longrightarrow> bridge_message_ok m"
  by (auto simp: bridge_message_schema_def bridge_hello_schema_def bridge_hello_ack_schema_def
      bridge_mcp_message_schema_def bridge_error_schema_def bridge_close_schema_def
      non_empty_string_def optional_schema_def dest: device_auth_parsed
      split: json.splits option.splits if_splits)

text \<open>C30: Sending and parsing agree: every JSON value the bridge schema accepts as the message m is
  accepted again, as the same m, when m is written back as the JSON value the endpoints send.\<close>

theorem bridge_message_roundtrip:
  assumes "bridge_message_schema j = Some m"
  shows "bridge_message_schema (bridge_message_json m) = Some m"
  by (rule bridge_message_roundtrip_ok [OF bridge_message_parsed [OF assms]])

definition sample_hello :: json where
  "sample_hello =
     JObj [(''sessionId'', JStr ''s-1''), (''role'', JStr ''local-agent''),
           (''bridgeProtocolVersion'', JStr ''1''), (''kind'', JStr ''bridge.hello'')]"

theorem bridge_message_roundtrip_witness:
  "bridge_message_schema (bridge_message_json (BridgeHello ''1'' ''s-1'' None)) =
     Some (BridgeHello ''1'' ''s-1'' None)"
proof (rule bridge_message_roundtrip)
  show "bridge_message_schema sample_hello = Some (BridgeHello ''1'' ''s-1'' None)"
    by (simp add: sample_hello_def bridge_message_schema_def bridge_hello_schema_def json_read_defs
        optional_schema_def)
qed

section \<open>Pairing channel messages\<close>

definition pairing_channel_max_message_bytes :: nat where
  "pairing_channel_max_message_bytes = 4096"

definition pairing_channel_proof_schema :: "string \<Rightarrow> string option" where
  "pairing_channel_proof_schema s = (if length s = 43 \<and> list_all is_base64url s then Some s else None)"

datatype channel_error_code =
  PairingUnavailable | PairingRateLimited | PairingStorageFailed | ChannelProtocolError
| ChannelTimeout | ChannelServerShutdown

fun channel_error_name :: "channel_error_code \<Rightarrow> string" where
  "channel_error_name PairingUnavailable = ''PAIRING_UNAVAILABLE''"
| "channel_error_name PairingRateLimited = ''PAIRING_RATE_LIMITED''"
| "channel_error_name PairingStorageFailed = ''PAIRING_STORAGE_FAILED''"
| "channel_error_name ChannelProtocolError = ''PROTOCOL_ERROR''"
| "channel_error_name ChannelTimeout = ''TIMEOUT''"
| "channel_error_name ChannelServerShutdown = ''SERVER_SHUTDOWN''"

definition channel_error_codes :: "channel_error_code list" where
  "channel_error_codes =
     [PairingUnavailable, PairingRateLimited, PairingStorageFailed, ChannelProtocolError,
      ChannelTimeout, ChannelServerShutdown]"

text \<open>The close codes are the ones of the bridge. The test of the ISO date format of
  \<^verbatim>\<open>expiresAt\<close> (zod's \<^verbatim>\<open>datetime()\<close>) is the parameter \<open>iso8601\<close>.\<close>

datatype pairing_channel_message =
  PairingAttach (attach_sessionId: string) (attach_proof: string)
| PairingAttached (attached_sessionId: string) (attached_expiresAt: string)
| PairingCredential (cred_sessionId: string) (cred_deviceId: string) (cred_credentialId: string)
    (cred_version: int) (cred_secret: string)
| PairingAck (ack_pairingSessionId: string) (ack_deviceId: string) (ack_credentialId: string)
    (ack_credentialVersion: int)
| PairingErrorMessage (channel_error: channel_error_code)
| PairingClose (channel_close: bridge_close_code)

definition parsed_string :: "(string \<Rightarrow> string option) \<Rightarrow> json option \<Rightarrow> string option" where
  "parsed_string p j = Option.bind (json_string j) p"

definition pairing_attach_schema :: "(string \<times> json) list \<Rightarrow> pairing_channel_message option" where
  "pairing_attach_schema fs =
     (case (parsed_string pairing_session_id_schema (js_get fs ''pairingSessionId''),
            parsed_string pairing_channel_proof_schema (js_get fs ''channelProof'')) of
        (Some s, Some p) \<Rightarrow>
          if strict_fields [''kind'', ''pairingSessionId'', ''channelProof''] fs
          then Some (PairingAttach s p) else None
      | _ \<Rightarrow> None)"

definition pairing_attached_schema ::
  "(string \<Rightarrow> bool) \<Rightarrow> (string \<times> json) list \<Rightarrow> pairing_channel_message option" where
  "pairing_attached_schema iso8601 fs =
     (case (parsed_string pairing_session_id_schema (js_get fs ''pairingSessionId''),
            json_string (js_get fs ''expiresAt'')) of
        (Some s, Some e) \<Rightarrow>
          if iso8601 e \<and> strict_fields [''kind'', ''pairingSessionId'', ''expiresAt''] fs
          then Some (PairingAttached s e) else None
      | _ \<Rightarrow> None)"

definition pairing_credential_schema :: "(string \<times> json) list \<Rightarrow> pairing_channel_message option" where
  "pairing_credential_schema fs =
     (case (parsed_string pairing_session_id_schema (js_get fs ''pairingSessionId''),
            parsed_string device_id_schema (js_get fs ''deviceId''),
            parsed_string device_credential_id_schema (js_get fs ''credentialId''),
            positive_int (js_get fs ''version''),
            parsed_string device_credential_secret_schema (js_get fs ''credential'')) of
        (Some s, Some d, Some c, Some v, Some x) \<Rightarrow>
          if strict_fields [''kind'', ''pairingSessionId'', ''deviceId'', ''credentialId'', ''version'',
                            ''credential''] fs
          then Some (PairingCredential s d c v x) else None
      | _ \<Rightarrow> None)"

definition pairing_ack_schema :: "(string \<times> json) list \<Rightarrow> pairing_channel_message option" where
  "pairing_ack_schema fs =
     (case (parsed_string pairing_session_id_schema (js_get fs ''pairingSessionId''),
            parsed_string device_id_schema (js_get fs ''deviceId''),
            parsed_string device_credential_id_schema (js_get fs ''credentialId''),
            positive_int (js_get fs ''version'')) of
        (Some s, Some d, Some c, Some v) \<Rightarrow>
          if strict_fields [''kind'', ''pairingSessionId'', ''deviceId'', ''credentialId'', ''version''] fs
          then Some (PairingAck s d c v) else None
      | _ \<Rightarrow> None)"

definition pairing_error_schema :: "(string \<times> json) list \<Rightarrow> pairing_channel_message option" where
  "pairing_error_schema fs =
     (case enum_of channel_error_name channel_error_codes (js_get fs ''code'') of
        Some c \<Rightarrow> if strict_fields [''kind'', ''code''] fs then Some (PairingErrorMessage c) else None
      | None \<Rightarrow> None)"

definition pairing_close_schema :: "(string \<times> json) list \<Rightarrow> pairing_channel_message option" where
  "pairing_close_schema fs =
     (case enum_of bridge_close_name bridge_close_codes (js_get fs ''code'') of
        Some c \<Rightarrow> if strict_fields [''kind'', ''code''] fs then Some (PairingClose c) else None
      | None \<Rightarrow> None)"

definition pairing_channel_message_schema ::
  "(string \<Rightarrow> bool) \<Rightarrow> json \<Rightarrow> pairing_channel_message option" where
  "pairing_channel_message_schema iso8601 j =
     (case j of
        JObj fs \<Rightarrow>
          (case json_string (js_get fs ''kind'') of
             None \<Rightarrow> None
           | Some k \<Rightarrow>
               if k = ''pairing.attach'' then pairing_attach_schema fs
               else if k = ''pairing.attached'' then pairing_attached_schema iso8601 fs
               else if k = ''pairing.credential'' then pairing_credential_schema fs
               else if k = ''pairing.ack'' then pairing_ack_schema fs
               else if k = ''pairing.error'' then pairing_error_schema fs
               else if k = ''pairing.close'' then pairing_close_schema fs
               else None)
      | _ \<Rightarrow> None)"

text \<open>The object that \<^verbatim>\<open>pairingFrame\<close> serialises.\<close>

definition version_json :: "int \<Rightarrow> json" where
  "version_json v = JNum (js_int v)"

fun pairing_frame :: "pairing_channel_message \<Rightarrow> json" where
  "pairing_frame (PairingAttach s p) =
     JObj [(''kind'', JStr ''pairing.attach''), (''pairingSessionId'', JStr s), (''channelProof'', JStr p)]"
| "pairing_frame (PairingAttached s e) =
     JObj [(''kind'', JStr ''pairing.attached''), (''pairingSessionId'', JStr s), (''expiresAt'', JStr e)]"
| "pairing_frame (PairingCredential s d c v x) =
     JObj [(''kind'', JStr ''pairing.credential''), (''pairingSessionId'', JStr s),
           (''deviceId'', JStr d), (''credentialId'', JStr c), (''version'', version_json v),
           (''credential'', JStr x)]"
| "pairing_frame (PairingAck s d c v) =
     JObj [(''kind'', JStr ''pairing.ack''), (''pairingSessionId'', JStr s), (''deviceId'', JStr d),
           (''credentialId'', JStr c), (''version'', version_json v)]"
| "pairing_frame (PairingErrorMessage c) =
     JObj [(''kind'', JStr ''pairing.error''), (''code'', JStr (channel_error_name c))]"
| "pairing_frame (PairingClose c) =
     JObj [(''kind'', JStr ''pairing.close''), (''code'', JStr (bridge_close_name c))]"

lemma channel_error_enum [simp]:
  "enum_of channel_error_name channel_error_codes (Some (JStr (channel_error_name c))) = Some c"
proof (rule enum_of_name)
  show "c \<in> set channel_error_codes" by (cases c) (simp_all add: channel_error_codes_def)
  have "distinct (map channel_error_name channel_error_codes)" by code_simp
  then show "inj_on channel_error_name (set channel_error_codes)" by (simp add: distinct_map)
qed

lemma parsed_string_JStr [simp]: "parsed_string p (Some (JStr s)) = p s"
  by (simp add: parsed_string_def json_string_def)

lemma positive_int_json [simp]:
  "positive_int (Some (version_json v)) = (if 0 < v \<and> v \<le> max_safe_integer then Some v else None)"
  by (auto simp: positive_int_def version_json_def simp del: js_is_safe_integer.simps)

lemma positive_int_Some: "positive_int j = Some v \<Longrightarrow> 0 < v \<and> v \<le> max_safe_integer"
  by (auto simp: positive_int_def split: option.splits json.splits if_splits js_number.splits
      elim!: js_is_safe_integer.elims)

lemma channel_proof_canonical [simp]:
  "pairing_channel_proof_schema s = Some t \<Longrightarrow> pairing_channel_proof_schema t = Some t"
  by (auto simp: pairing_channel_proof_schema_def split: if_splits)

fun channel_message_ok :: "(string \<Rightarrow> bool) \<Rightarrow> pairing_channel_message \<Rightarrow> bool" where
  "channel_message_ok iso8601 (PairingAttach s p) \<longleftrightarrow>
     pairing_session_id_schema s = Some s \<and> pairing_channel_proof_schema p = Some p"
| "channel_message_ok iso8601 (PairingAttached s e) \<longleftrightarrow> pairing_session_id_schema s = Some s \<and> iso8601 e"
| "channel_message_ok iso8601 (PairingCredential s d c v x) \<longleftrightarrow>
     pairing_session_id_schema s = Some s \<and> device_id_schema d = Some d \<and>
     device_credential_id_schema c = Some c \<and> 0 < v \<and> v \<le> max_safe_integer \<and>
     device_credential_secret_schema x = Some x"
| "channel_message_ok iso8601 (PairingAck s d c v) \<longleftrightarrow>
     pairing_session_id_schema s = Some s \<and> device_id_schema d = Some d \<and>
     device_credential_id_schema c = Some c \<and> 0 < v \<and> v \<le> max_safe_integer"
| "channel_message_ok iso8601 (PairingErrorMessage c) \<longleftrightarrow> True"
| "channel_message_ok iso8601 (PairingClose c) \<longleftrightarrow> True"

lemmas channel_schema_defs =
  pairing_channel_message_schema_def pairing_attach_schema_def pairing_attached_schema_def
  pairing_credential_schema_def pairing_ack_schema_def pairing_error_schema_def pairing_close_schema_def

lemma channel_message_roundtrip_ok:
  "channel_message_ok iso8601 m \<Longrightarrow> pairing_channel_message_schema iso8601 (pairing_frame m) = Some m"
  by (cases m) (simp_all add: channel_schema_defs json_read_defs parsed_string_def)

lemma channel_message_parsed:
  "pairing_channel_message_schema iso8601 j = Some m \<Longrightarrow> channel_message_ok iso8601 m"
  by (auto simp: channel_schema_defs parsed_string_def bind_eq_Some_conv device_id_canonical
      pairing_session_id_canonical device_credential_id_canonical dest: positive_int_Some
      split: json.splits option.splits if_splits)

text \<open>The messages of the pairing channel survive transport: a message m that the schema accepts
  from some JSON value is accepted as the same m from the frame that the endpoints send for it.\<close>

theorem pairing_frame_roundtrip:
  assumes "pairing_channel_message_schema iso8601 j = Some m"
  shows "pairing_channel_message_schema iso8601 (pairing_frame m) = Some m"
  by (rule channel_message_roundtrip_ok [OF channel_message_parsed [OF assms]])

definition sample_channel_error :: json where
  "sample_channel_error = JObj [(''code'', JStr ''TIMEOUT''), (''kind'', JStr ''pairing.error'')]"

theorem pairing_frame_roundtrip_witness:
  "pairing_channel_message_schema (\<lambda>_. True) (pairing_frame (PairingErrorMessage ChannelTimeout)) =
     Some (PairingErrorMessage ChannelTimeout)"
proof (rule pairing_frame_roundtrip)
  show "pairing_channel_message_schema (\<lambda>_. True) sample_channel_error = Some (PairingErrorMessage ChannelTimeout)"
    by code_simp
qed

end
