(* ===== verification/Session_Registry.thy ===== *)
theory Session_Registry
  imports Schemas
begin

text \<open>
  The registry of live device sessions (\<^verbatim>\<open>apps/server/src/device-session-registry.ts\<close>): at most one
  session per device, an index of devices per owner and an index from sessions to registrations.
  A gateway session is an object; here it is its identity (a number), and its \<^verbatim>\<open>state\<close> and
  \<^verbatim>\<open>identity\<close> are read through the argument of type \<open>session_view\<close>, because the gateway may change
  the state between two calls of the registry.
\<close>

section \<open>Data\<close>

definition default_device_heartbeat_interval_ms :: nat where
  "default_device_heartbeat_interval_ms = 1000"

definition default_device_heartbeat_timeout_ms :: nat where
  "default_device_heartbeat_timeout_ms = 4000"

record generation =
  gen_credentialId :: string
  gen_version :: int

record session_view =
  view_ready :: bool
  view_identity :: "device_identity option"

type_synonym session_views = "nat \<Rightarrow> session_view"

record device_session =
  ds_registrationId :: string
  ds_ownerId :: string
  ds_deviceId :: string
  ds_generation :: generation
  ds_connectedAt :: int
  ds_lastSeenAt :: int
  ds_session :: nat

record registration_ref =
  ref_deviceId :: string
  ref_registrationId :: string

record session_registry =
  by_deviceId :: "(string, device_session) js_map"
  deviceIds_by_owner :: "(string, string js_set) js_map"
  registration_by_session :: "(nat, registration_ref) js_map"
  reg_heartbeatTimeoutMs :: rat

datatype registry_error =
  NotAuthenticated | NotReady | InvalidGeneration | InvalidRegistryClock | InvalidHeartbeatTimeout

datatype session_status = Online | Offline

record session_status_snapshot =
  status_deviceId :: string
  status_status :: session_status
  status_connectedAt :: "int option"
  status_lastSeenAt :: "int option"

section \<open>Operations\<close>

definition new_session_registry :: "js_number option \<Rightarrow> (registry_error, session_registry) result" where
  "new_session_registry timeout =
     (case timeout of
        None \<Rightarrow> Inr \<lparr>by_deviceId = [], deviceIds_by_owner = [], registration_by_session = [],
                    reg_heartbeatTimeoutMs = of_nat default_device_heartbeat_timeout_ms\<rparr>
      | Some (JsNum t) \<Rightarrow>
          if t \<le> 0 then Inl InvalidHeartbeatTimeout
          else Inr \<lparr>by_deviceId = [], deviceIds_by_owner = [], registration_by_session = [],
                    reg_heartbeatTimeoutMs = t\<rparr>
      | Some _ \<Rightarrow> Inl InvalidHeartbeatTimeout)"

text \<open>The version is an integer by its type here; the code also refuses one that is not an integer.\<close>

definition clone_generation :: "generation \<Rightarrow> (registry_error, generation) result" where
  "clone_generation g =
     (if gen_credentialId g = [] \<or> gen_version g \<le> 0 then Inl InvalidGeneration
      else Inr \<lparr>gen_credentialId = gen_credentialId g, gen_version = gen_version g\<rparr>)"

definition registry_now :: "js_date \<Rightarrow> (registry_error, int) result" where
  "registry_now d = require InvalidRegistryClock d"

definition is_live :: "session_registry \<Rightarrow> session_views \<Rightarrow> device_session \<Rightarrow> int \<Rightarrow> bool" where
  "is_live R sv e now \<longleftrightarrow>
     view_ready (sv (ds_session e)) \<and> of_int (now - ds_lastSeenAt e) < reg_heartbeatTimeoutMs R"

definition add_owner_device :: "string \<Rightarrow> string \<Rightarrow> session_registry \<Rightarrow> session_registry" where
  "add_owner_device owner d R =
     (let ids = (case js_get (deviceIds_by_owner R) owner of None \<Rightarrow> [] | Some ids \<Rightarrow> ids) in
      R\<lparr>deviceIds_by_owner := js_set owner (js_add d ids) (deviceIds_by_owner R)\<rparr>)"

definition remove_owner_device :: "string \<Rightarrow> string \<Rightarrow> session_registry \<Rightarrow> session_registry" where
  "remove_owner_device owner d R =
     (case js_get (deviceIds_by_owner R) owner of
        None \<Rightarrow> R
      | Some ids \<Rightarrow>
          (let rest = removeAll d ids in
           if rest = [] then R\<lparr>deviceIds_by_owner := js_delete owner (deviceIds_by_owner R)\<rparr>
           else R\<lparr>deviceIds_by_owner := js_set owner rest (deviceIds_by_owner R)\<rparr>))"

definition forget_session :: "nat \<Rightarrow> session_registry \<Rightarrow> session_registry" where
  "forget_session s R = R\<lparr>registration_by_session := js_delete s (registration_by_session R)\<rparr>"

definition remove_entry :: "device_session \<Rightarrow> session_registry \<Rightarrow> session_registry" where
  "remove_entry e R =
     (if map_option ds_registrationId (js_get (by_deviceId R) (ds_deviceId e)) \<noteq> Some (ds_registrationId e)
      then R
      else remove_owner_device (ds_ownerId e) (ds_deviceId e)
             (forget_session (ds_session e) (R\<lparr>by_deviceId := js_delete (ds_deviceId e) (by_deviceId R)\<rparr>)))"

text \<open>The entry a session's reference points at, when it is still the session's own.\<close>

definition own_entry :: "session_registry \<Rightarrow> registration_ref \<Rightarrow> nat \<Rightarrow> device_session option" where
  "own_entry R ref s =
     (case js_get (by_deviceId R) (ref_deviceId ref) of
        None \<Rightarrow> None
      | Some e \<Rightarrow>
          if ds_registrationId e \<noteq> ref_registrationId ref \<or> ds_session e \<noteq> s then None else Some e)"

record register_result =
  rr_current :: device_session
  rr_replaced :: "device_session option"

text \<open>The part of \<^verbatim>\<open>register\<close> after the test for an existing registration.\<close>

definition store_session ::
  "string \<Rightarrow> js_date \<Rightarrow> device_identity \<Rightarrow> nat \<Rightarrow> generation \<Rightarrow> session_registry
   \<Rightarrow> (session_registry, registry_error, register_result) outcome" where
  "store_session registrationId now identity s gen R =
     try_with R (registry_now now) (\<lambda>nowMs.
     try_with R (clone_generation gen) (\<lambda>g.
       let d = idn_deviceId identity;
           current = \<lparr>ds_registrationId = registrationId, ds_ownerId = idn_ownerId identity,
                      ds_deviceId = d, ds_generation = g, ds_connectedAt = nowMs,
                      ds_lastSeenAt = nowMs, ds_session = s\<rparr>;
           previous = js_get (by_deviceId R) d;
           R1 = add_owner_device (idn_ownerId identity) d
                  (R\<lparr>by_deviceId := js_set d current (by_deviceId R),
                     registration_by_session :=
                       js_set s \<lparr>ref_deviceId = d, ref_registrationId = registrationId\<rparr>
                         (registration_by_session R)\<rparr>);
           R2 = (case previous of
                   None \<Rightarrow> R1
                 | Some p \<Rightarrow>
                     if ds_ownerId p \<noteq> idn_ownerId identity
                     then remove_owner_device (ds_ownerId p) (ds_deviceId p) (forget_session (ds_session p) R1)
                     else forget_session (ds_session p) R1)
       in (R2, Inr \<lparr>rr_current = current, rr_replaced = previous\<rparr>)))"

definition registry_register ::
  "string \<Rightarrow> js_date \<Rightarrow> session_views \<Rightarrow> nat \<Rightarrow> generation \<Rightarrow> session_registry
   \<Rightarrow> (session_registry, registry_error, register_result) outcome" where
  "registry_register registrationId now sv s gen R =
     try_with R (require NotAuthenticated (view_identity (sv s))) (\<lambda>identity.
     try_with R (ensure NotReady (view_ready (sv s))) (\<lambda>_.
       case js_get (registration_by_session R) s of
         None \<Rightarrow> store_session registrationId now identity s gen R
       | Some ref \<Rightarrow>
           (case own_entry R ref s of
              Some e \<Rightarrow> (R, Inr \<lparr>rr_current = e, rr_replaced = None\<rparr>)
            | None \<Rightarrow> store_session registrationId now identity s gen (forget_session s R))))"

definition registry_getActive ::
  "js_date \<Rightarrow> session_views \<Rightarrow> string \<Rightarrow> session_registry \<Rightarrow> (registry_error, device_session option) result" where
  "registry_getActive now sv d R =
     (case js_get (by_deviceId R) d of
        None \<Rightarrow> Inr None
      | Some e \<Rightarrow>
          bind_result (registry_now now) (\<lambda>nowMs.
            if is_live R sv e nowMs then Inr (Some e) else Inr None))"

definition registry_getBySession :: "nat \<Rightarrow> session_registry \<Rightarrow> session_registry \<times> device_session option" where
  "registry_getBySession s R =
     (case js_get (registration_by_session R) s of
        None \<Rightarrow> (R, None)
      | Some ref \<Rightarrow>
          (case own_entry R ref s of
             None \<Rightarrow> (forget_session s R, None)
           | Some e \<Rightarrow> (R, Some e)))"

definition registry_listActiveForOwner ::
  "js_date \<Rightarrow> session_views \<Rightarrow> string \<Rightarrow> session_registry \<Rightarrow> (registry_error, device_session list) result" where
  "registry_listActiveForOwner now sv owner R =
     (case js_get (deviceIds_by_owner R) owner of
        None \<Rightarrow> Inr []
      | Some ids \<Rightarrow>
          bind_result (registry_now now) (\<lambda>nowMs.
            Inr (List.map_filter (\<lambda>d.
                   case js_get (by_deviceId R) d of
                     None \<Rightarrow> None
                   | Some e \<Rightarrow> if is_live R sv e nowMs then Some e else None) ids)))"

definition touch_entry :: "device_session \<Rightarrow> int \<Rightarrow> session_registry \<Rightarrow> session_registry" where
  "touch_entry e nowMs R =
     R\<lparr>by_deviceId := js_set (ds_deviceId e) (e\<lparr>ds_lastSeenAt := max (ds_lastSeenAt e) nowMs\<rparr>) (by_deviceId R)\<rparr>"

definition registry_markHeartbeat ::
  "js_date \<Rightarrow> session_views \<Rightarrow> nat \<Rightarrow> session_registry \<Rightarrow> (session_registry, registry_error, bool) outcome" where
  "registry_markHeartbeat now sv s R =
     (case js_get (registration_by_session R) s of
        None \<Rightarrow> (R, Inr False)
      | Some ref \<Rightarrow>
          (case own_entry R ref s of
             None \<Rightarrow> (forget_session s R, Inr False)
           | Some e \<Rightarrow>
               try_with R (registry_now now) (\<lambda>nowMs.
                 if is_live R sv e nowMs then (touch_entry e nowMs R, Inr True) else (R, Inr False))))"

definition registry_evictSession :: "nat \<Rightarrow> session_registry \<Rightarrow> session_registry \<times> device_session option" where
  "registry_evictSession s R =
     (case js_get (registration_by_session R) s of
        None \<Rightarrow> (R, None)
      | Some ref \<Rightarrow>
          (let R1 = forget_session s R in
           case own_entry R1 ref s of
             None \<Rightarrow> (R1, None)
           | Some e \<Rightarrow> (remove_entry e R1, Some e)))"

definition registry_evictGeneration ::
  "string \<Rightarrow> generation \<Rightarrow> session_registry \<Rightarrow> session_registry \<times> device_session option" where
  "registry_evictGeneration d g R =
     (case js_get (by_deviceId R) d of
        None \<Rightarrow> (R, None)
      | Some e \<Rightarrow>
          if gen_credentialId (ds_generation e) \<noteq> gen_credentialId g \<or>
             gen_version (ds_generation e) \<noteq> gen_version g
          then (R, None) else (remove_entry e R, Some e))"

definition registry_getStatus ::
  "js_date \<Rightarrow> session_views \<Rightarrow> string \<Rightarrow> session_registry \<Rightarrow> (registry_error, session_status_snapshot) result" where
  "registry_getStatus now sv d R =
     (case js_get (by_deviceId R) d of
        None \<Rightarrow> Inr \<lparr>status_deviceId = d, status_status = Offline,
                    status_connectedAt = None, status_lastSeenAt = None\<rparr>
      | Some e \<Rightarrow>
          bind_result (registry_now now) (\<lambda>nowMs.
            Inr \<lparr>status_deviceId = d, status_status = if is_live R sv e nowMs then Online else Offline,
                 status_connectedAt = Some (ds_connectedAt e), status_lastSeenAt = Some (ds_lastSeenAt e)\<rparr>))"

definition registry_clear :: "session_registry \<Rightarrow> session_registry \<times> device_session list" where
  "registry_clear R =
     (R\<lparr>by_deviceId := [], deviceIds_by_owner := [], registration_by_session := []\<rparr>,
      map snd (by_deviceId R))"

section \<open>Consistency of the three indexes\<close>

definition entries_ok :: "session_registry \<Rightarrow> bool" where
  "entries_ok R \<longleftrightarrow>
     (\<forall>d e. js_get (by_deviceId R) d = Some e \<longrightarrow>
        ds_deviceId e = d \<and> clone_generation (ds_generation e) = Inr (ds_generation e) \<and>
        js_get (registration_by_session R) (ds_session e) =
          Some \<lparr>ref_deviceId = d, ref_registrationId = ds_registrationId e\<rparr>)"

definition refs_ok :: "session_registry \<Rightarrow> bool" where
  "refs_ok R \<longleftrightarrow>
     (\<forall>s ref. js_get (registration_by_session R) s = Some ref \<longrightarrow> own_entry R ref s \<noteq> None)"

text \<open>The owner index as a relation; the indexes' helpers act on it as insertion and removal.\<close>

definition owned :: "session_registry \<Rightarrow> string \<Rightarrow> string \<Rightarrow> bool" where
  "owned R owner d \<longleftrightarrow> (\<exists>ids. js_get (deviceIds_by_owner R) owner = Some ids \<and> d \<in> set ids)"

definition index_shape :: "session_registry \<Rightarrow> bool" where
  "index_shape R \<longleftrightarrow>
     (\<forall>owner ids. js_get (deviceIds_by_owner R) owner = Some ids \<longrightarrow> distinct ids \<and> ids \<noteq> [])"

definition owners_ok :: "session_registry \<Rightarrow> bool" where
  "owners_ok R \<longleftrightarrow> index_shape R \<and>
     (\<forall>owner d. owned R owner d \<longleftrightarrow> (\<exists>e. js_get (by_deviceId R) d = Some e \<and> ds_ownerId e = owner))"

definition registry_ok :: "session_registry \<Rightarrow> bool" where
  "registry_ok R \<longleftrightarrow>
     js_map_ok (by_deviceId R) \<and> entries_ok R \<and> refs_ok R \<and> owners_ok R"

lemma index_shapeD:
  "index_shape R \<Longrightarrow> js_get (deviceIds_by_owner R) owner = Some ids \<Longrightarrow> distinct ids \<and> ids \<noteq> []"
  unfolding index_shape_def by blast

lemma owned_add [simp]:
  "owned (add_owner_device owner d R) w d' \<longleftrightarrow> (w = owner \<and> d' = d) \<or> owned R w d'"
proof (cases "w = owner")
  case True
  then show ?thesis
    by (cases "js_get (deviceIds_by_owner R) owner") (simp_all add: owned_def add_owner_device_def)
next
  case False
  then show ?thesis
    by (cases "js_get (deviceIds_by_owner R) owner") (simp_all add: owned_def add_owner_device_def)
qed

lemma index_shape_update:
  assumes "index_shape R" and "distinct ids" "ids \<noteq> []"
  shows "index_shape (R\<lparr>deviceIds_by_owner := js_set owner ids (deviceIds_by_owner R)\<rparr>)"
  unfolding index_shape_def
proof (intro allI impI)
  fix owner' ids'
  assume "js_get (deviceIds_by_owner (R\<lparr>deviceIds_by_owner := js_set owner ids (deviceIds_by_owner R)\<rparr>)) owner'
    = Some ids'"
  then have "ids' = ids \<or> js_get (deviceIds_by_owner R) owner' = Some ids'" by (auto split: if_splits)
  with assms(2,3) index_shapeD [OF assms(1), of owner' ids'] show "distinct ids' \<and> ids' \<noteq> []" by blast
qed

lemma index_shape_delete:
  assumes "index_shape R"
  shows "index_shape (R\<lparr>deviceIds_by_owner := js_delete owner (deviceIds_by_owner R)\<rparr>)"
  unfolding index_shape_def
proof (intro allI impI)
  fix owner' ids'
  assume "js_get (deviceIds_by_owner (R\<lparr>deviceIds_by_owner := js_delete owner (deviceIds_by_owner R)\<rparr>)) owner'
    = Some ids'"
  then have "js_get (deviceIds_by_owner R) owner' = Some ids'" by (auto split: if_splits)
  with index_shapeD [OF assms, of owner' ids'] show "distinct ids' \<and> ids' \<noteq> []" by blast
qed

lemma index_shape_add [simp]:
  assumes "index_shape R"
  shows "index_shape (add_owner_device owner d R)"
proof (cases "js_get (deviceIds_by_owner R) owner")
  case None
  then show ?thesis
    by (simp add: add_owner_device_def index_shape_update [OF assms] distinct_js_add [of "[]"])
next
  case (Some ids)
  with index_shapeD [OF assms Some] show ?thesis
    by (simp add: add_owner_device_def index_shape_update [OF assms])
qed

lemma removeAll_empty: "removeAll d ids = [] \<longleftrightarrow> set ids \<subseteq> {d}"
  by (induction ids) auto

lemma owned_remove [simp]:
  "owned (remove_owner_device owner d R) w d' \<longleftrightarrow> owned R w d' \<and> \<not> (w = owner \<and> d' = d)"
proof (cases "js_get (deviceIds_by_owner R) owner")
  case None
  then show ?thesis by (auto simp: owned_def remove_owner_device_def)
next
  case (Some ids)
  show ?thesis
  proof (cases "set ids \<subseteq> {d}")
    case True
    then have "removeAll d ids = []" by (simp add: removeAll_empty)
    then have "deviceIds_by_owner (remove_owner_device owner d R) = js_delete owner (deviceIds_by_owner R)"
      by (simp add: Some remove_owner_device_def)
    with True Some show ?thesis by (auto simp: owned_def)
  next
    case False
    then have "removeAll d ids \<noteq> []" by (simp add: removeAll_empty)
    then have "deviceIds_by_owner (remove_owner_device owner d R) =
        js_set owner (removeAll d ids) (deviceIds_by_owner R)"
      by (simp add: Some remove_owner_device_def)
    with Some show ?thesis by (auto simp: owned_def)
  qed
qed

lemma index_shape_remove [simp]:
  assumes "index_shape R"
  shows "index_shape (remove_owner_device owner d R)"
proof (cases "js_get (deviceIds_by_owner R) owner")
  case None
  with assms show ?thesis by (simp add: remove_owner_device_def)
next
  case (Some ids)
  have "distinct (removeAll d ids)" using index_shapeD [OF assms Some] by (simp add: distinct_removeAll)
  then show ?thesis
    by (simp add: Some remove_owner_device_def Let_def index_shape_update [OF assms] index_shape_delete [OF assms])
qed

lemma owner_index_frame [simp]:
  "by_deviceId (add_owner_device owner d R) = by_deviceId R"
  "registration_by_session (add_owner_device owner d R) = registration_by_session R"
  "by_deviceId (remove_owner_device owner d R) = by_deviceId R"
  "registration_by_session (remove_owner_device owner d R) = registration_by_session R"
  "by_deviceId (forget_session s R) = by_deviceId R"
  "registration_by_session (forget_session s R) = js_delete s (registration_by_session R)"
  "deviceIds_by_owner (forget_session s R) = deviceIds_by_owner R"
  "reg_heartbeatTimeoutMs (add_owner_device owner d R) = reg_heartbeatTimeoutMs R"
  "reg_heartbeatTimeoutMs (remove_owner_device owner d R) = reg_heartbeatTimeoutMs R"
  "reg_heartbeatTimeoutMs (forget_session s R) = reg_heartbeatTimeoutMs R"
  by (simp_all add: add_owner_device_def remove_owner_device_def forget_session_def Let_def
      split: option.split)

lemma owned_frame [simp]:
  "owned (forget_session s R) = owned R"
  "owned (R\<lparr>by_deviceId := m, registration_by_session := n\<rparr>) = owned R"
  "owned (R\<lparr>by_deviceId := m\<rparr>) = owned R"
  "index_shape (forget_session s R) = index_shape R"
  "index_shape (R\<lparr>by_deviceId := m, registration_by_session := n\<rparr>) = index_shape R"
  "index_shape (R\<lparr>by_deviceId := m\<rparr>) = index_shape R"
  by (auto simp: fun_eq_iff owned_def index_shape_def)

lemma own_entry_Some:
  "own_entry R ref s = Some e \<longleftrightarrow>
     js_get (by_deviceId R) (ref_deviceId ref) = Some e \<and>
     ds_registrationId e = ref_registrationId ref \<and> ds_session e = s"
  by (auto simp: own_entry_def split: option.splits)

text \<open>All four clauses as one statement about look-ups.\<close>

lemma registry_okI:
  assumes "js_map_ok (by_deviceId R)"
    and "\<And>d e. js_get (by_deviceId R) d = Some e \<Longrightarrow> ds_deviceId e = d"
    and "\<And>d e. js_get (by_deviceId R) d = Some e \<Longrightarrow>
           clone_generation (ds_generation e) = Inr (ds_generation e)"
    and "\<And>s d r. js_get (registration_by_session R) s = Some \<lparr>ref_deviceId = d, ref_registrationId = r\<rparr>
           \<longleftrightarrow> (\<exists>e. js_get (by_deviceId R) d = Some e \<and> ds_registrationId e = r \<and> ds_session e = s)"
    and "index_shape R"
    and "\<And>owner d. owned R owner d \<longleftrightarrow> (\<exists>e. js_get (by_deviceId R) d = Some e \<and> ds_ownerId e = owner)"
  shows "registry_ok R"
proof -
  have "entries_ok R"
    unfolding entries_ok_def using assms(2,3,4) by blast
  moreover have "refs_ok R"
    unfolding refs_ok_def
  proof (intro allI impI)
    fix s and ref :: registration_ref
    assume "js_get (registration_by_session R) s = Some ref"
    then have "js_get (registration_by_session R) s =
        Some \<lparr>ref_deviceId = ref_deviceId ref, ref_registrationId = ref_registrationId ref\<rparr>" by simp
    then show "own_entry R ref s \<noteq> None"
      unfolding assms(4) by (auto simp: own_entry_def)
  qed
  ultimately show ?thesis
    using assms(1,5,6) by (simp add: registry_ok_def owners_ok_def)
qed

lemma registry_okD:
  assumes "registry_ok R"
  shows "js_map_ok (by_deviceId R)"
    and "js_get (by_deviceId R) d = Some e \<Longrightarrow> ds_deviceId e = d"
    and "js_get (by_deviceId R) d = Some e \<Longrightarrow> clone_generation (ds_generation e) = Inr (ds_generation e)"
    and "js_get (registration_by_session R) s = Some \<lparr>ref_deviceId = d, ref_registrationId = r\<rparr>
           \<longleftrightarrow> (\<exists>e. js_get (by_deviceId R) d = Some e \<and> ds_registrationId e = r \<and> ds_session e = s)"
    and "index_shape R"
    and "owned R owner d \<longleftrightarrow> (\<exists>e. js_get (by_deviceId R) d = Some e \<and> ds_ownerId e = owner)"
proof -
  show "js_get (registration_by_session R) s = Some \<lparr>ref_deviceId = d, ref_registrationId = r\<rparr>
           \<longleftrightarrow> (\<exists>e. js_get (by_deviceId R) d = Some e \<and> ds_registrationId e = r \<and> ds_session e = s)"
  proof
    assume "js_get (registration_by_session R) s = Some \<lparr>ref_deviceId = d, ref_registrationId = r\<rparr>"
    with assms have "own_entry R \<lparr>ref_deviceId = d, ref_registrationId = r\<rparr> s \<noteq> None"
      by (auto simp: registry_ok_def refs_ok_def)
    then show "\<exists>e. js_get (by_deviceId R) d = Some e \<and> ds_registrationId e = r \<and> ds_session e = s"
      by (auto simp: own_entry_Some)
  qed (use assms in \<open>auto simp: registry_ok_def entries_ok_def\<close>)
qed (use assms in \<open>auto simp: registry_ok_def entries_ok_def owners_ok_def\<close>)

lemma own_entry_present:
  assumes "registry_ok R" "js_get (registration_by_session R) s = Some ref"
  obtains e where "own_entry R ref s = Some e"
  using assms by (auto simp: registry_ok_def refs_ok_def)

lemma own_entry_forget [simp]: "own_entry (forget_session t R) = own_entry R"
  by (simp add: fun_eq_iff own_entry_def)

lemma session_unique:
  assumes "registry_ok R"
    and "js_get (by_deviceId R) d = Some e" "js_get (by_deviceId R) d' = Some e'"
    and "ds_session e = ds_session e'"
  shows "d = d' \<and> e = e'"
proof -
  have "js_get (registration_by_session R) (ds_session e) =
      Some \<lparr>ref_deviceId = d, ref_registrationId = ds_registrationId e\<rparr>"
    "js_get (registration_by_session R) (ds_session e') =
      Some \<lparr>ref_deviceId = d', ref_registrationId = ds_registrationId e'\<rparr>"
    using registry_okD(4) [OF assms(1)] assms(2,3) by blast+
  with assms show ?thesis by simp
qed

lemma registered_session:
  assumes "registry_ok R" "js_get (by_deviceId R) d = Some e"
  shows "js_get (registration_by_session R) (ds_session e) =
      Some \<lparr>ref_deviceId = d, ref_registrationId = ds_registrationId e\<rparr>"
  using registry_okD(4) [OF assms(1)] assms(2) by blast

section \<open>Each operation keeps the indexes consistent\<close>

definition registry_without :: "device_session \<Rightarrow> session_registry \<Rightarrow> session_registry" where
  "registry_without e R =
     remove_owner_device (ds_ownerId e) (ds_deviceId e)
       (forget_session (ds_session e) (R\<lparr>by_deviceId := js_delete (ds_deviceId e) (by_deviceId R)\<rparr>))"

lemma registry_without_ok:
  assumes ok: "registry_ok R" and e: "js_get (by_deviceId R) d = Some e"
  shows "registry_ok (registry_without e R)"
proof -
  have d: "ds_deviceId e = d" by (rule registry_okD(2) [OF ok e])
  show ?thesis
  proof (rule registry_okI, goal_cases map key gen ref shape own)
    case map
    then show ?case using registry_okD(1) [OF ok] by (simp add: registry_without_def)
  next
    case (key d' e')
    then show ?case using registry_okD(2) [OF ok, of d' e'] by (simp add: registry_without_def split: if_splits)
  next
    case (gen d' e')
    then show ?case using registry_okD(3) [OF ok, of d' e'] by (simp add: registry_without_def split: if_splits)
  next
    case (ref s d' r)
    have refs: "js_get (registration_by_session (registry_without e R)) s = Some x \<longleftrightarrow>
        s \<noteq> ds_session e \<and> js_get (registration_by_session R) s = Some x" for x
      by (simp add: registry_without_def)
    have entries: "js_get (by_deviceId (registry_without e R)) d' = Some x \<longleftrightarrow>
        d' \<noteq> d \<and> js_get (by_deviceId R) d' = Some x" for x
      by (simp add: registry_without_def d)
    have "s \<noteq> ds_session e \<longleftrightarrow> d' \<noteq> d"
      if "js_get (by_deviceId R) d' = Some x" "ds_session x = s" for x
    proof
      assume "s \<noteq> ds_session e"
      with e that show "d' \<noteq> d" by fastforce
    next
      assume "d' \<noteq> d"
      with session_unique [OF ok e that(1)] that(2) show "s \<noteq> ds_session e" by metis
    qed
    then show ?case
      unfolding refs entries registry_okD(4) [OF ok] by blast
  next
    case shape
    then show ?case using registry_okD(5) [OF ok] by (simp add: registry_without_def)
  next
    case (own owner d')
    show ?case
      using registry_okD(6) [OF ok, of owner d'] e by (auto simp: registry_without_def d)
  qed
qed

lemma remove_entry_eq:
  assumes "registry_ok R" "js_get (by_deviceId R) d = Some e"
  shows "remove_entry e R = registry_without e R"
  using assms registry_okD(2) [OF assms] by (simp add: remove_entry_def registry_without_def)

lemma remove_after_forget:
  assumes "registry_ok R" "js_get (by_deviceId R) d = Some e"
  shows "remove_entry e (forget_session (ds_session e) R) = registry_without e R"
proof -
  have "js_delete s (js_delete s m) = js_delete s m" for s and m :: "(nat, registration_ref) js_map"
    by (simp add: AList.delete_idem)
  then show ?thesis
    using assms registry_okD(2) [OF assms]
    by (simp add: remove_entry_def registry_without_def forget_session_def)
qed

lemma evictSession_eq:
  assumes "registry_ok R"
  shows "registry_evictSession s R =
     (case js_get (registration_by_session R) s of
        None \<Rightarrow> (R, None)
      | Some ref \<Rightarrow> (registry_without (the (own_entry R ref s)) R, own_entry R ref s))"
proof (cases "js_get (registration_by_session R) s")
  case (Some ref)
  then obtain e where e: "own_entry R ref s = Some e" by (rule own_entry_present [OF assms])
  then have "js_get (by_deviceId R) (ref_deviceId ref) = Some e" "ds_session e = s"
    by (simp_all add: own_entry_Some)
  with remove_after_forget [OF assms, of "ref_deviceId ref" e] Some e show ?thesis
    by (simp add: registry_evictSession_def)
qed (simp add: registry_evictSession_def)

lemma evictSession_ok:
  assumes ok: "registry_ok R"
  shows "registry_ok (fst (registry_evictSession s R))"
proof (cases "js_get (registration_by_session R) s")
  case None
  with ok show ?thesis by (simp add: registry_evictSession_def)
next
  case (Some ref)
  obtain e where e: "own_entry R ref s = Some e" by (rule own_entry_present [OF ok Some])
  then have "registry_ok (registry_without e R)"
    by (intro registry_without_ok [OF ok, of "ref_deviceId ref"]) (simp add: own_entry_Some)
  with Some e show ?thesis by (simp add: evictSession_eq [OF ok])
qed

lemma evictGeneration_ok: "registry_ok R \<Longrightarrow> registry_ok (fst (registry_evictGeneration d g R))"
  by (auto simp: registry_evictGeneration_def remove_entry_eq registry_without_ok split: option.split)

lemma getBySession_ok: "registry_ok R \<Longrightarrow> registry_getBySession s R = (R, snd (registry_getBySession s R))"
  by (auto simp: registry_getBySession_def elim!: own_entry_present split: option.split)

lemma clear_ok: "registry_ok (fst (registry_clear R))"
  by (rule registry_okI) (auto simp: registry_clear_def owned_def index_shape_def)

lemma touch_ok:
  assumes ok: "registry_ok R" and e: "js_get (by_deviceId R) d = Some e"
  shows "registry_ok (touch_entry e n R)"
proof -
  have d: "ds_deviceId e = d" by (rule registry_okD(2) [OF ok e])
  show ?thesis
  proof (rule registry_okI, goal_cases map key gen ref shape own)
    case map
    then show ?case using registry_okD(1) [OF ok] by (simp add: touch_entry_def)
  next
    case (key d' e')
    then show ?case using registry_okD(2) [OF ok, of d' e'] by (auto simp: touch_entry_def d split: if_splits)
  next
    case (gen d' e')
    then show ?case
      using registry_okD(3) [OF ok, of d' e'] registry_okD(3) [OF ok e] by (auto simp: touch_entry_def d split: if_splits)
  next
    case (ref s d' r)
    show ?case
      using registry_okD(4) [OF ok, of s d' r] e by (auto simp: touch_entry_def d)
  next
    case shape
    then show ?case using registry_okD(5) [OF ok] by (simp add: touch_entry_def)
  next
    case (own owner d')
    show ?case
      using registry_okD(6) [OF ok, of owner d'] e by (auto simp: touch_entry_def d)
  qed
qed

lemma markHeartbeat_ok:
  assumes ok: "registry_ok R"
  shows "registry_ok (fst (registry_markHeartbeat now sv s R))"
proof (cases "js_get (registration_by_session R) s")
  case None
  with ok show ?thesis by (simp add: registry_markHeartbeat_def)
next
  case (Some ref)
  obtain e where e: "own_entry R ref s = Some e" by (rule own_entry_present [OF ok Some])
  then have "js_get (by_deviceId R) (ref_deviceId ref) = Some e" by (simp add: own_entry_Some)
  then have "registry_ok (touch_entry e n R)" for n by (rule touch_ok [OF ok])
  with ok Some e show ?thesis
    by (cases "registry_now now") (simp_all add: registry_markHeartbeat_def)
qed

text \<open>The registry after a session without a registration has been stored.\<close>

lemma store_session_Inr:
  "store_session rid now identity s gen R = (R', Inr res) \<longleftrightarrow>
     (\<exists>t g. now = Some t \<and> clone_generation gen = Inr g \<and>
       rr_current res = \<lparr>ds_registrationId = rid, ds_ownerId = idn_ownerId identity,
         ds_deviceId = idn_deviceId identity, ds_generation = g, ds_connectedAt = t,
         ds_lastSeenAt = t, ds_session = s\<rparr> \<and>
       rr_replaced res = js_get (by_deviceId R) (idn_deviceId identity) \<and>
       R' = fst (store_session rid now identity s gen R))"
  by (cases res) (auto simp: store_session_def registry_now_def Let_def split: try_splits)

lemma store_session_Inl:
  "store_session rid now identity s gen R = (R', Inl e) \<Longrightarrow> R' = R"
  by (auto simp: store_session_def Let_def split: try_splits)

lemma clone_generation_idem: "clone_generation g = Inr h \<Longrightarrow> clone_generation h = Inr h"
  by (auto simp: clone_generation_def split: if_splits)

lemma store_session_views:
  assumes store: "store_session rid now identity s gen R = (R', Inr res)"
  defines "d \<equiv> idn_deviceId identity"
  shows "by_deviceId R' = js_set d (rr_current res) (by_deviceId R)"
    and "js_get (registration_by_session R') t =
       (if \<exists>p. js_get (by_deviceId R) d = Some p \<and> ds_session p = t then None
        else if t = s then Some \<lparr>ref_deviceId = d, ref_registrationId = rid\<rparr>
        else js_get (registration_by_session R) t)"
    and "index_shape R \<Longrightarrow> index_shape R'"
    and "(\<And>p. js_get (by_deviceId R) d = Some p \<Longrightarrow> ds_deviceId p = d) \<Longrightarrow>
       owned R' owner d' \<longleftrightarrow> (owner = idn_ownerId identity \<and> d' = d) \<or>
         (owned R owner d' \<and> \<not> (\<exists>p. js_get (by_deviceId R) d = Some p \<and> ds_ownerId p = owner \<and> d' = d))"
  using store unfolding d_def
  by (cases "js_get (by_deviceId R) (idn_deviceId identity)";
      auto simp: store_session_def registry_now_def Let_def split: try_splits if_splits)+

lemma store_session_ok:
  assumes ok: "registry_ok R" and fresh: "js_get (registration_by_session R) s = None"
    and store: "store_session rid now identity s gen R = (R', Inr res)"
  shows "registry_ok R'"
proof -
  let ?d = "idn_deviceId identity"
  note views = store_session_views [OF store]
  from store obtain t g where cur: "clone_generation gen = Inr g"
      "rr_current res = \<lparr>ds_registrationId = rid, ds_ownerId = idn_ownerId identity,
         ds_deviceId = ?d, ds_generation = g, ds_connectedAt = t, ds_lastSeenAt = t, ds_session = s\<rparr>"
    unfolding store_session_Inr by blast
  show ?thesis
  proof (rule registry_okI, goal_cases map key gen ref shape own)
    case map
    then show ?case using registry_okD(1) [OF ok] by (simp add: views(1))
  next
    case (key d' e')
    then show ?case using registry_okD(2) [OF ok, of d' e'] by (auto simp: views(1) cur split: if_splits)
  next
    case (gen d' e')
    then show ?case using registry_okD(3) [OF ok, of d' e'] clone_generation_idem [OF cur(1)]
      by (auto simp: views(1) cur split: if_splits)
  next
    case (ref s' d' r)
    have mine: "ds_session p \<noteq> s" if "js_get (by_deviceId R) x = Some p" for x p
      using registered_session [OF ok that] fresh by auto
    have clash: "x = ?d" if "js_get (by_deviceId R) ?d = Some p" "js_get (by_deviceId R) x = Some q"
        "ds_session q = ds_session p" for p q x
      using session_unique [OF ok that(2,1,3)] by simp
    show ?case
    proof (cases "d' = ?d")
      case True
      have "js_get (registration_by_session R) s' = Some \<lparr>ref_deviceId = ?d, ref_registrationId = r\<rparr> \<Longrightarrow>
          \<exists>p. js_get (by_deviceId R) ?d = Some p \<and> ds_session p = s'"
        using registry_okD(4) [OF ok, of s' ?d r] by blast
      with True mine show ?thesis
        unfolding views(1,2) js_get_set by (auto simp: cur(2))
    next
      case False
      have "js_get (registration_by_session R') s' = Some \<lparr>ref_deviceId = d', ref_registrationId = r\<rparr> \<longleftrightarrow>
          js_get (registration_by_session R) s' = Some \<lparr>ref_deviceId = d', ref_registrationId = r\<rparr>"
        unfolding views(2) using False fresh clash registry_okD(4) [OF ok, of s' d' r] by auto
      with False show ?thesis
        unfolding views(1) js_get_set using registry_okD(4) [OF ok, of s' d' r] by simp
    qed
  next
    case shape
    then show ?case by (rule views(3) [OF registry_okD(5) [OF ok]])
  next
    case (own owner d')
    have "owned R' owner d' \<longleftrightarrow> (owner = idn_ownerId identity \<and> d' = ?d) \<or>
         (owned R owner d' \<and> \<not> (\<exists>p. js_get (by_deviceId R) ?d = Some p \<and> ds_ownerId p = owner \<and> d' = ?d))"
      by (rule views(4)) (rule registry_okD(2) [OF ok])
    then show ?case
      using registry_okD(6) [OF ok, of owner d'] by (auto simp: views(1) cur(2))
  qed
qed

lemma register_cases:
  assumes ok: "registry_ok R" and reg: "registry_register rid now sv s gen R = (R', Inr res)"
  obtains (known) ref e where "js_get (registration_by_session R) s = Some ref" "own_entry R ref s = Some e"
      "R' = R" "res = \<lparr>rr_current = e, rr_replaced = None\<rparr>"
    | (stored) identity where "js_get (registration_by_session R) s = None"
      "view_identity (sv s) = Some identity" "view_ready (sv s)"
      "store_session rid now identity s gen R = (R', Inr res)"
proof (cases "js_get (registration_by_session R) s")
  case None
  with reg have "\<exists>identity. view_identity (sv s) = Some identity \<and> view_ready (sv s) \<and>
      store_session rid now identity s gen R = (R', Inr res)"
    by (auto simp: registry_register_def split: try_splits)
  with None show ?thesis by (elim exE conjE) (rule stored)
next
  case (Some ref)
  then obtain e where "own_entry R ref s = Some e" by (rule own_entry_present [OF ok])
  with Some reg show ?thesis
    by (intro known) (auto simp: registry_register_def split: try_splits)
qed

lemma register_ok:
  assumes ok: "registry_ok R"
  shows "registry_ok (fst (registry_register rid now sv s gen R))"
proof (cases "registry_register rid now sv s gen R")
  case (Pair R' out)
  show ?thesis
  proof (cases out)
    case (Inr res)
    from ok Pair [unfolded Inr] show ?thesis
      by (cases rule: register_cases) (use ok Pair in \<open>auto dest: store_session_ok\<close>)
  next
    case (Inl e)
    have "own_entry R ref s \<noteq> None" if "js_get (registration_by_session R) s = Some ref" for ref
      using own_entry_present [OF ok that] by fastforce
    then have "R' = R"
      using Pair by (auto simp: registry_register_def Inl dest: store_session_Inl
          split: try_splits option.splits)
    with ok Pair show ?thesis by simp
  qed
qed

section \<open>Runs\<close>

datatype registry_command =
  Register string js_date session_views nat generation
| GetBySession nat
| MarkHeartbeat js_date session_views nat
| EvictSession nat
| EvictGeneration string generation
| ClearRegistry

fun registry_step :: "session_registry \<Rightarrow> registry_command \<Rightarrow> session_registry" where
  "registry_step R (Register rid now sv s g) = fst (registry_register rid now sv s g R)"
| "registry_step R (GetBySession s) = fst (registry_getBySession s R)"
| "registry_step R (MarkHeartbeat now sv s) = fst (registry_markHeartbeat now sv s R)"
| "registry_step R (EvictSession s) = fst (registry_evictSession s R)"
| "registry_step R (EvictGeneration d g) = fst (registry_evictGeneration d g R)"
| "registry_step R ClearRegistry = fst (registry_clear R)"

lemma step_timeout [simp]: "reg_heartbeatTimeoutMs (registry_step R c) = reg_heartbeatTimeoutMs R"
proof (cases c)
  case (Register rid now sv s g)
  have "reg_heartbeatTimeoutMs (fst (store_session rid now i s g Q)) = reg_heartbeatTimeoutMs Q" for i Q
    by (auto simp: store_session_def Let_def split: option.split try_splits)
  then show ?thesis
    unfolding Register by (auto simp: registry_register_def split: option.split try_splits)
qed (auto simp: registry_getBySession_def registry_markHeartbeat_def touch_entry_def registry_evictSession_def
    registry_evictGeneration_def registry_clear_def remove_entry_def Let_def split: option.split try_splits)

definition registry_good :: "session_registry \<Rightarrow> bool" where
  "registry_good R \<longleftrightarrow> registry_ok R \<and> 0 < reg_heartbeatTimeoutMs R"

lemma step_ok: "registry_ok R \<Longrightarrow> registry_ok (registry_step R c)"
  using getBySession_ok [of R]
  by (cases c) (simp_all add: register_ok markHeartbeat_ok evictSession_ok evictGeneration_ok clear_ok,
      metis fst_conv)

interpretation registry_runs: kept_by_steps registry_step registry_good
  by unfold_locales (simp add: registry_good_def step_ok)

lemma new_registry_good: "new_session_registry t = Inr R \<Longrightarrow> registry_good R"
  unfolding registry_good_def
  by (intro conjI registry_okI)
    (auto simp: new_session_registry_def owned_def index_shape_def default_device_heartbeat_timeout_ms_def
      split: option.splits js_number.splits if_splits)

lemma list_active_set:
  assumes ok: "registry_ok R" and list: "registry_listActiveForOwner now sv owner R = Inr es"
  shows "e \<in> set es \<longleftrightarrow> ds_ownerId e = owner \<and> registry_getActive now sv (ds_deviceId e) R = Inr (Some e)"
proof (cases "js_get (deviceIds_by_owner R) owner")
  case None
  with list have "es = []" by (simp add: registry_listActiveForOwner_def)
  moreover have "\<not> owned R owner d" for d using None by (simp add: owned_def)
  ultimately show ?thesis
    using registry_okD(6) [OF ok, of owner "ds_deviceId e"]
    by (auto simp: registry_getActive_def bind_result_Inr split: option.splits if_splits)
next
  case (Some ids)
  with list obtain t where t: "registry_now now = Inr t"
    by (auto simp: registry_listActiveForOwner_def bind_result_Inr)
  with Some list have es: "es = List.map_filter (\<lambda>d. case js_get (by_deviceId R) d of None \<Rightarrow> None
      | Some e \<Rightarrow> if is_live R sv e t then Some e else None) ids"
    by (simp add: registry_listActiveForOwner_def)
  have member: "d \<in> set ids \<longleftrightarrow> (\<exists>x. js_get (by_deviceId R) d = Some x \<and> ds_ownerId x = owner)" for d
    using registry_okD(6) [OF ok, of owner d] Some by (simp add: owned_def)
  have "e \<in> set es \<longleftrightarrow> (\<exists>d. js_get (by_deviceId R) d = Some e \<and> ds_ownerId e = owner \<and> is_live R sv e t)"
    unfolding es set_map_filter Bex_def member by (auto split: option.splits if_splits)
  also have "\<dots> \<longleftrightarrow> ds_ownerId e = owner \<and> js_get (by_deviceId R) (ds_deviceId e) = Some e \<and> is_live R sv e t"
    using registry_okD(2) [OF ok, of _ e] by metis
  also have "\<dots> \<longleftrightarrow> ds_ownerId e = owner \<and> registry_getActive now sv (ds_deviceId e) R = Inr (Some e)"
    using t by (auto simp: registry_getActive_def split: option.splits)
  finally show ?thesis .
qed

lemma getBySession_iff:
  assumes ok: "registry_ok R"
  shows "snd (registry_getBySession s R) = Some e \<longleftrightarrow>
    js_get (by_deviceId R) (ds_deviceId e) = Some e \<and> ds_session e = s"
proof
  assume "snd (registry_getBySession s R) = Some e"
  then show "js_get (by_deviceId R) (ds_deviceId e) = Some e \<and> ds_session e = s"
    using registry_okD(2) [OF ok, of _ e]
    by (auto simp: registry_getBySession_def own_entry_Some split: option.splits)
next
  assume e: "js_get (by_deviceId R) (ds_deviceId e) = Some e \<and> ds_session e = s"
  then have "js_get (registration_by_session R) s =
      Some \<lparr>ref_deviceId = ds_deviceId e, ref_registrationId = ds_registrationId e\<rparr>"
    using registered_session [OF ok, of "ds_deviceId e" e] by blast
  with e show "snd (registry_getBySession s R) = Some e"
    by (simp add: registry_getBySession_def own_entry_def)
qed

text \<open>C21: Starting from a new registry, after any sequence of registrations, heartbeats, look-ups
  and evictions the three indexes agree: a session finds exactly the entry that its device finds,
  and the sessions listed for an owner are exactly the active sessions of that owner's devices.\<close>

theorem registry_indexes_agree:
  assumes "new_session_registry t = Inr R0" and "R = foldl registry_step R0 cs"
    and "registry_listActiveForOwner now sv owner R = Inr es"
  shows "(snd (registry_getBySession s R) = Some e \<longleftrightarrow>
            js_get (by_deviceId R) (ds_deviceId e) = Some e \<and> ds_session e = s) \<and>
         (e \<in> set es \<longleftrightarrow>
            ds_ownerId e = owner \<and> registry_getActive now sv (ds_deviceId e) R = Inr (Some e))"
proof -
  have ok: "registry_ok R"
    using registry_runs.run_keeps [OF new_registry_good [OF assms(1)]] assms(2)
    by (simp add: registry_good_def)
  from getBySession_iff [OF ok] list_active_set [OF ok assms(3)] show ?thesis by simp
qed

text \<open>A device that changes owner and reconnects: two registrations of one device, a heartbeat.\<close>

definition sample_views :: session_views where
  "sample_views s = \<lparr>view_ready = True, view_identity =
     Some \<lparr>idn_ownerId = (if s = 1 then ''ann'' else ''bob''), idn_deviceId = ''d''\<rparr>\<rparr>"

definition sample_generation :: generation where
  "sample_generation = \<lparr>gen_credentialId = ''c'', gen_version = 1\<rparr>"

definition sample_registry :: session_registry where
  "sample_registry = \<lparr>by_deviceId = [], deviceIds_by_owner = [], registration_by_session = [],
     reg_heartbeatTimeoutMs = 4000\<rparr>"

definition sample_commands :: "registry_command list" where
  "sample_commands =
     [Register ''r1'' (Some 0) sample_views 1 sample_generation,
      Register ''r2'' (Some 10) sample_views 2 sample_generation,
      MarkHeartbeat (Some 20) sample_views 2]"

definition sample_entry :: device_session where
  "sample_entry = \<lparr>ds_registrationId = ''r2'', ds_ownerId = ''bob'', ds_deviceId = ''d'',
     ds_generation = sample_generation, ds_connectedAt = 10, ds_lastSeenAt = 20, ds_session = 2\<rparr>"

lemma sample_new: "new_session_registry None = Inr sample_registry"
  by (simp add: new_session_registry_def sample_registry_def default_device_heartbeat_timeout_ms_def)

theorem registry_indexes_agree_witness:
  "(snd (registry_getBySession 2 (foldl registry_step sample_registry sample_commands)) = Some sample_entry \<longleftrightarrow>
      js_get (by_deviceId (foldl registry_step sample_registry sample_commands)) (ds_deviceId sample_entry)
        = Some sample_entry \<and> ds_session sample_entry = 2) \<and>
   (sample_entry \<in> set [sample_entry] \<longleftrightarrow>
      ds_ownerId sample_entry = ''bob'' \<and>
      registry_getActive (Some 30) sample_views (ds_deviceId sample_entry)
        (foldl registry_step sample_registry sample_commands) = Inr (Some sample_entry))"
proof (rule registry_indexes_agree [OF sample_new refl])
  show "registry_listActiveForOwner (Some 30) sample_views ''bob''
      (foldl registry_step sample_registry sample_commands) = Inr [sample_entry]"
    by code_simp
qed

section \<open>Replacement and silence\<close>

lemma store_replaces:
  assumes ok: "registry_ok R" and fresh: "js_get (registration_by_session R) s = None"
    and store: "store_session rid now identity s gen R = (R', Inr res)"
    and old: "rr_replaced res = Some p"
  shows "js_get (registration_by_session R') (ds_session p) = None \<and>
    js_get (by_deviceId R') (ds_deviceId p) = Some (rr_current res) \<and> ds_session (rr_current res) = s"
proof -
  note views = store_session_views [OF store]
  from store old have "js_get (by_deviceId R) (idn_deviceId identity) = Some p"
    and "ds_session (rr_current res) = s"
    unfolding store_session_Inr by auto
  with registry_okD(2) [OF ok this(1)] show ?thesis
    unfolding views(1,2) by auto
qed

lemma unknown_session:
  "js_get (registration_by_session R) s = None \<Longrightarrow>
   registry_evictSession s R = (R, None) \<and> registry_getBySession s R = (R, None) \<and>
   registry_markHeartbeat now sv s R = (R, Inr False)"
  by (simp add: registry_evictSession_def registry_getBySession_def registry_markHeartbeat_def)

text \<open>The commands that register a session again, and the ones that can do nothing while it is unknown.\<close>

fun registers_session :: "nat \<Rightarrow> registry_command \<Rightarrow> bool" where
  "registers_session s (Register rid clock sv t g) \<longleftrightarrow> t = s"
| "registers_session s _ \<longleftrightarrow> False"

fun concerns_session :: "nat \<Rightarrow> registry_command \<Rightarrow> bool" where
  "concerns_session s (GetBySession t) \<longleftrightarrow> t = s"
| "concerns_session s (MarkHeartbeat clock sv t) \<longleftrightarrow> t = s"
| "concerns_session s (EvictSession t) \<longleftrightarrow> t = s"
| "concerns_session s _ \<longleftrightarrow> False"

lemma unknown_register:
  assumes ok: "registry_ok R" and unknown: "js_get (registration_by_session R) s = None" and "t \<noteq> s"
  shows "js_get (registration_by_session (fst (registry_register rid now sv t gen R))) s = None"
proof (cases "registry_register rid now sv t gen R")
  case (Pair R' out)
  show ?thesis
  proof (cases out)
    case (Inr res)
    from ok Pair [unfolded Inr] show ?thesis
    proof (cases rule: register_cases)
      case known
      with unknown Pair show ?thesis by simp
    next
      case (stored identity)
      from store_session_views(2) [OF stored(4)] unknown assms(3) Pair show ?thesis by simp
    qed
  next
    case (Inl e)
    have "own_entry R ref t \<noteq> None" if "js_get (registration_by_session R) t = Some ref" for ref
      using own_entry_present [OF ok that] by fastforce
    then have "R' = R"
      using Pair by (auto simp: registry_register_def Inl dest: store_session_Inl split: try_splits option.splits)
    with unknown Pair show ?thesis by simp
  qed
qed

lemma unknown_kept:
  assumes ok: "registry_ok R" and unknown: "js_get (registration_by_session R) s = None"
    and "\<not> registers_session s c"
  shows "js_get (registration_by_session (registry_step R c)) s = None"
proof (cases c)
  case (Register rid clock sv t g)
  with unknown_register [OF ok unknown] assms(3) show ?thesis by simp
next
  case (GetBySession t)
  have "fst (registry_getBySession t R) = R" using getBySession_ok [OF ok, of t] by (metis fst_conv)
  with GetBySession unknown show ?thesis by simp
next
  case (MarkHeartbeat clock sv t)
  with unknown show ?thesis
    by (auto simp: registry_markHeartbeat_def touch_entry_def forget_session_def split: option.split try_splits)
next
  case (EvictSession t)
  with unknown show ?thesis
    by (auto simp: registry_evictSession_def remove_entry_def forget_session_def remove_owner_device_def Let_def
        split: option.split)
next
  case (EvictGeneration d g)
  with unknown show ?thesis
    by (auto simp: registry_evictGeneration_def remove_entry_def forget_session_def remove_owner_device_def Let_def
        split: option.split)
next
  case ClearRegistry
  then show ?thesis by (simp add: registry_clear_def)
qed

lemma unknown_concerns: "js_get (registration_by_session R) s = None \<Longrightarrow> concerns_session s c \<Longrightarrow> registry_step R c = R"
  by (cases c) (auto simp: unknown_session)

lemma unknown_run:
  assumes "registry_ok R" "js_get (registration_by_session R) s = None" "list_all (\<lambda>c. \<not> registers_session s c) cs"
  shows "js_get (registration_by_session (foldl registry_step R cs)) s = None \<and>
    foldl registry_step R cs = foldl registry_step R (filter (\<lambda>c. \<not> concerns_session s c) cs)"
  using assms
proof (induction cs arbitrary: R)
  case (Cons c cs)
  have step: "js_get (registration_by_session (registry_step R c)) s = None"
    using unknown_kept [OF Cons.prems(1,2)] Cons.prems(3) by simp
  note rest = Cons.IH [OF step_ok [OF Cons.prems(1)] step]
  show ?case
  proof (cases "concerns_session s c")
    case True
    with unknown_concerns [OF Cons.prems(2) True] rest Cons.prems(3) show ?thesis by auto
  next
    case False
    with rest Cons.prems(3) show ?thesis by auto
  qed
qed simp

text \<open>C27: When a registration replaces an earlier session of the device, the new session is the one found
  under the device, and the earlier session can no longer do anything to the registry until it registers
  again: after whatever commands follow, evicting it, looking it up and its heartbeat change nothing and
  find nothing, and the registry is the one it would be if all the evictions, look-ups and heartbeats of
  the earlier session had never happened. So a late disconnect of a replaced session never takes its
  successor offline.\<close>

theorem replaced_session_inert:
  assumes "new_session_registry t = Inr R0" and "R = foldl registry_step R0 cs"
    and "registry_register rid now sv s gen R = (R', Inr res)" and "rr_replaced res = Some p"
    and "list_all (\<lambda>c. \<not> registers_session (ds_session p) c) after" and "R'' = foldl registry_step R' after"
  shows "js_get (by_deviceId R') (ds_deviceId p) = Some (rr_current res) \<and>
         registry_getBySession s R' = (R', Some (rr_current res)) \<and>
         registry_evictSession (ds_session p) R'' = (R'', None) \<and>
         registry_getBySession (ds_session p) R'' = (R'', None) \<and>
         registry_markHeartbeat later sv' (ds_session p) R'' = (R'', Inr False) \<and>
         R'' = foldl registry_step R' (filter (\<lambda>c. \<not> concerns_session (ds_session p) c) after)"
proof -
  have ok: "registry_ok R"
    using registry_runs.run_keeps [OF new_registry_good [OF assms(1)]] assms(2)
    by (simp add: registry_good_def)
  have ok': "registry_ok R'"
    using register_ok [OF ok, of rid now sv s gen] assms(3) by simp
  from ok assms(3) have new: "js_get (registration_by_session R') (ds_session p) = None \<and>
    js_get (by_deviceId R') (ds_deviceId p) = Some (rr_current res) \<and> ds_session (rr_current res) = s"
  proof (cases rule: register_cases)
    case (stored identity)
    from store_replaces [OF ok this(1,4) assms(4)] show ?thesis .
  qed (use assms(4) in simp)
  then have "js_get (by_deviceId R') (ds_deviceId (rr_current res)) = Some (rr_current res)"
    using registry_okD(2) [OF ok', of "ds_deviceId p"] by simp
  with new have "snd (registry_getBySession s R') = Some (rr_current res)"
    unfolding getBySession_iff [OF ok'] by blast
  with getBySession_ok [OF ok', of s] have "registry_getBySession s R' = (R', Some (rr_current res))"
    by simp
  moreover have "js_get (registration_by_session R'') (ds_session p) = None"
    "R'' = foldl registry_step R' (filter (\<lambda>c. \<not> concerns_session (ds_session p) c) after)"
    using unknown_run [OF ok' conjunct1 [OF new] assms(5)] unfolding assms(6) by blast+
  ultimately show ?thesis using new unknown_session [of R'' "ds_session p"] by blast
qed

theorem replaced_session_inert_witness:
  "\<exists>R' (res :: register_result) (p :: device_session).
     js_get (by_deviceId R') (ds_deviceId p) = Some (rr_current res) \<and>
     registry_step (registry_step R' (EvictSession 2)) (MarkHeartbeat (Some 35) sample_views 1) =
       registry_step R' (MarkHeartbeat (Some 35) sample_views 1)"
proof -
  define R where "R = foldl registry_step sample_registry sample_commands"
  have "\<not> isl (snd (registry_register ''r3'' (Some 30) sample_views 1 sample_generation R))"
    unfolding R_def by code_simp
  from succeeded [OF this] obtain R' res where
    reg: "registry_register ''r3'' (Some 30) sample_views 1 sample_generation R = (R', Inr res)" by blast
  have "(case snd (registry_register ''r3'' (Some 30) sample_views 1 sample_generation R) of
      Inl e \<Rightarrow> None | Inr res \<Rightarrow> rr_replaced res) = Some sample_entry"
    unfolding R_def by code_simp
  with reg have old: "rr_replaced res = Some sample_entry" by simp
  have two: "ds_session sample_entry = 2" by (simp add: sample_entry_def)
  have later: "list_all (\<lambda>c. \<not> registers_session (ds_session sample_entry) c)
      [EvictSession 2, MarkHeartbeat (Some 35) sample_views 1]" by simp
  show ?thesis
    by (rule exI [of _ R'], rule exI [of _ res], rule exI [of _ sample_entry])
      (use replaced_session_inert [OF sample_new R_def reg old later refl] two in simp)
qed

text \<open>A device is silent at a time when its entry, if any, was last seen a timeout ago or more.\<close>

definition silent_at :: "int \<Rightarrow> string \<Rightarrow> session_registry \<Rightarrow> bool" where
  "silent_at now d R \<longleftrightarrow>
     (case js_get (by_deviceId R) d of
        None \<Rightarrow> True
      | Some e \<Rightarrow> reg_heartbeatTimeoutMs R \<le> of_int (now - ds_lastSeenAt e))"

fun not_reconnecting :: "int \<Rightarrow> string \<Rightarrow> registry_command \<Rightarrow> bool" where
  "not_reconnecting now d (Register rid clock sv s g) \<longleftrightarrow>
     map_option idn_deviceId (view_identity (sv s)) \<noteq> Some d"
| "not_reconnecting now d (MarkHeartbeat clock sv s) \<longleftrightarrow> (case clock of None \<Rightarrow> True | Some t \<Rightarrow> now \<le> t)"
| "not_reconnecting now d _ \<longleftrightarrow> True"

lemma silent_not_live:
  assumes "silent_at now d R" "js_get (by_deviceId R) d = Some e" "now \<le> t"
  shows "\<not> is_live R sv e t"
proof -
  have "(of_int (now - ds_lastSeenAt e) :: rat) \<le> of_int (t - ds_lastSeenAt e)"
    using assms(3) by (simp del: of_int_diff)
  with assms(1,2) show ?thesis by (simp add: silent_at_def is_live_def)
qed

lemma silent_same:
  assumes "silent_at now d R"
    and "js_get (by_deviceId R') d = js_get (by_deviceId R) d \<or> js_get (by_deviceId R') d = None"
    and "reg_heartbeatTimeoutMs R' = reg_heartbeatTimeoutMs R"
  shows "silent_at now d R'"
proof (cases "js_get (by_deviceId R') d")
  case (Some e)
  with assms(2) have "js_get (by_deviceId R) d = Some e" by auto
  with Some assms(1,3) show ?thesis by (simp add: silent_at_def)
qed (simp add: silent_at_def)

lemma silent_delete:
  "silent_at now d R \<Longrightarrow> by_deviceId R' = js_delete d' (by_deviceId R) \<or> by_deviceId R' = by_deviceId R \<Longrightarrow>
   reg_heartbeatTimeoutMs R' = reg_heartbeatTimeoutMs R \<Longrightarrow> silent_at now d R'"
  by (erule silent_same) (auto split: if_splits)

lemma silent_evictions:
  assumes ok: "registry_ok R" and "silent_at now d R"
  shows "silent_at now d (registry_step R (EvictSession s))"
    and "silent_at now d (registry_step R (EvictGeneration d' g))"
proof -
  have same: "reg_heartbeatTimeoutMs (registry_step R c) = reg_heartbeatTimeoutMs R" for c by simp
  have "\<exists>x. by_deviceId (registry_step R (EvictSession s)) = js_delete x (by_deviceId R) \<or>
      by_deviceId (registry_step R (EvictSession s)) = by_deviceId R"
    by (auto simp: evictSession_eq [OF ok] registry_without_def split: option.split)
  then show "silent_at now d (registry_step R (EvictSession s))"
    using silent_delete [OF assms(2) _ same] by blast
  have "\<exists>x. by_deviceId (registry_step R (EvictGeneration d' g)) = js_delete x (by_deviceId R) \<or>
      by_deviceId (registry_step R (EvictGeneration d' g)) = by_deviceId R"
    by (auto simp: registry_evictGeneration_def remove_entry_def split: option.split)
  then show "silent_at now d (registry_step R (EvictGeneration d' g))"
    using silent_delete [OF assms(2) _ same] by blast
qed

lemma silent_register:
  assumes ok: "registry_ok R" and silent: "silent_at now d R"
    and other: "not_reconnecting now d (Register rid clock sv s g)"
  shows "silent_at now d (registry_step R (Register rid clock sv s g))"
proof (cases "registry_register rid clock sv s g R")
  case (Pair R' out)
  have same: "reg_heartbeatTimeoutMs R' = reg_heartbeatTimeoutMs R"
    using step_timeout [of R "Register rid clock sv s g"] Pair by simp
  show ?thesis
  proof (cases out)
    case (Inr res)
    from ok Pair [unfolded Inr] show ?thesis
    proof (cases rule: register_cases)
      case known
      with Pair silent show ?thesis by simp
    next
      case (stored identity)
      with other have "idn_deviceId identity \<noteq> d" by simp
      with store_session_views(1) [OF stored(4)] have "js_get (by_deviceId R') d = js_get (by_deviceId R) d"
        by simp
      with silent_same [OF silent _ same] Pair show ?thesis by simp
    qed
  next
    case (Inl e)
    then have "by_deviceId R' = by_deviceId R"
      using Pair by (auto simp: registry_register_def dest: store_session_Inl
          split: try_splits option.splits)
    with silent_same [OF silent _ same] Pair show ?thesis by simp
  qed
qed

lemma silent_heartbeat:
  assumes ok: "registry_ok R" and silent: "silent_at now d R"
    and later: "not_reconnecting now d (MarkHeartbeat clock sv s)"
  shows "silent_at now d (registry_step R (MarkHeartbeat clock sv s))"
proof (cases "snd (registry_markHeartbeat clock sv s R) = Inr True")
  case False
  then have "by_deviceId (registry_step R (MarkHeartbeat clock sv s)) = by_deviceId R"
    by (auto simp: registry_markHeartbeat_def split: option.splits try_splits if_splits)
  with step_timeout [of R "MarkHeartbeat clock sv s"] show ?thesis
    by (intro silent_delete [OF silent]) simp_all
next
  case True
  then obtain ref e t where e: "own_entry R ref s = Some e" "clock = Some t" "is_live R sv e t"
      and R': "fst (registry_markHeartbeat clock sv s R) = touch_entry e t R"
    by (auto simp: registry_markHeartbeat_def registry_now_def split: option.splits try_splits if_splits)
  have at: "js_get (by_deviceId R) (ref_deviceId ref) = Some e" using e(1) by (simp add: own_entry_Some)
  have "ds_deviceId e = ref_deviceId ref" by (rule registry_okD(2) [OF ok at])
  moreover have "ref_deviceId ref \<noteq> d"
    using silent_not_live [OF silent, of e t sv] at e later by auto
  ultimately show ?thesis
    by (intro silent_same [OF silent]) (simp_all add: R' touch_entry_def)
qed

lemma silent_step:
  assumes "registry_ok R" "silent_at now d R" "not_reconnecting now d c"
  shows "silent_at now d (registry_step R c)"
proof (cases c)
  case (GetBySession s)
  have "fst (registry_getBySession s R) = R" using getBySession_ok [OF assms(1), of s] by (metis fst_conv)
  with GetBySession assms(2) show ?thesis by simp
next
  case ClearRegistry
  then show ?thesis by (simp add: registry_clear_def silent_at_def)
qed (use assms in \<open>simp_all only: silent_register silent_heartbeat silent_evictions\<close>)

lemma silent_run:
  "registry_ok R \<Longrightarrow> silent_at now d R \<Longrightarrow> list_all (not_reconnecting now d) cs \<Longrightarrow>
   silent_at now d (foldl registry_step R cs)"
  by (induction cs arbitrary: R) (simp_all add: silent_step step_ok)

text \<open>Once a device has been silent for the heartbeat timeout it stays offline: whatever
  heartbeats, evictions and registrations of other devices follow, the registry gives no active
  session for it until the device itself registers again.\<close>

theorem silent_device_stays_offline:
  assumes "new_session_registry t = Inr R0" and "R = foldl registry_step R0 before"
    and "js_get (by_deviceId R) d = Some e"
    and "reg_heartbeatTimeoutMs R \<le> of_int (now - ds_lastSeenAt e)"
    and "list_all (not_reconnecting now d) after" and "now \<le> later"
  shows "registry_getActive (Some later) sv d (foldl registry_step R after) = Inr None"
proof -
  have ok: "registry_ok R"
    using registry_runs.run_keeps [OF new_registry_good [OF assms(1)]] assms(2)
    by (simp add: registry_good_def)
  have "silent_at now d R" using assms(3,4) by (simp add: silent_at_def)
  then have "silent_at now d (foldl registry_step R after)" by (rule silent_run [OF ok _ assms(5)])
  then show ?thesis
    using silent_not_live [OF _ _ assms(6)]
    by (auto simp: registry_getActive_def registry_now_def split: option.split)
qed

theorem silent_device_stays_offline_witness:
  "registry_getActive (Some 5000) sample_views ''d''
     (foldl registry_step (foldl registry_step sample_registry sample_commands)
       [MarkHeartbeat (Some 4100) sample_views 2]) = Inr None"
proof (rule silent_device_stays_offline [OF sample_new refl])
  show "js_get (by_deviceId (foldl registry_step sample_registry sample_commands)) ''d'' = Some sample_entry"
    by code_simp
  show "reg_heartbeatTimeoutMs (foldl registry_step sample_registry sample_commands)
      \<le> of_int (4020 - ds_lastSeenAt sample_entry)"
    by code_simp
  show "list_all (not_reconnecting 4020 ''d'') [MarkHeartbeat (Some 4100) sample_views 2]"
    by simp
qed simp

end
