(* ===== verification/Device_Routing.thy ===== *)
theory Device_Routing
  imports Session_Registry Device_Credential Device_Repository
begin

text \<open>
  Routing of a request to the live session of a device
  (\<^verbatim>\<open>apps/server/src/device-routing.ts\<close>): the device must belong to the caller, must have an active
  credential, and its registered session must have authenticated with exactly that credential
  generation. The two repositories are asked asynchronously; each answer is an argument, the one
  given at its own moment. The registry is read synchronously.
\<close>

section \<open>Data\<close>

datatype routing_error = DeviceNotFound | DeviceOffline | DeviceCredentialUnavailable | RoutingUnavailable

record routed_device =
  rd_deviceId :: string
  rd_deviceName :: string
  rd_metadata :: device_metadata
  rd_createdAt :: int
  rd_updatedAt :: int
  rd_status :: session_status
  rd_connectedAt :: "int option"
  rd_lastSeenAt :: "int option"

record resolved_session =
  rs_device :: routed_device
  rs_session :: nat

text \<open>The registry, the sessions' states and the clock at one moment.\<close>

record moment =
  mo_registry :: session_registry
  mo_views :: session_views
  mo_now :: js_date

definition active_at :: "moment \<Rightarrow> string \<Rightarrow> (registry_error, device_session option) result" where
  "active_at m d = registry_getActive (mo_now m) (mo_views m) d (mo_registry m)"

section \<open>Operations\<close>

text \<open>Every error that is not a routing error becomes \<^verbatim>\<open>ROUTING_UNAVAILABLE\<close>.\<close>

definition normalize_error :: "('e, 'a) result \<Rightarrow> (routing_error, 'a) result" where
  "normalize_error r = (case r of Inl e \<Rightarrow> Inl RoutingUnavailable | Inr a \<Rightarrow> Inr a)"

definition routing_owner_id :: "string \<Rightarrow> (routing_error, string) result" where
  "routing_owner_id ow = require DeviceNotFound (owner_id_schema ow)"

definition routing_device_id :: "string \<Rightarrow> (routing_error, string) result" where
  "routing_device_id d = require DeviceNotFound (device_id_schema d)"

definition session_has_generation :: "device_session \<Rightarrow> device_credential \<Rightarrow> bool" where
  "session_has_generation e c \<longleftrightarrow>
     gen_credentialId (ds_generation e) = cred_credentialId c \<and>
     gen_version (ds_generation e) = cred_version c"

definition routed_snapshot ::
  "device \<Rightarrow> session_status \<Rightarrow> int option \<Rightarrow> int option \<Rightarrow> routed_device" where
  "routed_snapshot dv status connectedAt lastSeenAt =
     \<lparr>rd_deviceId = dev_deviceId dv, rd_deviceName = dev_deviceName dv, rd_metadata = dev_metadata dv,
      rd_createdAt = dev_createdAt dv, rd_updatedAt = dev_updatedAt dv, rd_status = status,
      rd_connectedAt = connectedAt, rd_lastSeenAt = lastSeenAt\<rparr>"

text \<open>The second read must give the same registration and the same session as the first.\<close>

definition still_current :: "device_session \<Rightarrow> device_session option \<Rightarrow> device_session option" where
  "still_current active again =
     (case again of
        None \<Rightarrow> None
      | Some current \<Rightarrow>
          if ds_registrationId current \<noteq> ds_registrationId active \<or> ds_session current \<noteq> ds_session active
          then None else Some current)"

text \<open>
  \<open>first\<close> and \<open>second\<close> are the two consecutive reads of the registry in \<^verbatim>\<open>resolve\<close>; nothing runs
  between them but the clock.
\<close>

definition route_resolve ::
  "(string \<Rightarrow> string \<Rightarrow> ('e, device option) result) \<Rightarrow> (string \<Rightarrow> ('f, device_credential option) result)
   \<Rightarrow> moment \<Rightarrow> moment \<Rightarrow> string \<Rightarrow> string \<Rightarrow> (routing_error, resolved_session) result" where
  "route_resolve getForOwner getActive first second ownerId deviceId =
     bind_result (routing_owner_id ownerId) (\<lambda>ow.
     bind_result (routing_device_id deviceId) (\<lambda>d.
     bind_result (normalize_error (getForOwner ow d)) (\<lambda>found.
     bind_result (require DeviceNotFound found) (\<lambda>dv.
     bind_result (normalize_error (getActive d)) (\<lambda>credential.
     bind_result (require DeviceCredentialUnavailable credential) (\<lambda>c.
     bind_result (normalize_error (active_at first d)) (\<lambda>live.
     bind_result (require DeviceOffline live) (\<lambda>active.
     bind_result (ensure DeviceNotFound (ds_ownerId active = ow)) (\<lambda>_.
     bind_result (ensure DeviceCredentialUnavailable (session_has_generation active c)) (\<lambda>_.
     bind_result (normalize_error (active_at second d)) (\<lambda>again.
     bind_result (require DeviceOffline (still_current active again)) (\<lambda>current.
       Inr \<lparr>rs_device = routed_snapshot dv Online (Some (ds_connectedAt current))
                          (Some (ds_lastSeenAt current)),
            rs_session = ds_session current\<rparr>))))))))))))"

text \<open>
  \<open>before\<close> and \<open>first\<close> are the moments of the two reads ahead of the credential look-up, \<open>later\<close>
  the moment after it.
\<close>

definition snapshot_device ::
  "(string \<Rightarrow> ('f, device_credential option) result) \<Rightarrow> moment \<Rightarrow> moment \<Rightarrow> moment \<Rightarrow> device
   \<Rightarrow> (routing_error, routed_device) result" where
  "snapshot_device getActive before first later dv =
     bind_result (normalize_error (registry_getStatus (mo_now before) (mo_views before) (dev_deviceId dv)
                                     (mo_registry before))) (\<lambda>liveness.
     bind_result (normalize_error (active_at first (dev_deviceId dv))) (\<lambda>live.
       let off = routed_snapshot dv Offline (status_connectedAt liveness) (status_lastSeenAt liveness) in
       case live of
         None \<Rightarrow> Inr off
       | Some active \<Rightarrow>
           if ds_ownerId active \<noteq> dev_ownerId dv then Inr off
           else
             bind_result (normalize_error (getActive (dev_deviceId dv))) (\<lambda>credential.
             bind_result (normalize_error (active_at later (dev_deviceId dv))) (\<lambda>again.
               case (credential, again) of
                 (Some c, Some current) \<Rightarrow>
                   if session_has_generation active c \<and> ds_registrationId current = ds_registrationId active \<and>
                      ds_session current = ds_session active \<and> ds_ownerId current = dev_ownerId dv
                   then Inr (routed_snapshot dv Online (Some (ds_connectedAt current))
                               (Some (ds_lastSeenAt current)))
                   else Inr off
               | _ \<Rightarrow> Inr off))))"

definition route_getDevice ::
  "(string \<Rightarrow> string \<Rightarrow> ('e, device option) result) \<Rightarrow> (string \<Rightarrow> ('f, device_credential option) result)
   \<Rightarrow> moment \<Rightarrow> moment \<Rightarrow> moment \<Rightarrow> string \<Rightarrow> string \<Rightarrow> (routing_error, routed_device) result" where
  "route_getDevice getForOwner getActive before first later ownerId deviceId =
     bind_result (routing_owner_id ownerId) (\<lambda>ow.
     bind_result (routing_device_id deviceId) (\<lambda>d.
     bind_result (normalize_error (getForOwner ow d)) (\<lambda>found.
     bind_result (require DeviceNotFound found) (\<lambda>dv.
       snapshot_device getActive before first later dv))))"

text \<open>\<^verbatim>\<open>Promise.all\<close>: the results in order, or the error of a device whose snapshot fails; all such
  errors are the same.\<close>

fun all_results :: "('e, 'a) result list \<Rightarrow> ('e, 'a list) result" where
  "all_results [] = Inr []"
| "all_results (r # rs) = bind_result r (\<lambda>a. bind_result (all_results rs) (\<lambda>as. Inr (a # as)))"

text \<open>The snapshots of a list run concurrently; \<open>moments\<close> gives the three moments of each device.\<close>

definition route_listDevices ::
  "(string \<Rightarrow> ('e, device list) result) \<Rightarrow> (string \<Rightarrow> ('f, device_credential option) result)
   \<Rightarrow> (device \<Rightarrow> moment \<times> moment \<times> moment) \<Rightarrow> string \<Rightarrow> (routing_error, routed_device list) result" where
  "route_listDevices listByOwnerId getActive moments ownerId =
     bind_result (routing_owner_id ownerId) (\<lambda>ow.
     bind_result (normalize_error (listByOwnerId ow)) (\<lambda>devices.
       all_results (map (\<lambda>dv. case moments dv of (before, first, later) \<Rightarrow>
                      snapshot_device getActive before first later dv) devices)))"

lemmas [op_defs] =
  routing_owner_id_def routing_device_id_def normalize_error_def

section \<open>When a request is routed\<close>

lemma normalize_Inr [simp]: "normalize_error r = Inr a \<longleftrightarrow> r = Inr a"
  by (cases r) (simp_all add: normalize_error_def)

lemma still_current_Some:
  "still_current e again = Some current \<longleftrightarrow>
     again = Some current \<and> ds_registrationId current = ds_registrationId e \<and> ds_session current = ds_session e"
  by (auto simp: still_current_def split: option.splits)

lemma route_resolve_Inr:
  "route_resolve getForOwner getActive first second ow d = Inr res \<longleftrightarrow>
     (\<exists>ow' d' dv c e current.
        owner_id_schema ow = Some ow' \<and> device_id_schema d = Some d' \<and>
        getForOwner ow' d' = Inr (Some dv) \<and> getActive d' = Inr (Some c) \<and>
        active_at first d' = Inr (Some e) \<and> ds_ownerId e = ow' \<and> session_has_generation e c \<and>
        active_at second d' = Inr (Some current) \<and>
        ds_registrationId current = ds_registrationId e \<and> ds_session current = ds_session e \<and>
        res = \<lparr>rs_device = routed_snapshot dv Online (Some (ds_connectedAt current))
                 (Some (ds_lastSeenAt current)), rs_session = ds_session current\<rparr>)"
  unfolding route_resolve_def
  by (auto simp: bind_result_Inr routing_owner_id_def routing_device_id_def still_current_Some)

lemma active_at_Some:
  "active_at m d = Inr (Some e) \<longleftrightarrow>
     js_get (by_deviceId (mo_registry m)) d = Some e \<and>
     (\<exists>t. mo_now m = Some t \<and> is_live (mo_registry m) (mo_views m) e t)"
  by (auto simp: active_at_def registry_getActive_def registry_now_def bind_result_Inr
      split: option.splits if_splits)

text \<open>With the reference repositories behind it.\<close>

definition memory_route ::
  "memory_devices \<Rightarrow> memory_credentials \<Rightarrow> moment \<Rightarrow> moment \<Rightarrow> string \<Rightarrow> string
   \<Rightarrow> (routing_error, resolved_session) result" where
  "memory_route D C first second =
     route_resolve (mem_device_getForOwner D) (mem_credential_getActive C) first second"

lemma getActive_canonical:
  "device_id_schema d = Some d' \<Longrightarrow> mem_credential_getActive C d' = mem_credential_getActive C d"
  by (simp add: mem_credential_getActive_def cred_parse_device_id_def device_id_canonical)

lemma getForOwner_Some:
  "mem_device_getForOwner D ow d = Inr (Some dv) \<Longrightarrow>
   \<exists>ow' d' r. owner_id_schema ow = Some ow' \<and> device_id_schema d = Some d' \<and>
     js_get (md_records D) d' = Some r \<and> sd_ownerId r = ow' \<and> dv = to_device_snapshot r"
  by (auto simp: mem_device_getForOwner_def parse_owner_id_def parse_device_id_def bind_result_Inr
      split: option.splits if_splits)

lemma memory_route_Inr:
  assumes "memory_route D C first second ow d = Inr res"
  obtains ow' d' r c e where
    "owner_id_schema ow = Some ow'" "device_id_schema d = Some d'"
    "js_get (md_records D) d' = Some r" "sd_ownerId r = ow'"
    "mem_credential_getActive C d = Inr (Some c)"
    "active_at first d' = Inr (Some e)" "ds_ownerId e = ow'" "session_has_generation e c"
    "rs_session res = ds_session e"
    "\<exists>x. active_at second d' = Inr (Some x) \<and> ds_session x = rs_session res"
proof -
  from assms obtain ow' d' dv c e current where
    parsed: "owner_id_schema ow = Some ow'" "device_id_schema d = Some d'" and
    found: "mem_device_getForOwner D ow' d' = Inr (Some dv)" "mem_credential_getActive C d' = Inr (Some c)" and
    live: "active_at first d' = Inr (Some e)" "ds_ownerId e = ow'" "session_has_generation e c"
      "active_at second d' = Inr (Some current)" "ds_session current = ds_session e"
      "rs_session res = ds_session current"
    unfolding memory_route_def route_resolve_Inr by auto
  from getForOwner_Some [OF found(1)] parsed obtain r where
    "js_get (md_records D) d' = Some r" "sd_ownerId r = ow'"
    by (auto simp: owner_id_canonical device_id_canonical)
  moreover from found(2) have "mem_credential_getActive C d = Inr (Some c)"
    by (simp add: getActive_canonical [OF parsed(2)])
  ultimately show ?thesis using parsed live by (intro that) auto
qed

text \<open>C4: A request is routed to a session only when the device exists and belongs to the caller,
  its credential is active, and the session registered for the device by that owner authenticated
  with exactly this credential id and version and is ready within the heartbeat timeout at both
  reads of the registry.\<close>

theorem routed_session_authorized:
  assumes "memory_route D C first second ow d = Inr res"
  shows "\<exists>ow' d' r c e t.
    owner_id_schema ow = Some ow' \<and> device_id_schema d = Some d' \<and>
    js_get (md_records D) d' = Some r \<and> sd_ownerId r = ow' \<and>
    mem_credential_getActive C d = Inr (Some c) \<and>
    js_get (by_deviceId (mo_registry first)) d' = Some e \<and> ds_ownerId e = ow' \<and>
    gen_credentialId (ds_generation e) = cred_credentialId c \<and>
    gen_version (ds_generation e) = cred_version c \<and>
    rs_session res = ds_session e \<and> mo_now first = Some t \<and>
    view_ready (mo_views first (rs_session res)) \<and> view_ready (mo_views second (rs_session res)) \<and>
    of_int (t - ds_lastSeenAt e) < reg_heartbeatTimeoutMs (mo_registry first)"
proof (rule memory_route_Inr [OF assms])
  fix ow' d' r c e
  assume facts: "owner_id_schema ow = Some ow'" "device_id_schema d = Some d'"
    "js_get (md_records D) d' = Some r" "sd_ownerId r = ow'"
    "mem_credential_getActive C d = Inr (Some c)" "ds_ownerId e = ow'" "rs_session res = ds_session e"
    and live: "active_at first d' = Inr (Some e)"
    and gen: "session_has_generation e c"
    and again: "\<exists>x. active_at second d' = Inr (Some x) \<and> ds_session x = rs_session res"
  from live obtain t where "js_get (by_deviceId (mo_registry first)) d' = Some e" "mo_now first = Some t"
    "is_live (mo_registry first) (mo_views first) e t"
    unfolding active_at_Some by blast
  moreover from again have "view_ready (mo_views second (rs_session res))"
    unfolding active_at_Some is_live_def by auto
  ultimately show ?thesis
    using facts gen
    by (intro exI conjI) (auto simp: is_live_def session_has_generation_def)
qed

definition sample_device_input :: create_device_input where
  "sample_device_input = \<lparr>ci_ownerId = ''ann'', ci_deviceName = ''laptop'',
     ci_metadata = \<lparr>md_platform = ''linux'', md_appVersion = None, md_runtimeVersion = None\<rparr>\<rparr>"

definition sample_devices :: memory_devices where
  "sample_devices = fst (mem_device_create empty_devices example_device_id (Some 5) sample_device_input)"

definition sample_credentials :: memory_credentials where
  "sample_credentials =
     fst (mem_credential_issue empty_credentials example_device_id (example_credential_id CHR ''a'')
            (example_digest CHR ''0'') (Some 10))"

definition sample_session_view :: session_views where
  "sample_session_view s = \<lparr>view_ready = True, view_identity =
     Some \<lparr>idn_ownerId = ''ann'', idn_deviceId = js_lower example_device_id\<rparr>\<rparr>"

definition sample_moment :: "char \<Rightarrow> int \<Rightarrow> moment" where
  "sample_moment k v = \<lparr>mo_registry = registry_step sample_registry (Register ''r1'' (Some 20)
       sample_session_view 7 \<lparr>gen_credentialId = example_credential_id k, gen_version = v\<rparr>),
     mo_views = sample_session_view, mo_now = Some 30\<rparr>"

definition sample_session :: "char \<Rightarrow> int \<Rightarrow> device_session" where
  "sample_session k v = \<lparr>ds_registrationId = ''r1'', ds_ownerId = ''ann'',
     ds_deviceId = js_lower example_device_id,
     ds_generation = \<lparr>gen_credentialId = example_credential_id k, gen_version = v\<rparr>,
     ds_connectedAt = 20, ds_lastSeenAt = 20, ds_session = 7\<rparr>"

definition sample_found :: device where
  "sample_found = \<lparr>dev_deviceId = js_lower example_device_id, dev_ownerId = ''ann'',
     dev_deviceName = ''laptop'',
     dev_metadata = \<lparr>md_platform = ''linux'', md_appVersion = None, md_runtimeVersion = None\<rparr>,
     dev_createdAt = 5, dev_updatedAt = 5\<rparr>"

lemma memory_route_same_moment:
  assumes "owner_id_schema ow = Some ow'" "device_id_schema d = Some d'"
    and "mem_device_getForOwner D ow' d' = Inr (Some dv)" "mem_credential_getActive C d' = Inr (Some c)"
    and "active_at m d' = Inr (Some e)" "ds_ownerId e = ow'" "session_has_generation e c"
  shows "\<exists>res. memory_route D C m m ow d = Inr res"
  unfolding memory_route_def route_resolve_Inr using assms by blast

lemma sample_parsed:
  "owner_id_schema ''ann'' = Some ''ann''"
  "device_id_schema example_device_id = Some (js_lower example_device_id)"
  "mem_device_getForOwner sample_devices ''ann'' (js_lower example_device_id) = Inr (Some sample_found)"
  by code_simp+

lemma sample_route:
  "\<exists>res. memory_route sample_devices sample_credentials (sample_moment CHR ''a'' 1)
     (sample_moment CHR ''a'' 1) ''ann'' example_device_id = Inr res"
proof -
  define c :: device_credential where
    "c = \<lparr>cred_credentialId = example_credential_id CHR ''a'', cred_version = 1,
          cred_deviceId = js_lower example_device_id, cred_state = Active, cred_createdAt = 10,
          cred_revokedAt = None\<rparr>"
  have "mem_credential_getActive sample_credentials (js_lower example_device_id) = Inr (Some c)"
    unfolding c_def by code_simp
  moreover have "active_at (sample_moment CHR ''a'' 1) (js_lower example_device_id) =
      Inr (Some (sample_session CHR ''a'' 1))"
    by code_simp
  ultimately show ?thesis
    by (rule memory_route_same_moment [OF sample_parsed])
      (simp_all add: c_def sample_session_def session_has_generation_def)
qed

theorem routed_session_authorized_witness:
  "\<exists>(res :: resolved_session) ow' d' (r :: stored_device) (c :: device_credential) (e :: device_session) t.
    owner_id_schema ''ann'' = Some ow' \<and> device_id_schema example_device_id = Some d' \<and>
    js_get (md_records sample_devices) d' = Some r \<and> sd_ownerId r = ow' \<and>
    mem_credential_getActive sample_credentials example_device_id = Inr (Some c) \<and>
    js_get (by_deviceId (mo_registry (sample_moment CHR ''a'' 1))) d' = Some e \<and> ds_ownerId e = ow' \<and>
    gen_credentialId (ds_generation e) = cred_credentialId c \<and>
    gen_version (ds_generation e) = cred_version c \<and>
    rs_session res = ds_session e \<and> mo_now (sample_moment CHR ''a'' 1) = Some t \<and>
    view_ready (mo_views (sample_moment CHR ''a'' 1) (rs_session res)) \<and>
    view_ready (mo_views (sample_moment CHR ''a'' 1) (rs_session res)) \<and>
    of_int (t - ds_lastSeenAt e) < reg_heartbeatTimeoutMs (mo_registry (sample_moment CHR ''a'' 1))"
proof -
  obtain res where "memory_route sample_devices sample_credentials (sample_moment CHR ''a'' 1)
      (sample_moment CHR ''a'' 1) ''ann'' example_device_id = Inr res"
    using sample_route by blast
  from routed_session_authorized [OF this] show ?thesis by (intro exI [of _ res])
qed

section \<open>Revocation and rotation take effect on routing\<close>

text \<open>C25: Once a device's credential has been revoked, no request for the device is routed any
  more, whatever sessions the registry still holds and whoever asks.\<close>

theorem revoked_device_unroutable:
  assumes "memory_credentials_ok C"
    and "mem_credential_revoke C d ci v t = (C', Inr (Some c))"
  shows "\<exists>e. memory_route D C' first second ow d = Inl e"
proof (cases "memory_route D C' first second ow d")
  case (Inr res)
  then show ?thesis
  proof (rule memory_route_Inr)
    fix c'
    assume "mem_credential_getActive C' d = Inr (Some c')"
    moreover have "mem_credential_getActive C' d = Inr None"
      using memory_credentials.revoked_cannot_verify(1) [of C d ci v t C' c] assms
      by (simp add: memory_credential_repository_def)
    ultimately show ?thesis by simp
  qed
qed simp

lemma sample_credentials_ok: "memory_credentials_ok sample_credentials"
  using memory_credentials.run_keeps [OF empty_credentials_ok, of "[IssueCredential example_device_id
    (example_credential_id CHR ''a'') (example_digest CHR ''0'') (Some 10)]"]
  by (simp add: sample_credentials_def memory_credential_repository_def)

theorem revoked_device_unroutable_witness:
  "\<exists>C' e. memory_route sample_devices C' (sample_moment CHR ''a'' 1) (sample_moment CHR ''a'' 1)
     ''ann'' example_device_id = Inl e"
proof -
  let ?p = "mem_credential_revoke sample_credentials example_device_id (example_credential_id CHR ''a'')
    (js_int 1) (Some 12)"
  have "map_sum (\<lambda>_. ()) (\<lambda>x. x \<noteq> None) (snd ?p) = Inr True" by code_simp
  then obtain C' c where "?p = (C', Inr (Some c))" by (cases ?p; cases "snd ?p") auto
  from revoked_device_unroutable [OF sample_credentials_ok this] show ?thesis by blast
qed

text \<open>After a rotation only a session that authenticated with the new credential id and version
  is routed to; a session that still carries the replaced generation is refused.\<close>

theorem rotated_device_routes_new_generation:
  assumes "memory_credentials_ok C"
    and "mem_credential_rotate C d eci ev ci g t = (C', Inr c)"
    and "memory_route D C' first second ow d = Inr res"
  shows "\<exists>d' e. device_id_schema d = Some d' \<and> active_at first d' = Inr (Some e) \<and>
    rs_session res = ds_session e \<and>
    gen_credentialId (ds_generation e) = cred_credentialId c \<and> gen_version (ds_generation e) = cred_version c"
  using assms(3)
proof (rule memory_route_Inr)
  fix d' c' e
  assume facts: "device_id_schema d = Some d'" "active_at first d' = Inr (Some e)"
    "rs_session res = ds_session e" and gen: "session_has_generation e c'"
    and "mem_credential_getActive C' d = Inr (Some c')"
  moreover have "mem_credential_getActive C' d = Inr (Some c)"
    using memory_credentials.rotated_verifies_new_only(1) [of C d eci ev ci g t C' c] assms
    by (simp add: memory_credential_repository_def)
  ultimately show ?thesis by (auto simp: session_has_generation_def)
qed

theorem rotated_device_routes_new_generation_witness:
  "\<exists>(c :: device_credential) (res :: resolved_session) d' e. device_id_schema example_device_id = Some d' \<and>
    active_at (sample_moment CHR ''b'' 2) d' = Inr (Some e) \<and> rs_session res = ds_session e \<and>
    gen_credentialId (ds_generation e) = cred_credentialId c \<and> gen_version (ds_generation e) = cred_version c"
proof -
  let ?p = "mem_credential_rotate sample_credentials example_device_id (example_credential_id CHR ''a'')
     (js_int 1) (example_credential_id CHR ''b'') (example_digest CHR ''1'') (Some 20)"
  define c :: device_credential where
    "c = \<lparr>cred_credentialId = example_credential_id CHR ''b'', cred_version = 2,
          cred_deviceId = js_lower example_device_id, cred_state = Active, cred_createdAt = 20,
          cred_revokedAt = None\<rparr>"
  have "snd ?p = Inr c" unfolding c_def by code_simp
  then obtain C' where rot: "?p = (C', Inr c)" by (cases ?p) simp
  have "mem_credential_getActive (fst ?p) (js_lower example_device_id) = Inr (Some c)"
    unfolding c_def by code_simp
  then have "mem_credential_getActive C' (js_lower example_device_id) = Inr (Some c)"
    by (simp only: rot fst_conv)
  moreover have "active_at (sample_moment CHR ''b'' 2) (js_lower example_device_id) =
      Inr (Some (sample_session CHR ''b'' 2))"
    by code_simp
  ultimately have "\<exists>res. memory_route sample_devices C' (sample_moment CHR ''b'' 2)
      (sample_moment CHR ''b'' 2) ''ann'' example_device_id = Inr res"
    by (rule memory_route_same_moment [OF sample_parsed])
      (simp_all add: c_def sample_session_def session_has_generation_def)
  then obtain res where "memory_route sample_devices C' (sample_moment CHR ''b'' 2)
      (sample_moment CHR ''b'' 2) ''ann'' example_device_id = Inr res" by blast
  from rotated_device_routes_new_generation [OF sample_credentials_ok rot this] show ?thesis by blast
qed

section \<open>Foreign and missing devices\<close>

text \<open>C26: A caller cannot tell a device of another owner from one that does not exist: asking for its
  route or its state fails with the same error, whatever its credential and sessions are.\<close>

theorem foreign_device_not_found:
  assumes "owner_id_schema ow = Some ow'" and "device_id_schema d = Some d'"
    and "\<forall>r. js_get (md_records D) d' = Some r \<longrightarrow> sd_ownerId r \<noteq> ow'"
  shows "memory_route D C first second ow d = Inl DeviceNotFound \<and>
    route_getDevice (mem_device_getForOwner D) (mem_credential_getActive C) first second later ow d
      = Inl DeviceNotFound"
proof -
  have "mem_device_getForOwner D ow' d' = Inr None"
    using assms by (auto simp: mem_device_getForOwner_def parse_owner_id_def parse_device_id_def
        owner_id_canonical device_id_canonical split: option.split)
  with assms(1,2) show ?thesis
    by (simp add: memory_route_def route_resolve_def route_getDevice_def routing_owner_id_def
        routing_device_id_def normalize_error_def)
qed

theorem foreign_device_not_found_witness:
  "memory_route sample_devices sample_credentials (sample_moment CHR ''a'' 1) (sample_moment CHR ''a'' 1)
     ''bob'' example_device_id = Inl DeviceNotFound \<and>
   route_getDevice (mem_device_getForOwner sample_devices) (mem_credential_getActive sample_credentials)
     (sample_moment CHR ''a'' 1) (sample_moment CHR ''a'' 1) (sample_moment CHR ''a'' 1)
     ''bob'' example_device_id = Inl DeviceNotFound"
proof (rule foreign_device_not_found)
  show "owner_id_schema ''bob'' = Some ''bob''" by code_simp
  show "device_id_schema example_device_id = Some (js_lower example_device_id)" by (rule sample_parsed)
  have "map_option sd_ownerId (js_get (md_records sample_devices) (js_lower example_device_id)) = Some ''ann''"
    by code_simp
  then show "\<forall>r. js_get (md_records sample_devices) (js_lower example_device_id) = Some r \<longrightarrow>
      sd_ownerId r \<noteq> ''bob''"
    by auto
qed

end
