(* ===== verification/Gateway.thy ===== *)
theory Gateway
  imports Bridge_Protocol
begin

text \<open>
  The bridge gateway (\<^verbatim>\<open>apps/server/src/gateway.ts\<close>). A connection object is a number in a heap,
  because handshakes that wait for the authenticator, timers and session objects keep their
  connection after it has left the \<^verbatim>\<open>connections\<close> map. Every callback of the socket server, every
  timer, every continuation after an \<^verbatim>\<open>await\<close> and every call of the gateway's own interface is an
  event; the step of an event gives the new state and what the gateway does to the outside: frames
  it sends, native closes, calls of the configured hooks.
\<close>

section \<open>Data\<close>

datatype gateway_session_state = Handshaking | Ready | Closing | ClosedState

datatype close_reason = ClosedWith bridge_close_code | RemoteClose

datatype gateway_error = GatewayBackpressure | GatewayHandshakeRequired | GatewayMessageTooLarge
| GatewaySessionClosed

record gateway_session =
  gs_id :: string
  gs_identity :: "device_identity option"

datatype connection_timer = HandshakeTimer | IdleTimer

record gateway_connection =
  cn_ws :: bool
  cn_session :: "gateway_session option"
  cn_state :: gateway_session_state
  cn_closeReason :: "close_reason option"
  cn_timeout :: "connection_timer option"
  cn_heartbeatTimer :: bool
  cn_heartbeatNonce :: "string option"
  cn_heartbeatValidating :: bool
  cn_lastHeartbeatAtMs :: int
  cn_finalized :: bool

text \<open>A handshake that waits for the authenticator or for the validator.\<close>

datatype handshake_stage = Authenticating | Validating device_identity

record pending_handshake =
  ph_connection :: nat
  ph_sessionId :: string
  ph_auth :: "device_auth option"
  ph_stage :: handshake_stage

record gateway =
  gw_heap :: "(nat, gateway_connection) js_map"
  gw_connections :: "nat js_set"
  gw_sessions :: "(string, nat) js_map"
  gw_pending :: "pending_handshake list"
  gw_beating :: "nat list"
  gw_stopped :: bool

text \<open>The options the gateway runs with; hooks are present or absent.\<close>

record gateway_config =
  gc_handshakeTimeoutMs :: rat
  gc_idleTimeoutMs :: rat
  gc_heartbeatIntervalMs :: rat
  gc_heartbeatTimeoutMs :: rat
  gc_allowLegacyUnauthenticated :: bool
  gc_authenticateDevice :: bool
  gc_beginSessionReady :: bool
  gc_validateSessionReady :: bool

datatype gateway_output =
  SendFrame nat bridge_message
| NativeClose nat nat string
| SendPing nat string
| CallAuthenticate nat string string
| CallValidate nat string string device_identity string
| GuardReleased nat
| OnSession nat
| OnMessage nat bridge_message
| OnHeartbeat nat
| OnClose nat close_reason
| OnSessionClosed nat close_reason

section \<open>Configuration\<close>

definition default_handshake_timeout_ms :: nat where "default_handshake_timeout_ms = 10000"
definition default_idle_timeout_ms :: nat where "default_idle_timeout_ms = 60000"
definition default_bridge_path :: string where "default_bridge_path = ''/bridge''"
definition websocket_protocol_error :: nat where "websocket_protocol_error = 1002"

fun js_rat :: "js_number \<Rightarrow> rat option" where
  "js_rat (JsNum r) = Some r"
| "js_rat _ = None"

definition heartbeat_config_ok :: "js_number \<Rightarrow> js_number \<Rightarrow> bool" where
  "heartbeat_config_ok interval timeout =
     (case (js_rat interval, js_rat timeout) of
        (Some i, Some t) \<Rightarrow>
          \<not> (i < 0 \<or> t < 0 \<or> (i = 0) \<noteq> (t = 0) \<or> (0 < i \<and> t \<le> i))
      | _ \<Rightarrow> False)"

text \<open>\<^verbatim>\<open>/^\/(?!\/)[^?#]*$/\<close> on a string without line terminators.\<close>

definition route_path_ok :: "string \<Rightarrow> bool" where
  "route_path_ok p =
     (case p of
        [] \<Rightarrow> False
      | c # rest \<Rightarrow>
          c = CHR ''/'' \<and> take 1 rest \<noteq> ''/'' \<and>
          list_all (\<lambda>x. x \<noteq> CHR ''?'' \<and> x \<noteq> CHR ''#'') rest)"

text \<open>The routes are added one by one; a bad or repeated one is refused.\<close>

fun routes_ok :: "string \<Rightarrow> string list \<Rightarrow> (string \<times> js_number) list \<Rightarrow> bool" where
  "routes_ok path seen [] = True"
| "routes_ok path seen ((p, bytes) # rest) =
     (route_path_ok p \<and> p \<noteq> path \<and> p \<notin> set seen \<and> js_is_safe_integer bytes \<and>
      \<not> js_le_zero bytes \<and> js_to_int bytes \<le> int bridge_max_message_bytes \<and>
      routes_ok path (p # seen) rest)"

definition new_gateway :: gateway where
  "new_gateway = \<lparr>gw_heap = [], gw_connections = [], gw_sessions = [], gw_pending = [],
                  gw_beating = [], gw_stopped = False\<rparr>"

definition create_bridge_gateway ::
  "string \<Rightarrow> js_number \<Rightarrow> js_number \<Rightarrow> (string \<times> js_number) list \<Rightarrow> gateway option" where
  "create_bridge_gateway path interval timeout routes =
     (if heartbeat_config_ok interval timeout \<and> routes_ok path [] routes then Some new_gateway else None)"

section \<open>Frames\<close>

text \<open>
  An incoming frame as the code looks at it: text or binary, its length in bytes, whether a binary
  frame is valid UTF-8, and the value \<^verbatim>\<open>JSON.parse\<close> gives for the text, if it is JSON.
\<close>

record ws_frame =
  wf_binary :: bool
  wf_bytes :: nat
  wf_utf8 :: bool
  wf_json :: "json option"

definition parse_incoming_frame :: "ws_frame \<Rightarrow> (gateway_error, bridge_message) result" where
  "parse_incoming_frame f =
     (if wf_bytes f > bridge_max_message_bytes then Inl GatewayMessageTooLarge
      else if wf_binary f \<and> \<not> wf_utf8 f then Inl GatewaySessionClosed
      else (case wf_json f of
              None \<Rightarrow> Inl GatewaySessionClosed
            | Some v \<Rightarrow> require GatewaySessionClosed (bridge_message_schema v)))"

text \<open>\<open>bytes\<close> is the length of the JSON text of the message.\<close>

definition serialize_frame :: "nat \<Rightarrow> bridge_message \<Rightarrow> (gateway_error, bridge_message) result" where
  "serialize_frame bytes m =
     (case bridge_message_schema (bridge_message_json m) of
        None \<Rightarrow> Inl GatewaySessionClosed
      | Some m' \<Rightarrow> if bytes > bridge_max_message_bytes then Inl GatewayMessageTooLarge else Inr m')"

fun native_close_code :: "bridge_close_code \<Rightarrow> nat" where
  "native_close_code CloseNormal = 1000"
| "native_close_code CloseTimeout = 1001"
| "native_close_code CloseProtocolError = websocket_protocol_error"
| "native_close_code CloseServerShutdown = 1012"

text \<open>Bun's status of a send: 0 dropped, -1 queued under backpressure, otherwise bytes sent.\<close>

definition send_failed :: "int \<Rightarrow> bool" where
  "send_failed status \<longleftrightarrow> status = 0 \<or> status < -1"

text \<open>\<^verbatim>\<open>connection.ws?.send(...) ?? 0\<close>\<close>

definition socket_status :: "gateway_connection \<Rightarrow> int \<Rightarrow> int" where
  "socket_status c status = (if cn_ws c then status else 0)"

section \<open>Closing a connection\<close>

definition update_connection :: "nat \<Rightarrow> (gateway_connection \<Rightarrow> gateway_connection) \<Rightarrow> gateway \<Rightarrow> gateway" where
  "update_connection k f G =
     (case js_get (gw_heap G) k of
        None \<Rightarrow> G
      | Some c \<Rightarrow> G\<lparr>gw_heap := js_set k (f c) (gw_heap G)\<rparr>)"

definition clear_connection_timeout :: "gateway_connection \<Rightarrow> gateway_connection" where
  "clear_connection_timeout c = c\<lparr>cn_timeout := None\<rparr>"

definition clear_heartbeat_timer :: "gateway_connection \<Rightarrow> gateway_connection" where
  "clear_heartbeat_timer c = c\<lparr>cn_heartbeatTimer := False\<rparr>"

definition finalized_connection :: "gateway_connection \<Rightarrow> gateway_connection" where
  "finalized_connection c =
     (clear_heartbeat_timer (clear_connection_timeout c))
       \<lparr>cn_finalized := True, cn_heartbeatNonce := None, cn_heartbeatValidating := False,
        cn_state := ClosedState\<rparr>"

definition finalize_connection :: "nat \<Rightarrow> close_reason \<Rightarrow> gateway \<Rightarrow> gateway \<times> gateway_output list" where
  "finalize_connection k reason G =
     (case js_get (gw_heap G) k of
        None \<Rightarrow> (G, [])
      | Some c \<Rightarrow>
          if cn_finalized c then (G, [])
          else (update_connection k finalized_connection G,
                (case cn_session c of
                   None \<Rightarrow> []
                 | Some s \<Rightarrow> [OnClose k reason, OnSessionClosed k reason])))"

definition closing_connection :: "bridge_close_code \<Rightarrow> gateway_connection \<Rightarrow> gateway_connection" where
  "closing_connection code c =
     (clear_heartbeat_timer (clear_connection_timeout c))
       \<lparr>cn_heartbeatNonce := None, cn_heartbeatValidating := False,
        cn_closeReason := Some (ClosedWith code), cn_state := Closing\<rparr>"

text \<open>The result of the announcement is not looked at.\<close>

definition close_connection ::
  "nat \<Rightarrow> bridge_close_code \<Rightarrow> bool \<Rightarrow> string \<Rightarrow> gateway \<Rightarrow> gateway \<times> gateway_output list" where
  "close_connection k code announce nativeReason G =
     (case js_get (gw_heap G) k of
        None \<Rightarrow> (G, [])
      | Some c \<Rightarrow>
          if cn_finalized c \<or> cn_state c = Closing \<or> cn_state c = ClosedState then (G, [])
          else
            let G1 = update_connection k (closing_connection code) G in
            if \<not> cn_ws c then finalize_connection k (ClosedWith code) G1
            else (G1, (if announce then [SendFrame k (BridgeClose code)] else [])
                      @ [NativeClose k (native_close_code code) (take 123 nativeReason)]))"

text \<open>\<open>net\<close> gives the status of each native send; the close frame follows only a sent error frame.\<close>

definition fail_connection ::
  "(bridge_message \<Rightarrow> int) \<Rightarrow> nat \<Rightarrow> bridge_error_code \<Rightarrow> bridge_close_code \<Rightarrow> string \<Rightarrow> gateway
   \<Rightarrow> gateway \<times> gateway_output list" where
  "fail_connection net k errorCode closeCode message G =
     (case js_get (gw_heap G) k of
        None \<Rightarrow> (G, [])
      | Some c \<Rightarrow>
          if cn_finalized c \<or> cn_state c = Closing then (G, [])
          else (update_connection k (closing_connection closeCode) G,
                if \<not> cn_ws c then []
                else SendFrame k (BridgeError errorCode message)
                     # (if send_failed (net (BridgeError errorCode message)) then []
                        else [SendFrame k (BridgeClose closeCode)])
                     @ [NativeClose k (native_close_code closeCode) (take 123 message)]))"

section \<open>Timers\<close>

definition uses_authenticated_heartbeat :: "gateway_config \<Rightarrow> gateway_connection \<Rightarrow> bool" where
  "uses_authenticated_heartbeat cfg c \<longleftrightarrow>
     0 < gc_heartbeatIntervalMs cfg \<and> 0 < gc_heartbeatTimeoutMs cfg \<and>
     Option.bind (cn_session c) gs_identity \<noteq> None"

definition set_timeout_for :: "connection_timer \<Rightarrow> rat \<Rightarrow> gateway_connection \<Rightarrow> gateway_connection" where
  "set_timeout_for timer timeoutMs c =
     (clear_connection_timeout c)\<lparr>cn_timeout := (if 0 < timeoutMs then Some timer else None)\<rparr>"

definition arm_ready_idle_timeout :: "gateway_config \<Rightarrow> gateway_connection \<Rightarrow> gateway_connection" where
  "arm_ready_idle_timeout cfg c =
     (if uses_authenticated_heartbeat cfg c then clear_connection_timeout c
      else set_timeout_for IdleTimer (gc_idleTimeoutMs cfg) c)"

definition schedule_heartbeat :: "gateway_config \<Rightarrow> gateway_connection \<Rightarrow> gateway_connection" where
  "schedule_heartbeat cfg c =
     (clear_heartbeat_timer c)\<lparr>cn_heartbeatTimer := uses_authenticated_heartbeat cfg c\<rparr>"

definition connection_timeout :: "(bridge_message \<Rightarrow> int) \<Rightarrow> nat \<Rightarrow> gateway \<Rightarrow> gateway \<times> gateway_output list" where
  "connection_timeout net k G =
     (case Option.bind (js_get (gw_heap G) k) cn_timeout of
        None \<Rightarrow> (G, [])
      | Some HandshakeTimer \<Rightarrow> fail_connection net k BridgeTimeout CloseTimeout ''Bridge handshake timed out'' G
      | Some IdleTimer \<Rightarrow> fail_connection net k BridgeTimeout CloseTimeout ''Bridge session timed out'' G)"

definition heartbeat_fires ::
  "gateway_config \<Rightarrow> (bridge_message \<Rightarrow> int) \<Rightarrow> int \<Rightarrow> int \<Rightarrow> string \<Rightarrow> nat \<Rightarrow> gateway
   \<Rightarrow> gateway \<times> gateway_output list" where
  "heartbeat_fires cfg net pingStatus now nonce k G =
     (case js_get (gw_heap G) k of
        None \<Rightarrow> (G, [])
      | Some c \<Rightarrow>
          if \<not> cn_heartbeatTimer c then (G, [])
          else
            let G1 = update_connection k clear_heartbeat_timer G in
            if cn_finalized c \<or> cn_state c \<noteq> Ready \<or> \<not> cn_ws c \<or> cn_session c = None then (G1, [])
            else if gc_heartbeatTimeoutMs cfg \<le> of_int (now - cn_lastHeartbeatAtMs c)
            then fail_connection net k BridgeTimeout CloseTimeout ''Device heartbeat timed out'' G1
            else if cn_heartbeatNonce c = None \<and> \<not> cn_heartbeatValidating c
            then
              let G2 = update_connection k (\<lambda>c. c\<lparr>cn_heartbeatNonce := Some nonce\<rparr>) G1 in
              if send_failed (socket_status c pingStatus)
              then let (G3, out) = fail_connection net k SessionClosed CloseNormal
                                     ''Device heartbeat send failed'' G2
                   in (G3, SendPing k nonce # out)
              else (update_connection k (schedule_heartbeat cfg) G2, [SendPing k nonce])
            else (update_connection k (schedule_heartbeat cfg) G1, []))"

section \<open>Sending\<close>

definition forget_gateway_session :: "gateway_connection \<Rightarrow> gateway \<Rightarrow> gateway" where
  "forget_gateway_session c G =
     (case cn_session c of
        None \<Rightarrow> G
      | Some s \<Rightarrow> G\<lparr>gw_sessions := js_delete (gs_id s) (gw_sessions G)\<rparr>)"

definition send_frame ::
  "gateway_config \<Rightarrow> (bridge_message \<Rightarrow> int) \<Rightarrow> nat \<Rightarrow> bridge_message \<Rightarrow> nat \<Rightarrow> gateway
   \<Rightarrow> gateway \<times> gateway_output list \<times> (gateway_error, unit) result" where
  "send_frame cfg net bytes message k G =
     (case js_get (gw_heap G) k of
        None \<Rightarrow> (G, [], Inl GatewaySessionClosed)
      | Some c \<Rightarrow>
          if cn_finalized c \<or> cn_state c \<noteq> Ready \<or> \<not> cn_ws c then (G, [], Inl GatewaySessionClosed)
          else
            (case serialize_frame bytes message of
               Inl e \<Rightarrow> (G, [], Inl e)
             | Inr m \<Rightarrow>
                 if send_failed (socket_status c (net m))
                 then let (G1, out) = close_connection k CloseNormal True ''NORMAL'' (forget_gateway_session c G)
                      in (G1, SendFrame k m # out, Inl GatewaySessionClosed)
                 else (update_connection k (arm_ready_idle_timeout cfg) G, [SendFrame k m], Inr ())))"

text \<open>\<^verbatim>\<open>GatewaySession.send\<close>\<close>

definition session_send ::
  "gateway_config \<Rightarrow> (bridge_message \<Rightarrow> int) \<Rightarrow> nat \<Rightarrow> bridge_message \<Rightarrow> nat \<Rightarrow> gateway
   \<Rightarrow> gateway \<times> gateway_output list \<times> (gateway_error, unit) result" where
  "session_send cfg net bytes message k G =
     (case js_get (gw_heap G) k of
        None \<Rightarrow> (G, [], Inl GatewaySessionClosed)
      | Some c \<Rightarrow>
          if cn_state c \<noteq> Ready
          then (G, [], Inl (if cn_state c = Handshaking then GatewayHandshakeRequired else GatewaySessionClosed))
          else send_frame cfg net bytes message k G)"

section \<open>The handshake\<close>

text \<open>
  What the authenticator answers: \<open>None\<close> when it throws, otherwise the value that
  \<^verbatim>\<open>authenticatedDeviceIdentitySchema\<close> parses. The result is the identity (\<open>None\<close> for a legacy
  agent) or the error code of the failure.
\<close>

definition gateway_authenticate ::
  "gateway_config \<Rightarrow> device_auth option \<Rightarrow> device_identity option \<Rightarrow> (bridge_error_code, device_identity option) result" where
  "gateway_authenticate cfg auth answer =
     (case auth of
        None \<Rightarrow> if gc_allowLegacyUnauthenticated cfg then Inr None else Inl AuthRequired
      | Some a \<Rightarrow>
          if \<not> gc_authenticateDevice cfg then Inl AuthFailed
          else (case Option.bind answer authenticated_device_identity_schema of
                  None \<Rightarrow> Inl AuthFailed
                | Some i \<Rightarrow> if idn_deviceId i \<noteq> auth_deviceId a then Inl AuthFailed else Inr (Some i)))"

definition ready_connection :: "gateway_config \<Rightarrow> gateway_session \<Rightarrow> int \<Rightarrow> gateway_connection \<Rightarrow> gateway_connection" where
  "ready_connection cfg session now c =
     arm_ready_idle_timeout cfg
       ((clear_connection_timeout (c\<lparr>cn_session := Some session\<rparr>))
          \<lparr>cn_state := Ready, cn_lastHeartbeatAtMs := now\<rparr>)"

definition session_active_message :: string where
  "session_active_message = ''Bridge session is already active''"

text \<open>The synchronous rest of the handshake: the session becomes ready, the acknowledgement is sent
  and \<^verbatim>\<open>onSession\<close> is called; \<open>onSessionThrows\<close> says whether that callback throws.\<close>

definition complete_handshake ::
  "gateway_config \<Rightarrow> (bridge_message \<Rightarrow> int) \<Rightarrow> bool \<Rightarrow> int \<Rightarrow> nat \<Rightarrow> string \<Rightarrow> device_identity option \<Rightarrow> gateway
   \<Rightarrow> gateway \<times> gateway_output list" where
  "complete_handshake cfg net onSessionThrows now k sessionId identity G =
     (case js_get (gw_heap G) k of
        None \<Rightarrow> (G, [])
      | Some c \<Rightarrow>
          if cn_finalized c \<or> cn_state c \<noteq> Handshaking then (G, [])
          else if js_has (gw_sessions G) sessionId
          then fail_connection net k UnexpectedMessage CloseProtocolError session_active_message G
          else
            let session = \<lparr>gs_id = sessionId, gs_identity = identity\<rparr>;
                G1 = update_connection k (ready_connection cfg session now)
                       (G\<lparr>gw_sessions := js_set sessionId k (gw_sessions G)\<rparr>);
                ack = BridgeHelloAck bridge_protocol_version sessionId;
                sent = (if cn_ws c then [SendFrame k ack] else []);
                failed = send_failed (socket_status c (net ack))
            in if failed \<or> onSessionThrows
               then let (G2, out) = fail_connection net k SessionClosed CloseProtocolError
                          ''Bridge session binding failed''
                          (G1\<lparr>gw_sessions := js_delete sessionId (gw_sessions G1)\<rparr>)
                    in (G2, sent @ (if failed then [] else [OnSession k]) @ out)
               else (update_connection k (schedule_heartbeat cfg) G1, sent @ [OnSession k]))"

text \<open>A hello frame: the checks up to the call of the authenticator.\<close>

definition begin_handshake ::
  "gateway_config \<Rightarrow> (bridge_message \<Rightarrow> int) \<Rightarrow> nat \<Rightarrow> bridge_message \<Rightarrow> gateway \<Rightarrow> gateway \<times> gateway_output list" where
  "begin_handshake cfg net k message G =
     (case message of
        BridgeHello version sessionId auth \<Rightarrow>
          if version \<noteq> bridge_protocol_version
          then fail_connection net k UnsupportedVersion CloseProtocolError ''Unsupported bridge protocol version'' G
          else if js_has (gw_sessions G) sessionId
          then fail_connection net k UnexpectedMessage CloseProtocolError session_active_message G
          else (G\<lparr>gw_pending := gw_pending G @ [\<lparr>ph_connection = k, ph_sessionId = sessionId,
                                                 ph_auth = auth, ph_stage = Authenticating\<rparr>]\<rparr>,
                (case auth of
                   Some a \<Rightarrow> if gc_authenticateDevice cfg
                             then [CallAuthenticate k (auth_deviceId a) (auth_credential a)] else []
                 | None \<Rightarrow> []))
      | _ \<Rightarrow> fail_connection net k HandshakeRequired CloseProtocolError
               ''Handshake is required before this message'' G)"

definition auth_failed_text :: string where
  "auth_failed_text = ''Device authentication failed''"

text \<open>
  The \<open>i\<close>-th pending handshake leaves the list and goes on with the authenticator's answer;
  \<open>guardThrows\<close> is what \<^verbatim>\<open>beginSessionReady\<close> does. The ready guard is released when the handshake
  has ended, however it ended.
\<close>

definition authentication_done ::
  "gateway_config \<Rightarrow> (bridge_message \<Rightarrow> int) \<Rightarrow> nat \<Rightarrow> device_identity option \<Rightarrow> bool \<Rightarrow> bool \<Rightarrow> int \<Rightarrow> gateway
   \<Rightarrow> gateway \<times> gateway_output list" where
  "authentication_done cfg net i answer guardThrows onSessionThrows now G =
     (if length (gw_pending G) \<le> i \<or> ph_stage (gw_pending G ! i) \<noteq> Authenticating then (G, [])
      else
        let p = gw_pending G ! i; k = ph_connection p; sessionId = ph_sessionId p;
            G1 = G\<lparr>gw_pending := take i (gw_pending G) @ drop (Suc i) (gw_pending G)\<rparr>
        in case gateway_authenticate cfg (ph_auth p) answer of
             Inl code \<Rightarrow>
               fail_connection net k code CloseProtocolError
                 (if code = AuthRequired then ''Device authentication is required'' else auth_failed_text) G1
           | Inr identity \<Rightarrow>
               (case js_get (gw_heap G1) k of
                  None \<Rightarrow> (G1, [])
                | Some c \<Rightarrow>
                    if cn_finalized c \<or> cn_state c \<noteq> Handshaking then (G1, [])
                    else if js_has (gw_sessions G1) sessionId
                    then fail_connection net k UnexpectedMessage CloseProtocolError session_active_message G1
                    else if gc_beginSessionReady cfg \<and> guardThrows
                    then fail_connection net k AuthFailed CloseProtocolError auth_failed_text G1
                    else (case (identity, ph_auth p) of
                            (Some ident, Some a) \<Rightarrow>
                              if gc_validateSessionReady cfg
                              then (G1\<lparr>gw_pending := gw_pending G1 @ [p\<lparr>ph_stage := Validating ident\<rparr>]\<rparr>,
                                    [CallValidate k (auth_deviceId a) (auth_credential a) ident sessionId])
                              else let (G2, out) = complete_handshake cfg net onSessionThrows now k sessionId identity G1
                                   in (G2, out @ [GuardReleased k])
                          | _ \<Rightarrow> let (G2, out) = complete_handshake cfg net onSessionThrows now k sessionId identity G1
                                 in (G2, out @ [GuardReleased k]))))"

text \<open>The \<open>i\<close>-th pending handshake goes on after \<^verbatim>\<open>validateSessionReady\<close>.\<close>

definition validation_done ::
  "gateway_config \<Rightarrow> (bridge_message \<Rightarrow> int) \<Rightarrow> nat \<Rightarrow> bool \<Rightarrow> bool \<Rightarrow> int \<Rightarrow> gateway \<Rightarrow> gateway \<times> gateway_output list" where
  "validation_done cfg net i valid onSessionThrows now G =
     (if length (gw_pending G) \<le> i then (G, [])
      else
        let p = gw_pending G ! i; k = ph_connection p;
            G1 = G\<lparr>gw_pending := take i (gw_pending G) @ drop (Suc i) (gw_pending G)\<rparr>
        in case ph_stage p of
             Authenticating \<Rightarrow> (G, [])
           | Validating ident \<Rightarrow>
               let (G2, out) =
                 (if \<not> valid then fail_connection net k AuthFailed CloseProtocolError auth_failed_text G1
                  else complete_handshake cfg net onSessionThrows now k (ph_sessionId p) (Some ident) G1)
               in (G2, out @ [GuardReleased k]))"

section \<open>Messages and pongs\<close>

text \<open>A message of a ready session; \<open>forwardThrows\<close> says whether the session's \<^verbatim>\<open>onmessage\<close> throws.\<close>

definition ready_message ::
  "gateway_config \<Rightarrow> (bridge_message \<Rightarrow> int) \<Rightarrow> bool \<Rightarrow> nat \<Rightarrow> bridge_message \<Rightarrow> gateway \<Rightarrow> gateway \<times> gateway_output list" where
  "ready_message cfg net forwardThrows k message G =
     (case message of
        BridgeClose code \<Rightarrow> close_connection k code False (bridge_close_name code) G
      | McpMessage payload \<Rightarrow>
          let G1 = update_connection k (arm_ready_idle_timeout cfg) G;
              forwarded = (if Option.bind (js_get (gw_heap G) k) cn_session = None then [] else [OnMessage k message])
          in if forwardThrows \<and> forwarded \<noteq> []
             then let (G2, out) = fail_connection net k SessionClosed CloseProtocolError
                        ''Bridge session forwarding failed'' G1
                  in (G2, forwarded @ out)
             else (G1, forwarded)
      | _ \<Rightarrow> fail_connection net k UnexpectedMessage CloseProtocolError ''Unexpected bridge message'' G)"

definition handle_message ::
  "gateway_config \<Rightarrow> (bridge_message \<Rightarrow> int) \<Rightarrow> bool \<Rightarrow> nat \<Rightarrow> ws_frame \<Rightarrow> gateway \<Rightarrow> gateway \<times> gateway_output list" where
  "handle_message cfg net forwardThrows k raw G =
     (case js_get (gw_heap G) k of
        None \<Rightarrow> (G, [])
      | Some c \<Rightarrow>
          if cn_finalized c \<or> cn_state c = Closing then (G, [])
          else
            (case parse_incoming_frame raw of
               Inl e \<Rightarrow>
                 fail_connection net k (if e = GatewayMessageTooLarge then MessageTooLarge else InvalidMessage)
                   CloseProtocolError ''Invalid bridge message'' G
             | Inr message \<Rightarrow>
                 if cn_state c = Handshaking then begin_handshake cfg net k message G
                 else ready_message cfg net forwardThrows k message G))"

text \<open>The payload is \<open>None\<close> when it is not UTF-8.\<close>

definition handle_pong :: "nat \<Rightarrow> string option \<Rightarrow> gateway \<Rightarrow> gateway \<times> gateway_output list" where
  "handle_pong k payload G =
     (case js_get (gw_heap G) k of
        None \<Rightarrow> (G, [])
      | Some c \<Rightarrow>
          if cn_finalized c \<or> cn_state c \<noteq> Ready \<or> Option.bind (cn_session c) gs_identity = None \<or>
             cn_heartbeatValidating c
          then (G, [])
          else (case payload of
                  None \<Rightarrow> (G, [])
                | Some nonce \<Rightarrow>
                    if nonce = [] \<or> cn_heartbeatNonce c \<noteq> Some nonce then (G, [])
                    else (update_connection k
                            (\<lambda>c. c\<lparr>cn_heartbeatNonce := None, cn_heartbeatValidating := True\<rparr>)
                            (G\<lparr>gw_beating := gw_beating G @ [k]\<rparr>),
                          [OnHeartbeat k])))"

text \<open>The heartbeat hook of connection \<open>k\<close> has ended.\<close>

definition heartbeat_done ::
  "(bridge_message \<Rightarrow> int) \<Rightarrow> nat \<Rightarrow> bool \<Rightarrow> int \<Rightarrow> gateway \<Rightarrow> gateway \<times> gateway_output list" where
  "heartbeat_done net k succeeded now G =
     (case js_get (gw_heap G) k of
        None \<Rightarrow> (G, [])
      | Some c \<Rightarrow>
          if k \<notin> set (gw_beating G) then (G, [])
          else
            let G1 = G\<lparr>gw_beating := remove1 k (gw_beating G)\<rparr> in
            if succeeded
            then if cn_finalized c \<or> cn_state c \<noteq> Ready then (G1, [])
                 else (update_connection k
                         (\<lambda>c. c\<lparr>cn_lastHeartbeatAtMs := now, cn_heartbeatValidating := False\<rparr>) G1, [])
            else fail_connection net k AuthFailed CloseProtocolError ''Device session liveness validation failed''
                   (update_connection k (\<lambda>c. c\<lparr>cn_heartbeatValidating := False\<rparr>) G1))"

section \<open>Socket callbacks and shutdown\<close>

definition fresh_connection :: gateway_connection where
  "fresh_connection =
     \<lparr>cn_ws = False, cn_session = None, cn_state = Handshaking, cn_closeReason = None, cn_timeout = None,
      cn_heartbeatTimer = False, cn_heartbeatNonce = None, cn_heartbeatValidating = False,
      cn_lastHeartbeatAtMs = 0, cn_finalized = False\<rparr>"

text \<open>An upgrade request under the fresh id \<open>k\<close>; the connection is dropped again when the server
  refuses the upgrade.\<close>

definition bridge_upgrade :: "nat \<Rightarrow> bool \<Rightarrow> gateway \<Rightarrow> gateway \<times> gateway_output list" where
  "bridge_upgrade k upgraded G =
     (if js_has (gw_heap G) k \<or> \<not> upgraded then (G, [])
      else (G\<lparr>gw_heap := js_set k fresh_connection (gw_heap G),
              gw_connections := js_add k (gw_connections G)\<rparr>, []))"

definition socket_open :: "gateway_config \<Rightarrow> nat \<Rightarrow> gateway \<Rightarrow> gateway \<times> gateway_output list" where
  "socket_open cfg k G =
     (if k \<notin> set (gw_connections G)
      then (G, [NativeClose k websocket_protocol_error ''Unknown bridge connection''])
      else (update_connection k
              (\<lambda>c. set_timeout_for HandshakeTimer (gc_handshakeTimeoutMs cfg) (c\<lparr>cn_ws := True\<rparr>)) G, []))"

definition socket_close :: "nat \<Rightarrow> gateway \<Rightarrow> gateway \<times> gateway_output list" where
  "socket_close k G =
     (case js_get (gw_heap G) k of
        None \<Rightarrow> (G, [])
      | Some c \<Rightarrow>
          if k \<notin> set (gw_connections G) then (G, [])
          else finalize_connection k (case cn_closeReason c of None \<Rightarrow> RemoteClose | Some r \<Rightarrow> r)
                 ((forget_gateway_session c G)\<lparr>gw_connections := removeAll k (gw_connections G)\<rparr>))"

text \<open>\<^verbatim>\<open>stop()\<close>: first every connection is closed, then every one is dropped and finalized.\<close>

definition shutdown_drop :: "nat \<Rightarrow> gateway \<Rightarrow> gateway \<times> gateway_output list" where
  "shutdown_drop k G =
     (case js_get (gw_heap G) k of
        None \<Rightarrow> (G, [])
      | Some c \<Rightarrow>
          finalize_connection k (case cn_closeReason c of None \<Rightarrow> ClosedWith CloseServerShutdown | Some r \<Rightarrow> r)
            ((forget_gateway_session c G)\<lparr>gw_connections := removeAll k (gw_connections G)\<rparr>))"

fun for_connections ::
  "(nat \<Rightarrow> gateway \<Rightarrow> gateway \<times> gateway_output list) \<Rightarrow> nat list \<Rightarrow> gateway \<Rightarrow> gateway \<times> gateway_output list" where
  "for_connections f [] G = (G, [])"
| "for_connections f (k # ks) G =
     (let (G1, out1) = f k G; (G2, out2) = for_connections f ks G1 in (G2, out1 @ out2))"

definition gateway_stop :: "gateway \<Rightarrow> gateway \<times> gateway_output list" where
  "gateway_stop G =
     (if gw_stopped G then (G, [])
      else
        let active = gw_connections G;
            (G1, out1) = for_connections
              (\<lambda>k. close_connection k CloseServerShutdown True (bridge_close_name CloseServerShutdown)) active
              (G\<lparr>gw_stopped := True\<rparr>);
            (G2, out2) = for_connections shutdown_drop active G1
        in (G2, out1 @ out2))"

section \<open>Events\<close>

text \<open>What the network and the hooks answer during an event.\<close>

record gateway_env =
  ge_net :: "bridge_message \<Rightarrow> int"
  ge_now :: int
  ge_callbackThrows :: bool

datatype gateway_event =
  Upgrade nat bool
| SocketOpen nat
| SocketMessage nat ws_frame
| SocketPong nat "string option"
| SocketClose nat
| AuthenticationDone nat "device_identity option" bool
| ValidationDone nat bool
| HeartbeatDone nat bool
| TimeoutFires nat
| HeartbeatFires nat string int
| SessionSend nat bridge_message nat
| SessionClose nat bridge_close_code
| StopGateway

fun gateway_step ::
  "gateway_config \<Rightarrow> gateway \<Rightarrow> gateway_env \<times> gateway_event \<Rightarrow> gateway \<times> gateway_output list" where
  "gateway_step cfg G (env, Upgrade k ok) = bridge_upgrade k ok G"
| "gateway_step cfg G (env, SocketOpen k) = socket_open cfg k G"
| "gateway_step cfg G (env, SocketMessage k raw) =
     (if k \<notin> set (gw_connections G) then (G, [])
      else handle_message cfg (ge_net env) (ge_callbackThrows env) k raw G)"
| "gateway_step cfg G (env, SocketPong k payload) =
     (if k \<notin> set (gw_connections G) then (G, []) else handle_pong k payload G)"
| "gateway_step cfg G (env, SocketClose k) = socket_close k G"
| "gateway_step cfg G (env, AuthenticationDone i answer guardThrows) =
     authentication_done cfg (ge_net env) i answer guardThrows (ge_callbackThrows env) (ge_now env) G"
| "gateway_step cfg G (env, ValidationDone i valid) =
     validation_done cfg (ge_net env) i valid (ge_callbackThrows env) (ge_now env) G"
| "gateway_step cfg G (env, HeartbeatDone k ok) = heartbeat_done (ge_net env) k ok (ge_now env) G"
| "gateway_step cfg G (env, TimeoutFires k) = connection_timeout (ge_net env) k G"
| "gateway_step cfg G (env, HeartbeatFires k nonce pingStatus) =
     heartbeat_fires cfg (ge_net env) pingStatus (ge_now env) nonce k G"
| "gateway_step cfg G (env, SessionSend k message bytes) =
     (case Option.bind (js_get (gw_heap G) k) cn_session of
        None \<Rightarrow> (G, [])
      | Some _ \<Rightarrow> let (G1, out, _) = session_send cfg (ge_net env) bytes message k G in (G1, out))"
| "gateway_step cfg G (env, SessionClose k code) =
     (case Option.bind (js_get (gw_heap G) k) cn_session of
        None \<Rightarrow> (G, [])
      | Some _ \<Rightarrow> close_connection k code True (bridge_close_name code) G)"
| "gateway_step cfg G (env, StopGateway) = gateway_stop G"

fun gateway_run ::
  "gateway_config \<Rightarrow> gateway \<Rightarrow> (gateway_env \<times> gateway_event) list \<Rightarrow> gateway \<times> gateway_output list" where
  "gateway_run cfg G [] = (G, [])"
| "gateway_run cfg G (e # es) =
     (let (G1, out1) = gateway_step cfg G e; (G2, out2) = gateway_run cfg G1 es in (G2, out1 @ out2))"

section \<open>Invariant\<close>

text \<open>
  \<open>A\<close> is a property of identities that the authenticator guarantees. A session's identity is either
  one the authenticator gave, or absent where legacy agents are allowed.
\<close>

definition identity_ok :: "(device_identity \<Rightarrow> bool) \<Rightarrow> gateway_config \<Rightarrow> device_identity option \<Rightarrow> bool" where
  "identity_ok A cfg ident \<longleftrightarrow>
     (case ident of
        None \<Rightarrow> gc_allowLegacyUnauthenticated cfg
      | Some i \<Rightarrow> gc_authenticateDevice cfg \<and> A i)"

definition connection_quiet :: "gateway_connection \<Rightarrow> bool" where
  "connection_quiet c \<longleftrightarrow>
     \<not> cn_heartbeatTimer c \<and> cn_heartbeatNonce c = None \<and> \<not> cn_heartbeatValidating c"

definition connection_ok :: "(device_identity \<Rightarrow> bool) \<Rightarrow> gateway_config \<Rightarrow> gateway_connection \<Rightarrow> bool" where
  "connection_ok A cfg c \<longleftrightarrow>
     (cn_finalized c \<longleftrightarrow> cn_state c = ClosedState) \<and>
     (cn_state c = Ready \<longrightarrow> cn_session c \<noteq> None) \<and>
     (cn_state c = Handshaking \<longrightarrow> cn_session c = None) \<and>
     (cn_state c = Closing \<or> cn_state c = ClosedState \<longrightarrow> connection_quiet c) \<and>
     (\<forall>s. cn_session c = Some s \<longrightarrow> identity_ok A cfg (gs_identity s))"

definition session_id_at :: "(nat, gateway_connection) js_map \<Rightarrow> nat \<Rightarrow> string option" where
  "session_id_at heap k = map_option gs_id (Option.bind (js_get heap k) cn_session)"

definition gateway_ok :: "(device_identity \<Rightarrow> bool) \<Rightarrow> gateway_config \<Rightarrow> gateway \<Rightarrow> bool" where
  "gateway_ok A cfg G \<longleftrightarrow>
     (\<forall>k c. js_get (gw_heap G) k = Some c \<longrightarrow> connection_ok A cfg c \<and>
        (\<not> cn_finalized c \<longrightarrow> k \<in> set (gw_connections G))) \<and>
     (\<forall>sid k. js_get (gw_sessions G) sid = Some k \<longrightarrow>
        k \<in> set (gw_connections G) \<and>
        session_id_at (gw_heap G) k = Some sid) \<and>
     (\<forall>p \<in> set (gw_pending G). \<forall>i. ph_stage p = Validating i \<longrightarrow> identity_ok A cfg (Some i))"

lemma gateway_ok_connection:
  assumes "gateway_ok A cfg G" "js_get (gw_heap G) k = Some c"
  shows "connection_ok A cfg c" and "\<not> cn_finalized c \<Longrightarrow> k \<in> set (gw_connections G)"
  using assms unfolding gateway_ok_def by blast+

lemma gateway_ok_session:
  assumes "gateway_ok A cfg G" "js_get (gw_sessions G) sid = Some k"
  shows "k \<in> set (gw_connections G)"
    and "session_id_at (gw_heap G) k = Some sid"
  using assms unfolding gateway_ok_def by blast+

lemma gateway_ok_pending:
  assumes "gateway_ok A cfg G" "p \<in> set (gw_pending G)" "ph_stage p = Validating i"
  shows "identity_ok A cfg (Some i)"
  using assms unfolding gateway_ok_def by blast

lemma gateway_okI:
  assumes "\<And>k c. js_get (gw_heap G) k = Some c \<Longrightarrow> connection_ok A cfg c"
    and "\<And>k c. js_get (gw_heap G) k = Some c \<Longrightarrow> \<not> cn_finalized c \<Longrightarrow> k \<in> set (gw_connections G)"
    and "\<And>sid k. js_get (gw_sessions G) sid = Some k \<Longrightarrow> k \<in> set (gw_connections G) \<and>
        session_id_at (gw_heap G) k = Some sid"
    and "\<And>p i. p \<in> set (gw_pending G) \<Longrightarrow> ph_stage p = Validating i \<Longrightarrow> identity_ok A cfg (Some i)"
  shows "gateway_ok A cfg G"
  using assms unfolding gateway_ok_def by blast

lemma update_connection_frame [simp]:
  "gw_connections (update_connection k f G) = gw_connections G"
  "gw_sessions (update_connection k f G) = gw_sessions G"
  "gw_pending (update_connection k f G) = gw_pending G"
  "gw_beating (update_connection k f G) = gw_beating G"
  "gw_stopped (update_connection k f G) = gw_stopped G"
  by (simp_all add: update_connection_def split: option.split)

lemma update_connection_heap [simp]:
  "js_get (gw_heap (update_connection k f G)) k' =
     (if k' = k then map_option f (js_get (gw_heap G) k) else js_get (gw_heap G) k')"
  by (simp add: update_connection_def split: option.split)

text \<open>Changing a connection without touching its session.\<close>

lemma update_connection_ok:
  assumes ok: "gateway_ok A cfg G"
    and f: "\<And>c. js_get (gw_heap G) k = Some c \<Longrightarrow> connection_ok A cfg c \<Longrightarrow>
        connection_ok A cfg (f c) \<and> cn_session (f c) = cn_session c \<and> (cn_finalized c \<longrightarrow> cn_finalized (f c))"
  shows "gateway_ok A cfg (update_connection k f G)"
proof (rule gateway_okI, goal_cases conn live sess pend)
  case (conn k' c')
  then show ?case
    using f gateway_ok_connection(1) [OF ok] by (auto split: if_splits)
next
  case (live k' c')
  then show ?case
    using f gateway_ok_connection [OF ok] by (auto split: if_splits)
next
  case (sess sid k')
  have "session_id_at (gw_heap (update_connection k f G)) k' = session_id_at (gw_heap G) k'"
    using f gateway_ok_connection(1) [OF ok, of k]
    by (cases "js_get (gw_heap G) k") (auto simp: session_id_at_def)
  with gateway_ok_session [OF ok, of sid k'] sess show ?case by simp
next
  case (pend p i)
  with gateway_ok_pending [OF ok] show ?case by simp
qed

lemma forget_session_ok: "gateway_ok A cfg G \<Longrightarrow> gateway_ok A cfg (forget_gateway_session c G)"
  by (rule gateway_okI)
    (auto simp: forget_gateway_session_def gateway_ok_connection gateway_ok_session gateway_ok_pending
      split: option.splits if_splits)

lemma sessions_delete_ok:
  "gateway_ok A cfg G \<Longrightarrow> gateway_ok A cfg (G\<lparr>gw_sessions := js_delete sid (gw_sessions G)\<rparr>)"
  by (rule gateway_okI)
    (auto simp: gateway_ok_connection gateway_ok_session gateway_ok_pending split: if_splits)

lemma pending_ok:
  assumes "gateway_ok A cfg G"
    and "\<And>p i. p \<in> set ps \<Longrightarrow> ph_stage p = Validating i \<Longrightarrow> identity_ok A cfg (Some i)"
  shows "gateway_ok A cfg (G\<lparr>gw_pending := ps\<rparr>)"
  using assms by (intro gateway_okI) (auto simp: gateway_ok_connection gateway_ok_session)

lemma beating_ok: "gateway_ok A cfg G \<Longrightarrow> gateway_ok A cfg (G\<lparr>gw_beating := bs\<rparr>)"
  by (rule gateway_okI) (auto simp: gateway_ok_connection gateway_ok_session gateway_ok_pending)

lemma stopped_ok: "gateway_ok A cfg G \<Longrightarrow> gateway_ok A cfg (G\<lparr>gw_stopped := b\<rparr>)"
  by (rule gateway_okI) (auto simp: gateway_ok_connection gateway_ok_session gateway_ok_pending)

lemma closing_connection_ok:
  "connection_ok A cfg c \<Longrightarrow> \<not> cn_finalized c \<Longrightarrow>
   connection_ok A cfg (closing_connection code c) \<and> cn_session (closing_connection code c) = cn_session c \<and>
   \<not> cn_finalized (closing_connection code c)"
  by (simp add: connection_ok_def closing_connection_def clear_connection_timeout_def
      clear_heartbeat_timer_def connection_quiet_def)

lemma finalized_connection_ok:
  "connection_ok A cfg c \<Longrightarrow>
   connection_ok A cfg (finalized_connection c) \<and> cn_session (finalized_connection c) = cn_session c \<and>
   cn_finalized (finalized_connection c)"
  by (simp add: connection_ok_def finalized_connection_def clear_connection_timeout_def
      clear_heartbeat_timer_def connection_quiet_def)

lemma finalize_ok: "gateway_ok A cfg G \<Longrightarrow> gateway_ok A cfg (fst (finalize_connection k r G))"
  by (auto simp: finalize_connection_def finalized_connection_ok intro!: update_connection_ok split: option.split)

lemma closing_ok:
  "gateway_ok A cfg G \<Longrightarrow> js_get (gw_heap G) k = Some c \<Longrightarrow> \<not> cn_finalized c \<Longrightarrow>
   gateway_ok A cfg (update_connection k (closing_connection code) G)"
  by (rule update_connection_ok) (auto simp: closing_connection_ok)

lemma close_ok: "gateway_ok A cfg G \<Longrightarrow> gateway_ok A cfg (fst (close_connection k code announce r G))"
  by (auto simp: close_connection_def Let_def intro!: closing_ok finalize_ok split: option.split)

lemma fail_ok: "gateway_ok A cfg G \<Longrightarrow> gateway_ok A cfg (fst (fail_connection net k e code m G))"
  by (auto simp: fail_connection_def intro!: closing_ok split: option.split)

text \<open>Arming and clearing timers of a ready connection.\<close>

lemma timer_frame [simp]:
  "cn_state (clear_connection_timeout c) = cn_state c" "cn_session (clear_connection_timeout c) = cn_session c"
  "cn_finalized (clear_connection_timeout c) = cn_finalized c"
  "cn_state (clear_heartbeat_timer c) = cn_state c" "cn_session (clear_heartbeat_timer c) = cn_session c"
  "cn_finalized (clear_heartbeat_timer c) = cn_finalized c"
  "cn_state (set_timeout_for t n c) = cn_state c" "cn_session (set_timeout_for t n c) = cn_session c"
  "cn_finalized (set_timeout_for t n c) = cn_finalized c"
  "cn_state (arm_ready_idle_timeout cfg c) = cn_state c" "cn_session (arm_ready_idle_timeout cfg c) = cn_session c"
  "cn_finalized (arm_ready_idle_timeout cfg c) = cn_finalized c"
  "cn_state (schedule_heartbeat cfg c) = cn_state c" "cn_session (schedule_heartbeat cfg c) = cn_session c"
  "cn_finalized (schedule_heartbeat cfg c) = cn_finalized c"
  by (simp_all add: clear_connection_timeout_def clear_heartbeat_timer_def set_timeout_for_def
      arm_ready_idle_timeout_def schedule_heartbeat_def)

lemma connection_ok_same:
  assumes "connection_ok A cfg c" "cn_state c' = cn_state c" "cn_session c' = cn_session c"
    "cn_finalized c' = cn_finalized c" "cn_state c = Ready \<or> cn_state c = Handshaking \<or> connection_quiet c'"
  shows "connection_ok A cfg c'"
  using assms unfolding connection_ok_def by auto

lemma live_update_ok:
  assumes ok: "gateway_ok A cfg G" and c: "js_get (gw_heap G) k = Some c"
    and live: "cn_state c = Ready \<or> cn_state c = Handshaking"
    and f: "cn_state (f c) = cn_state c" "cn_session (f c) = cn_session c" "cn_finalized (f c) = cn_finalized c"
  shows "gateway_ok A cfg (update_connection k f G)"
proof (rule update_connection_ok [OF ok])
  fix d
  assume "js_get (gw_heap G) k = Some d" and d: "connection_ok A cfg d"
  with c have "d = c" by simp
  with d f live show "connection_ok A cfg (f d) \<and> cn_session (f d) = cn_session d \<and>
      (cn_finalized d \<longrightarrow> cn_finalized (f d))"
    by (auto intro: connection_ok_same)
qed

lemma clear_heartbeat_ok: "gateway_ok A cfg G \<Longrightarrow> gateway_ok A cfg (update_connection k clear_heartbeat_timer G)"
proof (rule update_connection_ok)
  fix c
  assume "connection_ok A cfg c"
  then show "connection_ok A cfg (clear_heartbeat_timer c) \<and> cn_session (clear_heartbeat_timer c) = cn_session c \<and>
      (cn_finalized c \<longrightarrow> cn_finalized (clear_heartbeat_timer c))"
    by (auto simp: connection_ok_def connection_quiet_def clear_heartbeat_timer_def)
qed

lemma not_closed: "connection_ok A cfg c \<Longrightarrow> \<not> cn_finalized c \<Longrightarrow> cn_state c \<noteq> ClosedState"
  by (simp add: connection_ok_def)

lemma fst_let_pair [simp]: "fst (let (a, b) = p in (a, f a b)) = fst p"
  by (simp add: case_prod_unfold)

lemma heartbeat_fires_ok:
  assumes ok: "gateway_ok A cfg G"
  shows "gateway_ok A cfg (fst (heartbeat_fires cfg net ping now nonce k G))"
proof (cases "js_get (gw_heap G) k")
  case None
  with ok show ?thesis by (simp add: heartbeat_fires_def)
next
  case (Some c)
  let ?G1 = "update_connection k clear_heartbeat_timer G"
  have ok1: "gateway_ok A cfg ?G1" by (rule clear_heartbeat_ok [OF ok])
  have c1: "js_get (gw_heap ?G1) k = Some (clear_heartbeat_timer c)" using Some by simp
  have step: "gateway_ok A cfg (update_connection k f ?G1)"
    if "cn_state c = Ready" "cn_state (f (clear_heartbeat_timer c)) = cn_state c"
      "cn_session (f (clear_heartbeat_timer c)) = cn_session c"
      "cn_finalized (f (clear_heartbeat_timer c)) = cn_finalized c" for f
    by (rule live_update_ok [OF ok1 c1]) (use that in simp_all)
  let ?n = "\<lambda>c. c\<lparr>cn_heartbeatNonce := Some nonce\<rparr>"
  have ready: "gateway_ok A cfg (update_connection k ?n ?G1)" if "cn_state c = Ready"
    by (rule step) (use that in simp_all)
  have "gateway_ok A cfg (update_connection k (schedule_heartbeat cfg) (update_connection k ?n ?G1))"
    if "cn_state c = Ready"
    by (rule live_update_ok [OF ready [OF that]]) (use Some that in auto)
  moreover have "gateway_ok A cfg (update_connection k (schedule_heartbeat cfg) ?G1)" if "cn_state c = Ready"
    by (rule step) (use that in simp_all)
  ultimately show ?thesis
    using ok ok1 ready by (simp add: heartbeat_fires_def Some Let_def case_prod_unfold fail_ok)
qed

lemma send_ok:
  assumes ok: "gateway_ok A cfg G"
  shows "gateway_ok A cfg (fst (session_send cfg net bytes m k G))"
proof (cases "js_get (gw_heap G) k")
  case (Some c)
  have "gateway_ok A cfg (update_connection k (arm_ready_idle_timeout cfg) G)" if "cn_state c = Ready"
    by (rule live_update_ok [OF ok Some]) (use that in simp_all)
  then show ?thesis
    using ok by (auto simp: session_send_def send_frame_def Some Let_def case_prod_unfold close_ok forget_session_ok
        split: sum.split)
qed (simp add: session_send_def ok)

text \<open>A handshake completes: the session map and the connection change together.\<close>

lemma ready_connection_ok:
  assumes "connection_ok A cfg c" "\<not> cn_finalized c" "identity_ok A cfg (gs_identity s)"
  shows "connection_ok A cfg (ready_connection cfg s now c)" and "cn_session (ready_connection cfg s now c) = Some s"
    and "\<not> cn_finalized (ready_connection cfg s now c)" and "cn_state (ready_connection cfg s now c) = Ready"
  using assms by (simp_all add: connection_ok_def ready_connection_def)

lemma install_session_ok:
  assumes ok: "gateway_ok A cfg G" and c: "js_get (gw_heap G) k = Some c"
    and hs: "\<not> cn_finalized c" "cn_state c = Handshaking" and ident: "identity_ok A cfg (gs_identity s)"
  shows "gateway_ok A cfg (update_connection k (ready_connection cfg s now)
           (G\<lparr>gw_sessions := js_set (gs_id s) k (gw_sessions G)\<rparr>))" (is "gateway_ok A cfg ?G")
proof (rule gateway_okI, goal_cases conn live sess pend)
  note cok = gateway_ok_connection(1) [OF ok c]
  note rok = ready_connection_ok [OF cok hs(1) ident]
  {
    case (conn k' c')
    then show ?case
      using gateway_ok_connection(1) [OF ok, of k' c'] rok(1) c by (auto split: if_splits)
  next
    case (live k' c')
    then show ?case
      using gateway_ok_connection(2) [OF ok, of k'] hs(1) c by (auto split: if_splits)
  next
    case (sess sid k')
    have "session_id_at (gw_heap G) k = None"
      using cok hs(2) c by (auto simp: connection_ok_def session_id_at_def)
    then have other: "js_get (gw_sessions G) x \<noteq> Some k" for x
      using gateway_ok_session(2) [OF ok, of x k] by auto
    have at: "session_id_at (gw_heap ?G) k = Some (gs_id s)" "k' \<noteq> k \<Longrightarrow>
        session_id_at (gw_heap ?G) k' = session_id_at (gw_heap G) k'"
      using c rok(2) by (simp_all add: session_id_at_def)
    show ?case
    proof (cases "sid = gs_id s")
      case True
      with sess have "k' = k" by simp
      with True at(1) gateway_ok_connection(2) [OF ok c hs(1)] show ?thesis by simp
    next
      case False
      with sess have old: "js_get (gw_sessions G) sid = Some k'" by simp
      with other have "k' \<noteq> k" by auto
      with at(2) gateway_ok_session [OF ok old] show ?thesis by simp
    qed
  next
    case (pend p i)
    with gateway_ok_pending [OF ok] show ?case by simp
  }
qed

lemma complete_ok:
  assumes ok: "gateway_ok A cfg G" and ident: "identity_ok A cfg identity"
  shows "gateway_ok A cfg (fst (complete_handshake cfg net thr now k sid identity G))"
proof (cases "js_get (gw_heap G) k")
  case (Some c)
  let ?s = "\<lparr>gs_id = sid, gs_identity = identity\<rparr>"
  let ?G1 = "update_connection k (ready_connection cfg ?s now) (G\<lparr>gw_sessions := js_set sid k (gw_sessions G)\<rparr>)"
  show ?thesis
  proof (cases "cn_finalized c \<or> cn_state c \<noteq> Handshaking")
    case True
    with ok Some show ?thesis by (simp add: complete_handshake_def)
  next
    case False
    have ok1: "gateway_ok A cfg ?G1"
      using install_session_ok [OF ok Some, of ?s now] False ident by simp
    have c1: "js_get (gw_heap ?G1) k = Some (ready_connection cfg ?s now c)" using Some by simp
    have "cn_state (ready_connection cfg ?s now c) = Ready" by (simp add: ready_connection_def)
    then have "gateway_ok A cfg (update_connection k (schedule_heartbeat cfg) ?G1)"
      by (intro live_update_ok [OF ok1 c1]) simp_all
    with False ok ok1 show ?thesis
      by (simp add: complete_handshake_def Some Let_def case_prod_unfold fail_ok sessions_delete_ok
          del: update_connection_frame)
  qed
qed (simp add: complete_handshake_def ok)

lemma authenticate_identity_ok:
  assumes "gateway_authenticate cfg auth answer = Inr identity"
    and "\<And>raw i. answer = Some raw \<Longrightarrow> authenticated_device_identity_schema raw = Some i \<Longrightarrow> A i"
  shows "identity_ok A cfg identity"
  using assms by (auto simp: gateway_authenticate_def identity_ok_def bind_eq_Some_conv
      split: option.splits if_splits)

lemma drop_pending_ok:
  "gateway_ok A cfg G \<Longrightarrow>
   gateway_ok A cfg (G\<lparr>gw_pending := take i (gw_pending G) @ drop (Suc i) (gw_pending G)\<rparr>)"
  by (rule pending_ok) (auto dest: in_set_takeD in_set_dropD intro: gateway_ok_pending)

lemma authentication_done_ok:
  assumes ok: "gateway_ok A cfg G"
    and A: "\<And>raw i. answer = Some raw \<Longrightarrow> authenticated_device_identity_schema raw = Some i \<Longrightarrow> A i"
  shows "gateway_ok A cfg (fst (authentication_done cfg net i answer gthr thr now G))"
proof (cases "length (gw_pending G) \<le> i \<or> ph_stage (gw_pending G ! i) \<noteq> Authenticating")
  case True
  with ok show ?thesis by (simp add: authentication_done_def)
next
  case False
  let ?p = "gw_pending G ! i"
  let ?G1 = "G\<lparr>gw_pending := take i (gw_pending G) @ drop (Suc i) (gw_pending G)\<rparr>"
  have ok1: "gateway_ok A cfg ?G1" by (rule drop_pending_ok [OF ok])
  show ?thesis
  proof (cases "gateway_authenticate cfg (ph_auth ?p) answer")
    case (Inl code)
    with False ok1 show ?thesis by (auto simp: authentication_done_def Let_def fail_ok)
  next
    case (Inr identity)
    have ident: "identity_ok A cfg identity" by (rule authenticate_identity_ok [OF Inr A])
    have complete: "gateway_ok A cfg (fst (complete_handshake cfg net thr now k sid identity ?G1))" for k sid
      by (rule complete_ok [OF ok1 ident])
    have pend: "gateway_ok A cfg (?G1\<lparr>gw_pending := gw_pending ?G1 @ [?p\<lparr>ph_stage := Validating j\<rparr>]\<rparr>)"
      if "identity = Some j" for j
      by (rule pending_ok [OF ok1]) (use ident that gateway_ok_pending [OF ok1] in auto)
    show ?thesis
      using False ok1 complete pend
      by (auto simp: authentication_done_def Inr Let_def case_prod_unfold fail_ok split: option.split)
  qed
qed

lemma validation_done_ok:
  assumes ok: "gateway_ok A cfg G"
  shows "gateway_ok A cfg (fst (validation_done cfg net i valid thr now G))"
proof (cases "length (gw_pending G) \<le> i")
  case True
  with ok show ?thesis by (simp add: validation_done_def)
next
  case False
  let ?p = "gw_pending G ! i"
  let ?G1 = "G\<lparr>gw_pending := take i (gw_pending G) @ drop (Suc i) (gw_pending G)\<rparr>"
  have ok1: "gateway_ok A cfg ?G1" by (rule drop_pending_ok [OF ok])
  show ?thesis
  proof (cases "ph_stage ?p")
    case Authenticating
    with ok False show ?thesis by (simp add: validation_done_def Let_def)
  next
    case (Validating j)
    then have "identity_ok A cfg (Some j)"
      using False by (intro gateway_ok_pending [OF ok, of ?p]) auto
    then have "gateway_ok A cfg (fst (complete_handshake cfg net thr now k sid (Some j) ?G1))" for k sid
      by (rule complete_ok [OF ok1])
    with False Validating ok1 show ?thesis
      by (simp add: validation_done_def Let_def case_prod_unfold fail_ok)
  qed
qed

lemma begin_handshake_ok:
  assumes ok: "gateway_ok A cfg G"
  shows "gateway_ok A cfg (fst (begin_handshake cfg net k m G))"
proof -
  have "gateway_ok A cfg (G\<lparr>gw_pending := gw_pending G @ [\<lparr>ph_connection = k, ph_sessionId = sid,
      ph_auth = auth, ph_stage = Authenticating\<rparr>]\<rparr>)" for sid auth
    by (rule pending_ok [OF ok]) (auto intro: gateway_ok_pending [OF ok])
  then show ?thesis
    by (cases m) (auto simp: begin_handshake_def fail_ok [OF ok])
qed

lemma ready_message_ok:
  assumes ok: "gateway_ok A cfg G" and c: "js_get (gw_heap G) k = Some c" and ready: "cn_state c = Ready"
  shows "gateway_ok A cfg (fst (ready_message cfg net thr k m G))"
proof -
  have "gateway_ok A cfg (update_connection k (arm_ready_idle_timeout cfg) G)"
    by (rule live_update_ok [OF ok c]) (use ready in simp_all)
  then show ?thesis
    by (cases m) (auto simp: ready_message_def Let_def case_prod_unfold fail_ok close_ok ok)
qed

lemma handle_message_ok:
  assumes ok: "gateway_ok A cfg G"
  shows "gateway_ok A cfg (fst (handle_message cfg net thr k raw G))"
proof (cases "js_get (gw_heap G) k")
  case (Some c)
  have "cn_state c = Ready" if "\<not> cn_finalized c" "cn_state c \<noteq> Closing" "cn_state c \<noteq> Handshaking"
    using that gateway_ok_connection(1) [OF ok Some] by (cases "cn_state c") (auto simp: connection_ok_def)
  with ready_message_ok [OF ok Some] show ?thesis
    using ok by (auto simp: handle_message_def Some fail_ok begin_handshake_ok split: sum.split)
qed (simp add: handle_message_def ok)

lemma handle_pong_ok:
  assumes ok: "gateway_ok A cfg G"
  shows "gateway_ok A cfg (fst (handle_pong k payload G))"
proof (cases "js_get (gw_heap G) k")
  case (Some c)
  have "gateway_ok A cfg (update_connection k (\<lambda>c. c\<lparr>cn_heartbeatNonce := None, cn_heartbeatValidating := True\<rparr>)
      (G\<lparr>gw_beating := gw_beating G @ [k]\<rparr>))" if "cn_state c = Ready"
    by (rule live_update_ok [OF beating_ok [OF ok], of _ _ c]) (use Some that in simp_all)
  with ok Some show ?thesis by (auto simp: handle_pong_def split: option.split)
qed (simp add: handle_pong_def ok)

lemma heartbeat_done_ok:
  assumes ok: "gateway_ok A cfg G"
  shows "gateway_ok A cfg (fst (heartbeat_done net k b now G))"
proof (cases "js_get (gw_heap G) k")
  case (Some c)
  let ?G1 = "G\<lparr>gw_beating := remove1 k (gw_beating G)\<rparr>"
  have ok1: "gateway_ok A cfg ?G1" by (rule beating_ok [OF ok])
  have "gateway_ok A cfg (update_connection k
      (\<lambda>c. c\<lparr>cn_lastHeartbeatAtMs := now, cn_heartbeatValidating := False\<rparr>) ?G1)" if "cn_state c = Ready"
    by (rule live_update_ok [OF ok1, of _ c]) (use Some that in simp_all)
  moreover have "gateway_ok A cfg (update_connection k (\<lambda>c. c\<lparr>cn_heartbeatValidating := False\<rparr>) ?G1)"
    by (rule update_connection_ok [OF ok1]) (auto simp: connection_ok_def connection_quiet_def)
  ultimately show ?thesis
    using ok ok1 by (simp add: heartbeat_done_def Some Let_def fail_ok)
qed (simp add: heartbeat_done_def ok)

lemma upgrade_ok:
  assumes ok: "gateway_ok A cfg G"
  shows "gateway_ok A cfg (fst (bridge_upgrade k b G))"
proof (cases "js_has (gw_heap G) k \<or> \<not> b")
  case True
  with ok show ?thesis by (simp add: bridge_upgrade_def)
next
  case False
  then have none: "js_get (gw_heap G) k = None" by simp
  have fresh: "connection_ok A cfg fresh_connection"
    by (simp add: connection_ok_def fresh_connection_def)
  have "session_id_at (gw_heap G) k = None" by (simp add: session_id_at_def none)
  then have "js_get (gw_sessions G) sid \<noteq> Some k" for sid
    using gateway_ok_session(2) [OF ok, of sid k] by auto
  moreover have "session_id_at (js_set k fresh_connection (gw_heap G)) k' = session_id_at (gw_heap G) k'"
    if "k' \<noteq> k" for k'
    using that by (simp add: session_id_at_def)
  ultimately have "session_id_at (js_set k fresh_connection (gw_heap G)) k' = Some sid"
    if "js_get (gw_sessions G) sid = Some k'" for sid k'
    using that gateway_ok_session(2) [OF ok that] by (cases "k' = k") auto
  with fresh have "gateway_ok A cfg (G\<lparr>gw_heap := js_set k fresh_connection (gw_heap G),
      gw_connections := js_add k (gw_connections G)\<rparr>)"
    using gateway_ok_connection [OF ok] gateway_ok_session [OF ok] gateway_ok_pending [OF ok]
    by (intro gateway_okI) (auto split: if_splits)
  with False show ?thesis by (simp add: bridge_upgrade_def)
qed

text \<open>A connection leaves the map together with its entry of the session map and is finalized.\<close>

lemma drop_connection_ok:
  assumes ok: "gateway_ok A cfg G" and c: "js_get (gw_heap G) k = Some c"
  shows "gateway_ok A cfg (fst (finalize_connection k r
           ((forget_gateway_session c G)\<lparr>gw_connections := removeAll k (gw_connections G)\<rparr>)))"
proof -
  let ?G = "(forget_gateway_session c G)\<lparr>gw_connections := removeAll k (gw_connections G)\<rparr>"
  have frame: "gw_heap (forget_gateway_session c G) = gw_heap G"
      "gw_pending (forget_gateway_session c G) = gw_pending G"
    by (simp_all add: forget_gateway_session_def split: option.split)
  have others: "js_get (gw_sessions (forget_gateway_session c G)) sid = Some k' \<Longrightarrow>
      k' \<noteq> k \<and> js_get (gw_sessions G) sid = Some k'" for sid k'
  proof -
    assume e: "js_get (gw_sessions (forget_gateway_session c G)) sid = Some k'"
    then have old: "js_get (gw_sessions G) sid = Some k'"
      by (auto simp: forget_gateway_session_def split: option.splits if_splits)
    have "session_id_at (gw_heap G) k' = Some sid" by (rule gateway_ok_session(2) [OF ok old])
    with e c have "k' \<noteq> k"
      by (auto simp: forget_gateway_session_def session_id_at_def split: option.splits if_splits)
    with old show ?thesis by simp
  qed
  have fin: "connection_ok A cfg c'" "k' \<noteq> k \<Longrightarrow> \<not> cn_finalized c' \<Longrightarrow> k' \<in> set (gw_connections G)"
    if "js_get (gw_heap G) k' = Some c'" for k' c'
    using gateway_ok_connection [OF ok that] by blast+
  have final: "connection_ok A cfg (finalized_connection c) \<and> cn_finalized (finalized_connection c) \<and>
      cn_session (finalized_connection c) = cn_session c"
    using finalized_connection_ok [OF gateway_ok_connection(1) [OF ok c]] by simp
  have heap: "js_get (gw_heap (fst (finalize_connection k r ?G))) k' = Some c' \<Longrightarrow>
      (k' = k \<and> cn_finalized c' \<and> connection_ok A cfg c') \<or> (k' \<noteq> k \<and> js_get (gw_heap G) k' = Some c')" for k' c'
    using final fin(1) [OF c] c by (auto simp: finalize_connection_def frame split: if_splits)
  have conns: "gw_connections (fst (finalize_connection k r ?G)) = removeAll k (gw_connections G)"
      "gw_sessions (fst (finalize_connection k r ?G)) = gw_sessions (forget_gateway_session c G)"
      "gw_pending (fst (finalize_connection k r ?G)) = gw_pending G"
    by (simp_all add: finalize_connection_def frame split: option.split)
  have at: "session_id_at (gw_heap (fst (finalize_connection k r ?G))) k' = session_id_at (gw_heap G) k'"
    if "k' \<noteq> k" for k'
    using that c by (simp add: session_id_at_def finalize_connection_def frame)
  show ?thesis
  proof (rule gateway_okI, goal_cases conn live sess pend)
    case (conn k' c')
    then show ?case using heap fin(1) by blast
  next
    case (live k' c')
    then show ?case using heap [of k' c'] fin(2) [of k' c'] by (auto simp: conns)
  next
    case (sess sid k')
    then have "k' \<noteq> k" "js_get (gw_sessions G) sid = Some k'" using others by (auto simp: conns)
    with gateway_ok_session [OF ok this(2)] at show ?case by (simp add: conns)
  next
    case (pend p i)
    then show ?case using gateway_ok_pending [OF ok] by (auto simp: conns)
  qed
qed

lemma socket_open_ok:
  assumes ok: "gateway_ok A cfg G"
  shows "gateway_ok A cfg (fst (socket_open cfg k G))"
proof -
  have "gateway_ok A cfg (update_connection k
      (\<lambda>c. set_timeout_for HandshakeTimer (gc_handshakeTimeoutMs cfg) (c\<lparr>cn_ws := True\<rparr>)) G)"
    by (rule update_connection_ok [OF ok])
      (simp add: connection_ok_def connection_quiet_def set_timeout_for_def clear_connection_timeout_def)
  then show ?thesis by (simp add: socket_open_def ok)
qed

lemma socket_close_ok: "gateway_ok A cfg G \<Longrightarrow> gateway_ok A cfg (fst (socket_close k G))"
  by (auto simp: socket_close_def drop_connection_ok split: option.split)

lemma shutdown_drop_ok: "gateway_ok A cfg G \<Longrightarrow> gateway_ok A cfg (fst (shutdown_drop k G))"
  by (auto simp: shutdown_drop_def drop_connection_ok split: option.split)

lemma for_connections_keeps:
  assumes "\<And>k G. I G \<Longrightarrow> I (fst (f k G))"
  shows "I G \<Longrightarrow> I (fst (for_connections f ks G))"
  using assms by (induction ks arbitrary: G) (simp_all add: case_prod_unfold Let_def)

lemma gateway_stop_ok:
  assumes "gateway_ok A cfg G"
  shows "gateway_ok A cfg (fst (gateway_stop G))"
proof -
  have "gateway_ok A cfg (fst (for_connections shutdown_drop ks'
      (fst (for_connections (\<lambda>k. close_connection k c b r) ks H))))"
    if "gateway_ok A cfg H" for c b r ks ks' H
    by (intro for_connections_keeps [where I = "gateway_ok A cfg"] shutdown_drop_ok close_ok that)
  with assms show ?thesis
    by (simp add: gateway_stop_def Let_def case_prod_unfold stopped_ok)
qed

section \<open>Runs\<close>

text \<open>The identities that some answer of the authenticator in the run carries.\<close>

definition answered :: "(gateway_env \<times> gateway_event) list \<Rightarrow> device_identity \<Rightarrow> bool" where
  "answered es i \<longleftrightarrow>
     (\<exists>env j raw g. (env, AuthenticationDone j (Some raw) g) \<in> set es \<and>
        authenticated_device_identity_schema raw = Some i)"

lemma gateway_step_ok:
  assumes ok: "gateway_ok A cfg G"
    and A: "\<And>i. answered [e] i \<Longrightarrow> A i"
  shows "gateway_ok A cfg (fst (gateway_step cfg G e))"
proof (cases e)
  case (Pair env ev)
  show ?thesis
  proof (cases ev)
    case (AuthenticationDone j answer g)
    have "A i" if "answer = Some raw" "authenticated_device_identity_schema raw = Some i" for raw i
      using that by (intro A) (auto simp: answered_def Pair AuthenticationDone)
    then show ?thesis
      unfolding Pair AuthenticationDone gateway_step.simps by (rule authentication_done_ok [OF ok])
  next
    case (TimeoutFires k)
    with Pair ok show ?thesis
      by (auto simp: connection_timeout_def fail_ok split: option.split connection_timer.split)
  qed (use ok in \<open>auto simp: Pair case_prod_unfold Let_def upgrade_ok socket_open_ok handle_message_ok handle_pong_ok
        socket_close_ok validation_done_ok heartbeat_done_ok heartbeat_fires_ok send_ok close_ok gateway_stop_ok
      split: option.split\<close>)
qed

lemma new_gateway_ok: "gateway_ok A cfg new_gateway"
  by (rule gateway_okI) (simp_all add: new_gateway_def)

lemma gateway_run_ok:
  "gateway_ok A cfg G \<Longrightarrow> (\<And>i. answered es i \<Longrightarrow> A i) \<Longrightarrow> gateway_ok A cfg (fst (gateway_run cfg G es))"
proof (induction es arbitrary: G)
  case (Cons e es)
  have "answered [e] i \<Longrightarrow> answered (e # es) i" "answered es i \<Longrightarrow> answered (e # es) i" for i
    by (auto simp: answered_def)
  with Cons show ?case
    by (auto simp: case_prod_unfold Let_def intro!: Cons.IH gateway_step_ok)
qed simp

text \<open>C3: Whatever frames, pongs, timers, hook answers and closes arrive in whatever order, every
  session that exists has either an identity that the authenticator answered and the schema accepted,
  with an authenticator configured, or none, and then unauthenticated agents are explicitly
  allowed.\<close>

theorem sessions_authenticated:
  assumes "js_get (gw_heap (fst (gateway_run cfg new_gateway es))) k = Some c" and "cn_session c = Some s"
  shows "case gs_identity s of
           None \<Rightarrow> gc_allowLegacyUnauthenticated cfg
         | Some i \<Rightarrow> gc_authenticateDevice cfg \<and> answered es i"
proof -
  have "gateway_ok (answered es) cfg (fst (gateway_run cfg new_gateway es))"
    by (rule gateway_run_ok [OF new_gateway_ok])
  then have "connection_ok (answered es) cfg c" using assms(1) by (rule gateway_ok_connection)
  with assms(2) show ?thesis
    by (cases "gs_identity s") (auto simp: connection_ok_def identity_ok_def)
qed

text \<open>
  What an entry of the session map points to: a connection with a socket that was not finalized and
  whose session carries the id.
\<close>

definition mapped_ok :: "gateway \<Rightarrow> bool" where
  "mapped_ok G \<longleftrightarrow>
     (\<forall>sid k. js_get (gw_sessions G) sid = Some k \<longrightarrow>
        (\<exists>c s. js_get (gw_heap G) k = Some c \<and> cn_session c = Some s \<and> gs_id s = sid \<and>
           cn_ws c \<and> \<not> cn_finalized c))"

lemma mapped_okD:
  assumes "mapped_ok G" "js_get (gw_sessions G) sid = Some k"
  obtains c s where "js_get (gw_heap G) k = Some c" "cn_session c = Some s" "gs_id s = sid" "cn_ws c"
    "\<not> cn_finalized c"
  using assms unfolding mapped_ok_def by blast

lemma mapped_shrink:
  assumes "mapped_ok G" "gw_heap H = gw_heap G"
    and "\<And>sid k. js_get (gw_sessions H) sid = Some k \<Longrightarrow> js_get (gw_sessions G) sid = Some k"
  shows "mapped_ok H"
  using assms unfolding mapped_ok_def by metis

lemma mapped_frame [simp]:
  "mapped_ok (G\<lparr>gw_pending := ps\<rparr>) = mapped_ok G" "mapped_ok (G\<lparr>gw_beating := bs\<rparr>) = mapped_ok G"
  "mapped_ok (G\<lparr>gw_stopped := b\<rparr>) = mapped_ok G" "mapped_ok (G\<lparr>gw_connections := ks\<rparr>) = mapped_ok G"
  by (simp_all add: mapped_ok_def)

text \<open>A change of a connection that keeps its session, its socket and that it is not finalized.\<close>

lemma mapped_update:
  assumes "mapped_ok G" and "\<And>c. cn_session (f c) = cn_session c" "\<And>c. cn_ws c \<Longrightarrow> cn_ws (f c)"
    "\<And>c. cn_finalized (f c) = cn_finalized c"
  shows "mapped_ok (update_connection k f G)"
  unfolding mapped_ok_def
proof (intro allI impI)
  fix sid k'
  assume "js_get (gw_sessions (update_connection k f G)) sid = Some k'"
  then have "js_get (gw_sessions G) sid = Some k'" by simp
  then obtain c s where "js_get (gw_heap G) k' = Some c" "cn_session c = Some s" "gs_id s = sid" "cn_ws c"
    "\<not> cn_finalized c"
    by (rule mapped_okD [OF assms(1)])
  with assms(2-4) show "\<exists>c s. js_get (gw_heap (update_connection k f G)) k' = Some c \<and> cn_session c = Some s \<and>
      gs_id s = sid \<and> cn_ws c \<and> \<not> cn_finalized c"
    by (cases "k' = k") auto
qed

text \<open>A change of a connection that no entry points to.\<close>

lemma mapped_other:
  assumes "mapped_ok G" and "\<And>sid. js_get (gw_sessions G) sid \<noteq> Some k"
  shows "mapped_ok (update_connection k f G)"
  using assms by (auto simp: mapped_ok_def)

lemma ws_frame [simp]:
  "cn_ws (clear_connection_timeout c) = cn_ws c" "cn_ws (clear_heartbeat_timer c) = cn_ws c"
  "cn_ws (set_timeout_for t n c) = cn_ws c" "cn_ws (arm_ready_idle_timeout cfg c) = cn_ws c"
  "cn_ws (schedule_heartbeat cfg c) = cn_ws c" "cn_ws (closing_connection code c) = cn_ws c"
  "cn_session (closing_connection code c) = cn_session c" "cn_finalized (closing_connection code c) = cn_finalized c"
  by (simp_all add: clear_connection_timeout_def clear_heartbeat_timer_def set_timeout_for_def
      arm_ready_idle_timeout_def schedule_heartbeat_def closing_connection_def)

lemma mapped_fail: "mapped_ok G \<Longrightarrow> mapped_ok (fst (fail_connection net k e code m G))"
  by (auto simp: fail_connection_def intro!: mapped_update split: option.split)

lemma mapped_finalize:
  assumes "mapped_ok G" "\<And>sid. js_get (gw_sessions G) sid \<noteq> Some k"
  shows "mapped_ok (fst (finalize_connection k r G))"
  using assms by (auto simp: finalize_connection_def intro!: mapped_other split: option.split)

lemma mapped_close:
  assumes "mapped_ok G"
  shows "mapped_ok (fst (close_connection k code announce r G))"
proof (cases "js_get (gw_heap G) k")
  case (Some c)
  let ?G = "update_connection k (closing_connection code) G"
  have closing: "mapped_ok ?G" by (rule mapped_update [OF assms]) simp_all
  have "js_get (gw_sessions G) sid \<noteq> Some k" if "\<not> cn_ws c" for sid
    using that Some by (auto elim: mapped_okD [OF assms])
  with closing have "mapped_ok (fst (finalize_connection k (ClosedWith code) ?G))" if "\<not> cn_ws c"
    using that by (intro mapped_finalize) simp_all
  with closing assms Some show ?thesis by (simp add: close_connection_def Let_def)
qed (simp add: close_connection_def assms)

lemma mapped_forget: "mapped_ok G \<Longrightarrow> mapped_ok (forget_gateway_session c G)"
  by (erule mapped_shrink) (auto simp: forget_gateway_session_def split: option.splits if_splits)

lemma mapped_drop:
  assumes "mapped_ok G" "js_get (gw_heap G) k = Some c"
  shows "mapped_ok (fst (finalize_connection k r
           ((forget_gateway_session c G)\<lparr>gw_connections := removeAll k (gw_connections G)\<rparr>)))"
proof (rule mapped_finalize)
  have "js_get (gw_sessions (forget_gateway_session c G)) sid \<noteq> Some k" for sid
  proof
    assume "js_get (gw_sessions (forget_gateway_session c G)) sid = Some k"
    moreover from this have "js_get (gw_sessions G) sid = Some k"
      by (auto simp: forget_gateway_session_def split: option.splits if_splits)
    then obtain s where "cn_session c = Some s" "gs_id s = sid"
      using assms(2) by (auto elim: mapped_okD [OF assms(1)])
    ultimately show False by (simp add: forget_gateway_session_def)
  qed
  then show "js_get (gw_sessions ((forget_gateway_session c G)\<lparr>gw_connections := removeAll k (gw_connections G)\<rparr>)) sid
      \<noteq> Some k" for sid by simp
qed (simp add: mapped_forget assms(1))

lemma mapped_socket_close: "mapped_ok G \<Longrightarrow> mapped_ok (fst (socket_close k G))"
  by (auto simp: socket_close_def mapped_drop split: option.split)

lemma mapped_stop:
  assumes "mapped_ok G"
  shows "mapped_ok (fst (gateway_stop G))"
proof -
  have "mapped_ok (fst (shutdown_drop k H))" if "mapped_ok H" for k H
    using that by (auto simp: shutdown_drop_def mapped_drop split: option.split)
  then have "mapped_ok (fst (for_connections shutdown_drop ks'
      (fst (for_connections (\<lambda>k. close_connection k c b r) ks H))))" if "mapped_ok H" for c b r ks ks' H
    by (intro for_connections_keeps [where I = mapped_ok] mapped_close that)
  with assms show ?thesis by (simp add: gateway_stop_def Let_def case_prod_unfold)
qed

text \<open>A handshake completes: no entry points to a connection that is still shaking hands.\<close>

definition unbound_handshakes :: "gateway \<Rightarrow> bool" where
  "unbound_handshakes G \<longleftrightarrow>
     (\<forall>k c. js_get (gw_heap G) k = Some c \<longrightarrow> cn_state c = Handshaking \<longrightarrow> cn_session c = None)"

lemma unbound_frame [simp]: "unbound_handshakes (G\<lparr>gw_pending := ps\<rparr>) = unbound_handshakes G"
  by (simp add: unbound_handshakes_def)

lemma gateway_ok_unbound: "gateway_ok A cfg G \<Longrightarrow> unbound_handshakes G"
  using gateway_ok_connection(1) by (fastforce simp: unbound_handshakes_def connection_ok_def)

lemma ready_connection_frame [simp]:
  "cn_session (ready_connection cfg s now c) = Some s" "cn_ws (ready_connection cfg s now c) = cn_ws c"
  "cn_finalized (ready_connection cfg s now c) = cn_finalized c"
  by (simp_all add: ready_connection_def)

lemma mapped_complete:
  assumes ok: "mapped_ok G" and unbound: "unbound_handshakes G"
  shows "mapped_ok (fst (complete_handshake cfg net thr now k sid identity G))"
proof (cases "js_get (gw_heap G) k")
  case (Some c)
  let ?s = "\<lparr>gs_id = sid, gs_identity = identity\<rparr>"
  let ?G1 = "update_connection k (ready_connection cfg ?s now) (G\<lparr>gw_sessions := js_set sid k (gw_sessions G)\<rparr>)"
  let ?G2 = "?G1\<lparr>gw_sessions := js_delete sid (gw_sessions ?G1)\<rparr>"
  show ?thesis
  proof (cases "cn_finalized c \<or> cn_state c \<noteq> Handshaking")
    case True
    with ok Some show ?thesis by (simp add: complete_handshake_def)
  next
    case False
    then have "cn_session c = None" using unbound Some by (simp add: unbound_handshakes_def)
    then have free: "js_get (gw_sessions G) x \<noteq> Some k" for x using Some by (auto elim: mapped_okD [OF ok])
    have "mapped_ok (update_connection k (ready_connection cfg ?s now) G)" by (rule mapped_other [OF ok free])
    then have G2: "mapped_ok ?G2"
      by (rule mapped_shrink) (auto simp: update_connection_def split: option.splits if_splits)
    have G1: "mapped_ok ?G1" if "cn_ws c"
      using ok free Some False that by (auto simp: mapped_ok_def)
    have "mapped_ok (update_connection k (schedule_heartbeat cfg) ?G1)" if "cn_ws c"
      by (rule mapped_update [OF G1 [OF that]]) simp_all
    moreover have "cn_ws c" if "\<not> send_failed (socket_status c (net (BridgeHelloAck bridge_protocol_version sid)))"
      using that by (auto simp: socket_status_def send_failed_def split: if_splits)
    ultimately show ?thesis
      using False ok mapped_fail [OF G2]
      by (simp add: complete_handshake_def Some Let_def case_prod_unfold mapped_fail del: update_connection_frame)
  qed
qed (simp add: complete_handshake_def ok)

lemma mapped_authentication:
  assumes "mapped_ok G" "unbound_handshakes G"
  shows "mapped_ok (fst (authentication_done cfg net i answer gthr thr now G))"
  using assms by (auto simp: authentication_done_def Let_def case_prod_unfold mapped_fail mapped_complete
      split: sum.split option.split)

lemma mapped_validation:
  assumes "mapped_ok G" "unbound_handshakes G"
  shows "mapped_ok (fst (validation_done cfg net i valid thr now G))"
  using assms by (auto simp: validation_done_def Let_def case_prod_unfold mapped_fail mapped_complete
      split: handshake_stage.split)

lemma mapped_message:
  assumes "mapped_ok G"
  shows "mapped_ok (fst (handle_message cfg net thr k raw G))"
proof -
  have "mapped_ok (update_connection k (arm_ready_idle_timeout cfg) G)" by (rule mapped_update [OF assms]) simp_all
  with assms have "mapped_ok (fst (begin_handshake cfg net k m G))" "mapped_ok (fst (ready_message cfg net thr k m G))" for m
    by (auto simp: begin_handshake_def ready_message_def Let_def case_prod_unfold mapped_fail mapped_close
        split: bridge_message.split)
  with assms show ?thesis
    by (auto simp: handle_message_def mapped_fail split: option.split sum.split)
qed

lemma mapped_timers:
  assumes "mapped_ok G"
  shows "mapped_ok (fst (heartbeat_fires cfg net ping now nonce k G))"
    "mapped_ok (fst (heartbeat_done net k succeeded now G))" "mapped_ok (fst (handle_pong k payload G))"
    "mapped_ok (fst (connection_timeout net k G))"
proof -
  have 1: "mapped_ok (update_connection k clear_heartbeat_timer G)" by (rule mapped_update [OF assms]) simp_all
  have 2: "mapped_ok (update_connection k (\<lambda>c. c\<lparr>cn_heartbeatNonce := Some nonce\<rparr>) (update_connection k clear_heartbeat_timer G))"
    by (rule mapped_update [OF 1]) simp_all
  have "mapped_ok (update_connection k (schedule_heartbeat cfg) H)" if "mapped_ok H" for H
    by (rule mapped_update [OF that]) simp_all
  with 1 2 assms show "mapped_ok (fst (heartbeat_fires cfg net ping now nonce k G))"
    by (auto simp: heartbeat_fires_def Let_def case_prod_unfold mapped_fail split: option.split)
  have "mapped_ok (update_connection k (\<lambda>c. c\<lparr>cn_lastHeartbeatAtMs := now, cn_heartbeatValidating := False\<rparr>) H)"
    "mapped_ok (update_connection k (\<lambda>c. c\<lparr>cn_heartbeatValidating := False\<rparr>) H)"
    "mapped_ok (update_connection k (\<lambda>c. c\<lparr>cn_heartbeatNonce := None, cn_heartbeatValidating := True\<rparr>) H)"
    if "mapped_ok H" for H
    by (rule mapped_update [OF that]; simp)+
  with assms show "mapped_ok (fst (heartbeat_done net k succeeded now G))" "mapped_ok (fst (handle_pong k payload G))"
    by (auto simp: heartbeat_done_def handle_pong_def Let_def mapped_fail split: option.split)
  show "mapped_ok (fst (connection_timeout net k G))"
    using assms by (auto simp: connection_timeout_def mapped_fail split: option.split connection_timer.split)
qed

lemma mapped_socket:
  assumes "mapped_ok G"
  shows "mapped_ok (fst (bridge_upgrade k b G))" "mapped_ok (fst (socket_open cfg k G))"
    "mapped_ok (fst (session_send cfg net bytes m k G))"
proof -
  have "k' \<noteq> k" if "js_get (gw_heap G) k = None" "js_get (gw_sessions G) sid = Some k'" for sid k'
    using that by (auto elim: mapped_okD [OF assms])
  with assms show "mapped_ok (fst (bridge_upgrade k b G))"
    by (auto simp: bridge_upgrade_def mapped_ok_def)
  have "mapped_ok (update_connection k
      (\<lambda>c. set_timeout_for HandshakeTimer (gc_handshakeTimeoutMs cfg) (c\<lparr>cn_ws := True\<rparr>)) G)"
    by (rule mapped_update [OF assms]) simp_all
  with assms show "mapped_ok (fst (socket_open cfg k G))" by (simp add: socket_open_def)
  have "mapped_ok (update_connection k (arm_ready_idle_timeout cfg) G)" by (rule mapped_update [OF assms]) simp_all
  with assms show "mapped_ok (fst (session_send cfg net bytes m k G))"
    by (auto simp: session_send_def send_frame_def Let_def case_prod_unfold mapped_close mapped_forget
        split: option.split sum.split)
qed

lemma mapped_step:
  assumes "mapped_ok G" "unbound_handshakes G"
  shows "mapped_ok (fst (gateway_step cfg G e))"
proof (cases e)
  case (Pair env ev)
  with assms show ?thesis
    by (cases ev) (auto simp: case_prod_unfold Let_def mapped_socket mapped_message mapped_timers mapped_socket_close
        mapped_authentication mapped_validation mapped_close mapped_stop split: option.split)
qed

lemma mapped_run:
  "gateway_ok (\<lambda>_. True) cfg G \<Longrightarrow> mapped_ok G \<Longrightarrow> mapped_ok (fst (gateway_run cfg G es))"
proof (induction es arbitrary: G)
  case (Cons e es)
  have "gateway_ok (\<lambda>_. True) cfg (fst (gateway_step cfg G e))" by (rule gateway_step_ok [OF Cons.prems(1)]) simp
  with Cons mapped_step [OF Cons.prems(2) gateway_ok_unbound [OF Cons.prems(1)]] show ?case
    by (simp add: case_prod_unfold Let_def)
qed simp

text \<open>C28: In every interleaving of events the session map is sound: the entry of an id points to a
  connection that the gateway still knows, that has a socket and was not finalized, and whose own
  session carries that id; the connection is ready, or it is closing (a failed connection keeps its
  entry until its socket has closed), and never one that is still shaking hands or closed.\<close>

theorem session_map_sound:
  assumes "js_get (gw_sessions (fst (gateway_run cfg new_gateway es))) sid = Some k"
  shows "k \<in> set (gw_connections (fst (gateway_run cfg new_gateway es))) \<and>
    (\<exists>c s. js_get (gw_heap (fst (gateway_run cfg new_gateway es))) k = Some c \<and>
       cn_session c = Some s \<and> gs_id s = sid \<and> cn_ws c \<and> \<not> cn_finalized c \<and>
       cn_state c \<in> {Ready, Closing})"
proof -
  let ?G = "fst (gateway_run cfg new_gateway es)"
  have ok: "gateway_ok (answered es) cfg ?G" by (rule gateway_run_ok [OF new_gateway_ok])
  have "mapped_ok ?G" by (rule mapped_run [OF new_gateway_ok]) (simp add: mapped_ok_def new_gateway_def)
  from this assms obtain c s where c: "js_get (gw_heap ?G) k = Some c" "cn_session c = Some s" "gs_id s = sid" "cn_ws c"
    "\<not> cn_finalized c"
    by (rule mapped_okD)
  then have "cn_state c \<in> {Ready, Closing}"
    using gateway_ok_connection(1) [OF ok c(1)] by (cases "cn_state c") (auto simp: connection_ok_def)
  with c gateway_ok_session(1) [OF ok assms] show ?thesis by blast
qed

section \<open>A session is reported closed at most once\<close>

definition finals :: "nat \<Rightarrow> gateway \<Rightarrow> nat" where
  "finals k G = (case js_get (gw_heap G) k of None \<Rightarrow> 0 | Some c \<Rightarrow> if cn_finalized c then 1 else 0)"

definition closed_reports :: "nat \<Rightarrow> gateway_output list \<Rightarrow> nat" where
  "closed_reports k out = length (filter (\<lambda>x. case x of OnSessionClosed k' r \<Rightarrow> k' = k | _ \<Rightarrow> False) out)"

text \<open>A step pays for a report of \<open>k\<close> by finalizing \<open>k\<close>, and never takes that back.\<close>

definition paid :: "nat \<Rightarrow> gateway \<Rightarrow> gateway \<times> gateway_output list \<Rightarrow> bool" where
  "paid k G p \<longleftrightarrow> closed_reports k (snd p) + finals k G \<le> finals k (fst p)"

lemma closed_reports_simps [simp]:
  "closed_reports k [] = 0"
  "closed_reports k (x # out) =
     (case x of OnSessionClosed k' r \<Rightarrow> if k' = k then 1 else 0 | _ \<Rightarrow> 0) + closed_reports k out"
  "closed_reports k (out @ out') = closed_reports k out + closed_reports k out'"
  by (auto simp: closed_reports_def split: gateway_output.split)

lemma paid_append:
  "paid k G (G1, out1) \<Longrightarrow> paid k G1 (G2, out2) \<Longrightarrow> paid k G (G2, out1 @ out2)"
  by (simp add: paid_def)

lemma paid_none: "closed_reports k out = 0 \<Longrightarrow> finals k H = finals k G \<Longrightarrow> paid k G (H, out)"
  by (simp add: paid_def)

lemma finals_frame [simp]:
  "finals k (G\<lparr>gw_sessions := m\<rparr>) = finals k G" "finals k (G\<lparr>gw_pending := ps\<rparr>) = finals k G"
  "finals k (G\<lparr>gw_beating := bs\<rparr>) = finals k G" "finals k (G\<lparr>gw_stopped := b\<rparr>) = finals k G"
  "finals k (G\<lparr>gw_connections := ks\<rparr>) = finals k G"
  by (simp_all add: finals_def)

lemma finals_forget [simp]: "finals k (forget_gateway_session c G) = finals k G"
  by (cases "cn_session c") (simp_all add: forget_gateway_session_def)

lemma finals_update:
  "(\<And>c. cn_finalized (f c) = cn_finalized c) \<Longrightarrow> finals k (update_connection k' f G) = finals k G"
  by (auto simp: finals_def split: option.split)

lemma closing_finalized [simp]: "cn_finalized (closing_connection code c) = cn_finalized c"
  by (simp add: closing_connection_def clear_connection_timeout_def clear_heartbeat_timer_def)

lemma ready_finalized [simp]: "cn_finalized (ready_connection cfg s now c) = cn_finalized c"
  by (simp add: ready_connection_def)

lemma finals_updates [simp]:
  "finals k (update_connection k' (closing_connection code) G) = finals k G"
  "finals k (update_connection k' (ready_connection cfg s now) G) = finals k G"
  "finals k (update_connection k' (schedule_heartbeat cfg) G) = finals k G"
  "finals k (update_connection k' (arm_ready_idle_timeout cfg) G) = finals k G"
  "finals k (update_connection k' clear_heartbeat_timer G) = finals k G"
  "finals k (update_connection k' (\<lambda>c. c\<lparr>cn_heartbeatNonce := n, cn_heartbeatValidating := b\<rparr>) G) = finals k G"
  "finals k (update_connection k' (\<lambda>c. c\<lparr>cn_heartbeatNonce := n\<rparr>) G) = finals k G"
  "finals k (update_connection k' (\<lambda>c. c\<lparr>cn_heartbeatValidating := b\<rparr>) G) = finals k G"
  "finals k (update_connection k' (\<lambda>c. c\<lparr>cn_lastHeartbeatAtMs := t, cn_heartbeatValidating := b\<rparr>) G) = finals k G"
  "finals k (update_connection k' (\<lambda>c. set_timeout_for tm ms (c\<lparr>cn_ws := b\<rparr>)) G) = finals k G"
  by (rule finals_update; simp)+

lemma paid_finalize: "paid k G (finalize_connection k' r G)"
  by (auto simp: paid_def finalize_connection_def finals_def finalized_connection_def split: option.split)

lemma paid_by_finals: "finals k H = finals k G \<Longrightarrow> paid k H p \<Longrightarrow> paid k G p"
  by (simp add: paid_def)

lemma paid_close: "paid k G (close_connection k' code b r G)"
proof -
  have "paid k G (finalize_connection k' r' (update_connection k' (closing_connection code) G))" for r'
    by (rule paid_by_finals [OF _ paid_finalize]) simp
  then show ?thesis
    by (auto simp: close_connection_def paid_def Let_def split: option.split)
qed

lemma paid_fail: "paid k G (fail_connection net k' e code m G)"
  by (auto simp: fail_connection_def paid_def split: option.split)

text \<open>Failing or closing in a state with the same finalized connections.\<close>

lemma paid_fail': "finals k H = finals k G \<Longrightarrow> closed_reports k (snd (fail_connection net k' e code m H)) +
    finals k G \<le> finals k (fst (fail_connection net k' e code m H))"
  using paid_fail [of k H] by (simp add: paid_def)

lemma paid_close': "finals k H = finals k G \<Longrightarrow> closed_reports k (snd (close_connection k' code b r H)) +
    finals k G \<le> finals k (fst (close_connection k' code b r H))"
  using paid_close [of k H] by (simp add: paid_def)

lemma paid_complete: "paid k G (complete_handshake cfg net thr now k' sid ident G)"
  unfolding paid_def complete_handshake_def Let_def case_prod_unfold
  by (auto intro!: paid_fail' split: option.split)

lemma paid_complete': "finals k H = finals k G \<Longrightarrow>
    closed_reports k (snd (complete_handshake cfg net thr now k' sid ident H)) + finals k G
      \<le> finals k (fst (complete_handshake cfg net thr now k' sid ident H))"
  using paid_complete [of k H] by (simp add: paid_def)

lemma paid_finalize': "finals k H = finals k G \<Longrightarrow>
    closed_reports k (snd (finalize_connection k' r H)) + finals k G \<le> finals k (fst (finalize_connection k' r H))"
  using paid_finalize [of k H] by (simp add: paid_def)

lemma paid_for_connections:
  assumes "\<And>k' G. paid k G (f k' G)"
  shows "paid k G (for_connections f ks G)"
proof (induction ks arbitrary: G)
  case (Cons x xs)
  obtain G1 out1 where f: "f x G = (G1, out1)" by (cases "f x G")
  obtain G2 out2 where rest: "for_connections f xs G1 = (G2, out2)" by (cases "for_connections f xs G1")
  have "paid k G (G2, out1 @ out2)"
    using assms [of G x] Cons [of G1] by (simp add: f rest paid_append)
  then show ?case by (simp add: f rest)
qed (simp add: paid_def)

lemma paid_stop: "paid k G (gateway_stop G)"
proof (cases "gw_stopped G")
  case False
  let ?H = "G\<lparr>gw_stopped := True\<rparr>"
  let ?close = "\<lambda>k. close_connection k CloseServerShutdown True (bridge_close_name CloseServerShutdown)"
  obtain G1 out1 where one: "for_connections ?close (gw_connections G) ?H = (G1, out1)"
    by (cases "for_connections ?close (gw_connections G) ?H")
  obtain G2 out2 where two: "for_connections shutdown_drop (gw_connections G) G1 = (G2, out2)"
    by (cases "for_connections shutdown_drop (gw_connections G) G1")
  have "paid k ?H (G1, out1)" unfolding one [symmetric] by (rule paid_for_connections) (rule paid_close)
  moreover have "paid k x (shutdown_drop k' x)" for k' x
    by (auto simp: shutdown_drop_def paid_def intro!: paid_finalize' split: option.split)
  then have "paid k G1 (G2, out2)" unfolding two [symmetric] by (rule paid_for_connections)
  ultimately have "paid k ?H (G2, out1 @ out2)" by (rule paid_append)
  then show ?thesis
    using False one two
    by (simp add: gateway_stop_def paid_def del: bridge_close_name.simps)
qed (simp add: gateway_stop_def paid_def)

lemma finals_upgrade: "js_get (gw_heap G) k' = None \<Longrightarrow>
    finals k (G\<lparr>gw_heap := js_set k' fresh_connection (gw_heap G)\<rparr>) = finals k G"
  by (simp add: finals_def fresh_connection_def)

lemma paid_authentication: "paid k G (authentication_done cfg net i answer g thr now G)"
  unfolding paid_def authentication_done_def Let_def case_prod_unfold
  by (auto intro!: paid_fail' paid_complete' split: option.split sum.split)

lemma paid_validation: "paid k G (validation_done cfg net i v thr now G)"
  unfolding paid_def validation_done_def Let_def case_prod_unfold
  by (auto intro!: paid_fail' paid_complete' split: handshake_stage.split)

lemma paid_heartbeat_fires: "paid k G (heartbeat_fires cfg net ping now nonce k' G)"
  unfolding paid_def heartbeat_fires_def Let_def case_prod_unfold
  by (auto intro!: paid_fail' split: option.split)

lemma paid_message: "paid k G (handle_message cfg net thr k' raw G)"
  unfolding paid_def handle_message_def begin_handshake_def ready_message_def Let_def case_prod_unfold
  by (auto intro!: paid_fail' paid_close' split: option.split sum.split bridge_message.split)

lemma paid_step: "paid k G (gateway_step cfg G e)"
proof (cases e)
  case (Pair env ev)
  show ?thesis
  proof (cases ev)
    case (SessionSend k' m bytes)
    then show ?thesis
      unfolding Pair SessionSend paid_def gateway_step.simps session_send_def send_frame_def Let_def case_prod_unfold
      by (auto intro!: paid_close' split: option.split sum.split)
  next
    case (Upgrade k' b)
    then show ?thesis
      by (auto simp: Pair paid_def bridge_upgrade_def finals_upgrade)
  next
    case (SocketClose k')
    then show ?thesis
      by (auto simp: Pair paid_def socket_close_def intro!: paid_finalize' split: option.split)
  next
    case (SocketPong k' payload)
    then show ?thesis
      by (auto simp: Pair paid_def handle_pong_def split: option.split)
  next
    case (HeartbeatDone k' b)
    then show ?thesis
      unfolding Pair HeartbeatDone paid_def gateway_step.simps heartbeat_done_def Let_def
      by (auto intro!: paid_fail' split: option.split)
  next
    case (TimeoutFires k')
    then show ?thesis
      using paid_fail by (auto simp: Pair connection_timeout_def paid_def split: option.split connection_timer.split)
  qed (auto simp: Pair socket_open_def paid_message paid_authentication paid_validation paid_heartbeat_fires
      paid_stop paid_close paid_none split: option.split)
qed

lemma paid_run: "paid k G (gateway_run cfg G es)"
proof (induction es arbitrary: G)
  case (Cons e es)
  obtain G1 out1 where step: "gateway_step cfg G e = (G1, out1)" by (cases "gateway_step cfg G e")
  obtain G2 out2 where run: "gateway_run cfg G1 es = (G2, out2)" by (cases "gateway_run cfg G1 es")
  have "paid k G (G2, out1 @ out2)"
    using paid_step [of k G cfg e] Cons [of G1] by (simp add: step run paid_append)
  then show ?case by (simp add: step run)
qed (simp add: paid_def)

text \<open>C16: The gateway reports the end of a session at most once, however its connection ends: through
  a failed send, a protocol error, a timeout, the peer's close, its own close or a shutdown, in any
  combination and order.\<close>

theorem session_closed_once:
  "length (filter (\<lambda>x. case x of OnSessionClosed k' r \<Rightarrow> k' = k | _ \<Rightarrow> False)
     (snd (gateway_run cfg new_gateway es))) \<le> 1"
proof -
  have "closed_reports k (snd (gateway_run cfg new_gateway es))
      \<le> finals k (fst (gateway_run cfg new_gateway es))"
    using paid_run [of k new_gateway cfg es] by (simp add: paid_def)
  also have "\<dots> \<le> 1" by (simp add: finals_def split: option.split)
  finally show ?thesis by (simp add: closed_reports_def)
qed

section \<open>Messages reach only authenticated sessions\<close>

definition forwards :: "gateway_output list \<Rightarrow> bool" where
  "forwards out \<longleftrightarrow> list_ex (\<lambda>x. case x of OnMessage k m \<Rightarrow> True | _ \<Rightarrow> False) out"

lemma forwards_simps [simp]:
  "\<not> forwards []"
  "forwards (x # out) \<longleftrightarrow> (case x of OnMessage k m \<Rightarrow> True | _ \<Rightarrow> False) \<or> forwards out"
  "forwards (out @ out') \<longleftrightarrow> forwards out \<or> forwards out'"
  by (simp_all add: forwards_def)

lemma forwards_in: "OnMessage k m \<in> set out \<Longrightarrow> forwards out"
  by (force simp: forwards_def list_ex_iff)

lemma quiet_finalize [simp]: "\<not> forwards (snd (finalize_connection k r G))"
  by (simp add: finalize_connection_def split: option.split)

lemma quiet_close [simp]: "\<not> forwards (snd (close_connection k code b r G))"
  by (simp add: close_connection_def Let_def split: option.split)

lemma quiet_fail [simp]: "\<not> forwards (snd (fail_connection net k e code m G))"
  by (simp add: fail_connection_def split: option.split)

lemma quiet_complete [simp]: "\<not> forwards (snd (complete_handshake cfg net thr now k sid ident G))"
  by (simp add: complete_handshake_def Let_def case_prod_unfold split: option.split)

lemma quiet_for_connections:
  "(\<And>k G. \<not> forwards (snd (f k G))) \<Longrightarrow> \<not> forwards (snd (for_connections f ks G))"
  by (induction ks arbitrary: G) (simp_all add: case_prod_unfold Let_def)

lemma quiet_stop [simp]: "\<not> forwards (snd (gateway_stop G))"
proof -
  have "\<not> forwards (snd (shutdown_drop k G))" for k G
    by (simp add: shutdown_drop_def split: option.split)
  then show ?thesis
    by (simp add: gateway_stop_def Let_def case_prod_unfold quiet_for_connections)
qed

lemma forwards_message:
  assumes "OnMessage k m \<in> set (snd (handle_message cfg net thr k' raw G))"
  shows "\<exists>c s. js_get (gw_heap G) k = Some c \<and> cn_session c = Some s \<and> cn_state c \<noteq> Handshaking \<and>
    \<not> cn_finalized c \<and> cn_state c \<noteq> Closing \<and> (\<exists>p. m = McpMessage p) \<and> parse_incoming_frame raw = Inr m"
proof -
  have no_fail: "OnMessage k m \<notin> set (snd (fail_connection net k' e code t H))" for e code t H
    using forwards_in quiet_fail by blast
  have no_close: "OnMessage k m \<notin> set (snd (close_connection k' code b t H))" for code b t H
    using forwards_in quiet_close by blast
  have no_begin: "OnMessage k m \<notin> set (snd (begin_handshake cfg net k' x H))" for x H
    using no_fail by (cases x) (auto simp: begin_handshake_def split: option.split)
  from assms show ?thesis
    using no_fail no_close no_begin
    by (auto simp: handle_message_def ready_message_def Let_def case_prod_unfold bind_eq_Some_conv
        split: option.splits sum.splits if_splits bridge_message.splits)
qed

lemma forwards_step:
  assumes out: "OnMessage k m \<in> set (snd (gateway_step cfg G (env, ev)))"
  shows "\<exists>k' raw. ev = SocketMessage k' raw \<and> OnMessage k m \<in> set (snd (handle_message cfg (ge_net env)
    (ge_callbackThrows env) k' raw G))"
proof -
  have f: "forwards (snd (gateway_step cfg G (env, ev)))" by (rule forwards_in [OF out])
  show ?thesis
  proof (cases ev)
    case (SocketMessage k' raw)
    with out show ?thesis by (auto split: if_splits)
  qed (use f in \<open>auto simp: bridge_upgrade_def socket_open_def socket_close_def handle_pong_def heartbeat_done_def
        connection_timeout_def heartbeat_fires_def session_send_def send_frame_def authentication_done_def
        validation_done_def Let_def case_prod_unfold
      split: option.splits sum.splits if_splits connection_timer.splits handshake_stage.splits\<close>)
qed

text \<open>C18: A message reaches a session's consumer only while the session is ready and only if its
  identity passed the handshake: an MCP message is forwarded at some step of a run only for a
  connection that is ready before the step, whose session's identity the authenticator answered
  earlier in the run (or which is an explicitly allowed unauthenticated agent).\<close>

theorem forwarded_only_when_ready:
  assumes "G = fst (gateway_run cfg new_gateway es)"
    and "OnMessage k m \<in> set (snd (gateway_step cfg G (env, ev)))"
  shows "\<exists>c s. js_get (gw_heap G) k = Some c \<and> cn_state c = Ready \<and> cn_session c = Some s \<and>
    (\<exists>p. m = McpMessage p) \<and>
    (case gs_identity s of
       None \<Rightarrow> gc_allowLegacyUnauthenticated cfg
     | Some i \<Rightarrow> gc_authenticateDevice cfg \<and> answered es i)"
proof -
  have ok: "gateway_ok (answered es) cfg G"
    unfolding assms(1) by (rule gateway_run_ok [OF new_gateway_ok])
  from forwards_step [OF assms(2)] obtain k' raw where
    "OnMessage k m \<in> set (snd (handle_message cfg (ge_net env) (ge_callbackThrows env) k' raw G))" by blast
  from forwards_message [OF this] obtain c s where c: "js_get (gw_heap G) k = Some c" "cn_session c = Some s"
    "cn_state c \<noteq> Handshaking" "\<not> cn_finalized c" "cn_state c \<noteq> Closing" "\<exists>p. m = McpMessage p" by blast
  have "connection_ok (answered es) cfg c" by (rule gateway_ok_connection(1) [OF ok c(1)])
  with c have "cn_state c = Ready" "identity_ok (answered es) cfg (gs_identity s)"
    by (cases "cn_state c"; auto simp: connection_ok_def)+
  with c show ?thesis
    by (intro exI [of _ c] exI [of _ s]) (auto simp: identity_ok_def split: option.splits)
qed

section \<open>Liveness checks\<close>

text \<open>C29: A ready device session whose last confirmed heartbeat is at least the timeout old is ended
  by the next heartbeat check, with the close reason TIMEOUT; and only a pong that carries the
  nonce of the outstanding ping starts a confirmation, any other pong changes nothing.\<close>

theorem heartbeat_ends_silent_session:
  assumes "js_get (gw_heap G) k = Some c" and "cn_state c = Ready" and "cn_ws c" and "cn_session c = Some s"
    and "\<not> cn_finalized c" and "cn_heartbeatTimer c"
    and "gc_heartbeatTimeoutMs cfg \<le> of_int (now - cn_lastHeartbeatAtMs c)"
  shows "(\<exists>c'. js_get (gw_heap (fst (heartbeat_fires cfg net ping now nonce k G))) k = Some c' \<and>
           cn_state c' = Closing \<and> cn_closeReason c' = Some (ClosedWith CloseTimeout) \<and> \<not> cn_heartbeatTimer c') \<and>
    (\<forall>payload. payload = None \<or> payload \<noteq> cn_heartbeatNonce c \<longrightarrow> handle_pong k payload G = (G, []))"
  using assms
  by (auto simp: heartbeat_fires_def fail_connection_def closing_connection_def clear_heartbeat_timer_def
      clear_connection_timeout_def handle_pong_def Let_def split: option.split)

section \<open>Sample runs\<close>

definition sample_config :: gateway_config where
  "sample_config = \<lparr>gc_handshakeTimeoutMs = 10000, gc_idleTimeoutMs = 60000, gc_heartbeatIntervalMs = 1000,
     gc_heartbeatTimeoutMs = 4000, gc_allowLegacyUnauthenticated = True, gc_authenticateDevice = True,
     gc_beginSessionReady = True, gc_validateSessionReady = True\<rparr>"

definition sample_env :: "int \<Rightarrow> gateway_env" where
  "sample_env status = \<lparr>ge_net = (\<lambda>m. status), ge_now = 0, ge_callbackThrows = False\<rparr>"

definition sample_frame :: "bridge_message \<Rightarrow> ws_frame" where
  "sample_frame m = \<lparr>wf_binary = False, wf_bytes = 100, wf_utf8 = True, wf_json = Some (bridge_message_json m)\<rparr>"

text \<open>A legacy agent connects as connection \<open>k\<close> under the session id \<open>s\<close>.\<close>

definition sample_connect :: "nat \<Rightarrow> (gateway_env \<times> gateway_event) list" where
  "sample_connect k =
     [(sample_env 1, Upgrade k True), (sample_env 1, SocketOpen k),
      (sample_env 1, SocketMessage k (sample_frame (BridgeHello ''1'' ''s'' None))),
      (sample_env 1, AuthenticationDone 0 None False)]"

text \<open>
  Connection 1 registers the id; a send on it fails, which removes the id while the close of the
  socket is still on its way. Connection 2 registers the same id. Now the close of connection 1
  arrives and removes the entry of connection 2, so connection 3 can register the id again.
\<close>

definition stale_close_run :: "(gateway_env \<times> gateway_event) list" where
  "stale_close_run =
     sample_connect 1 @ [(sample_env 0, SessionSend 1 (McpMessage []) 50)]
     @ sample_connect 2 @ [(sample_env 1, SocketClose 1)] @ sample_connect 3"

definition ready_with_id :: "gateway \<Rightarrow> nat \<Rightarrow> string \<Rightarrow> bool" where
  "ready_with_id G k sid \<longleftrightarrow>
     (case js_get (gw_heap G) k of
        None \<Rightarrow> False
      | Some c \<Rightarrow> cn_state c = Ready \<and> map_option gs_id (cn_session c) = Some sid)"

definition sample_ready :: gateway_connection where
  "sample_ready =
     \<lparr>cn_ws = True, cn_session = Some \<lparr>gs_id = ''s'', gs_identity = None\<rparr>, cn_state = Ready,
      cn_closeReason = None, cn_timeout = Some IdleTimer, cn_heartbeatTimer = False,
      cn_heartbeatNonce = None, cn_heartbeatValidating = False, cn_lastHeartbeatAtMs = 0,
      cn_finalized = False\<rparr>"

lemma sample_hello_parsed:
  "parse_incoming_frame (sample_frame (BridgeHello ''1'' ''s'' None)) = Inr (BridgeHello ''1'' ''s'' None)"
proof -
  have "bridge_message_schema (bridge_message_json (BridgeHello ''1'' ''s'' None)) =
      Some (BridgeHello ''1'' ''s'' None)"
    by (rule bridge_message_roundtrip_ok) simp
  then show ?thesis
    by (simp add: parse_incoming_frame_def sample_frame_def bridge_max_message_bytes_def
        del: bridge_message_json.simps)
qed

lemmas sample_env_simps [simp] = sample_env_def

lemma sample_open_run:
  assumes "js_get (gw_heap G) k = None" "k \<notin> set (gw_connections G)"
  shows "fst (gateway_step sample_config (fst (gateway_step sample_config G (sample_env 1, Upgrade k True)))
       (sample_env 1, SocketOpen k)) =
     G\<lparr>gw_heap := js_set k (fresh_connection\<lparr>cn_ws := True, cn_timeout := Some HandshakeTimer\<rparr>) (gw_heap G),
       gw_connections := gw_connections G @ [k]\<rparr>"
  using assms
  by (simp add: bridge_upgrade_def socket_open_def update_connection_def js_add_def set_timeout_for_def
      clear_connection_timeout_def sample_config_def)

lemma gateway_run_append:
  "fst (gateway_run cfg G (es @ fs)) = fst (gateway_run cfg (fst (gateway_run cfg G es)) fs)"
  by (induction es arbitrary: G) (simp_all add: case_prod_unfold Let_def)

lemma gateway_run_Cons: "fst (gateway_run cfg G (e # es)) = fst (gateway_run cfg (fst (gateway_step cfg G e)) es)"
  by (simp add: case_prod_unfold Let_def)

lemma sample_hello_run:
  assumes "js_get (gw_heap G) k = Some c" "k \<in> set (gw_connections G)"
    and "cn_state c = Handshaking" "\<not> cn_finalized c" "js_get (gw_sessions G) ''s'' = None"
  shows "fst (gateway_step sample_config G (sample_env 1, SocketMessage k (sample_frame (BridgeHello ''1'' ''s'' None)))) =
     G\<lparr>gw_pending := gw_pending G @ [\<lparr>ph_connection = k, ph_sessionId = ''s'', ph_auth = None,
                                       ph_stage = Authenticating\<rparr>]\<rparr>"
  using assms
  by (simp add: handle_message_def sample_hello_parsed begin_handshake_def bridge_protocol_version_def)

lemma sample_auth_run:
  assumes "js_get (gw_heap G) k = Some c" "c = fresh_connection\<lparr>cn_ws := True, cn_timeout := Some HandshakeTimer\<rparr>"
    and "js_get (gw_sessions G) ''s'' = None"
    and "gw_pending G = [\<lparr>ph_connection = k, ph_sessionId = ''s'', ph_auth = None, ph_stage = Authenticating\<rparr>]"
  shows "fst (gateway_step sample_config G (sample_env 1, AuthenticationDone 0 None False)) =
     G\<lparr>gw_heap := js_set k sample_ready (gw_heap G), gw_sessions := js_set ''s'' k (gw_sessions G),
       gw_pending := []\<rparr>"
  using assms
  by (simp add: authentication_done_def gateway_authenticate_def complete_handshake_def sample_config_def
      fresh_connection_def update_connection_def ready_connection_def arm_ready_idle_timeout_def
      uses_authenticated_heartbeat_def set_timeout_for_def clear_connection_timeout_def schedule_heartbeat_def
      clear_heartbeat_timer_def send_failed_def socket_status_def sample_ready_def Let_def)

lemma sample_connect_run:
  assumes "js_get (gw_heap G) k = None" "k \<notin> set (gw_connections G)" "js_get (gw_sessions G) ''s'' = None"
    and "gw_pending G = []"
  shows "fst (gateway_run sample_config G (sample_connect k)) =
     G\<lparr>gw_heap := js_set k sample_ready (gw_heap G), gw_connections := gw_connections G @ [k],
       gw_sessions := js_set ''s'' k (gw_sessions G)\<rparr>"
proof -
  have fresh: "cn_state fresh_connection = Handshaking" "\<not> cn_finalized fresh_connection"
    by (simp_all add: fresh_connection_def)
  let ?c = "fresh_connection\<lparr>cn_ws := True, cn_timeout := Some HandshakeTimer\<rparr>"
  let ?G = "G\<lparr>gw_heap := js_set k ?c (gw_heap G), gw_connections := gw_connections G @ [k]\<rparr>"
  let ?P = "[\<lparr>ph_connection = k, ph_sessionId = ''s'', ph_auth = None, ph_stage = Authenticating\<rparr>]"
  have "fst (gateway_step sample_config ?G
      (sample_env 1, SocketMessage k (sample_frame (BridgeHello ''1'' ''s'' None)))) =
      ?G\<lparr>gw_pending := gw_pending ?G @ ?P\<rparr>"
    by (rule sample_hello_run [where c = ?c]) (use assms fresh in simp_all)
  moreover have "fst (gateway_step sample_config (?G\<lparr>gw_pending := gw_pending ?G @ ?P\<rparr>)
      (sample_env 1, AuthenticationDone 0 None False)) =
    (?G\<lparr>gw_pending := gw_pending ?G @ ?P\<rparr>)\<lparr>gw_heap := js_set k sample_ready (gw_heap ?G),
      gw_sessions := js_set ''s'' k (gw_sessions G), gw_pending := []\<rparr>"
    by (subst sample_auth_run [where k = k and c = ?c]) (use assms in simp_all)
  ultimately show ?thesis
    unfolding sample_connect_def gateway_run_Cons sample_open_run [OF assms(1,2)]
    by (simp add: assms(4) del: gateway_step.simps sample_env_simps)
qed

lemma sample_failed_send:
  assumes "js_get (gw_heap G) k = Some sample_ready"
  shows "fst (gateway_step sample_config G (sample_env 0, SessionSend k (McpMessage []) 50)) =
     G\<lparr>gw_heap := js_set k (closing_connection CloseNormal sample_ready) (gw_heap G),
       gw_sessions := js_delete ''s'' (gw_sessions G)\<rparr>"
proof -
  have "serialize_frame 50 (McpMessage []) = Inr (McpMessage [])"
    using bridge_message_roundtrip_ok [of "McpMessage []"]
    by (simp add: serialize_frame_def bridge_max_message_bytes_def)
  with assms show ?thesis
    by (simp add: session_send_def send_frame_def sample_ready_def socket_status_def send_failed_def
        close_connection_def forget_gateway_session_def update_connection_def Let_def case_prod_unfold)
qed

lemma sample_late_close:
  assumes "js_get (gw_heap G) k = Some (closing_connection CloseNormal sample_ready)" "k \<in> set (gw_connections G)"
  shows "fst (gateway_step sample_config G (sample_env 1, SocketClose k)) =
     G\<lparr>gw_heap := js_set k (finalized_connection (closing_connection CloseNormal sample_ready)) (gw_heap G),
       gw_connections := removeAll k (gw_connections G), gw_sessions := js_delete ''s'' (gw_sessions G)\<rparr>"
  using assms
  by (simp add: socket_close_def finalize_connection_def forget_gateway_session_def update_connection_def
      closing_connection_def clear_connection_timeout_def clear_heartbeat_timer_def sample_ready_def)

theorem stale_close_breaks_session_ids:
  "ready_with_id (fst (gateway_run sample_config new_gateway stale_close_run)) 2 ''s'' \<and>
   ready_with_id (fst (gateway_run sample_config new_gateway stale_close_run)) 3 ''s'' \<and>
   js_get (gw_sessions (fst (gateway_run sample_config new_gateway stale_close_run))) ''s'' = Some 3"
proof -
  have "fst (gateway_run sample_config new_gateway stale_close_run) =
    fst (gateway_run sample_config (fst (gateway_step sample_config (fst (gateway_run sample_config
      (fst (gateway_step sample_config (fst (gateway_run sample_config new_gateway (sample_connect 1)))
        (sample_env 0, SessionSend 1 (McpMessage []) 50))) (sample_connect 2)))
      (sample_env 1, SocketClose 1))) (sample_connect 3))"
    by (simp only: stale_close_run_def gateway_run_append gateway_run_Cons append_Cons append_Nil)
  also have "\<dots> = \<lparr>gw_heap = [(1, finalized_connection (closing_connection CloseNormal sample_ready)),
      (2, sample_ready), (3, sample_ready)], gw_connections = [2, 3], gw_sessions = [(''s'', 3)],
      gw_pending = [], gw_beating = [], gw_stopped = False\<rparr>"
    by (simp add: new_gateway_def sample_connect_run sample_failed_send sample_late_close
        del: gateway_step.simps sample_env_simps)
  finally show ?thesis by (simp add: ready_with_id_def sample_ready_def)
qed

lemma sample_connected:
  "fst (gateway_run sample_config new_gateway (sample_connect 1)) =
     \<lparr>gw_heap = [(1, sample_ready)], gw_connections = [1], gw_sessions = [(''s'', 1)], gw_pending = [],
      gw_beating = [], gw_stopped = False\<rparr>"
  by (subst sample_connect_run) (simp_all add: new_gateway_def)

theorem sessions_authenticated_witness:
  "case gs_identity \<lparr>gs_id = ''s'', gs_identity = None\<rparr> of
     None \<Rightarrow> gc_allowLegacyUnauthenticated sample_config
   | Some i \<Rightarrow> gc_authenticateDevice sample_config \<and> answered (sample_connect 1) i"
  by (rule sessions_authenticated [of sample_config "sample_connect 1" 1 sample_ready])
    (simp_all only: sample_connected, simp_all add: sample_ready_def)

theorem session_map_sound_witness:
  "1 \<in> set (gw_connections (fst (gateway_run sample_config new_gateway (sample_connect 1)))) \<and>
    (\<exists>c s. js_get (gw_heap (fst (gateway_run sample_config new_gateway (sample_connect 1)))) 1 = Some c \<and>
       cn_session c = Some s \<and> gs_id s = ''s'' \<and> cn_ws c \<and> \<not> cn_finalized c \<and> cn_state c \<in> {Ready, Closing})"
  by (rule session_map_sound) (simp only: sample_connected, simp)

theorem forwarded_only_when_ready_witness:
  "\<exists>c s. js_get (gw_heap (fst (gateway_run sample_config new_gateway (sample_connect 1)))) 1 = Some c \<and>
    cn_state c = Ready \<and> cn_session c = Some s \<and> (\<exists>p. McpMessage [] = McpMessage p) \<and>
    (case gs_identity s of
       None \<Rightarrow> gc_allowLegacyUnauthenticated sample_config
     | Some i \<Rightarrow> gc_authenticateDevice sample_config \<and> answered (sample_connect 1) i)"
proof (rule forwarded_only_when_ready [OF refl])
  have "bridge_message_schema (bridge_message_json (McpMessage [])) = Some (McpMessage [])"
    by (rule bridge_message_roundtrip_ok) simp
  then have "parse_incoming_frame (sample_frame (McpMessage [])) = Inr (McpMessage [])"
    by (simp add: parse_incoming_frame_def sample_frame_def bridge_max_message_bytes_def
        del: bridge_message_json.simps)
  then show "OnMessage 1 (McpMessage []) \<in> set (snd (gateway_step sample_config
      (fst (gateway_run sample_config new_gateway (sample_connect 1)))
      (sample_env 1, SocketMessage 1 (sample_frame (McpMessage [])))))"
    unfolding sample_connected by (simp add: handle_message_def ready_message_def sample_ready_def)
qed

definition sample_device_connection :: gateway_connection where
  "sample_device_connection = sample_ready\<lparr>cn_session := Some \<lparr>gs_id = ''s'',
     gs_identity = Some \<lparr>idn_ownerId = ''ann'', idn_deviceId = ''d''\<rparr>\<rparr>,
     cn_timeout := None, cn_heartbeatTimer := True, cn_heartbeatNonce := Some ''n''\<rparr>"

definition sample_beating :: gateway where
  "sample_beating = \<lparr>gw_heap = [(1, sample_device_connection)], gw_connections = [1],
     gw_sessions = [(''s'', 1)], gw_pending = [], gw_beating = [], gw_stopped = False\<rparr>"

theorem heartbeat_ends_silent_session_witness:
  "(\<exists>c'. js_get (gw_heap (fst (heartbeat_fires sample_config (\<lambda>_. 1) 1 4000 ''m'' 1 sample_beating))) 1 = Some c' \<and>
      cn_state c' = Closing \<and> cn_closeReason c' = Some (ClosedWith CloseTimeout) \<and> \<not> cn_heartbeatTimer c') \<and>
    handle_pong 1 None sample_beating = (sample_beating, [])"
proof -
  note ended = heartbeat_ends_silent_session [of sample_beating 1 sample_device_connection, where cfg = sample_config
    and net = "\<lambda>_. 1" and ping = 1 and now = 4000 and nonce = "''m''"]
  from ended [of "\<lparr>gs_id = ''s'', gs_identity = Some \<lparr>idn_ownerId = ''ann'', idn_deviceId = ''d''\<rparr>\<rparr>"]
  show ?thesis
    by (simp add: sample_beating_def sample_device_connection_def sample_ready_def sample_config_def
        del: ex_simps)
qed

end
