(* ===== verification/Completion_Repository.thy ===== *)
theory Completion_Repository
  imports Schemas
begin

text \<open>
  The record of how far the hand-over of a credential to a claimed device has come: the interface
  \<^verbatim>\<open>PairingCredentialCompletionRepository\<close> and its in-memory implementation
  (\<^verbatim>\<open>apps/server/src/pairing-credential-completion.ts\<close>). The operations of the implementation run
  one after another (\<^verbatim>\<open>#exclusive\<close>), so each is one step. The clock is read twice by the operations
  that store; the two readings are arguments.
\<close>

section \<open>Data\<close>

datatype completion_state = CompletionPending | CompletionRecovering | CompletionDelivered

record completion_record =
  cr_pairingSessionId :: string
  cr_deviceId :: string
  cr_credentialId :: string
  cr_credentialVersion :: int
  cr_state :: completion_state
  cr_recoveryTarget :: "string option"

record completion_generation =
  cg_pairingSessionId :: string
  cg_deviceId :: string
  cg_credentialId :: string
  cg_credentialVersion :: int

datatype completion_clock_error = CompletionClockInvalid

definition record_generation_is :: "completion_record \<Rightarrow> string \<Rightarrow> int \<Rightarrow> bool" where
  "record_generation_is r credentialId credentialVersion \<longleftrightarrow>
     cr_credentialId r = credentialId \<and> cr_credentialVersion r = credentialVersion"

definition is_reserved_recovery_target :: "completion_record \<Rightarrow> string \<Rightarrow> int \<Rightarrow> bool" where
  "is_reserved_recovery_target r credentialId credentialVersion \<longleftrightarrow>
     cr_state r = CompletionRecovering \<and> cr_recoveryTarget r = Some credentialId \<and>
     credentialVersion = cr_credentialVersion r + 1"

definition default_completion_max_records :: nat where "default_completion_max_records = 1024"
definition default_completion_retention_ms :: nat where "default_completion_retention_ms = 300000"

record completion_limits =
  cl_maxRecords :: nat
  cl_retentionMs :: int

definition new_completion_limits :: "js_number option \<Rightarrow> js_number option \<Rightarrow> completion_limits option" where
  "new_completion_limits maxRecords retentionMs =
     (let m = (case maxRecords of None \<Rightarrow> js_int (int default_completion_max_records) | Some n \<Rightarrow> n);
          r = (case retentionMs of None \<Rightarrow> js_int (int default_completion_retention_ms) | Some n \<Rightarrow> n)
      in if \<not> js_is_safe_integer m \<or> js_le_zero m \<or> \<not> js_is_safe_integer r \<or> js_le_zero r then None
         else Some \<lparr>cl_maxRecords = nat (js_to_int m), cl_retentionMs = js_to_int r\<rparr>)"

record memory_completions =
  mp_records :: "(string, completion_record \<times> int) js_map"
  mp_reservations :: "(string, int) js_map"

definition empty_completions :: memory_completions where
  "empty_completions = \<lparr>mp_records = [], mp_reservations = []\<rparr>"

section \<open>Operations\<close>

definition completion_now :: "js_date \<Rightarrow> (completion_clock_error, int) result" where
  "completion_now d = require CompletionClockInvalid d"

definition completion_prune :: "int \<Rightarrow> memory_completions \<Rightarrow> memory_completions" where
  "completion_prune now s =
     s\<lparr>mp_records := filter (\<lambda>(k, r, e). \<not> e \<le> now) (mp_records s),
       mp_reservations := filter (\<lambda>(k, e). \<not> e \<le> now) (mp_reservations s)\<rparr>"

definition completion_size :: "memory_completions \<Rightarrow> nat" where
  "completion_size s = js_size (mp_records s) + js_size (mp_reservations s)"

definition stored_record :: "memory_completions \<Rightarrow> string \<Rightarrow> completion_record option" where
  "stored_record s sid = map_option fst (js_get (mp_records s) sid)"

text \<open>The reservation goes before the clock is read.\<close>

definition completion_store_record ::
  "completion_limits \<Rightarrow> js_date \<Rightarrow> completion_record \<Rightarrow> memory_completions
   \<Rightarrow> (memory_completions, completion_clock_error, completion_record option) outcome" where
  "completion_store_record L now r s =
     (let s1 = s\<lparr>mp_reservations := js_delete (cr_pairingSessionId r) (mp_reservations s)\<rparr> in
      try_with s1 (completion_now now) (\<lambda>t.
        (s1\<lparr>mp_records := js_set (cr_pairingSessionId r) (r, t + cl_retentionMs L) (mp_records s1)\<rparr>,
         Inr (Some r))))"

definition mem_completion_reserve ::
  "completion_limits \<Rightarrow> js_date \<times> js_date \<Rightarrow> string \<Rightarrow> memory_completions
   \<Rightarrow> (memory_completions, completion_clock_error, bool) outcome" where
  "mem_completion_reserve L now sid s =
     try_with s (completion_now (fst now)) (\<lambda>t.
       let s1 = completion_prune t s in
       if js_has (mp_records s1) sid \<or> js_has (mp_reservations s1) sid then (s1, Inr True)
       else if completion_size s1 \<ge> cl_maxRecords L then (s1, Inr False)
       else try_with s1 (completion_now (snd now)) (\<lambda>u.
              (s1\<lparr>mp_reservations := js_set sid (u + cl_retentionMs L) (mp_reservations s1)\<rparr>, Inr True)))"

definition mem_completion_transfer ::
  "completion_limits \<Rightarrow> js_date \<times> js_date \<Rightarrow> string \<Rightarrow> string \<Rightarrow> memory_completions
   \<Rightarrow> (memory_completions, completion_clock_error, bool) outcome" where
  "mem_completion_transfer L now from_id to_id s =
     try_with s (completion_now (fst now)) (\<lambda>t.
       let s1 = completion_prune t s in
       case js_get (mp_reservations s1) from_id of
         None \<Rightarrow> (s1, Inr False)
       | Some e \<Rightarrow>
           if js_has (mp_records s1) to_id \<or> js_has (mp_reservations s1) to_id then (s1, Inr False)
           else (s1\<lparr>mp_reservations := js_set to_id e (js_delete from_id (mp_reservations s1))\<rparr>, Inr True))"

definition mem_completion_get ::
  "completion_limits \<Rightarrow> js_date \<times> js_date \<Rightarrow> string \<Rightarrow> memory_completions
   \<Rightarrow> (memory_completions, completion_clock_error, completion_record option) outcome" where
  "mem_completion_get L now sid s =
     try_with s (completion_now (fst now)) (\<lambda>t.
       let s1 = completion_prune t s in (s1, Inr (stored_record s1 sid)))"

definition mem_completion_setPending ::
  "completion_limits \<Rightarrow> js_date \<times> js_date \<Rightarrow> completion_generation \<Rightarrow> memory_completions
   \<Rightarrow> (memory_completions, completion_clock_error, completion_record option) outcome" where
  "mem_completion_setPending L now i s =
     try_with s (completion_now (fst now)) (\<lambda>t.
       let s1 = completion_prune t s; sid = cg_pairingSessionId i in
       case stored_record s1 sid of
         Some r \<Rightarrow>
           if cr_state r = CompletionPending \<and> cr_deviceId r = cg_deviceId i \<and>
              record_generation_is r (cg_credentialId i) (cg_credentialVersion i)
           then (s1, Inr (Some r)) else (s1, Inr None)
       | None \<Rightarrow>
           if \<not> js_has (mp_reservations s1) sid \<and> completion_size s1 \<ge> cl_maxRecords L then (s1, Inr None)
           else completion_store_record L (snd now)
                  \<lparr>cr_pairingSessionId = sid, cr_deviceId = cg_deviceId i, cr_credentialId = cg_credentialId i,
                   cr_credentialVersion = cg_credentialVersion i, cr_state = CompletionPending,
                   cr_recoveryTarget = None\<rparr> s1)"

definition mem_completion_beginRecovery ::
  "completion_limits \<Rightarrow> js_date \<times> js_date \<Rightarrow> completion_generation \<Rightarrow> string \<Rightarrow> memory_completions
   \<Rightarrow> (memory_completions, completion_clock_error, completion_record option) outcome" where
  "mem_completion_beginRecovery L now i target s =
     try_with s (completion_now (fst now)) (\<lambda>t.
       let s1 = completion_prune t s; sid = cg_pairingSessionId i;
           recovering = (\<lambda>cid v. \<lparr>cr_pairingSessionId = sid, cr_deviceId = cg_deviceId i,
             cr_credentialId = cid, cr_credentialVersion = v, cr_state = CompletionRecovering,
             cr_recoveryTarget = Some target\<rparr>) in
       case stored_record s1 sid of
         Some r \<Rightarrow>
           if cr_state r = CompletionDelivered then (s1, Inr None)
           else if cr_deviceId r \<noteq> cg_deviceId i then (s1, Inr None)
           else if cr_state r = CompletionRecovering then (s1, Inr (Some r))
           else completion_store_record L (snd now)
                  (recovering (cr_credentialId r) (cr_credentialVersion r)) s1
       | None \<Rightarrow>
           if \<not> js_has (mp_reservations s1) sid \<and> completion_size s1 \<ge> cl_maxRecords L then (s1, Inr None)
           else completion_store_record L (snd now)
                  (recovering (cg_credentialId i) (cg_credentialVersion i)) s1)"

text \<open>The record both recovery transitions start from.\<close>

definition recovery_source ::
  "memory_completions \<Rightarrow> completion_generation \<Rightarrow> string \<Rightarrow> int \<Rightarrow> completion_record option" where
  "recovery_source s expected credentialId credentialVersion =
     (case stored_record s (cg_pairingSessionId expected) of
        None \<Rightarrow> None
      | Some r \<Rightarrow>
          if cr_state r \<noteq> CompletionRecovering \<or> cr_deviceId r \<noteq> cg_deviceId expected \<or>
             \<not> record_generation_is r (cg_credentialId expected) (cg_credentialVersion expected) \<or>
             \<not> is_reserved_recovery_target r credentialId credentialVersion
          then None else Some r)"

definition mem_completion_advanceRecovery ::
  "completion_limits \<Rightarrow> js_date \<times> js_date \<Rightarrow> completion_generation \<Rightarrow> string \<Rightarrow> int \<Rightarrow> string \<Rightarrow> memory_completions
   \<Rightarrow> (memory_completions, completion_clock_error, completion_record option) outcome" where
  "mem_completion_advanceRecovery L now expected credentialId credentialVersion target s =
     try_with s (completion_now (fst now)) (\<lambda>t.
       let s1 = completion_prune t s in
       case recovery_source s1 expected credentialId credentialVersion of
         None \<Rightarrow> (s1, Inr None)
       | Some r \<Rightarrow> completion_store_record L (snd now)
           \<lparr>cr_pairingSessionId = cg_pairingSessionId expected, cr_deviceId = cg_deviceId expected,
            cr_credentialId = credentialId, cr_credentialVersion = credentialVersion,
            cr_state = CompletionRecovering, cr_recoveryTarget = Some target\<rparr> s1)"

definition mem_completion_finishRecovery ::
  "completion_limits \<Rightarrow> js_date \<times> js_date \<Rightarrow> completion_generation \<Rightarrow> string \<Rightarrow> int \<Rightarrow> memory_completions
   \<Rightarrow> (memory_completions, completion_clock_error, completion_record option) outcome" where
  "mem_completion_finishRecovery L now expected credentialId credentialVersion s =
     try_with s (completion_now (fst now)) (\<lambda>t.
       let s1 = completion_prune t s in
       case recovery_source s1 expected credentialId credentialVersion of
         None \<Rightarrow> (s1, Inr None)
       | Some r \<Rightarrow> completion_store_record L (snd now)
           \<lparr>cr_pairingSessionId = cg_pairingSessionId expected, cr_deviceId = cg_deviceId expected,
            cr_credentialId = credentialId, cr_credentialVersion = credentialVersion,
            cr_state = CompletionPending, cr_recoveryTarget = None\<rparr> s1)"

definition mem_completion_acknowledge ::
  "completion_limits \<Rightarrow> js_date \<times> js_date \<Rightarrow> completion_generation \<Rightarrow> memory_completions
   \<Rightarrow> (memory_completions, completion_clock_error, completion_record option) outcome" where
  "mem_completion_acknowledge L now expected s =
     try_with s (completion_now (fst now)) (\<lambda>t.
       let s1 = completion_prune t s in
       case stored_record s1 (cg_pairingSessionId expected) of
         None \<Rightarrow> (s1, Inr None)
       | Some r \<Rightarrow>
           if cr_deviceId r \<noteq> cg_deviceId expected \<or>
              \<not> record_generation_is r (cg_credentialId expected) (cg_credentialVersion expected)
           then (s1, Inr None)
           else if cr_state r = CompletionDelivered then (s1, Inr (Some r))
           else if cr_state r \<noteq> CompletionPending then (s1, Inr None)
           else completion_store_record L (snd now) (r\<lparr>cr_state := CompletionDelivered\<rparr>) s1)"

definition mem_completion_delete ::
  "string \<Rightarrow> memory_completions \<Rightarrow> (memory_completions, completion_clock_error, unit) outcome" where
  "mem_completion_delete sid s =
     (s\<lparr>mp_records := js_delete sid (mp_records s), mp_reservations := js_delete sid (mp_reservations s)\<rparr>, Inr ())"

section \<open>Commands\<close>

datatype completion_command =
  Reserve "js_date \<times> js_date" string
| TransferReservation "js_date \<times> js_date" string string
| GetCompletion "js_date \<times> js_date" string
| SetPending "js_date \<times> js_date" completion_generation
| BeginRecovery "js_date \<times> js_date" completion_generation string
| AdvanceRecovery "js_date \<times> js_date" completion_generation string int string
| FinishRecovery "js_date \<times> js_date" completion_generation string int
| AcknowledgeCompletion "js_date \<times> js_date" completion_generation
| DeleteCompletion string

fun completion_step :: "completion_limits \<Rightarrow> memory_completions \<Rightarrow> completion_command \<Rightarrow> memory_completions" where
  "completion_step L s (Reserve now sid) = fst (mem_completion_reserve L now sid s)"
| "completion_step L s (TransferReservation now a b) = fst (mem_completion_transfer L now a b s)"
| "completion_step L s (GetCompletion now sid) = fst (mem_completion_get L now sid s)"
| "completion_step L s (SetPending now i) = fst (mem_completion_setPending L now i s)"
| "completion_step L s (BeginRecovery now i t) = fst (mem_completion_beginRecovery L now i t s)"
| "completion_step L s (AdvanceRecovery now e c v t) = fst (mem_completion_advanceRecovery L now e c v t s)"
| "completion_step L s (FinishRecovery now e c v) = fst (mem_completion_finishRecovery L now e c v s)"
| "completion_step L s (AcknowledgeCompletion now e) = fst (mem_completion_acknowledge L now e s)"
| "completion_step L s (DeleteCompletion sid) = fst (mem_completion_delete sid s)"

section \<open>Capacity\<close>

definition completions_bounded :: "completion_limits \<Rightarrow> memory_completions \<Rightarrow> bool" where
  "completions_bounded L s \<longleftrightarrow> completion_size s \<le> cl_maxRecords L"

lemma prune_bounded: "completions_bounded L s \<Longrightarrow> completions_bounded L (completion_prune t s)"
proof -
  assume "completions_bounded L s"
  moreover have "completion_size (completion_prune t s) \<le> completion_size s"
    unfolding completion_size_def completion_prune_def by (simp add: add_mono)
  ultimately show ?thesis unfolding completions_bounded_def by simp
qed

lemma store_record_bounded:
  assumes "completions_bounded L s"
    and "js_has (mp_records s) (cr_pairingSessionId r) \<or> js_has (mp_reservations s) (cr_pairingSessionId r) \<or>
      completion_size s < cl_maxRecords L"
  shows "completions_bounded L (fst (completion_store_record L now r s))"
proof -
  let ?k = "cr_pairingSessionId r"
  have "js_size (js_delete ?k (mp_reservations s)) \<le> js_size (mp_reservations s)"
    by (rule js_size_delete_le)
  moreover have "js_has (mp_reservations s) ?k \<Longrightarrow>
      js_size (js_delete ?k (mp_reservations s)) < js_size (mp_reservations s)"
    by (rule js_size_delete_less)
  ultimately show ?thesis
    using assms
    by (cases "completion_now now")
      (auto simp: completion_store_record_def completions_bounded_def completion_size_def js_size_set Let_def)
qed

section \<open>What one operation does\<close>

text \<open>How the record of one pairing session may change in one step.\<close>

inductive record_change :: "completion_record option \<Rightarrow> completion_record option \<Rightarrow> bool" where
  record_same: "record_change x x"
| record_gone: "record_change x None"
| record_started: "cr_state r = CompletionPending \<or> cr_state r = CompletionRecovering \<Longrightarrow> record_change None (Some r)"
| record_recovering: "cr_state q = CompletionPending \<Longrightarrow>
    record_change (Some q) (Some (q\<lparr>cr_state := CompletionRecovering, cr_recoveryTarget := Some t\<rparr>))"
| record_advanced: "is_reserved_recovery_target q c v \<Longrightarrow>
    record_change (Some q) (Some (q\<lparr>cr_credentialId := c, cr_credentialVersion := v, cr_recoveryTarget := Some t\<rparr>))"
| record_finished: "is_reserved_recovery_target q c v \<Longrightarrow>
    record_change (Some q) (Some (q\<lparr>cr_credentialId := c, cr_credentialVersion := v,
      cr_state := CompletionPending, cr_recoveryTarget := None\<rparr>))"
| record_delivered: "cr_state q = CompletionPending \<Longrightarrow>
    record_change (Some q) (Some (q\<lparr>cr_state := CompletionDelivered\<rparr>))"

inductive_cases record_change_elim: "record_change x y"
inductive_simps record_change_delivered: "record_change (Some q) (Some r)"

definition completions_keyed :: "memory_completions \<Rightarrow> bool" where
  "completions_keyed s \<longleftrightarrow> js_map_ok (mp_records s) \<and>
     (\<forall>k r e. js_get (mp_records s) k = Some (r, e) \<longrightarrow> cr_pairingSessionId r = k)"

lemma keyed_record: "completions_keyed s \<Longrightarrow> stored_record s k = Some r \<Longrightarrow> cr_pairingSessionId r = k"
  by (auto simp: completions_keyed_def stored_record_def)

lemma stored_has: "stored_record s k = Some r \<Longrightarrow> js_has (mp_records s) k"
  by (auto simp: stored_record_def)

lemma stored_none: "stored_record s k = None \<longleftrightarrow> \<not> js_has (mp_records s) k"
  by (cases "js_get (mp_records s) k") (simp_all add: stored_record_def)

text \<open>Nothing but expiry, reservations, a removal, or one stored record.\<close>

definition quiet_effect :: "memory_completions \<Rightarrow> memory_completions \<Rightarrow> bool" where
  "quiet_effect s s' \<longleftrightarrow> s' = s \<or> (\<exists>t. s' = completion_prune t s)"

definition store_effect :: "completion_limits \<Rightarrow> js_date \<Rightarrow> memory_completions \<Rightarrow> memory_completions \<Rightarrow> bool" where
  "store_effect L d s s' \<longleftrightarrow>
     (\<exists>t now r. d = Some t \<and> s' = fst (completion_store_record L now r (completion_prune t s)) \<and>
        record_change (stored_record (completion_prune t s) (cr_pairingSessionId r)) (Some r) \<and>
        (js_has (mp_records (completion_prune t s)) (cr_pairingSessionId r) \<or>
         js_has (mp_reservations (completion_prune t s)) (cr_pairingSessionId r) \<or>
         completion_size (completion_prune t s) < cl_maxRecords L))"

lemma quiet_effect_simps [simp]: "quiet_effect s s" "quiet_effect s (completion_prune t s)"
  by (auto simp: quiet_effect_def)

lemma store_effectI:
  assumes "d = Some t"
    and "record_change (stored_record (completion_prune t s) (cr_pairingSessionId r)) (Some r)"
    and "js_has (mp_records (completion_prune t s)) (cr_pairingSessionId r) \<or>
         js_has (mp_reservations (completion_prune t s)) (cr_pairingSessionId r) \<or>
         completion_size (completion_prune t s) < cl_maxRecords L"
  shows "store_effect L d s (fst (completion_store_record L now r (completion_prune t s)))"
  unfolding store_effect_def using assms by blast

lemma prune_get:
  assumes "completions_keyed s"
  shows "js_get (mp_records (completion_prune t s)) k =
    (case js_get (mp_records s) k of None \<Rightarrow> None | Some (r, e) \<Rightarrow> if e \<le> t then None else Some (r, e))"
  using assms by (auto simp: completion_prune_def completions_keyed_def js_get_filter split: option.splits)

lemma prune_keyed: "completions_keyed s \<Longrightarrow> completions_keyed (completion_prune t s)"
  using prune_get [of s t]
  by (auto simp: completions_keyed_def completion_prune_def split: option.splits if_splits)

lemma setPending_effect:
  "quiet_effect s (fst (mem_completion_setPending L now i s)) \<or>
   store_effect L (fst now) s (fst (mem_completion_setPending L now i s))"
proof (cases "completion_now (fst now)")
  case (Inr t)
  then have clock: "fst now = Some t" by (simp add: completion_now_def)
  show ?thesis
  proof (cases "stored_record (completion_prune t s) (cg_pairingSessionId i)")
    case None
    then show ?thesis
      by (auto simp: mem_completion_setPending_def Inr Let_def intro!: store_effectI [OF clock] record_started)
  qed (simp add: mem_completion_setPending_def Inr Let_def)
qed (simp add: mem_completion_setPending_def)

lemma beginRecovery_effect:
  assumes "completions_keyed s"
  shows "quiet_effect s (fst (mem_completion_beginRecovery L now i target s)) \<or>
   store_effect L (fst now) s (fst (mem_completion_beginRecovery L now i target s))"
proof (cases "completion_now (fst now)")
  case (Inr t)
  then have clock: "fst now = Some t" by (simp add: completion_now_def)
  show ?thesis
  proof (cases "stored_record (completion_prune t s) (cg_pairingSessionId i)")
    case None
    then show ?thesis
      by (auto simp: mem_completion_beginRecovery_def Inr Let_def intro!: store_effectI [OF clock] record_started)
  next
    case (Some q)
    have key: "cr_pairingSessionId q = cg_pairingSessionId i"
      by (rule keyed_record [OF prune_keyed [OF assms] Some])
    let ?r = "\<lparr>cr_pairingSessionId = cg_pairingSessionId i, cr_deviceId = cg_deviceId i,
      cr_credentialId = cr_credentialId q, cr_credentialVersion = cr_credentialVersion q,
      cr_state = CompletionRecovering, cr_recoveryTarget = Some target\<rparr>"
    have "store_effect L (fst now) s (fst (completion_store_record L (snd now) ?r (completion_prune t s)))"
      if "cr_state q = CompletionPending" "cr_deviceId q = cg_deviceId i"
    proof (rule store_effectI [OF clock])
      have "?r = q\<lparr>cr_state := CompletionRecovering, cr_recoveryTarget := Some target\<rparr>"
        using that key by simp
      with record_recovering [OF that(1)] Some
      show "record_change (stored_record (completion_prune t s) (cr_pairingSessionId ?r)) (Some ?r)"
        by (simp add: key)
    qed (use stored_has [OF Some] in simp)
    then show ?thesis
      by (cases "cr_state q") (simp_all add: mem_completion_beginRecovery_def Inr Some Let_def)
  qed
qed (simp add: mem_completion_beginRecovery_def)

lemma recovery_source_Some:
  "recovery_source s e c v = Some q \<longleftrightarrow>
     stored_record s (cg_pairingSessionId e) = Some q \<and> cr_deviceId q = cg_deviceId e \<and>
     record_generation_is q (cg_credentialId e) (cg_credentialVersion e) \<and> is_reserved_recovery_target q c v"
  by (auto simp: recovery_source_def is_reserved_recovery_target_def split: option.splits)

lemma advanceRecovery_effect:
  assumes "completions_keyed s"
  shows "quiet_effect s (fst (mem_completion_advanceRecovery L now e c v target s)) \<or>
   store_effect L (fst now) s (fst (mem_completion_advanceRecovery L now e c v target s))"
proof (cases "completion_now (fst now)")
  case (Inr t)
  then have clock: "fst now = Some t" by (simp add: completion_now_def)
  show ?thesis
  proof (cases "recovery_source (completion_prune t s) e c v")
    case (Some q)
    then have q: "stored_record (completion_prune t s) (cg_pairingSessionId e) = Some q"
      "cr_deviceId q = cg_deviceId e" "is_reserved_recovery_target q c v"
      by (simp_all add: recovery_source_Some)
    have key: "cr_pairingSessionId q = cg_pairingSessionId e"
      by (rule keyed_record [OF prune_keyed [OF assms] q(1)])
    let ?r = "q\<lparr>cr_credentialId := c, cr_credentialVersion := v, cr_recoveryTarget := Some target\<rparr>"
    have "store_effect L (fst now) s (fst (completion_store_record L (snd now) ?r (completion_prune t s)))"
      using record_advanced [OF q(3)] q(1) key stored_has [OF q(1)] by (intro store_effectI [OF clock]) simp_all
    moreover have "?r = \<lparr>cr_pairingSessionId = cg_pairingSessionId e, cr_deviceId = cg_deviceId e,
        cr_credentialId = c, cr_credentialVersion = v, cr_state = CompletionRecovering,
        cr_recoveryTarget = Some target\<rparr>"
      using q key by (simp add: is_reserved_recovery_target_def)
    ultimately show ?thesis
      by (simp add: mem_completion_advanceRecovery_def Inr Some Let_def)
  qed (simp add: mem_completion_advanceRecovery_def Inr Let_def)
qed (simp add: mem_completion_advanceRecovery_def)

lemma finishRecovery_effect:
  assumes "completions_keyed s"
  shows "quiet_effect s (fst (mem_completion_finishRecovery L now e c v s)) \<or>
   store_effect L (fst now) s (fst (mem_completion_finishRecovery L now e c v s))"
proof (cases "completion_now (fst now)")
  case (Inr t)
  then have clock: "fst now = Some t" by (simp add: completion_now_def)
  show ?thesis
  proof (cases "recovery_source (completion_prune t s) e c v")
    case (Some q)
    then have q: "stored_record (completion_prune t s) (cg_pairingSessionId e) = Some q"
      "cr_deviceId q = cg_deviceId e" "is_reserved_recovery_target q c v"
      by (simp_all add: recovery_source_Some)
    have key: "cr_pairingSessionId q = cg_pairingSessionId e"
      by (rule keyed_record [OF prune_keyed [OF assms] q(1)])
    let ?r = "q\<lparr>cr_credentialId := c, cr_credentialVersion := v, cr_state := CompletionPending,
      cr_recoveryTarget := None\<rparr>"
    have "store_effect L (fst now) s (fst (completion_store_record L (snd now) ?r (completion_prune t s)))"
      using record_finished [OF q(3)] q(1) key stored_has [OF q(1)] by (intro store_effectI [OF clock]) simp_all
    moreover have "?r = \<lparr>cr_pairingSessionId = cg_pairingSessionId e, cr_deviceId = cg_deviceId e,
        cr_credentialId = c, cr_credentialVersion = v, cr_state = CompletionPending,
        cr_recoveryTarget = None\<rparr>"
      using q key by simp
    ultimately show ?thesis
      by (simp add: mem_completion_finishRecovery_def Inr Some Let_def)
  qed (simp add: mem_completion_finishRecovery_def Inr Let_def)
qed (simp add: mem_completion_finishRecovery_def)

lemma acknowledge_effect:
  assumes "completions_keyed s"
  shows "quiet_effect s (fst (mem_completion_acknowledge L now e s)) \<or>
   store_effect L (fst now) s (fst (mem_completion_acknowledge L now e s))"
proof (cases "completion_now (fst now)")
  case (Inr t)
  then have clock: "fst now = Some t" by (simp add: completion_now_def)
  show ?thesis
  proof (cases "stored_record (completion_prune t s) (cg_pairingSessionId e)")
    case (Some q)
    have key: "cr_pairingSessionId q = cg_pairingSessionId e"
      by (rule keyed_record [OF prune_keyed [OF assms] Some])
    have "store_effect L (fst now) s (fst (completion_store_record L (snd now) (q\<lparr>cr_state := CompletionDelivered\<rparr>)
        (completion_prune t s)))" if "cr_state q = CompletionPending"
      using record_delivered [OF that] Some key stored_has [OF Some] by (intro store_effectI [OF clock]) simp_all
    then show ?thesis
      by (cases "cr_state q") (simp_all add: mem_completion_acknowledge_def Inr Some Let_def)
  qed (simp add: mem_completion_acknowledge_def Inr Let_def)
qed (simp add: mem_completion_acknowledge_def)

lemma prune_stored:
  assumes "completions_keyed s"
  shows "stored_record (completion_prune t s) k = stored_record s k \<or> stored_record (completion_prune t s) k = None"
  using prune_get [OF assms, of t k] by (auto simp: stored_record_def split: option.splits)

lemma store_record_keyed: "completions_keyed s \<Longrightarrow> completions_keyed (fst (completion_store_record L now r s))"
  by (cases "completion_now now") (auto simp: completion_store_record_def completions_keyed_def Let_def)

lemma store_record_stored:
  "stored_record (fst (completion_store_record L now r s)) k =
     (if k = cr_pairingSessionId r \<and> now \<noteq> None then Some r else stored_record s k)"
  by (cases now) (auto simp: completion_store_record_def completion_now_def stored_record_def Let_def)

text \<open>Steps that only touch reservations, or remove.\<close>

definition side_effect :: "completion_limits \<Rightarrow> memory_completions \<Rightarrow> memory_completions \<Rightarrow> bool" where
  "side_effect L s s' \<longleftrightarrow>
     (completions_keyed s \<longrightarrow> completions_keyed s') \<and> (completions_bounded L s \<longrightarrow> completions_bounded L s') \<and>
     (completions_keyed s \<longrightarrow> (\<forall>k. stored_record s' k = stored_record s k \<or> stored_record s' k = None))"

lemma quiet_side: "quiet_effect s s' \<Longrightarrow> side_effect L s s'"
  unfolding quiet_effect_def side_effect_def
  by (elim disjE exE) (simp_all add: prune_keyed prune_bounded prune_stored)

lemma reservations_side:
  assumes "completions_bounded L (completion_prune t s) \<Longrightarrow>
      completions_bounded L ((completion_prune t s)\<lparr>mp_reservations := m\<rparr>)"
  shows "side_effect L s ((completion_prune t s)\<lparr>mp_reservations := m\<rparr>)"
proof -
  have "stored_record (x\<lparr>mp_reservations := m\<rparr>) k = stored_record x k" for x :: memory_completions and k
    by (simp add: stored_record_def)
  moreover have "completions_keyed (x\<lparr>mp_reservations := m\<rparr>) = completions_keyed x" for x :: memory_completions
    by (simp add: completions_keyed_def)
  ultimately show ?thesis
    unfolding side_effect_def by (simp add: assms prune_keyed prune_bounded prune_stored)
qed

lemma reserve_side: "side_effect L s (fst (mem_completion_reserve L now sid s))"
proof (cases "completion_now (fst now)")
  case (Inr t)
  have "side_effect L s ((completion_prune t s)\<lparr>mp_reservations := js_set sid e (mp_reservations (completion_prune t s))\<rparr>)"
    if "\<not> js_has (mp_reservations (completion_prune t s)) sid" "\<not> cl_maxRecords L \<le> completion_size (completion_prune t s)" for e
    by (rule reservations_side) (use that in \<open>simp add: completions_bounded_def completion_size_def js_size_set\<close>)
  then show ?thesis
    by (cases "completion_now (snd now)") (auto simp: mem_completion_reserve_def Inr Let_def quiet_side)
qed (simp add: mem_completion_reserve_def quiet_side)

lemma transfer_side: "side_effect L s (fst (mem_completion_transfer L now a b s))"
proof (cases "completion_now (fst now)")
  case (Inr t)
  let ?m = "mp_reservations (completion_prune t s)"
  have "side_effect L s ((completion_prune t s)\<lparr>mp_reservations := js_set b e (js_delete a ?m)\<rparr>)"
    if "js_has ?m a" for e
  proof (rule reservations_side)
    assume "completions_bounded L (completion_prune t s)"
    moreover have "js_size (js_set b e (js_delete a ?m)) \<le> js_size ?m"
      using js_size_delete_less [OF that] by (simp add: js_size_set)
    ultimately show "completions_bounded L ((completion_prune t s)\<lparr>mp_reservations := js_set b e (js_delete a ?m)\<rparr>)"
      by (simp add: completions_bounded_def completion_size_def)
  qed
  then show ?thesis
    by (cases "js_get ?m a") (auto simp: mem_completion_transfer_def Inr Let_def quiet_side)
qed (simp add: mem_completion_transfer_def quiet_side)

lemma delete_side: "side_effect L s (fst (mem_completion_delete sid s))"
proof -
  have "js_size (js_delete sid (mp_records s)) \<le> js_size (mp_records s)"
    "js_size (js_delete sid (mp_reservations s)) \<le> js_size (mp_reservations s)"
    by (rule js_size_delete_le)+
  then show ?thesis
    by (auto simp: side_effect_def mem_completion_delete_def completions_bounded_def completion_size_def
        completions_keyed_def stored_record_def split: if_splits)
qed

fun command_clock :: "completion_command \<Rightarrow> js_date" where
  "command_clock (Reserve now sid) = fst now"
| "command_clock (TransferReservation now a b) = fst now"
| "command_clock (GetCompletion now sid) = fst now"
| "command_clock (SetPending now i) = fst now"
| "command_clock (BeginRecovery now i t) = fst now"
| "command_clock (AdvanceRecovery now e c v t) = fst now"
| "command_clock (FinishRecovery now e c v) = fst now"
| "command_clock (AcknowledgeCompletion now e) = fst now"
| "command_clock (DeleteCompletion sid) = None"

lemma completion_step_effect:
  assumes "completions_keyed s"
  shows "side_effect L s (completion_step L s c) \<or> store_effect L (command_clock c) s (completion_step L s c)"
proof (cases c)
  case (GetCompletion now sid)
  have "quiet_effect s (fst (mem_completion_get L now sid s))"
    by (cases "completion_now (fst now)") (simp_all add: mem_completion_get_def Let_def)
  with GetCompletion quiet_side show ?thesis by simp
next
  case (SetPending now i)
  with setPending_effect [of s L now i] quiet_side show ?thesis by auto
next
  case (BeginRecovery now i t)
  with beginRecovery_effect [OF assms, of L now i t] quiet_side show ?thesis by auto
next
  case (AdvanceRecovery now e d v t)
  with advanceRecovery_effect [OF assms, of L now e d v t] quiet_side show ?thesis by auto
next
  case (FinishRecovery now e d v)
  with finishRecovery_effect [OF assms, of L now e d v] quiet_side show ?thesis by auto
next
  case (AcknowledgeCompletion now e)
  with acknowledge_effect [OF assms, of L now e] quiet_side show ?thesis by auto
qed (simp_all add: reserve_side transfer_side delete_side)

definition completions_ok :: "completion_limits \<Rightarrow> memory_completions \<Rightarrow> bool" where
  "completions_ok L s \<longleftrightarrow> completions_keyed s \<and> completions_bounded L s"

lemma completion_step_ok:
  assumes "completions_ok L s"
  shows "completions_ok L (completion_step L s c)"
proof -
  from assms have keyed: "completions_keyed s" and bounded: "completions_bounded L s"
    by (simp_all add: completions_ok_def)
  from completion_step_effect [OF keyed] show ?thesis
  proof
    assume "side_effect L s (completion_step L s c)"
    with keyed bounded show ?thesis by (simp add: side_effect_def completions_ok_def)
  next
    assume "store_effect L (command_clock c) s (completion_step L s c)"
    then obtain t now r where s': "completion_step L s c = fst (completion_store_record L now r (completion_prune t s))"
      and room: "js_has (mp_records (completion_prune t s)) (cr_pairingSessionId r) \<or>
         js_has (mp_reservations (completion_prune t s)) (cr_pairingSessionId r) \<or>
         completion_size (completion_prune t s) < cl_maxRecords L"
      unfolding store_effect_def by blast
    have "completions_bounded L (completion_step L s c)"
      unfolding s' by (rule store_record_bounded [OF prune_bounded [OF bounded] room])
    moreover have "completions_keyed (completion_step L s c)"
      unfolding s' by (rule store_record_keyed [OF prune_keyed [OF keyed]])
    ultimately show ?thesis by (simp add: completions_ok_def)
  qed
qed

interpretation completion_runs: kept_by_steps "completion_step L" "completions_ok L" for L
  by unfold_locales (rule completion_step_ok)

lemma empty_completions_ok: "completions_ok L empty_completions"
  by (simp add: completions_ok_def completions_keyed_def completions_bounded_def completion_size_def empty_completions_def)

text \<open>The record of \<open>k\<close> has expired when a command reads its clock.\<close>

definition expired_for :: "completion_command \<Rightarrow> memory_completions \<Rightarrow> string \<Rightarrow> bool" where
  "expired_for c s k \<longleftrightarrow>
     (case (command_clock c, js_get (mp_records s) k) of
        (Some t, Some (r, e)) \<Rightarrow> e \<le> t
      | _ \<Rightarrow> False)"

lemma unexpired_stored:
  assumes "completions_keyed s" "\<not> expired_for c s k" "command_clock c = Some t"
  shows "stored_record (completion_prune t s) k = stored_record s k"
  using assms prune_get [OF assms(1), of t k]
  by (auto simp: expired_for_def stored_record_def split: option.splits if_splits)

lemma completion_step_change:
  assumes ok: "completions_ok L s" and live: "\<not> expired_for c s k"
  shows "record_change (stored_record s k) (stored_record (completion_step L s c) k)"
proof -
  have keyed: "completions_keyed s" using ok by (simp add: completions_ok_def)
  from completion_step_effect [OF keyed] show ?thesis
  proof
    assume "side_effect L s (completion_step L s c)"
    with keyed have "stored_record (completion_step L s c) k = stored_record s k \<or>
        stored_record (completion_step L s c) k = None"
      by (simp add: side_effect_def)
    then show ?thesis by (auto intro: record_change.intros)
  next
    assume "store_effect L (command_clock c) s (completion_step L s c)"
    then obtain t now r where s': "completion_step L s c = fst (completion_store_record L now r (completion_prune t s))"
      and t: "command_clock c = Some t"
      and r: "record_change (stored_record (completion_prune t s) (cr_pairingSessionId r)) (Some r)"
      unfolding store_effect_def by blast
    have same: "stored_record (completion_prune t s) k = stored_record s k"
      by (rule unexpired_stored [OF keyed live t])
    show ?thesis
    proof (cases "k = cr_pairingSessionId r")
      case True
      with r same have "record_change (stored_record s k) (Some r)" by simp
      then show ?thesis
        by (cases now) (simp_all add: s' store_record_stored same record_same flip: True)
    qed (simp add: s' store_record_stored same record_same)
  qed
qed

text \<open>C17: The hand-over record of a pairing session moves only forward while it lives: its device never
  changes; its generation stays, or moves to exactly the credential id that was reserved before the
  rotation with the next version; it becomes delivered only from pending, for the same generation;
  and once delivered no operation other than a removal changes it.\<close>

theorem completion_lifecycle:
  assumes "s = foldl (completion_step L) empty_completions cs" and "\<not> expired_for c s k"
    and "stored_record s k = Some q" and "stored_record (completion_step L s c) k = Some r"
  shows "cr_deviceId r = cr_deviceId q \<and>
    (cr_credentialId r = cr_credentialId q \<and> cr_credentialVersion r = cr_credentialVersion q \<or>
     is_reserved_recovery_target q (cr_credentialId r) (cr_credentialVersion r)) \<and>
    (cr_state r = CompletionDelivered \<longrightarrow>
       r = q \<or> cr_state q = CompletionPending \<and> r = q\<lparr>cr_state := CompletionDelivered\<rparr>) \<and>
    (cr_state q = CompletionDelivered \<longrightarrow> r = q)"
proof -
  have "completions_ok L s"
    unfolding assms(1) by (rule completion_runs.run_keeps [OF empty_completions_ok])
  from completion_step_change [OF this assms(2)] have "record_change (Some q) (Some r)"
    by (simp add: assms(3,4))
  then show ?thesis
    unfolding record_change_delivered by (auto simp: is_reserved_recovery_target_def)
qed

definition sample_generation_input :: completion_generation where
  "sample_generation_input = \<lparr>cg_pairingSessionId = ''p'', cg_deviceId = ''d'', cg_credentialId = ''c1'',
     cg_credentialVersion = 1\<rparr>"

definition sample_completion_limits :: completion_limits where
  "sample_completion_limits = \<lparr>cl_maxRecords = 4, cl_retentionMs = 1000\<rparr>"

definition sample_completion_run :: "completion_command list" where
  "sample_completion_run =
     [Reserve (Some 0, Some 0) ''p'', SetPending (Some 1, Some 1) sample_generation_input,
      BeginRecovery (Some 2, Some 2) sample_generation_input ''c2'',
      FinishRecovery (Some 3, Some 3) sample_generation_input ''c2'' 2]"

definition sample_record :: "completion_state \<Rightarrow> completion_record" where
  "sample_record st = \<lparr>cr_pairingSessionId = ''p'', cr_deviceId = ''d'', cr_credentialId = ''c2'',
     cr_credentialVersion = 2, cr_state = st, cr_recoveryTarget = None\<rparr>"

theorem completion_lifecycle_witness:
  "cr_deviceId (sample_record CompletionDelivered) = cr_deviceId (sample_record CompletionPending) \<and>
    (sample_record CompletionDelivered = sample_record CompletionPending \<or>
     cr_state (sample_record CompletionPending) = CompletionPending \<and>
     sample_record CompletionDelivered = (sample_record CompletionPending)\<lparr>cr_state := CompletionDelivered\<rparr>)"
proof -
  let ?s = "foldl (completion_step sample_completion_limits) empty_completions sample_completion_run"
  let ?c = "AcknowledgeCompletion (Some 4, Some 4) (sample_generation_input\<lparr>cg_credentialId := ''c2'',
    cg_credentialVersion := 2\<rparr>)"
  have "\<not> expired_for ?c ?s ''p''" by code_simp
  moreover have "stored_record ?s ''p'' = Some (sample_record CompletionPending)" by code_simp
  moreover have "stored_record (completion_step sample_completion_limits ?s ?c) ''p'' =
      Some (sample_record CompletionDelivered)" by code_simp
  moreover have "cr_state (sample_record CompletionDelivered) = CompletionDelivered" by (simp add: sample_record_def)
  ultimately show ?thesis using completion_lifecycle [OF refl] by blast
qed

text \<open>The in-memory repository never holds more records and reservations together than its
  limit, whatever operations run.\<close>

theorem completion_repository_bounded:
  "js_size (mp_records (foldl (completion_step L) empty_completions cs)) +
   js_size (mp_reservations (foldl (completion_step L) empty_completions cs)) \<le> cl_maxRecords L"
  using completion_runs.run_keeps [OF empty_completions_ok, of L cs]
  by (simp add: completions_ok_def completions_bounded_def completion_size_def)

end
