(* ===== verification/Completion_Service.thy ===== *)
theory Completion_Service
  imports Completion_Repository Credential_Service Pairing_Service
begin

text \<open>
  The service that hands a fresh credential to a device whose pairing code was claimed, and
  recovers the hand-over after a crash (\<^verbatim>\<open>PairingCredentialCompletionService\<close> of
  \<^verbatim>\<open>apps/server/src/pairing-credential-completion.ts\<close>). The services and repositories it is
  constructed with are a record of operations on one world \<open>'w\<close>; since an operation may change the
  world in any way, whatever other requests do between two awaited calls is covered.
\<close>

section \<open>Data\<close>

datatype completion_error =
  CompletionUnavailable
| CredentialFailure credential_error
| PairingFailure pairing_service_error
| OtherFailure

record completed_credential =
  cc_session :: pairing_session
  cc_device :: device
  cc_credential :: device_credential
  cc_secret :: string

text \<open>The collaborators; every operation gives the world it leaves and its result or what it throws.\<close>

record 'w completion_deps =
  dp_claim :: "'w \<Rightarrow> 'w \<times> (completion_error + pairing_session \<times> device)"
  dp_getSession :: "string \<Rightarrow> 'w \<Rightarrow> 'w \<times> (completion_error + pairing_session option)"
  dp_getForOwner :: "string \<Rightarrow> string \<Rightarrow> 'w \<Rightarrow> 'w \<times> (completion_error + device option)"
  dp_issue :: "string \<Rightarrow> 'w \<Rightarrow> 'w \<times> (completion_error + issued_credential)"
  dp_getActive :: "string \<Rightarrow> 'w \<Rightarrow> 'w \<times> (completion_error + device_credential)"
  dp_recoverExisting :: "string \<Rightarrow> string \<Rightarrow> int \<Rightarrow> string \<Rightarrow> 'w \<Rightarrow> 'w \<times> (completion_error + issued_credential)"
  dp_createCredentialId :: "'w \<Rightarrow> 'w \<times> string"
  dp_reserve :: "string \<Rightarrow> 'w \<Rightarrow> 'w \<times> (completion_error + bool)"
  dp_transfer :: "string \<Rightarrow> string \<Rightarrow> 'w \<Rightarrow> 'w \<times> (completion_error + bool)"
  dp_get :: "string \<Rightarrow> 'w \<Rightarrow> 'w \<times> (completion_error + completion_record option)"
  dp_setPending :: "completion_generation \<Rightarrow> 'w \<Rightarrow> 'w \<times> (completion_error + completion_record option)"
  dp_beginRecovery :: "completion_generation \<Rightarrow> string \<Rightarrow> 'w \<Rightarrow> 'w \<times> (completion_error + completion_record option)"
  dp_advanceRecovery :: "completion_generation \<Rightarrow> string \<Rightarrow> int \<Rightarrow> string \<Rightarrow> 'w \<Rightarrow> 'w \<times> (completion_error + completion_record option)"
  dp_finishRecovery :: "completion_generation \<Rightarrow> string \<Rightarrow> int \<Rightarrow> 'w \<Rightarrow> 'w \<times> (completion_error + completion_record option)"
  dp_acknowledge :: "completion_generation \<Rightarrow> 'w \<Rightarrow> 'w \<times> (completion_error + completion_record option)"
  dp_delete :: "string \<Rightarrow> 'w \<Rightarrow> 'w \<times> (completion_error + unit)"

text \<open>The service's own state: the completions it has given out and that were not acknowledged.\<close>

record 'w completion_service =
  cs_cache :: "(string, completed_credential) js_map"
  cs_world :: 'w

definition max_recovery_steps :: nat where "max_recovery_steps = 16"

section \<open>Recovery\<close>

definition completed_snapshot ::
  "pairing_session \<Rightarrow> device \<Rightarrow> issued_credential \<Rightarrow> completed_credential" where
  "completed_snapshot session dv issued =
     \<lparr>cc_session = session, cc_device = dv, cc_credential = iss_credential issued, cc_secret = iss_secret issued\<rparr>"

definition get_active_or_null ::
  "'w completion_deps \<Rightarrow> string \<Rightarrow> 'w \<Rightarrow> ('w, completion_error, device_credential option) outcome" where
  "get_active_or_null D d w =
     (case dp_getActive D d w of
        (w1, Inr c) \<Rightarrow> (w1, Inr (Some c))
      | (w1, Inl e) \<Rightarrow> if e = CredentialFailure CredentialUnavailable then (w1, Inr None) else (w1, Inl e))"

text \<open>A record in recovery with the target that was reserved.\<close>

definition recovering_target :: "completion_record option \<Rightarrow> (completion_record \<times> string) option" where
  "recovering_target found =
     (case found of
        None \<Rightarrow> None
      | Some r \<Rightarrow>
          if cr_state r \<noteq> CompletionRecovering then None
          else (case cr_recoveryTarget r of
                  None \<Rightarrow> None
                | Some t \<Rightarrow> if t = [] then None else Some (r, t)))"

definition generation_of :: "completion_record \<Rightarrow> completion_generation" where
  "generation_of r =
     \<lparr>cg_pairingSessionId = cr_pairingSessionId r, cg_deviceId = cr_deviceId r,
      cg_credentialId = cr_credentialId r, cg_credentialVersion = cr_credentialVersion r\<rparr>"

definition finish_recovery ::
  "'w completion_deps \<Rightarrow> completion_record \<Rightarrow> issued_credential \<Rightarrow> 'w \<Rightarrow> ('w, completion_error, bool) outcome" where
  "finish_recovery D recovery issued w =
     then_with (dp_finishRecovery D (generation_of recovery) (cred_credentialId (iss_credential issued))
                  (cred_version (iss_credential issued)) w) (\<lambda>w pending.
       (w, Inr (map_option cr_state pending = Some CompletionPending)))"

definition is_active_generation :: "device_credential option \<Rightarrow> device_credential \<Rightarrow> bool" where
  "is_active_generation active c \<longleftrightarrow>
     (case active of
        None \<Rightarrow> False
      | Some a \<Rightarrow> cred_credentialId a = cred_credentialId c \<and> cred_version a = cred_version c)"

text \<open>The two branches of a recovery step; \<open>again\<close> is the next round of the loop.\<close>

definition advance_to_active ::
  "'w completion_deps \<Rightarrow> ('w \<Rightarrow> ('w, completion_error, issued_credential) outcome) \<Rightarrow> string \<Rightarrow> string
   \<Rightarrow> completion_record \<Rightarrow> device_credential \<Rightarrow> 'w \<Rightarrow> ('w, completion_error, issued_credential) outcome" where
  "advance_to_active D again sid d recovery active w =
     (if \<not> is_reserved_recovery_target recovery (cred_credentialId active) (cred_version active)
      then (w, Inl CompletionUnavailable)
      else
        (let (w, newTarget) = dp_createCredentialId D w in
         then_with (dp_advanceRecovery D
                      \<lparr>cg_pairingSessionId = sid, cg_deviceId = d, cg_credentialId = cr_credentialId recovery,
                       cg_credentialVersion = cr_credentialVersion recovery\<rparr>
                      (cred_credentialId active) (cred_version active) newTarget w)
           (\<lambda>w advanced. again w)))"

definition confirm_recovered ::
  "'w completion_deps \<Rightarrow> ('w \<Rightarrow> ('w, completion_error, issued_credential) outcome) \<Rightarrow> string
   \<Rightarrow> completion_record \<Rightarrow> issued_credential \<Rightarrow> 'w \<Rightarrow> ('w, completion_error, issued_credential) outcome" where
  "confirm_recovered D again d recovery issued w =
     then_with (finish_recovery D recovery issued w) (\<lambda>w finalized.
       if finalized
       then then_with (get_active_or_null D d w) (\<lambda>w active.
              if is_active_generation active (iss_credential issued) then (w, Inr issued)
              else (w, Inl CompletionUnavailable))
       else again w)"

definition rotate_to_target ::
  "'w completion_deps \<Rightarrow> ('w \<Rightarrow> ('w, completion_error, issued_credential) outcome) \<Rightarrow> string
   \<Rightarrow> completion_record \<Rightarrow> string \<Rightarrow> 'w \<Rightarrow> ('w, completion_error, issued_credential) outcome" where
  "rotate_to_target D again d recovery target w =
     (case dp_recoverExisting D d (cr_credentialId recovery) (cr_credentialVersion recovery) target w of
        (w, Inl e) \<Rightarrow> if e = CredentialFailure CredentialUnavailable then again w else (w, Inl e)
      | (w, Inr issued) \<Rightarrow>
          if \<not> is_reserved_recovery_target recovery (cred_credentialId (iss_credential issued))
                 (cred_version (iss_credential issued))
          then (w, Inl CompletionUnavailable)
          else confirm_recovered D again d recovery issued w)"

fun recovery_loop ::
  "nat \<Rightarrow> 'w completion_deps \<Rightarrow> string \<Rightarrow> string \<Rightarrow> 'w \<Rightarrow> ('w, completion_error, issued_credential) outcome" where
  "recovery_loop 0 D sid d w = (w, Inl CompletionUnavailable)"
| "recovery_loop (Suc n) D sid d w =
     then_with (dp_get D sid w) (\<lambda>w found.
     try_with w (require CompletionUnavailable (recovering_target found)) (\<lambda>(recovery, target).
     then_with (get_active_or_null D d w) (\<lambda>w found_active.
     try_with w (require CompletionUnavailable found_active) (\<lambda>active.
       if cred_credentialId active \<noteq> cr_credentialId recovery \<or> cred_version active \<noteq> cr_credentialVersion recovery
       then advance_to_active D (recovery_loop n D sid d) sid d recovery active w
       else rotate_to_target D (recovery_loop n D sid d) d recovery target w))))"

text \<open>The generation the recovery starts from: the persisted one, or the active one.\<close>

definition recovery_start ::
  "'w completion_deps \<Rightarrow> string \<Rightarrow> completion_record option \<Rightarrow> 'w \<Rightarrow> ('w, completion_error, string \<times> int) outcome" where
  "recovery_start D d persisted w =
     (case persisted of
        Some r \<Rightarrow> (w, Inr (cr_credentialId r, cr_credentialVersion r))
      | None \<Rightarrow>
          then_with (get_active_or_null D d w) (\<lambda>w active.
          try_with w (require CompletionUnavailable active) (\<lambda>a.
            (w, Inr (cred_credentialId a, cred_version a)))))"

definition recover_credential ::
  "'w completion_deps \<Rightarrow> string \<Rightarrow> string \<Rightarrow> completion_record option \<Rightarrow> 'w
   \<Rightarrow> ('w, completion_error, issued_credential) outcome" where
  "recover_credential D sid d persisted w =
     then_with (recovery_start D d persisted w) (\<lambda>w source.
     then_with
       (if map_option cr_state persisted = Some CompletionRecovering then (w, Inr persisted)
        else let (w, target) = dp_createCredentialId D w in
             dp_beginRecovery D \<lparr>cg_pairingSessionId = sid, cg_deviceId = d, cg_credentialId = fst source,
                                 cg_credentialVersion = snd source\<rparr> target w) (\<lambda>w reserved.
     try_with w (require CompletionUnavailable (recovering_target reserved)) (\<lambda>_.
       recovery_loop max_recovery_steps D sid d w)))"

section \<open>Completing a claimed pairing\<close>

text \<open>The body of \<^verbatim>\<open>#complete\<close>; failures of the clean-up are swallowed.\<close>

definition complete_body ::
  "'w completion_deps \<Rightarrow> pairing_session \<Rightarrow> device \<Rightarrow> bool \<Rightarrow> 'w
   \<Rightarrow> ('w, completion_error, completed_credential) outcome" where
  "complete_body D session dv recoverExisting w =
     (let sid = ps_pairingSessionId session; d = dev_deviceId dv in
      then_with (dp_get D sid w) (\<lambda>w persisted.
      try_with w (ensure CompletionUnavailable (map_option cr_state persisted \<noteq> Some CompletionDelivered)) (\<lambda>_.
        if recoverExisting \<and> persisted \<noteq> None
        then then_with (recover_credential D sid d persisted w) (\<lambda>w issued.
               (w, Inr (completed_snapshot session dv issued)))
        else
          then_with (dp_reserve D sid w) (\<lambda>w admitted.
          try_with w (ensure CompletionUnavailable admitted) (\<lambda>_.
            (case dp_issue D d w of
               (w, Inl e) \<Rightarrow>
                 if \<not> recoverExisting \<or> e \<noteq> CredentialFailure CredentialAlreadyExists
                 then (fst (dp_delete D sid w), Inl e)
                 else then_with (recover_credential D sid d None w) (\<lambda>w issued.
                        (w, Inr (completed_snapshot session dv issued)))
             | (w, Inr issued) \<Rightarrow>
                 then_with (dp_setPending D
                     \<lparr>cg_pairingSessionId = sid, cg_deviceId = d,
                      cg_credentialId = cred_credentialId (iss_credential issued),
                      cg_credentialVersion = cred_version (iss_credential issued)\<rparr> w) (\<lambda>w pending.
                 try_with w (require CompletionUnavailable pending) (\<lambda>_.
                   (w, Inr (completed_snapshot session dv issued))))))))))"

definition service_complete ::
  "'w completion_deps \<Rightarrow> pairing_session \<Rightarrow> device \<Rightarrow> bool \<Rightarrow> 'w completion_service
   \<Rightarrow> ('w completion_service, completion_error, completed_credential) outcome" where
  "service_complete D session dv recoverExisting s =
     (case js_get (cs_cache s) (ps_pairingSessionId session) of
        Some c \<Rightarrow> (s, Inr c)
      | None \<Rightarrow>
          (case complete_body D session dv recoverExisting (cs_world s) of
             (w, Inr c) \<Rightarrow>
               (s\<lparr>cs_cache := js_set (ps_pairingSessionId session) c (cs_cache s), cs_world := w\<rparr>, Inr c)
           | (w, Inl e) \<Rightarrow>
               (s\<lparr>cs_cache := js_delete (ps_pairingSessionId session) (cs_cache s), cs_world := w\<rparr>, Inl e)))"

text \<open>Running a collaborator's operation inside the service's state.\<close>

definition in_world ::
  "('w \<Rightarrow> 'w \<times> (completion_error + 'a)) \<Rightarrow> 'w completion_service
   \<Rightarrow> ('w completion_service, completion_error, 'a) outcome" where
  "in_world f s = (case f (cs_world s) of (w, r) \<Rightarrow> (s\<lparr>cs_world := w\<rparr>, r))"

definition claim_and_issue ::
  "'w completion_deps \<Rightarrow> string \<Rightarrow> 'w completion_service
   \<Rightarrow> ('w completion_service, completion_error, completed_credential) outcome" where
  "claim_and_issue D uuid s =
     (let admissionId = ''admission:'' @ uuid in
      then_with (in_world (dp_reserve D admissionId) s) (\<lambda>s admitted.
      try_with s (ensure CompletionUnavailable admitted) (\<lambda>_.
        (case in_world (dp_claim D) s of
           (s, Inl e) \<Rightarrow> (fst (in_world (dp_delete D admissionId) s), Inl e)
         | (s, Inr (session, dv)) \<Rightarrow>
             then_with (in_world (dp_transfer D admissionId (ps_pairingSessionId session)) s) (\<lambda>s transferred.
               if \<not> transferred
               then (fst (in_world (dp_delete D admissionId) s), Inl CompletionUnavailable)
               else service_complete D session dv False s)))))"

text \<open>The claimed session and its device, for the owner that asks.\<close>

definition claimed_device ::
  "'w completion_deps \<Rightarrow> string \<Rightarrow> string \<Rightarrow> 'w completion_service
   \<Rightarrow> ('w completion_service, completion_error, pairing_session \<times> device) outcome" where
  "claimed_device D sid ownerId s =
     then_with (in_world (dp_getSession D sid) s) (\<lambda>s found.
       case found of
         None \<Rightarrow> (s, Inl CompletionUnavailable)
       | Some session \<Rightarrow>
           (case ps_deviceId session of
              None \<Rightarrow> (s, Inl CompletionUnavailable)
            | Some d \<Rightarrow>
                if ps_state session \<noteq> Claimed then (s, Inl CompletionUnavailable)
                else then_with (in_world (dp_getForOwner D ownerId d) s) (\<lambda>s dv.
                     try_with s (require CompletionUnavailable dv) (\<lambda>dv. (s, Inr (session, dv))))))"

definition resume_claimed_pairing ::
  "'w completion_deps \<Rightarrow> string \<Rightarrow> string \<Rightarrow> 'w completion_service
   \<Rightarrow> ('w completion_service, completion_error, completed_credential) outcome" where
  "resume_claimed_pairing D sid ownerId s =
     then_with (claimed_device D sid ownerId s) (\<lambda>s (session, dv).
     then_with (in_world (dp_get D sid) s) (\<lambda>s persisted.
     try_with s (ensure CompletionUnavailable (map_option cr_state persisted \<noteq> Some CompletionDelivered)) (\<lambda>_.
       case js_get (cs_cache s) sid of
         Some c \<Rightarrow> (s, Inr c)
       | None \<Rightarrow> service_complete D session dv True s)))"

record acknowledge_input =
  ai_pairingSessionId :: string
  ai_ownerId :: string
  ai_credentialId :: string
  ai_credentialVersion :: int

definition acknowledge_delivery ::
  "'w completion_deps \<Rightarrow> acknowledge_input \<Rightarrow> 'w completion_service
   \<Rightarrow> ('w completion_service, completion_error, unit) outcome" where
  "acknowledge_delivery D i s =
     then_with (claimed_device D (ai_pairingSessionId i) (ai_ownerId i) s) (\<lambda>s (session, dv).
     then_with (in_world (dp_acknowledge D
         \<lparr>cg_pairingSessionId = ai_pairingSessionId i, cg_deviceId = dev_deviceId dv,
          cg_credentialId = ai_credentialId i, cg_credentialVersion = ai_credentialVersion i\<rparr>) s) (\<lambda>s acknowledged.
     try_with s (require CompletionUnavailable acknowledged) (\<lambda>_.
       (s\<lparr>cs_cache := js_delete (ai_pairingSessionId i) (cs_cache s)\<rparr>, Inr ()))))"

definition forget_pending_completion ::
  "'w completion_deps \<Rightarrow> string \<Rightarrow> bool \<Rightarrow> 'w completion_service
   \<Rightarrow> ('w completion_service, completion_error, unit) outcome" where
  "forget_pending_completion D sid preserveDelivered s =
     (let s1 = s\<lparr>cs_cache := js_delete sid (cs_cache s)\<rparr> in
      if preserveDelivered then (s1, Inr ()) else in_world (dp_delete D sid) s1)"

record credential_delivery =
  cd_pairingSessionId :: string
  cd_localCorrelationId :: "string option"
  cd_deviceId :: string
  cd_credentialId :: string
  cd_credentialVersion :: int
  cd_credential :: string

definition to_pairing_credential_delivery :: "completed_credential \<Rightarrow> credential_delivery" where
  "to_pairing_credential_delivery c =
     \<lparr>cd_pairingSessionId = ps_pairingSessionId (cc_session c),
      cd_localCorrelationId = ps_localCorrelationId (cc_session c),
      cd_deviceId = dev_deviceId (cc_device c), cd_credentialId = cred_credentialId (cc_credential c),
      cd_credentialVersion = cred_version (cc_credential c), cd_credential = cc_secret c\<rparr>"

section \<open>What a successful recovery guarantees\<close>

lemma get_active_or_null_Some:
  "get_active_or_null D d w = (w', Inr (Some c)) \<longleftrightarrow> dp_getActive D d w = (w', Inr c)"
  by (auto simp: get_active_or_null_def split: prod.splits sum.splits if_splits)

lemma is_active_generation_Some:
  "is_active_generation x c \<longleftrightarrow>
     (\<exists>a. x = Some a \<and> cred_credentialId a = cred_credentialId c \<and> cred_version a = cred_version c)"
  by (auto simp: is_active_generation_def split: option.split)

text \<open>The worlds a recovery goes through: each of its calls takes it from one to the next.\<close>

inductive recovery_call :: "'w completion_deps \<Rightarrow> string \<Rightarrow> string \<Rightarrow> 'w \<Rightarrow> 'w \<Rightarrow> bool" for D sid d where
  called_get: "recovery_call D sid d w (fst (dp_get D sid w))"
| called_getActive: "recovery_call D sid d w (fst (dp_getActive D d w))"
| called_createCredentialId: "recovery_call D sid d w (fst (dp_createCredentialId D w))"
| called_beginRecovery: "recovery_call D sid d w (fst (dp_beginRecovery D g t w))"
| called_advanceRecovery: "recovery_call D sid d w (fst (dp_advanceRecovery D g c v t w))"
| called_recoverExisting: "recovery_call D sid d w (fst (dp_recoverExisting D d c v t w))"
| called_finishRecovery: "recovery_call D sid d w (fst (dp_finishRecovery D g c v w))"

abbreviation recovery_calls :: "'w completion_deps \<Rightarrow> string \<Rightarrow> string \<Rightarrow> 'w \<Rightarrow> 'w \<Rightarrow> bool" where
  "recovery_calls D sid d \<equiv> rtranclp (recovery_call D sid d)"

lemma recovery_calls_eq:
  "dp_get D sid w = (v, x1) \<Longrightarrow> recovery_calls D sid d w v"
  "dp_getActive D d w = (v, x2) \<Longrightarrow> recovery_calls D sid d w v"
  "dp_createCredentialId D w = (v, x3) \<Longrightarrow> recovery_calls D sid d w v"
  "dp_beginRecovery D g t w = (v, x4) \<Longrightarrow> recovery_calls D sid d w v"
  "dp_advanceRecovery D g c n t w = (v, x5) \<Longrightarrow> recovery_calls D sid d w v"
  "dp_recoverExisting D d c n t w = (v, x6) \<Longrightarrow> recovery_calls D sid d w v"
  "dp_finishRecovery D g c n w = (v, x7) \<Longrightarrow> recovery_calls D sid d w v"
  by (metis fst_conv r_into_rtranclp recovery_call.intros)+

text \<open>
  A round that ends a recovery, as a chain of calls: the record is in recovery and reserves an id, the
  credential it names is the active one, the rotation gives the reserved generation, the record is
  finalised with it, and the last look finds it active.
\<close>

definition finishing_round :: "'w completion_deps \<Rightarrow> string \<Rightarrow> string \<Rightarrow> 'w \<Rightarrow> 'w \<Rightarrow> issued_credential \<Rightarrow> bool" where
  "finishing_round D sid d w w' issued \<longleftrightarrow>
     (\<exists>w1 w2 w3 w4 r t b p a.
        dp_get D sid w = (w1, Inr (Some r)) \<and> cr_state r = CompletionRecovering \<and> cr_recoveryTarget r = Some t \<and>
        dp_getActive D d w1 = (w2, Inr b) \<and>
        cred_credentialId b = cr_credentialId r \<and> cred_version b = cr_credentialVersion r \<and>
        dp_recoverExisting D d (cr_credentialId r) (cr_credentialVersion r) t w2 = (w3, Inr issued) \<and>
        cred_credentialId (iss_credential issued) = t \<and>
        cred_version (iss_credential issued) = cr_credentialVersion r + 1 \<and>
        dp_finishRecovery D (generation_of r) (cred_credentialId (iss_credential issued))
          (cred_version (iss_credential issued)) w3 = (w4, Inr (Some p)) \<and> cr_state p = CompletionPending \<and>
        dp_getActive D d w4 = (w', Inr a) \<and>
        cred_credentialId a = cred_credentialId (iss_credential issued) \<and>
        cred_version a = cred_version (iss_credential issued))"

lemma recovering_target_Some:
  "recovering_target found = Some (r, t) \<longleftrightarrow>
     found = Some r \<and> cr_state r = CompletionRecovering \<and> cr_recoveryTarget r = Some t \<and> t \<noteq> []"
  by (auto simp: recovering_target_def split: option.splits)

lemma get_active_or_null_calls: "get_active_or_null D d w = (v, x) \<Longrightarrow> recovery_calls D sid d w v"
  by (auto simp: get_active_or_null_def split: prod.splits sum.splits if_splits intro: recovery_calls_eq(2))

lemma advance_to_active_Inr:
  assumes "advance_to_active D again sid d recovery active w = (w', Inr issued)"
  shows "\<exists>v. recovery_calls D sid d w v \<and> again v = (w', Inr issued)"
proof -
  obtain v t where id: "dp_createCredentialId D w = (v, t)" by fastforce
  from assms id obtain u x where "dp_advanceRecovery D \<lparr>cg_pairingSessionId = sid, cg_deviceId = d,
      cg_credentialId = cr_credentialId recovery, cg_credentialVersion = cr_credentialVersion recovery\<rparr>
      (cred_credentialId active) (cred_version active) t v = (u, Inr x)" "again u = (w', Inr issued)"
    by (auto simp: advance_to_active_def then_with_Inr split: if_splits)
  with recovery_calls_eq(3) [OF id] recovery_calls_eq(5) show ?thesis by (metis rtranclp_trans)
qed

lemma confirm_recovered_Inr:
  assumes "confirm_recovered D again d recovery issued w = (w', Inr x)"
  shows "(\<exists>v. recovery_calls D sid d w v \<and> again v = (w', Inr x)) \<or>
    x = issued \<and> (\<exists>v p a. dp_finishRecovery D (generation_of recovery) (cred_credentialId (iss_credential issued))
          (cred_version (iss_credential issued)) w = (v, Inr (Some p)) \<and> cr_state p = CompletionPending \<and>
        dp_getActive D d v = (w', Inr a) \<and> cred_credentialId a = cred_credentialId (iss_credential issued) \<and>
        cred_version a = cred_version (iss_credential issued))"
proof -
  from assms obtain v found where
    finish: "dp_finishRecovery D (generation_of recovery) (cred_credentialId (iss_credential issued))
      (cred_version (iss_credential issued)) w = (v, Inr found)" and
    rest: "(if map_option cr_state found = Some CompletionPending
      then then_with (get_active_or_null D d v) (\<lambda>w active.
             if is_active_generation active (iss_credential issued) then (w, Inr issued) else (w, Inl CompletionUnavailable))
      else again v) = (w', Inr x)"
    by (auto simp: confirm_recovered_def finish_recovery_def then_with_Inr)
  show ?thesis
  proof (cases "\<exists>p. found = Some p \<and> cr_state p = CompletionPending")
    case True
    then obtain p where p: "found = Some p" "cr_state p = CompletionPending" by blast
    with rest obtain a where "dp_getActive D d v = (w', Inr a)" "x = issued"
      "cred_credentialId a = cred_credentialId (iss_credential issued)" "cred_version a = cred_version (iss_credential issued)"
      by (auto simp: then_with_Inr is_active_generation_Some get_active_or_null_Some split: if_splits)
    with finish p show ?thesis by blast
  next
    case False
    then have "map_option cr_state found \<noteq> Some CompletionPending" by (cases found) auto
    from rest [unfolded if_not_P [OF this]] have "again v = (w', Inr x)" .
    with recovery_calls_eq(7) [OF finish] show ?thesis by blast
  qed
qed

lemma rotate_to_target_Inr:
  assumes "rotate_to_target D again d recovery target w2 = (w', Inr x)"
    and "dp_get D sid w = (w1, Inr (Some recovery))" "cr_state recovery = CompletionRecovering"
      "cr_recoveryTarget recovery = Some target"
    and "dp_getActive D d w1 = (w2, Inr b)" "cred_credentialId b = cr_credentialId recovery"
      "cred_version b = cr_credentialVersion recovery"
  shows "(\<exists>v. recovery_calls D sid d w2 v \<and> again v = (w', Inr x)) \<or> finishing_round D sid d w w' x"
proof (cases "dp_recoverExisting D d (cr_credentialId recovery) (cr_credentialVersion recovery) target w2")
  case (Pair v out)
  note called = recovery_calls_eq(6) [OF Pair, of sid]
  show ?thesis
  proof (cases out)
    case (Inl e)
    with assms(1) Pair called show ?thesis by (auto simp: rotate_to_target_def split: if_splits)
  next
    case (Inr issued)
    with assms(1) Pair have res: "cred_credentialId (iss_credential issued) = target"
        "cred_version (iss_credential issued) = cr_credentialVersion recovery + 1"
      and conf: "confirm_recovered D again d recovery issued v = (w', Inr x)"
      using assms(4) by (auto simp: rotate_to_target_def is_reserved_recovery_target_def split: if_splits)
    from confirm_recovered_Inr [OF conf, of sid] show ?thesis
    proof
      assume "\<exists>u. recovery_calls D sid d v u \<and> again u = (w', Inr x)"
      with called show ?thesis by (blast intro: rtranclp_trans)
    next
      assume "x = issued \<and> (\<exists>u p a. dp_finishRecovery D (generation_of recovery) (cred_credentialId (iss_credential issued))
          (cred_version (iss_credential issued)) v = (u, Inr (Some p)) \<and> cr_state p = CompletionPending \<and>
        dp_getActive D d u = (w', Inr a) \<and> cred_credentialId a = cred_credentialId (iss_credential issued) \<and>
        cred_version a = cred_version (iss_credential issued))"
      with assms(2-7) Pair Inr res have "finishing_round D sid d w w' x"
        unfolding finishing_round_def by blast
      then show ?thesis ..
    qed
  qed
qed

lemma recovery_loop_result:
  "recovery_loop n D sid d w = (w', Inr issued) \<Longrightarrow> \<exists>v. recovery_calls D sid d w v \<and> finishing_round D sid d v w' issued"
proof (induction n arbitrary: w)
  case (Suc n)
  then obtain w1 recovery target w2 active where
    get: "dp_get D sid w = (w1, Inr (Some recovery))" "cr_state recovery = CompletionRecovering"
      "cr_recoveryTarget recovery = Some target" and
    act: "dp_getActive D d w1 = (w2, Inr active)" and
    step: "(if cred_credentialId active \<noteq> cr_credentialId recovery \<or> cred_version active \<noteq> cr_credentialVersion recovery
       then advance_to_active D (recovery_loop n D sid d) sid d recovery active w2
       else rotate_to_target D (recovery_loop n D sid d) d recovery target w2) = (w', Inr issued)"
    by (auto simp: then_with_Inr try_with_Inr recovering_target_Some get_active_or_null_Some)
  have begun: "recovery_calls D sid d w w2"
    using recovery_calls_eq(1) [OF get(1), of d] recovery_calls_eq(2) [OF act, of sid] by (rule rtranclp_trans)
  have again: ?case if "recovery_calls D sid d w2 v" "recovery_loop n D sid d v = (w', Inr issued)" for v
    using Suc.IH [OF that(2)] begun that(1) by (blast intro: rtranclp_trans)
  show ?case
  proof (cases "cred_credentialId active \<noteq> cr_credentialId recovery \<or> cred_version active \<noteq> cr_credentialVersion recovery")
    case True
    with step advance_to_active_Inr [of D "recovery_loop n D sid d" sid d recovery active w2 w' issued] again
    show ?thesis by auto
  next
    case False
    with step have "rotate_to_target D (recovery_loop n D sid d) d recovery target w2 = (w', Inr issued)" by simp
    from rotate_to_target_Inr [OF this get act] False again show ?thesis by blast
  qed
qed simp

text \<open>C14: When a recovery returns a credential, its run ends with this chain of calls, each in the world
  the one before left: it read the completion record, which was in recovery with a reserved credential
  id; it found the generation named there active; it rotated that generation to the reserved id and got
  the returned credential, with this id and the next version; it finalised the record with that
  generation, which made it pending again; and a last look at the credential store found the returned
  generation active. Other requests may change the worlds between any two calls: if the finalisation
  fails or the last look finds another generation, nothing is handed out in that round.\<close>

theorem recovered_secret_is_active:
  assumes "recover_credential D sid d persisted w = (w', Inr issued)"
  shows "\<exists>w0 w1 w2 w3 w4 r t b p a. recovery_calls D sid d w w0 \<and>
     dp_get D sid w0 = (w1, Inr (Some r)) \<and> cr_state r = CompletionRecovering \<and> cr_recoveryTarget r = Some t \<and>
     dp_getActive D d w1 = (w2, Inr b) \<and>
     cred_credentialId b = cr_credentialId r \<and> cred_version b = cr_credentialVersion r \<and>
     dp_recoverExisting D d (cr_credentialId r) (cr_credentialVersion r) t w2 = (w3, Inr issued) \<and>
     cred_credentialId (iss_credential issued) = t \<and>
     cred_version (iss_credential issued) = cr_credentialVersion r + 1 \<and>
     dp_finishRecovery D (generation_of r) (cred_credentialId (iss_credential issued))
       (cred_version (iss_credential issued)) w3 = (w4, Inr (Some p)) \<and> cr_state p = CompletionPending \<and>
     dp_getActive D d w4 = (w', Inr a) \<and>
     cred_credentialId a = cred_credentialId (iss_credential issued) \<and>
     cred_version a = cred_version (iss_credential issued)"
proof -
  have start: "recovery_calls D sid d w v" if "recovery_start D d persisted w = (v, x)" for v x
    using that get_active_or_null_calls [of D d w _ _ sid]
    by (auto simp: recovery_start_def then_with_def split: option.splits prod.splits sum.splits try_splits)
  from assms obtain u source where u: "recovery_start D d persisted w = (u, Inr source)"
    and rest: "then_with
       (if map_option cr_state persisted = Some CompletionRecovering then (u, Inr persisted)
        else let (w, target) = dp_createCredentialId D u in
             dp_beginRecovery D \<lparr>cg_pairingSessionId = sid, cg_deviceId = d, cg_credentialId = fst source,
                                 cg_credentialVersion = snd source\<rparr> target w) (\<lambda>w reserved.
     try_with w (require CompletionUnavailable (recovering_target reserved)) (\<lambda>_.
       recovery_loop max_recovery_steps D sid d w)) = (w', Inr issued)"
    by (auto simp: recover_credential_def then_with_Inr)
  obtain x g where x: "dp_createCredentialId D u = (x, g)" by fastforce
  obtain v where v: "recovery_calls D sid d u v" "recovery_loop max_recovery_steps D sid d v = (w', Inr issued)"
  proof (cases "map_option cr_state persisted = Some CompletionRecovering")
    case True
    from rest [unfolded if_P [OF True]] have "recovery_loop max_recovery_steps D sid d u = (w', Inr issued)"
      by (auto simp: then_with_Inr try_with_Inr)
    with that [of u] show thesis by blast
  next
    case False
    from rest [unfolded if_not_P [OF False]] x obtain v y where "dp_beginRecovery D \<lparr>cg_pairingSessionId = sid, cg_deviceId = d, cg_credentialId = fst source,
        cg_credentialVersion = snd source\<rparr> g x = (v, y)" "recovery_loop max_recovery_steps D sid d v = (w', Inr issued)"
      by (auto simp: then_with_Inr try_with_Inr)
    with that [of v] recovery_calls_eq(3) [OF x, of sid d] recovery_calls_eq(4) show thesis by (metis rtranclp_trans)
  qed
  from recovery_loop_result [OF v(2)] obtain w0 where "recovery_calls D sid d v w0" "finishing_round D sid d w0 w' issued"
    by blast
  with start [OF u] v(1) have "recovery_calls D sid d w w0" by (blast intro: rtranclp_trans)
  with \<open>finishing_round D sid d w0 w' issued\<close> show ?thesis unfolding finishing_round_def by blast
qed

section \<open>Collaborators whose issued secrets stay good\<close>

text \<open>
  What the service needs of its collaborators to hand out only secrets that still work when it
  returns: an issued or rotated credential is \<open>good\<close> in the world it leaves, and keeping the
  completion records and looking at the active credential do not spoil that.
\<close>

locale faithful_collaborators =
  fixes D :: "'w completion_deps" and d :: string
    and ok :: "'w \<Rightarrow> bool" and good :: "'w \<Rightarrow> issued_credential \<Rightarrow> bool"
  assumes get_ok: "ok w \<Longrightarrow> dp_get D sid w = (v, r) \<Longrightarrow> ok v"
    and reserve_ok: "ok w \<Longrightarrow> dp_reserve D sid w = (v, b) \<Longrightarrow> ok v"
    and active_ok: "ok w \<Longrightarrow> dp_getActive D d w = (v, a) \<Longrightarrow> ok v"
    and id_ok: "ok w \<Longrightarrow> dp_createCredentialId D w = (v, j) \<Longrightarrow> ok v"
    and begin_ok: "ok w \<Longrightarrow> dp_beginRecovery D g t w = (v, r) \<Longrightarrow> ok v"
    and advance_ok: "ok w \<Longrightarrow> dp_advanceRecovery D g c n t w = (v, r) \<Longrightarrow> ok v"
    and finish_ok: "ok w \<Longrightarrow> dp_finishRecovery D g c n w = (v, r) \<Longrightarrow> ok v"
    and recover_ok: "ok w \<Longrightarrow> dp_recoverExisting D d c n t w = (v, x) \<Longrightarrow> ok v"
    and issue_ok: "ok w \<Longrightarrow> dp_issue D d w = (v, x) \<Longrightarrow> ok v"
    and recover_good: "ok w \<Longrightarrow> dp_recoverExisting D d c n t w = (v, Inr i) \<Longrightarrow> good v i"
    and issue_good: "ok w \<Longrightarrow> dp_issue D d w = (v, Inr i) \<Longrightarrow> good v i"
    and finish_good: "good w i \<Longrightarrow> dp_finishRecovery D g c n w = (v, r) \<Longrightarrow> good v i"
    and pending_good: "good w i \<Longrightarrow> dp_setPending D g w = (v, r) \<Longrightarrow> good v i"
    and active_good: "good w i \<Longrightarrow> dp_getActive D d w = (v, a) \<Longrightarrow> good v i"
begin

lemma active_or_null_ok: "ok w \<Longrightarrow> get_active_or_null D d w = (v, r) \<Longrightarrow> ok v"
  by (auto simp: get_active_or_null_def split: prod.splits sum.splits if_splits dest: active_ok)

lemma active_or_null_good: "good w i \<Longrightarrow> get_active_or_null D d w = (v, r) \<Longrightarrow> good v i"
  by (auto simp: get_active_or_null_def split: prod.splits sum.splits if_splits dest: active_good)

lemma finish_recovery_cases: "finish_recovery D r i w = (v, b) \<Longrightarrow>
    \<exists>p. dp_finishRecovery D (generation_of r) (cred_credentialId (iss_credential i)) (cred_version (iss_credential i)) w
      = (v, p)"
  by (cases "dp_finishRecovery D (generation_of r) (cred_credentialId (iss_credential i))
      (cred_version (iss_credential i)) w"; cases "snd (dp_finishRecovery D (generation_of r)
      (cred_credentialId (iss_credential i)) (cred_version (iss_credential i)) w)")
    (auto simp: finish_recovery_def)

lemma confirm_good:
  assumes "good w issued" "ok w" "confirm_recovered D again d recovery issued w = (v, Inr i)"
    and "\<And>w. ok w \<Longrightarrow> again w = (v, Inr i) \<Longrightarrow> good v i"
  shows "good v i"
proof -
  from assms(3) obtain w1 finalized where fin: "finish_recovery D recovery issued w = (w1, Inr finalized)"
    and rest: "(if finalized then then_with (get_active_or_null D d w1) (\<lambda>w active.
              if is_active_generation active (iss_credential issued) then (w, Inr issued)
              else (w, Inl CompletionUnavailable)) else again w1) = (v, Inr i)"
    by (auto simp: confirm_recovered_def then_with_Inr)
  from finish_recovery_cases [OF fin] have "good w1 issued" "ok w1"
    using assms(1,2) finish_good finish_ok by blast+
  with rest assms(4) show ?thesis
    by (auto simp: then_with_Inr split: if_splits dest: active_or_null_good)
qed

lemma rotate_good:
  assumes "ok w" "rotate_to_target D again d recovery target w = (v, Inr i)"
    and "\<And>w. ok w \<Longrightarrow> again w = (v, Inr i) \<Longrightarrow> good v i"
  shows "good v i"
proof (cases "dp_recoverExisting D d (cr_credentialId recovery) (cr_credentialVersion recovery) target w")
  case (Pair u out)
  have ok: "ok u" by (rule recover_ok [OF assms(1) Pair])
  show ?thesis
  proof (cases out)
    case (Inl e)
    with assms(2) Pair have "again u = (v, Inr i)" by (auto simp: rotate_to_target_def split: if_splits)
    with ok show ?thesis by (rule assms(3))
  next
    case (Inr x)
    with assms(2) Pair have conf: "confirm_recovered D again d recovery x u = (v, Inr i)"
      by (auto simp: rotate_to_target_def split: if_splits)
    from confirm_good [OF recover_good [OF assms(1) Pair [unfolded Inr]] ok conf assms(3)] show ?thesis .
  qed
qed

lemma advance_good:
  assumes "ok w" "advance_to_active D again sid d recovery active w = (v, Inr i)"
    and "\<And>w. ok w \<Longrightarrow> again w = (v, Inr i) \<Longrightarrow> good v i"
  shows "good v i"
proof (cases "dp_createCredentialId D w")
  case (Pair w1 t)
  with assms(2) obtain w2 g c n r where adv: "dp_advanceRecovery D g c n t w1 = (w2, Inr r)"
    and again: "again w2 = (v, Inr i)"
    by (auto simp: advance_to_active_def then_with_Inr split: if_splits)
  have "ok w2" by (rule advance_ok [OF id_ok [OF assms(1) Pair] adv])
  from assms(3) [OF this again] show ?thesis .
qed

lemma loop_good: "ok w \<Longrightarrow> recovery_loop n D sid d w = (v, Inr i) \<Longrightarrow> good v i"
proof (induction n arbitrary: w)
  case (Suc n)
  from Suc.prems(2) obtain w1 r recovery target w2 a where
    seen: "dp_get D sid w = (w1, Inr r)" "get_active_or_null D d w1 = (w2, Inr (Some a))" and
    step: "(if cred_credentialId a \<noteq> cr_credentialId recovery \<or> cred_version a \<noteq> cr_credentialVersion recovery
       then advance_to_active D (recovery_loop n D sid d) sid d recovery a w2
       else rotate_to_target D (recovery_loop n D sid d) d recovery target w2) = (v, Inr i)"
    by (auto simp: then_with_Inr try_with_Inr)
  have ok: "ok w2" by (rule active_or_null_ok [OF get_ok [OF Suc.prems(1) seen(1)] seen(2)])
  show ?case
  proof (cases "cred_credentialId a \<noteq> cr_credentialId recovery \<or> cred_version a \<noteq> cr_credentialVersion recovery")
    case True
    with step have "advance_to_active D (recovery_loop n D sid d) sid d recovery a w2 = (v, Inr i)" by simp
    from advance_good [OF ok this Suc.IH] show ?thesis .
  next
    case False
    with step have "rotate_to_target D (recovery_loop n D sid d) d recovery target w2 = (v, Inr i)" by simp
    from rotate_good [OF ok this Suc.IH] show ?thesis .
  qed
qed simp

lemma recover_credential_good:
  assumes "ok w" "recover_credential D sid d persisted w = (v, Inr i)"
  shows "good v i"
proof -
  from assms(2) obtain w1 source w2 reserved where
    start: "recovery_start D d persisted w = (w1, Inr source)" and
    res: "(if map_option cr_state persisted = Some CompletionRecovering then (w1, Inr persisted)
        else let (w, target) = dp_createCredentialId D w1 in
             dp_beginRecovery D \<lparr>cg_pairingSessionId = sid, cg_deviceId = d, cg_credentialId = fst source,
                                 cg_credentialVersion = snd source\<rparr> target w) = (w2, Inr reserved)" and
    loop: "recovery_loop max_recovery_steps D sid d w2 = (v, Inr i)"
    by (auto simp: recover_credential_def then_with_Inr try_with_Inr)
  have "ok w1"
    using start assms(1)
    by (auto simp: recovery_start_def then_with_Inr try_with_Inr split: option.splits dest: active_or_null_ok)
  then have "ok w2"
    using res by (auto split: if_splits prod.splits dest: id_ok begin_ok)
  from loop_good [OF this loop] show ?thesis .
qed

lemma complete_good:
  assumes ok: "ok w" and dev: "dev_deviceId dv = d"
    and c: "complete_body D session dv recoverExisting w = (v, Inr c)"
  shows "good v \<lparr>iss_credential = cc_credential c, iss_secret = cc_secret c\<rparr>"
proof -
  have snap: "\<lparr>iss_credential = cc_credential (completed_snapshot session dv i),
      iss_secret = cc_secret (completed_snapshot session dv i)\<rparr> = i" for i :: issued_credential
    by (simp add: completed_snapshot_def)
  from c obtain w1 persisted where get: "dp_get D (ps_pairingSessionId session) w = (w1, Inr persisted)"
    by (auto simp: complete_body_def then_with_Inr Let_def)
  have ok1: "ok w1" by (rule get_ok [OF ok get])
  show ?thesis
  proof (cases "recoverExisting \<and> persisted \<noteq> None")
    case True
    with c get ok1 dev show ?thesis
      by (auto simp: complete_body_def then_with_Inr try_with_Inr Let_def snap dest: recover_credential_good)
  next
    case False
    with c get obtain w2 where res: "dp_reserve D (ps_pairingSessionId session) w1 = (w2, Inr True)"
      by (auto simp: complete_body_def then_with_Inr try_with_Inr Let_def)
    have ok2: "ok w2" by (rule reserve_ok [OF ok1 res])
    show ?thesis
    proof (cases "dp_issue D d w2")
      case (Pair w3 out)
      have ok3: "ok w3" by (rule issue_ok [OF ok2 Pair])
      from False c get res Pair dev ok3 issue_good [OF ok2, of w3] show ?thesis
        by (cases out)
          (auto simp: complete_body_def then_with_Inr try_with_Inr Let_def snap split: if_splits
            dest: recover_credential_good pending_good)
    qed
  qed
qed

end

section \<open>The in-memory collaborators\<close>

text \<open>
  The credential service over the in-memory repositories and the in-memory completion repository.
  The \<open>n\<close>-th call of a random generator or of the clock gives the \<open>n\<close>-th value of its stream; the
  pairing service's part (\<open>claim\<close> and \<open>sessions\<close>) is an argument.
\<close>

record memory_world =
  mw_devices :: memory_devices
  mw_credentials :: memory_credentials
  mw_completions :: memory_completions
  mw_tick :: nat

record memory_streams =
  st_secrets :: "nat \<Rightarrow> string"
  st_ids :: "nat \<Rightarrow> string"
  st_clock :: "nat \<Rightarrow> js_date"

definition next_tick :: "memory_world \<Rightarrow> memory_world" where
  "next_tick w = w\<lparr>mw_tick := Suc (mw_tick w)\<rparr>"

definition on_completions ::
  "memory_streams \<Rightarrow> (js_date \<times> js_date \<Rightarrow> memory_completions \<Rightarrow> (memory_completions, completion_clock_error, 'a) outcome)
   \<Rightarrow> memory_world \<Rightarrow> memory_world \<times> (completion_error + 'a)" where
  "on_completions S f w =
     (let t = st_clock S (mw_tick w); p = f (t, t) (mw_completions w) in
      ((next_tick w)\<lparr>mw_completions := fst p\<rparr>, map_sum (\<lambda>_. OtherFailure) id (snd p)))"

definition on_credentials ::
  "memory_streams \<Rightarrow> (string \<Rightarrow> string \<Rightarrow> js_date \<Rightarrow> memory_credentials \<Rightarrow> (memory_credentials, credential_error, 'a) outcome)
   \<Rightarrow> memory_world \<Rightarrow> memory_world \<times> (completion_error + 'a)" where
  "on_credentials S f w =
     (let n = mw_tick w; p = f (st_secrets S n) (st_ids S n) (st_clock S n) (mw_credentials w) in
      ((next_tick w)\<lparr>mw_credentials := fst p\<rparr>, map_sum CredentialFailure id (snd p)))"

definition memory_deps ::
  "completion_limits \<Rightarrow> (byte list \<Rightarrow> byte list) \<Rightarrow> memory_streams
   \<Rightarrow> (memory_world \<Rightarrow> memory_world \<times> (completion_error + pairing_session \<times> device))
   \<Rightarrow> (string \<Rightarrow> memory_world \<Rightarrow> memory_world \<times> (completion_error + pairing_session option))
   \<Rightarrow> memory_world completion_deps" where
  "memory_deps L sha256 S claim sessions =
     \<lparr>dp_claim = claim, dp_getSession = sessions,
      dp_getForOwner = (\<lambda>ow d w. (w, map_sum (\<lambda>_. OtherFailure) id (mem_device_getForOwner (mw_devices w) ow d))),
      dp_issue = (\<lambda>d w. on_credentials S (\<lambda>secret newId now c.
        service_issue memory_credential_repository memory_device_repository sha256 c (mw_devices w) secret newId now d) w),
      dp_getActive = (\<lambda>d w. (w, map_sum CredentialFailure id
        (service_getActive memory_credential_repository memory_device_repository (mw_credentials w) (mw_devices w) d))),
      dp_recoverExisting = (\<lambda>d eci ev ci w. on_credentials S (\<lambda>secret newId now c.
        service_rotateExpectedWithCredentialId memory_credential_repository memory_device_repository sha256 c
          (mw_devices w) secret now d eci (js_int ev) ci) w),
      dp_createCredentialId = (\<lambda>w. (next_tick w, st_ids S (mw_tick w))),
      dp_reserve = (\<lambda>sid. on_completions S (\<lambda>now. mem_completion_reserve L now sid)),
      dp_transfer = (\<lambda>a b. on_completions S (\<lambda>now. mem_completion_transfer L now a b)),
      dp_get = (\<lambda>sid. on_completions S (\<lambda>now. mem_completion_get L now sid)),
      dp_setPending = (\<lambda>g. on_completions S (\<lambda>now. mem_completion_setPending L now g)),
      dp_beginRecovery = (\<lambda>g t. on_completions S (\<lambda>now. mem_completion_beginRecovery L now g t)),
      dp_advanceRecovery = (\<lambda>g c v t. on_completions S (\<lambda>now. mem_completion_advanceRecovery L now g c v t)),
      dp_finishRecovery = (\<lambda>g c v. on_completions S (\<lambda>now. mem_completion_finishRecovery L now g c v)),
      dp_acknowledge = (\<lambda>g. on_completions S (\<lambda>now. mem_completion_acknowledge L now g)),
      dp_delete = (\<lambda>sid. on_completions S (\<lambda>now. mem_completion_delete sid))\<rparr>"

definition memory_world_ok :: "memory_world \<Rightarrow> bool" where
  "memory_world_ok w \<longleftrightarrow> memory_devices_ok (mw_devices w) \<and> memory_credentials_ok (mw_credentials w)"

text \<open>The issued secret authenticates as the issued credential.\<close>

definition secret_works :: "(byte list \<Rightarrow> byte list) \<Rightarrow> string \<Rightarrow> memory_world \<Rightarrow> issued_credential \<Rightarrow> bool" where
  "secret_works sha256 d w i \<longleftrightarrow>
     (\<exists>ident. service_verify memory_credential_repository memory_device_repository sha256
        (mw_credentials w) (mw_devices w) (Some d) (Some (iss_secret i)) =
        Inr \<lparr>ver_credential = iss_credential i, ver_identity = ident\<rparr>)"

lemma on_completions_frame:
  assumes "on_completions S f w = (v, r)"
  shows "mw_devices v = mw_devices w \<and> mw_credentials v = mw_credentials w"
  using assms by (auto simp: on_completions_def next_tick_def Let_def)

lemma completions_keep:
  assumes "on_completions S f w = (v, r)"
  shows "memory_world_ok v = memory_world_ok w" "secret_works sha256 d v i = secret_works sha256 d w i"
  using on_completions_frame [OF assms] by (simp_all add: memory_world_ok_def secret_works_def)

lemma next_tick_ok [simp]: "memory_world_ok (next_tick w) = memory_world_ok w"
  by (simp add: memory_world_ok_def next_tick_def)

text \<open>The mutations of credentials keep the store well formed even when they fail.\<close>

lemma service_issue_keeps:
  assumes "memory_credentials_ok s"
  shows "memory_credentials_ok (fst (service_issue memory_credential_repository R sha256 s ds x n now d))"
proof -
  have "memory_credentials_ok (fst (cri_issue memory_credential_repository s a b g t))" for a b g t
    using memory_credentials.issue [OF assms] by (metis prod.collapse)
  then show ?thesis
    using assms by (auto simp: service_issue_def Let_def split: try_splits prod.split sum.split)
      (metis fst_conv)+
qed

lemma service_rotate_keeps:
  assumes "memory_credentials_ok s"
  shows "memory_credentials_ok (fst (service_rotateExpectedWithCredentialId memory_credential_repository R sha256 s ds
    x now d eci ev ci))"
proof -
  have "memory_credentials_ok (fst (cri_rotate memory_credential_repository s a b v c g t))" for a b v c g t
    using memory_credentials.rotate [OF assms] by (metis prod.collapse)
  then show ?thesis
    using assms by (auto simp: service_rotateExpectedWithCredentialId_def Let_def split: try_splits prod.split sum.split)
      (metis fst_conv)+
qed

definition setting_ok :: "(byte list \<Rightarrow> byte list) \<Rightarrow> memory_streams \<Rightarrow> memory_world \<Rightarrow> bool" where
  "setting_ok sha256 S w \<longleftrightarrow> sha256_like sha256 \<and> (\<forall>n. st_secrets S n \<noteq> []) \<and> memory_world_ok w"

lemma on_credentials_good:
  assumes "setting_ok sha256 S w"
    and "on_credentials S f w = (v, r)"
    and keeps: "\<And>x n t. memory_credentials_ok (fst (f x n t (mw_credentials w)))"
    and works: "\<And>x n t c i. x \<noteq> [] \<Longrightarrow> f x n t (mw_credentials w) = (c, Inr i) \<Longrightarrow>
      \<exists>ident. service_verify memory_credential_repository memory_device_repository sha256 c (mw_devices w)
        (Some d) (Some (iss_secret i)) = Inr \<lparr>ver_credential = iss_credential i, ver_identity = ident\<rparr>"
  shows "setting_ok sha256 S v" and "r = Inr i \<Longrightarrow> secret_works sha256 d v i"
proof -
  let ?n = "mw_tick w"
  let ?p = "f (st_secrets S ?n) (st_ids S ?n) (st_clock S ?n) (mw_credentials w)"
  have v: "mw_devices v = mw_devices w" "mw_credentials v = fst ?p" and r: "r = map_sum CredentialFailure id (snd ?p)"
    using assms(2) by (auto simp: on_credentials_def next_tick_def Let_def)
  show "setting_ok sha256 S v"
    using assms(1) keeps v by (auto simp: setting_ok_def memory_world_ok_def)
  assume "r = Inr i"
  with r have "snd ?p = Inr i" by (cases "snd ?p") auto
  then have "?p = (fst ?p, Inr i)" by (metis prod.collapse)
  with works [of "st_secrets S ?n"] assms(1) show "secret_works sha256 d v i"
    unfolding secret_works_def v by (simp add: setting_ok_def)
qed

lemma memory_issue_good:
  assumes ok: "setting_ok sha256 S w" and dev: "dp_issue (memory_deps L sha256 S claim sessions) d w = (v, r)"
  shows "setting_ok sha256 S v" and "r = Inr i \<Longrightarrow> secret_works sha256 d v i"
proof -
  let ?f = "\<lambda>secret newId now c. service_issue memory_credential_repository memory_device_repository sha256 c
    (mw_devices w) secret newId now d"
  have run: "on_credentials S ?f w = (v, r)" using dev by (simp add: memory_deps_def)
  have keeps: "memory_credentials_ok (fst (?f x n t (mw_credentials w)))" for x n t
    using ok by (intro service_issue_keeps) (simp add: setting_ok_def memory_world_ok_def)
  have works: "\<exists>ident. service_verify memory_credential_repository memory_device_repository sha256 c (mw_devices w)
      (Some d) (Some (iss_secret i)) = Inr \<lparr>ver_credential = iss_credential i, ver_identity = ident\<rparr>"
    if "x \<noteq> []" "?f x n t (mw_credentials w) = (c, Inr i)" for x n t c i
    using memory_service.issue_verifies [of "mw_devices w" "mw_credentials w" sha256 x n t d c i] ok that
    by (auto simp: setting_ok_def memory_world_ok_def)
  show "setting_ok sha256 S v"
    by (rule on_credentials_good(1) [OF ok run, where d = d]) (fact keeps, erule (1) works)
  show "secret_works sha256 d v i" if "r = Inr i"
    by (rule on_credentials_good(2) [OF ok run _ _ that]) (fact keeps, erule (1) works)
qed

lemma memory_recover_good:
  assumes ok: "setting_ok sha256 S w"
    and dev: "dp_recoverExisting (memory_deps L sha256 S claim sessions) d eci ev ci w = (v, r)"
  shows "setting_ok sha256 S v" and "r = Inr i \<Longrightarrow> secret_works sha256 d v i"
proof -
  let ?f = "\<lambda>secret newId now c. service_rotateExpectedWithCredentialId memory_credential_repository
    memory_device_repository sha256 c (mw_devices w) secret now d eci (js_int ev) ci"
  have run: "on_credentials S ?f w = (v, r)" using dev by (simp add: memory_deps_def)
  have keeps: "memory_credentials_ok (fst (?f x n t (mw_credentials w)))" for x n t
    using ok by (intro service_rotate_keeps) (simp add: setting_ok_def memory_world_ok_def)
  have works: "\<exists>ident. service_verify memory_credential_repository memory_device_repository sha256 c (mw_devices w)
      (Some d) (Some (iss_secret i)) = Inr \<lparr>ver_credential = iss_credential i, ver_identity = ident\<rparr>"
    if "x \<noteq> []" "?f x n t (mw_credentials w) = (c, Inr i)" for x and n :: string and t c i
    using memory_service.rotate_expected_verifies [of "mw_devices w" "mw_credentials w" sha256 x t d eci "js_int ev" ci c i]
      ok that
    by (auto simp: setting_ok_def memory_world_ok_def)
  show "setting_ok sha256 S v"
    by (rule on_credentials_good(1) [OF ok run, where d = d]) (fact keeps, erule (1) works)
  show "secret_works sha256 d v i" if "r = Inr i"
    by (rule on_credentials_good(2) [OF ok run _ _ that]) (fact keeps, erule (1) works)
qed

interpretation memory_collaborators: faithful_collaborators
  "memory_deps L sha256 S claim sessions" d "setting_ok sha256 S"
  "\<lambda>w i. secret_works sha256 d w i" for L sha256 S claim sessions d
proof (unfold_locales, goal_cases)
  case (9 w v x)
  from memory_issue_good(1) [OF this] show ?case .
next
  case (8 w c n t v x)
  from memory_recover_good(1) [OF this] show ?case .
next
  case (10 w c n t v i)
  from memory_recover_good(2) [OF this refl] show ?case .
next
  case (11 w v i)
  from memory_issue_good(2) [OF this refl] show ?case .
qed (auto simp: memory_deps_def completions_keep(2) setting_ok_def dest: completions_keep(1))

text \<open>C13: The credential a completed pairing hands out works. Over the in-memory repositories,
  whenever the completion of a claimed session succeeds, by issuing the first credential or by
  recovering after a crash with or without a persisted record, the returned secret authenticates
  the device at once, as exactly the returned credential.\<close>

theorem completed_secret_authenticates:
  assumes "setting_ok sha256 S w" and "dev_deviceId dv = d"
    and "complete_body (memory_deps L sha256 S claim sessions) session dv recoverExisting w = (w', Inr c)"
  shows "\<exists>ident. service_verify memory_credential_repository memory_device_repository sha256
      (mw_credentials w') (mw_devices w') (Some d) (Some (cc_secret c)) =
    Inr \<lparr>ver_credential = cc_credential c, ver_identity = ident\<rparr>"
  using memory_collaborators.complete_good [OF assms] by (simp add: secret_works_def)

section \<open>Witnesses\<close>

text \<open>The credential was issued, the process died before its record was written, the device resumes.\<close>

definition sample_streams :: memory_streams where
  "sample_streams = \<lparr>st_secrets = (\<lambda>_. ''second secret''), st_ids = (\<lambda>_. example_credential_id CHR ''b''),
     st_clock = (\<lambda>n. Some (20 + int n))\<rparr>"

definition sample_world :: memory_world where
  "sample_world = \<lparr>mw_devices = example_devices, mw_credentials = example_issued,
     mw_completions = empty_completions, mw_tick = 0\<rparr>"

definition sample_paired :: device where
  "sample_paired = \<lparr>dev_deviceId = example_device_id, dev_ownerId = ''owner-1'', dev_deviceName = ''laptop'',
     dev_metadata = \<lparr>md_platform = ''linux'', md_appVersion = None, md_runtimeVersion = None\<rparr>,
     dev_createdAt = 5, dev_updatedAt = 5\<rparr>"

definition sample_claimed :: pairing_session where
  "sample_claimed = \<lparr>ps_pairingSessionId = ''p'', ps_state = Claimed, ps_createdAt = 1, ps_expiresAt = 9,
     ps_localCorrelationId = None, ps_claimedAt = Some 5, ps_deviceId = Some example_device_id\<rparr>"

definition sample_deps :: "memory_world completion_deps" where
  "sample_deps = memory_deps sample_completion_limits example_sha256 sample_streams
     (\<lambda>w. (w, Inl OtherFailure)) (\<lambda>_ w. (w, Inr None))"

lemma sample_world_ok: "setting_ok example_sha256 sample_streams sample_world"
  by (simp add: setting_ok_def example_sha256_like sample_streams_def memory_world_ok_def sample_world_def
      example_devices_ok example_issued_ok)

definition sample_waiting :: memory_world where
  "sample_waiting = \<lparr>mw_devices = example_devices, mw_credentials = example_issued,
     mw_completions = \<lparr>mp_records = [], mp_reservations = [(''p'', 1021)]\<rparr>, mw_tick = 2\<rparr>"

lemma sample_get: "dp_get sample_deps ''p'' sample_world = (next_tick sample_world, Inr None)"
proof -
  have "mem_completion_get sample_completion_limits (Some 20, Some 20) ''p'' empty_completions =
      (empty_completions, Inr None)" by code_simp
  then show ?thesis
    by (simp add: sample_deps_def memory_deps_def on_completions_def sample_world_def sample_streams_def Let_def
        next_tick_def)
qed

lemma sample_reserve: "dp_reserve sample_deps ''p'' (next_tick sample_world) = (sample_waiting, Inr True)"
proof -
  have "mem_completion_reserve sample_completion_limits (Some 21, Some 21) ''p'' empty_completions =
      (\<lparr>mp_records = [], mp_reservations = [(''p'', 1021)]\<rparr>, Inr True)" by code_simp
  then show ?thesis
    by (simp add: sample_deps_def memory_deps_def on_completions_def sample_world_def sample_streams_def Let_def
        next_tick_def sample_waiting_def)
qed

lemma sample_issue: "dp_issue sample_deps example_device_id sample_waiting =
    (next_tick sample_waiting, Inl (CredentialFailure CredentialAlreadyExists))"
proof -
  have "service_issue memory_credential_repository memory_device_repository example_sha256 example_issued
      example_devices ''second secret'' (example_credential_id CHR ''b'') (Some 22) example_device_id =
      (example_issued, Inl CredentialAlreadyExists)" unfolding example_issued_eq example_devices_eq by code_simp
  then show ?thesis
    by (simp add: sample_deps_def memory_deps_def on_credentials_def sample_waiting_def sample_streams_def Let_def
        next_tick_def)
qed

text \<open>The steps of the recovery, each from the values before it.\<close>

definition sample_active :: device_credential where
  "sample_active = device_credential.make (example_credential_id CHR ''a'') 1 (js_lower example_device_id) Active 10 None"

definition sample_rotated :: issued_credential where
  "sample_rotated = \<lparr>iss_credential = device_credential.make (example_credential_id CHR ''b'') 2 (js_lower example_device_id)
     Active 26 None, iss_secret = ''second secret''\<rparr>"

definition example_rotated :: memory_credentials where
  "example_rotated = \<lparr>mc_byDeviceId =
    [(''0a1b2c3d-1111-4111-8111-0123456789ab'',
      \<lparr>sc_credentialId = ''bbbbbbbb-2222-4222-8222-222222222222'', sc_deviceId = ''0a1b2c3d-1111-4111-8111-0123456789ab'',
        sc_version = 2, sc_secretDigest = ''74657263657320646e6f6365733a31763a6c6169746e65646572632d65636976'',
        sc_createdAtMs = 26, sc_state = Active, sc_revokedAtMs = None\<rparr>)],
    mc_usedCredentialIds = [''aaaaaaaa-2222-4222-8222-222222222222'', ''bbbbbbbb-2222-4222-8222-222222222222'']\<rparr>"

definition sample_generation_reserved :: completion_generation where
  "sample_generation_reserved = \<lparr>cg_pairingSessionId = ''p'', cg_deviceId = example_device_id,
     cg_credentialId = example_credential_id CHR ''a'', cg_credentialVersion = 1\<rparr>"

definition sample_recovering :: completion_record where
  "sample_recovering = \<lparr>cr_pairingSessionId = ''p'', cr_deviceId = example_device_id,
     cr_credentialId = example_credential_id CHR ''a'', cr_credentialVersion = 1, cr_state = CompletionRecovering,
     cr_recoveryTarget = Some (example_credential_id CHR ''b'')\<rparr>"

lemma sample_rotation_steps:
  "service_getActive memory_credential_repository memory_device_repository example_stored_credential example_stored_device
     example_device_id = Inr sample_active"
  "service_rotateExpectedWithCredentialId memory_credential_repository memory_device_repository example_sha256
     example_stored_credential example_stored_device ''second secret'' (Some 26) example_device_id
     (example_credential_id CHR ''a'') (js_int 1) (example_credential_id CHR ''b'') = (example_rotated, Inr sample_rotated)"
  "service_getActive memory_credential_repository memory_device_repository example_rotated example_stored_device
     example_device_id = Inr (iss_credential sample_rotated)"
  by code_simp+

definition sample_completions :: memory_completions where
  "sample_completions = \<lparr>mp_records = [(''p'', sample_recovering, 1024)], mp_reservations = []\<rparr>"

lemma sample_completion_steps:
  "mem_completion_beginRecovery sample_completion_limits (Some 24, Some 24) sample_generation_reserved
     (example_credential_id CHR ''b'') \<lparr>mp_records = [], mp_reservations = [(''p'', 1021)]\<rparr> =
     (sample_completions, Inr (Some sample_recovering))"
  "mem_completion_get sample_completion_limits (Some 25, Some 25) ''p'' sample_completions =
     (sample_completions, Inr (Some sample_recovering))"
  by code_simp+

lemma sample_finish:
  "\<exists>comps. mem_completion_finishRecovery sample_completion_limits (Some 27, Some 27) sample_generation_reserved
     (example_credential_id CHR ''b'') 2 sample_completions = (comps, Inr (Some (sample_recovering\<lparr>
       cr_credentialId := example_credential_id CHR ''b'', cr_credentialVersion := 2, cr_state := CompletionPending,
       cr_recoveryTarget := None\<rparr>)))"
proof -
  have "snd (mem_completion_finishRecovery sample_completion_limits (Some 27, Some 27) sample_generation_reserved
     (example_credential_id CHR ''b'') 2 sample_completions) = Inr (Some (sample_recovering\<lparr>
       cr_credentialId := example_credential_id CHR ''b'', cr_credentialVersion := 2, cr_state := CompletionPending,
       cr_recoveryTarget := None\<rparr>))" by code_simp
  then show ?thesis by (metis prod.collapse)
qed

text \<open>Both witnesses use this recovery.\<close>

lemma sample_recovery:
  "\<exists>w' i. recover_credential sample_deps ''p'' example_device_id None (next_tick sample_waiting) = (w', Inr i)"
proof -
  obtain comps where finish: "mem_completion_finishRecovery sample_completion_limits (Some 27, Some 27)
      sample_generation_reserved (example_credential_id CHR ''b'') 2 sample_completions = (comps, Inr (Some (sample_recovering\<lparr>
       cr_credentialId := example_credential_id CHR ''b'', cr_credentialVersion := 2, cr_state := CompletionPending,
       cr_recoveryTarget := None\<rparr>)))" using sample_finish by blast
  have credential_id_given: "example_credential_id c \<noteq> []" for c by (simp add: example_credential_id_def)
  obtain n where steps: "max_recovery_steps = Suc n" by (cases max_recovery_steps) (simp_all add: max_recovery_steps_def)
  show ?thesis
    unfolding recover_credential_def steps
    using sample_rotation_steps sample_completion_steps finish
    by (simp add: recovery_start_def get_active_or_null_def sample_deps_def memory_deps_def on_completions_def
        on_credentials_def sample_waiting_def sample_streams_def Let_def next_tick_def example_devices_eq example_issued_eq
        sample_active_def sample_rotated_def sample_recovering_def sample_generation_reserved_def device_credential.make_def
        recovering_target_def rotate_to_target_def confirm_recovered_def finish_recovery_def generation_of_def
        is_reserved_recovery_target_def is_active_generation_def then_with_def try_with_def require_def credential_id_given)
qed

lemma recovered_secret_is_active_witness:
  "\<exists>w' (issued :: issued_credential) w3 w4 r p (a :: device_credential).
     dp_finishRecovery sample_deps (generation_of r) (cred_credentialId (iss_credential issued))
       (cred_version (iss_credential issued)) w3 = (w4, Inr (Some p)) \<and> cr_state p = CompletionPending \<and>
     dp_getActive sample_deps example_device_id w4 = (w', Inr a) \<and>
     cred_credentialId a = cred_credentialId (iss_credential issued)"
proof -
  from sample_recovery obtain w' and issued :: issued_credential where
    "recover_credential sample_deps ''p'' example_device_id None (next_tick sample_waiting) = (w', Inr issued)"
    by blast
  from recovered_secret_is_active [OF this] show ?thesis by blast
qed

lemma completed_secret_authenticates_witness:
  "\<exists>w' c ident. complete_body sample_deps sample_claimed sample_paired True sample_world = (w', Inr c) \<and>
     service_verify memory_credential_repository memory_device_repository example_sha256
      (mw_credentials w') (mw_devices w') (Some example_device_id) (Some (cc_secret c)) =
    Inr \<lparr>ver_credential = cc_credential c, ver_identity = ident\<rparr>"
proof -
  have ids: "dev_deviceId sample_paired = example_device_id" "ps_pairingSessionId sample_claimed = ''p''"
    by (simp_all add: sample_paired_def sample_claimed_def)
  from sample_recovery obtain w' i where
    "recover_credential sample_deps ''p'' example_device_id None (next_tick sample_waiting) = (w', Inr i)" by blast
  then have run: "complete_body sample_deps sample_claimed sample_paired True sample_world =
      (w', Inr (completed_snapshot sample_claimed sample_paired i))"
    by (simp add: complete_body_def Let_def ids sample_get sample_reserve sample_issue)
  from completed_secret_authenticates [OF sample_world_ok ids(1) run [unfolded sample_deps_def]] run show ?thesis
    by blast
qed

end
