(* ===== verification/Posix_Paths.thy ===== *)
theory Posix_Paths
  imports Prelude
begin

text \<open>
  The functions of \<^verbatim>\<open>node:path\<close> the agent uses, for POSIX: \<^verbatim>\<open>resolve\<close>, \<^verbatim>\<open>join\<close>, \<^verbatim>\<open>normalize\<close>,
  \<^verbatim>\<open>relative\<close>, \<^verbatim>\<open>dirname\<close> and \<^verbatim>\<open>isAbsolute\<close>, as functions on strings, and the view of an
  absolute path as the list of its names that the proofs use.
\<close>

section \<open>Names of a path\<close>

fun split_slash :: "string \<Rightarrow> string list" where
  "split_slash [] = [[]]"
| "split_slash (c # cs) =
     (if c = CHR ''/'' then [] # split_slash cs
      else (case split_slash cs of [] \<Rightarrow> [[c]] | w # ws \<Rightarrow> (c # w) # ws))"

fun join_slash :: "string list \<Rightarrow> string" where
  "join_slash [] = []"
| "join_slash [w] = w"
| "join_slash (w # ws) = w @ CHR ''/'' # join_slash ws"

definition path_names :: "string \<Rightarrow> string list" where
  "path_names p = filter (\<lambda>w. w \<noteq> []) (split_slash p)"

definition proper_name :: "string \<Rightarrow> bool" where
  "proper_name w \<longleftrightarrow> w \<noteq> [] \<and> w \<noteq> ''.'' \<and> w \<noteq> ''..'' \<and> CHR ''/'' \<notin> set w"

definition abs_path :: "string list \<Rightarrow> string" where
  "abs_path ws = CHR ''/'' # join_slash ws"

definition canonical_path :: "string \<Rightarrow> bool" where
  "canonical_path p \<longleftrightarrow> p = abs_path (path_names p) \<and> list_all proper_name (path_names p)"

section \<open>The functions of node:path\<close>

text \<open>One segment of \<^verbatim>\<open>normalizeString\<close>.\<close>

definition norm_step :: "bool \<Rightarrow> string list \<Rightarrow> string \<Rightarrow> string list" where
  "norm_step allowAboveRoot acc w =
     (if w = [] \<or> w = ''.'' then acc
      else if w = ''..'' then
        (if acc \<noteq> [] \<and> last acc \<noteq> ''..'' then butlast acc
         else if allowAboveRoot then acc @ [''..''] else acc)
      else acc @ [w])"

definition normal_names :: "bool \<Rightarrow> string \<Rightarrow> string list" where
  "normal_names allowAboveRoot p = foldl (norm_step allowAboveRoot) [] (split_slash p)"

definition posix_is_absolute :: "string \<Rightarrow> bool" where
  "posix_is_absolute p \<longleftrightarrow> (case p of [] \<Rightarrow> False | c # _ \<Rightarrow> c = CHR ''/'')"

text \<open>\<open>cwd\<close> is the working directory of the process, an absolute path.\<close>

fun resolve_acc :: "string \<Rightarrow> string list \<Rightarrow> string \<Rightarrow> string" where
  "resolve_acc cwd [] acc = cwd @ CHR ''/'' # acc"
| "resolve_acc cwd (p # ps) acc =
     (if p = [] then resolve_acc cwd ps acc
      else if posix_is_absolute p then p @ CHR ''/'' # acc
      else resolve_acc cwd ps (p @ CHR ''/'' # acc))"

definition posix_resolve :: "string \<Rightarrow> string list \<Rightarrow> string" where
  "posix_resolve cwd ps = abs_path (normal_names False (resolve_acc cwd (rev ps) []))"

definition posix_normalize :: "string \<Rightarrow> string" where
  "posix_normalize p =
     (if p = [] then ''.''
      else
        let n = join_slash (normal_names (\<not> posix_is_absolute p) p);
            trailing = last p = CHR ''/'' in
        if n = [] then (if posix_is_absolute p then ''/'' else if trailing then ''./'' else ''.'')
        else (if posix_is_absolute p then [CHR ''/''] else []) @ n @ (if trailing then [CHR ''/''] else []))"

definition posix_join :: "string list \<Rightarrow> string" where
  "posix_join ps =
     (let parts = filter (\<lambda>p. p \<noteq> []) ps in if parts = [] then ''.'' else posix_normalize (join_slash parts))"

fun drop_common :: "string list \<Rightarrow> string list \<Rightarrow> string list \<times> string list" where
  "drop_common (x # xs) (y # ys) = (if x = y then drop_common xs ys else (x # xs, y # ys))"
| "drop_common xs ys = (xs, ys)"

definition posix_relative :: "string \<Rightarrow> string \<Rightarrow> string \<Rightarrow> string" where
  "posix_relative cwd start target =
     (if start = target then []
      else
        let (up, down) = drop_common (path_names (posix_resolve cwd [start])) (path_names (posix_resolve cwd [target])) in
        join_slash (replicate (length up) ''..'' @ down))"

definition posix_dirname :: "string \<Rightarrow> string" where
  "posix_dirname p =
     (case p of
        [] \<Rightarrow> ''.''
      | c # cs \<Rightarrow>
          (case dropWhile (\<lambda>x. x \<noteq> CHR ''/'') (dropWhile (\<lambda>x. x = CHR ''/'') (rev cs)) of
             [] \<Rightarrow> if c = CHR ''/'' then ''/'' else ''.''
           | _ # r \<Rightarrow> if c = CHR ''/'' \<and> r = [] then ''//'' else c # rev r))"

section \<open>Splitting and joining\<close>

lemma split_slash_not_Nil [simp]: "split_slash p \<noteq> []"
  by (induction p) (auto split: list.split)

lemma split_slash_append: "split_slash (p @ CHR ''/'' # q) = split_slash p @ split_slash q"
  by (induction p) (auto split: list.split)

lemma split_slash_plain: "CHR ''/'' \<notin> set w \<Longrightarrow> split_slash w = [w]"
  by (induction w) auto

lemma split_slash_no_slash: "w \<in> set (split_slash p) \<Longrightarrow> CHR ''/'' \<notin> set w"
proof (induction p arbitrary: w)
  case (Cons c p)
  then show ?case by (cases "split_slash p") (auto split: if_splits)
qed simp

lemma split_join_slash:
  "ws \<noteq> [] \<Longrightarrow> \<forall>w\<in>set ws. CHR ''/'' \<notin> set w \<Longrightarrow> split_slash (join_slash ws) = ws"
  by (induction ws rule: join_slash.induct) (simp_all add: split_slash_plain split_slash_append)

lemma proper_name_simps:
  assumes "proper_name w"
  shows "w \<noteq> []" "w \<noteq> ''.''" "w \<noteq> ''..''" "CHR ''/'' \<notin> set w"
  using assms by (auto simp: proper_name_def)

lemma names_no_slash: "list_all proper_name ws \<Longrightarrow> \<forall>w\<in>set ws. CHR ''/'' \<notin> set w"
  by (auto simp: list_all_iff proper_name_def)

lemma path_names_append: "path_names (p @ CHR ''/'' # q) = path_names p @ path_names q"
  by (simp add: path_names_def split_slash_append)

lemma path_names_Cons_slash [simp]: "path_names (CHR ''/'' # p) = path_names p"
  by (simp add: path_names_def)

lemma path_names_Nil [simp]: "path_names [] = []"
  by (simp add: path_names_def)

lemma path_names_join: "list_all proper_name ws \<Longrightarrow> path_names (join_slash ws) = ws"
proof (cases "ws = []")
  case False
  assume ws: "list_all proper_name ws"
  then have "filter (\<lambda>w. w \<noteq> []) ws = ws"
    by (intro filter_True) (auto simp: list_all_iff proper_name_def)
  with ws False show ?thesis by (simp add: path_names_def split_join_slash names_no_slash)
qed simp

lemma path_names_abs [simp]: "list_all proper_name ws \<Longrightarrow> path_names (abs_path ws) = ws"
  by (simp add: abs_path_def path_names_join)

lemma canonical_abs [simp]: "list_all proper_name ws \<Longrightarrow> canonical_path (abs_path ws)"
  by (simp add: canonical_path_def)

lemma canonical_pathD: "canonical_path p \<Longrightarrow> p = abs_path (path_names p)"
  by (simp add: canonical_path_def)

lemma canonical_names: "canonical_path p \<Longrightarrow> list_all proper_name (path_names p)"
  by (simp add: canonical_path_def)

lemma canonical_names_eq: "canonical_path p \<Longrightarrow> canonical_path q \<Longrightarrow> path_names p = path_names q \<longleftrightarrow> p = q"
  by (metis canonical_pathD)

lemma canonical_absolute: "canonical_path p \<Longrightarrow> posix_is_absolute p"
  by (subst canonical_pathD) (simp_all add: posix_is_absolute_def abs_path_def)

lemma canonical_not_Nil: "canonical_path p \<Longrightarrow> p \<noteq> []"
  by (auto simp: canonical_path_def abs_path_def)

section \<open>Normal forms\<close>

lemma norm_step_proper: "proper_name w \<Longrightarrow> norm_step b acc w = acc @ [w]"
  by (simp add: norm_step_def proper_name_def)

lemma foldl_norm_proper: "list_all proper_name ws \<Longrightarrow> foldl (norm_step b) acc ws = acc @ ws"
  by (induction ws arbitrary: acc) (simp_all add: norm_step_proper)

lemma foldl_norm_names:
  "foldl (norm_step b) acc (filter (\<lambda>w. w \<noteq> []) ws) = foldl (norm_step b) acc ws"
  by (induction ws arbitrary: acc) (simp_all add: norm_step_def)

lemma normal_names_names: "normal_names b p = foldl (norm_step b) [] (path_names p)"
  by (simp add: normal_names_def path_names_def foldl_norm_names)

lemma normal_names_append:
  "normal_names b (p @ CHR ''/'' # q) = foldl (norm_step b) (normal_names b p) (split_slash q)"
  by (simp add: normal_names_def split_slash_append)

lemma proper_butlast: "list_all proper_name ws \<Longrightarrow> list_all proper_name (butlast ws)"
  by (auto simp: list_all_iff dest: in_set_butlastD)

lemma norm_step_keeps_proper:
  assumes "list_all proper_name acc" "CHR ''/'' \<notin> set w"
  shows "list_all proper_name (norm_step False acc w)"
  using assms proper_butlast [OF assms(1)] by (auto simp: norm_step_def proper_name_def)

lemma normal_names_proper: "list_all proper_name (normal_names False p)"
proof -
  have "list_all proper_name (foldl (norm_step False) acc ws)"
    if "list_all proper_name acc" "\<forall>w\<in>set ws. CHR ''/'' \<notin> set w" for acc ws
    using that
  proof (induction ws arbitrary: acc)
    case (Cons w ws)
    then show ?case by (simp add: norm_step_keeps_proper)
  qed simp
  then show ?thesis unfolding normal_names_def using split_slash_no_slash by simp
qed

lemma normal_names_canonical: "canonical_path p \<Longrightarrow> normal_names b p = path_names p"
  by (simp add: normal_names_names foldl_norm_proper canonical_names)

lemma norm_parent: "list_all proper_name acc \<Longrightarrow> norm_step False acc ''..'' = butlast acc"
  by (cases acc rule: rev_cases) (auto simp: norm_step_def proper_name_def)

section \<open>Resolving\<close>

lemma resolve_canonical [simp]: "canonical_path (posix_resolve cwd ps)"
  by (simp add: posix_resolve_def normal_names_proper)

lemma resolve_names [simp]:
  "path_names (posix_resolve cwd ps) = normal_names False (resolve_acc cwd (rev ps) [])"
  by (simp add: posix_resolve_def normal_names_proper)

lemma resolve_absolute_names:
  assumes "posix_is_absolute p"
  shows "path_names (posix_resolve cwd [p]) = normal_names False p"
proof -
  from assms have "p \<noteq> []" by (auto simp: posix_is_absolute_def)
  with assms show ?thesis by (simp add: normal_names_append norm_step_def)
qed

lemma resolve_id: "canonical_path p \<Longrightarrow> posix_resolve cwd [p] = p"
proof -
  assume p: "canonical_path p"
  then have "path_names (posix_resolve cwd [p]) = path_names p"
    using resolve_absolute_names [OF canonical_absolute [OF p]] by (simp add: normal_names_canonical)
  with p show ?thesis using canonical_names_eq [of "posix_resolve cwd [p]" p] resolve_canonical by blast
qed

text \<open>\<^verbatim>\<open>resolve(p, "..")\<close> drops the last name.\<close>

lemma resolve_acc_suffix: "resolve_acc cwd ps (x @ y) = resolve_acc cwd ps x @ y"
  by (induction cwd ps x rule: resolve_acc.induct) auto

lemma resolve_parent:
  "posix_resolve cwd [p, ''..''] = abs_path (butlast (path_names (posix_resolve cwd [p])))"
proof -
  have two: "normal_names False (q @ CHR ''/'' # ''../'') = butlast (normal_names False (q @ [CHR ''/'']))" for q
  proof -
    have "split_slash ''../'' = [''..'', []]" by simp
    then show ?thesis
      using norm_parent [OF normal_names_proper [of q]] normal_names_append [of False q "[]"]
      by (simp add: normal_names_append norm_step_def)
  qed
  have "normal_names False (resolve_acc cwd [''..'', p] []) = butlast (normal_names False (resolve_acc cwd [p] []))"
  proof (cases "p = [] \<or> posix_is_absolute p")
    case True
    then show ?thesis using two [of p] two [of cwd] by (auto simp: posix_is_absolute_def)
  next
    case False
    then show ?thesis using two [of "cwd @ CHR ''/'' # p"] by (simp add: posix_is_absolute_def)
  qed
  then show ?thesis by (simp add: posix_resolve_def normal_names_proper)
qed

lemma resolve_parent_canonical: "canonical_path p \<Longrightarrow> posix_resolve cwd [p, ''..''] = abs_path (butlast (path_names p))"
  by (simp only: resolve_parent resolve_id)

section \<open>Joining\<close>

lemma last_join_slash: "ws \<noteq> [] \<Longrightarrow> list_all proper_name ws \<Longrightarrow> join_slash ws \<noteq> [] \<and> last (join_slash ws) \<noteq> CHR ''/''"
proof (induction ws rule: join_slash.induct)
  case (2 w)
  then have "w \<noteq> []" "CHR ''/'' \<notin> set w" by (simp_all add: proper_name_def)
  then show ?case by (metis join_slash.simps(2) last_in_set)
qed simp_all

lemma posix_normalize_canonical: "canonical_path p \<Longrightarrow> posix_normalize p = p"
proof -
  assume p: "canonical_path p"
  let ?ws = "path_names p"
  have proper: "list_all proper_name ?ws" by (rule canonical_names [OF p])
  have e: "p = CHR ''/'' # join_slash ?ws" using canonical_pathD [OF p] by (simp add: abs_path_def)
  note facts = canonical_absolute [OF p] canonical_not_Nil [OF p] normal_names_canonical [OF p]
  show ?thesis
  proof (cases "?ws = []")
    case True
    with e have "p = ''/''" by simp
    with facts show ?thesis by (simp add: posix_normalize_def True)
  next
    case False
    with last_join_slash [OF False proper] have "last p \<noteq> CHR ''/''" by (subst e) simp
    with facts e last_join_slash [OF False proper] show ?thesis by (simp add: posix_normalize_def Let_def)
  qed
qed

text \<open>Joining an absolute directory and relative parts: the names are appended and normalised.\<close>

lemma join_absolute:
  assumes p: "posix_is_absolute p"
  shows "path_names (posix_normalize p) = normal_names False p \<and> posix_is_absolute (posix_normalize p)"
proof -
  let ?n = "normal_names False p"
  have proper: "list_all proper_name ?n" by (rule normal_names_proper)
  from p have "p \<noteq> []" by (auto simp: posix_is_absolute_def)
  with p have "posix_normalize p = (if join_slash ?n = [] then ''/'' else CHR ''/'' # join_slash ?n @ (if last p = CHR ''/'' then [CHR ''/''] else []))"
    by (simp add: posix_normalize_def)
  moreover have "path_names (join_slash ?n @ [CHR ''/'']) = ?n"
    using path_names_append [of "join_slash ?n" "[]"] by (simp add: path_names_join [OF proper])
  moreover have "join_slash ?n = [] \<Longrightarrow> ?n = []"
    using last_join_slash [OF _ proper] by blast
  ultimately show ?thesis using path_names_join [OF proper] by (auto simp: posix_is_absolute_def)
qed

section \<open>Relative paths\<close>

lemma drop_common_prefix: "fst (drop_common xs ys) = [] \<longleftrightarrow> prefix xs ys"
  by (induction xs ys rule: drop_common.induct) auto

lemma drop_common_inside: "prefix xs ys \<Longrightarrow> drop_common xs ys = ([], drop (length xs) ys)"
  by (induction xs ys rule: drop_common.induct) auto

lemma join_slash_Cons: "join_slash (w # ws) = w @ (if ws = [] then [] else CHR ''/'' # join_slash ws)"
  by (cases ws) simp_all

lemma join_proper_forward:
  assumes "proper_name w"
  shows "join_slash (w # ws) \<noteq> []" "join_slash (w # ws) \<noteq> ''..''" "\<not> prefix ''../'' (join_slash (w # ws))"
    "\<not> posix_is_absolute (join_slash (w # ws))"
  using assms
  by (cases w; cases "tl w"; cases "tl (tl w)";
      auto simp: join_slash_Cons proper_name_def posix_is_absolute_def split: if_splits)+

lemma join_up: "prefix ''../'' (join_slash (''..'' # ws)) \<or> join_slash (''..'' # ws) = ''..''"
  by (simp add: join_slash_Cons)

lemma posix_relative_names:
  "posix_relative cwd p q =
    (let (up, down) = drop_common (path_names (posix_resolve cwd [p])) (path_names (posix_resolve cwd [q])) in
     join_slash (replicate (length up) ''..'' @ down))"
  by (simp add: posix_relative_def drop_common_inside del: resolve_names)

section \<open>Joining below a directory\<close>

lemma split_slash_join: "ws \<noteq> [] \<Longrightarrow> split_slash (join_slash ws) = concat (map split_slash ws)"
  by (induction ws rule: join_slash.induct) (simp_all add: split_slash_append)

lemma normal_names_join:
  "ws \<noteq> [] \<Longrightarrow> normal_names b (join_slash ws) = foldl (norm_step b) [] (concat (map split_slash ws))"
  by (simp add: normal_names_def split_slash_join)

lemma posix_join_absolute:
  assumes "posix_is_absolute p"
  shows "path_names (posix_join (p # ps)) =
      foldl (norm_step False) (normal_names False p) (concat (map path_names (filter (\<lambda>q. q \<noteq> []) ps))) \<and>
    posix_is_absolute (posix_join (p # ps))"
proof -
  let ?ps = "filter (\<lambda>q. q \<noteq> []) ps"
  have p: "p \<noteq> []" using assms by (auto simp: posix_is_absolute_def)
  have abs: "posix_is_absolute (join_slash (p # ?ps))"
    using assms by (cases p) (simp_all add: join_slash_Cons posix_is_absolute_def)
  have "foldl (norm_step False) acc (concat (map split_slash qs)) = foldl (norm_step False) acc (concat (map path_names qs))"
    for acc and qs :: "string list"
    by (induction qs arbitrary: acc) (simp_all add: path_names_def foldl_norm_names)
  then have "normal_names False (join_slash (p # ?ps)) =
      foldl (norm_step False) (normal_names False p) (concat (map path_names ?ps))"
    using normal_names_join [of "p # ?ps" False] by (simp add: normal_names_def)
  with join_absolute [OF abs] p show ?thesis by (simp add: posix_join_def)
qed

lemma path_names_plain: "CHR ''/'' \<notin> set w \<Longrightarrow> path_names w = (if w = [] then [] else [w])"
  by (simp add: path_names_def split_slash_plain)

lemma posix_normalize_abs:
  assumes "posix_is_absolute p" "last p \<noteq> CHR ''/''"
  shows "posix_normalize p = abs_path (normal_names False p)"
proof -
  from assms(1) have "p \<noteq> []" by (auto simp: posix_is_absolute_def)
  with assms show ?thesis by (simp add: posix_normalize_def abs_path_def Let_def)
qed

lemma last_join_plain: "ws \<noteq> [] \<Longrightarrow> last ws \<noteq> [] \<Longrightarrow> last (join_slash ws) = last (last ws)"
proof (induction ws)
  case (Cons w ws)
  then show ?case
  proof (cases "ws = []")
    case False
    with Cons have "last (join_slash ws) = last (last ws)" "last ws \<noteq> []" by simp_all
    moreover have "join_slash ws \<noteq> []" using False \<open>last ws \<noteq> []\<close>
      by (cases ws) (auto simp: join_slash_Cons split: if_splits)
    ultimately show ?thesis using False by (simp add: join_slash_Cons)
  qed simp
qed simp

lemma posix_join_canonical:
  assumes p: "canonical_path p" and ws: "\<forall>w\<in>set ws. CHR ''/'' \<notin> set w"
  shows "canonical_path (posix_join (p # ws))"
proof (cases "filter (\<lambda>q. q \<noteq> []) ws = []")
  case True
  with p canonical_not_Nil [OF p] show ?thesis by (simp add: posix_join_def posix_normalize_canonical)
next
  case False
  let ?ws = "filter (\<lambda>q. q \<noteq> []) ws"
  have l: "last ?ws \<in> set ?ws" using False by (rule last_in_set)
  then have ne: "last ?ws \<noteq> []" "CHR ''/'' \<notin> set (last ?ws)" using ws by auto
  then have "last (last ?ws) \<noteq> CHR ''/''" by (metis last_in_set)
  with last_join_plain [of "p # ?ws"] False ne have "last (join_slash (p # ?ws)) \<noteq> CHR ''/''" by simp
  moreover have "posix_is_absolute (join_slash (p # ?ws))"
    using canonical_absolute [OF p] by (cases p) (simp_all add: join_slash_Cons posix_is_absolute_def)
  ultimately have "posix_join (p # ws) = abs_path (normal_names False (join_slash (p # ?ws)))"
    using canonical_not_Nil [OF p] posix_normalize_abs by (simp add: posix_join_def)
  then show ?thesis using normal_names_proper by simp
qed

lemma normal_names_absolute: "normal_names False p = foldl (norm_step False) [] (path_names p)"
  by (rule normal_names_names)

text \<open>A relative path whose names do not climb is appended.\<close>

lemma foldl_norm_descending:
  "''..'' \<notin> set ws \<Longrightarrow> foldl (norm_step b) acc ws = acc @ filter (\<lambda>w. w \<noteq> [] \<and> w \<noteq> ''.'') ws"
  by (induction ws arbitrary: acc) (auto simp: norm_step_def)

lemma proper_of_descending:
  "''..'' \<notin> set (path_names p) \<Longrightarrow> list_all proper_name (filter (\<lambda>w. w \<noteq> []  \<and> w \<noteq> ''.'') (path_names p))"
  using split_slash_no_slash by (fastforce simp: list_all_iff proper_name_def path_names_def)

lemma resolve_join_below:
  assumes p: "canonical_path p" and d: "''..'' \<notin> set (path_names d)"
  shows "path_names (posix_resolve cwd [posix_join [p, d]]) = path_names p @ filter (\<lambda>w. w \<noteq> [] \<and> w \<noteq> ''.'') (path_names d)"
proof -
  let ?ws = "filter (\<lambda>w. w \<noteq> [] \<and> w \<noteq> ''.'') (path_names d)"
  have names: "path_names (posix_join [p, d]) = path_names p @ ?ws"
    using posix_join_absolute [OF canonical_absolute [OF p], of "[d]"] foldl_norm_descending [OF d]
    by (cases "d = []") (simp_all add: normal_names_canonical p)
  have "posix_is_absolute (posix_join [p, d])"
    using posix_join_absolute [OF canonical_absolute [OF p], of "[d]"] by blast
  from resolve_absolute_names [OF this] have
    "path_names (posix_resolve cwd [posix_join [p, d]]) = foldl (norm_step False) [] (path_names p @ ?ws)"
    by (simp only: normal_names_absolute names)
  also have "\<dots> = path_names p @ ?ws"
    using foldl_norm_proper canonical_names [OF p] proper_of_descending [OF d]
    by (metis (no_types, lifting) append_Nil list_all_append)
  finally show ?thesis .
qed

lemma resolve_join_proper:
  assumes "canonical_path p" "list_all proper_name (path_names d)"
  shows "path_names (posix_resolve cwd [posix_join [p, d]]) = path_names p @ path_names d"
proof -
  have "''..'' \<notin> set (path_names d)" "filter (\<lambda>w. w \<noteq> [] \<and> w \<noteq> ''.'') (path_names d) = path_names d"
    using assms(2) by (auto simp: list_all_iff proper_name_def intro: filter_True)
  with resolve_join_below [OF assms(1)] show ?thesis by simp
qed

lemma join_slash_snoc: "join_slash (ws @ [x]) = (if ws = [] then x else join_slash ws @ CHR ''/'' # x)"
  by (induction ws rule: join_slash.induct) simp_all

text \<open>What follows the parent directory and a slash in the string of a path.\<close>

lemma drop_parent:
  "ws \<noteq> [] \<Longrightarrow> drop (Suc (length (abs_path (butlast ws)))) (abs_path ws) =
     (if butlast ws = [] then drop 1 (last ws) else last ws)"
  by (cases ws rule: rev_cases) (simp_all add: abs_path_def join_slash_snoc)

text \<open>The directory of a path, and a sibling whose name is longer.\<close>

lemma canonical_snoc:
  assumes "canonical_path p" "path_names p \<noteq> []"
  obtains ws x where "path_names p = ws @ [x]" "p = CHR ''/'' # join_slash (ws @ [x])" "list_all proper_name ws"
    "proper_name x"
proof -
  obtain ws x where ws: "path_names p = ws @ [x]" using assms(2) by (cases "path_names p" rule: rev_cases) auto
  with canonical_pathD [OF assms(1)] canonical_names [OF assms(1)] that show thesis by (simp add: abs_path_def)
qed

lemma dirname_canonical:
  assumes "canonical_path p" "path_names p \<noteq> []"
  shows "posix_dirname p = abs_path (butlast (path_names p))"
proof -
  obtain ws x where ws: "path_names p = ws @ [x]" "p = CHR ''/'' # join_slash (ws @ [x])" "list_all proper_name ws"
    "proper_name x"
    by (rule canonical_snoc [OF assms])
  then have x: "rev x \<noteq> []" "CHR ''/'' \<notin> set (rev x)" by (simp_all add: proper_name_def)
  then have skip: "dropWhile (\<lambda>c. c = CHR ''/'') (rev x @ ys) = rev x @ ys" for ys by (cases "rev x") auto
  have stop: "dropWhile (\<lambda>c. c \<noteq> CHR ''/'') (rev x @ ys) = dropWhile (\<lambda>c. c \<noteq> CHR ''/'') ys" for ys
    by (rule dropWhile_append2) (use x(2) in auto)
  show ?thesis
  proof (cases "ws = []")
    case True
    moreover have "dropWhile (\<lambda>c. c \<noteq> CHR ''/'') (rev x) = []"
      using stop [of "[]"] by (simp only: append_Nil2 dropWhile.simps)
    ultimately show ?thesis
      using skip [of "[]"] ws(1,2) by (simp add: posix_dirname_def abs_path_def del: dropWhile_eq_Nil_conv)
  next
    case False
    with last_join_slash [OF False ws(3)] have "join_slash ws \<noteq> []" by simp
    with skip stop ws False show ?thesis by (simp add: posix_dirname_def abs_path_def join_slash_snoc)
  qed
qed

lemma sibling_canonical:
  assumes "canonical_path p" "path_names p \<noteq> []" "CHR ''/'' \<notin> set tail" "3 \<le> length tail"
  shows "canonical_path (p @ tail)"
    "path_names (p @ tail) = butlast (path_names p) @ [last (path_names p) @ tail]"
proof -
  obtain ws x where ws: "path_names p = ws @ [x]" "p = CHR ''/'' # join_slash (ws @ [x])" "list_all proper_name ws"
    "proper_name x"
    by (rule canonical_snoc [OF assms(1,2)])
  have "proper_name (x @ tail)"
    using ws(4) assms(3,4) by (auto simp: proper_name_def dest!: arg_cong [where f = length])
  with ws(3) have proper: "list_all proper_name (ws @ [x @ tail])" by simp
  have "p @ tail = abs_path (ws @ [x @ tail])" unfolding ws(2) by (simp add: abs_path_def join_slash_snoc)
  with proper ws(1) show "canonical_path (p @ tail)"
    "path_names (p @ tail) = butlast (path_names p) @ [last (path_names p) @ tail]"
    using canonical_abs [OF proper] path_names_abs [OF proper] by simp_all
qed

end
