(* ===== verification/Workspace.thy ===== *)
theory Workspace
  imports Posix_Paths
begin

text \<open>
  The workspaces of the agent (\<^verbatim>\<open>apps/agent/src/workspace.ts\<close>): which paths a tool may touch.
  The file system is a parameter: \<open>fs n\<close> is what the \<open>n\<close>-th call of the operating system sees, so
  that other processes may change it between any two calls. A result carries the number of calls
  made so far.
\<close>

section \<open>Data\<close>

datatype tool_error =
  InvalidInput
| WorkspaceNotFound
| PathNotFound
| PathOutsideWorkspace
| PermissionDenied
| AlreadyExists
| ToolTimeout
| OutputLimitExceeded
| ProcessFailed
| InternalError

datatype workspace_capability = CapRead | CapWrite | CapDelete | CapExecute

record workspace_capabilities =
  wcap_read :: bool
  wcap_write :: bool
  wcap_delete :: bool
  wcap_execute :: bool

fun capability_enabled :: "workspace_capabilities \<Rightarrow> workspace_capability \<Rightarrow> bool" where
  "capability_enabled cs CapRead = wcap_read cs"
| "capability_enabled cs CapWrite = wcap_write cs"
| "capability_enabled cs CapDelete = wcap_delete cs"
| "capability_enabled cs CapExecute = wcap_execute cs"

text \<open>The capabilities of a configuration are optional flags; a missing one is not granted.\<close>

record workspace_config =
  wc_id :: string
  wc_name :: string
  wc_root :: string
  wc_read :: "bool option"
  wc_write :: "bool option"
  wc_delete :: "bool option"
  wc_execute :: "bool option"
  wc_deny :: "string list option"

record workspace_metadata =
  wm_id :: string
  wm_name :: string
  wm_root :: string
  wm_capabilities :: workspace_capabilities
  wm_deny :: "string list"

text \<open>What one call sees: \<^verbatim>\<open>realpath\<close> and \<^verbatim>\<open>lstat(p).isSymbolicLink()\<close>; \<^verbatim>\<open>None\<close> is a thrown error.\<close>

record fs_view =
  fs_realpath :: "string \<Rightarrow> string option"
  fs_is_symlink :: "string \<Rightarrow> bool option"

section \<open>Paths\<close>

definition is_path_inside :: "string \<Rightarrow> string \<Rightarrow> string \<Rightarrow> bool" where
  "is_path_inside cwd wsRoot target =
     (let child = posix_relative cwd wsRoot target in
      child = [] \<or> child \<noteq> ''..'' \<and> \<not> prefix ''../'' child \<and> \<not> posix_is_absolute child)"

definition is_win_separator :: "char \<Rightarrow> bool" where
  "is_win_separator c \<longleftrightarrow> c = CHR ''/'' \<or> c = CHR 0x5C"

definition is_drive_letter :: "char \<Rightarrow> bool" where
  "is_drive_letter c \<longleftrightarrow> (let k = of_char c :: nat in 65 \<le> k \<and> k \<le> 90 \<or> 97 \<le> k \<and> k \<le> 122)"

text \<open>\<^verbatim>\<open>win32.isAbsolute\<close>.\<close>

definition win32_is_absolute :: "string \<Rightarrow> bool" where
  "win32_is_absolute p =
     (case p of
        [] \<Rightarrow> False
      | c # r \<Rightarrow> is_win_separator c \<or>
          is_drive_letter c \<and> (case r of d # e # _ \<Rightarrow> d = CHR '':'' \<and> is_win_separator e | _ \<Rightarrow> False))"

definition reject_unsafe_relative_path :: "string \<Rightarrow> (tool_error, unit) result" where
  "reject_unsafe_relative_path p =
     (if p = [] \<or> posix_is_absolute p \<or> win32_is_absolute p then Inl PathOutsideWorkspace
      else
        let segments = split_slash (map (\<lambda>c. if c = CHR 0x5C then CHR ''/'' else c) p) in
        if list_ex (\<lambda>w. w = ''..'') segments then Inl PathOutsideWorkspace else Inr ())"

definition canonicalize_root :: "string \<Rightarrow> (nat \<Rightarrow> fs_view) \<Rightarrow> string \<Rightarrow> nat \<Rightarrow> (nat, tool_error, string) outcome" where
  "canonicalize_root cwd fs wsRoot n =
     (Suc n, require PathNotFound (fs_realpath (fs n) (posix_resolve cwd [wsRoot])))"

text \<open>
  The loop of \<^verbatim>\<open>canonicalizeTarget\<close>: walk up to the nearest entry that resolves; \<open>missing\<close> holds the
  names walked over, the outermost first.
\<close>

function existing_ancestor ::
  "string \<Rightarrow> (nat \<Rightarrow> fs_view) \<Rightarrow> string \<Rightarrow> string \<Rightarrow> string list \<Rightarrow> nat \<Rightarrow> (nat, tool_error, string) outcome" where
  "existing_ancestor cwd fs wsRoot candidate missing n =
     (case fs_realpath (fs n) candidate of
        Some existing \<Rightarrow> (Suc n, Inr (posix_join (existing # missing)))
      | None \<Rightarrow>
          let parent = posix_resolve cwd [candidate, ''..''] in
          if parent = candidate \<or> \<not> is_path_inside cwd wsRoot parent then (Suc n, Inl PathOutsideWorkspace)
          else existing_ancestor cwd fs wsRoot parent (drop (Suc (length parent)) candidate # missing) (Suc n))"
  by pat_completeness auto

definition climb_rank :: "string \<Rightarrow> string \<Rightarrow> nat" where
  "climb_rank cwd p = length (path_names (posix_resolve cwd [p])) + (if canonical_path p then 0 else 1)"

lemma climb_decreases:
  assumes "posix_resolve cwd [p, ''..''] \<noteq> p"
  shows "climb_rank cwd (posix_resolve cwd [p, ''..'']) < climb_rank cwd p"
proof -
  let ?q = "posix_resolve cwd [p, ''..'']" and ?ws = "path_names (posix_resolve cwd [p])"
  have q: "?q = abs_path (butlast ?ws)" by (rule resolve_parent)
  have proper: "list_all proper_name ?ws" by (simp add: normal_names_proper)
  have names: "path_names ?q = butlast ?ws" unfolding q by (rule path_names_abs [OF proper_butlast [OF proper]])
  have rank: "climb_rank cwd ?q = length (butlast ?ws)"
    unfolding climb_rank_def resolve_id [OF resolve_canonical] names by simp
  show ?thesis
  proof (cases "canonical_path p")
    case True
    then have "?ws = path_names p" by (simp only: resolve_id)
    moreover have "?ws \<noteq> []"
    proof
      assume "?ws = []"
      with True q have "?q = p" by (metis butlast.simps(1) canonical_pathD calculation)
      with assms show False by simp
    qed
    ultimately show ?thesis unfolding rank using True by (simp add: climb_rank_def del: resolve_names)
  next
    case False
    then show ?thesis unfolding rank by (simp add: climb_rank_def del: resolve_names)
  qed
qed

termination existing_ancestor
  by (relation "measure (\<lambda>(cwd, fs, wsRoot, p, missing, n). climb_rank cwd p)") (use climb_decreases in auto)

declare existing_ancestor.simps [simp del]

definition canonicalize_target ::
  "string \<Rightarrow> (nat \<Rightarrow> fs_view) \<Rightarrow> string \<Rightarrow> string \<Rightarrow> nat \<Rightarrow> (nat, tool_error, string \<times> bool) outcome" where
  "canonicalize_target cwd fs wsRoot operationPath n =
     (case fs_realpath (fs n) operationPath of
        Some p \<Rightarrow> (Suc n, Inr (p, True))
      | None \<Rightarrow> then_with (existing_ancestor cwd fs wsRoot operationPath [] (Suc n)) (\<lambda>n p. (n, Inr (p, False))))"

section \<open>The registry\<close>

fun canonical_denies ::
  "string \<Rightarrow> (nat \<Rightarrow> fs_view) \<Rightarrow> string \<Rightarrow> string list \<Rightarrow> nat \<Rightarrow> (nat, tool_error, string list) outcome" where
  "canonical_denies cwd fs wsRoot [] n = (n, Inr [])"
| "canonical_denies cwd fs wsRoot (d # ds) n =
     try_with n (reject_unsafe_relative_path d) (\<lambda>_.
     then_with (canonicalize_target cwd fs wsRoot (posix_join [wsRoot, d]) n) (\<lambda>n (p, _).
     try_with n (ensure PathOutsideWorkspace (is_path_inside cwd wsRoot p)) (\<lambda>_.
     then_with (canonical_denies cwd fs wsRoot ds n) (\<lambda>n rest. (n, Inr (posix_relative cwd wsRoot p # rest))))))"

definition granted :: "workspace_config \<Rightarrow> workspace_capabilities" where
  "granted c =
     \<lparr>wcap_read = (wc_read c = Some True), wcap_write = (wc_write c = Some True),
      wcap_delete = (wc_delete c = Some True), wcap_execute = (wc_execute c = Some True)\<rparr>"

fun create_workspaces ::
  "string \<Rightarrow> (nat \<Rightarrow> fs_view) \<Rightarrow> string list \<Rightarrow> workspace_config list \<Rightarrow> nat
   \<Rightarrow> (nat, tool_error, workspace_metadata list) outcome" where
  "create_workspaces cwd fs ids [] n = (n, Inr [])"
| "create_workspaces cwd fs ids (c # cs) n =
     try_with n (ensure InvalidInput (wc_id c \<noteq> [] \<and> wc_id c \<notin> set ids \<and> wc_name c \<noteq> [])) (\<lambda>_.
     then_with (canonicalize_root cwd fs (wc_root c) n) (\<lambda>n rootPath.
     then_with (canonical_denies cwd fs rootPath (case wc_deny c of None \<Rightarrow> [] | Some ds \<Rightarrow> ds) n) (\<lambda>n denied.
     then_with (create_workspaces cwd fs (wc_id c # ids) cs n) (\<lambda>n rest.
       (n, Inr (\<lparr>wm_id = wc_id c, wm_name = wc_name c, wm_root = rootPath, wm_capabilities = granted c,
                 wm_deny = denied\<rparr> # rest))))))"

fun roots_overlap :: "string \<Rightarrow> workspace_metadata list \<Rightarrow> bool" where
  "roots_overlap cwd [] \<longleftrightarrow> False"
| "roots_overlap cwd (w # ws) \<longleftrightarrow>
     list_ex (\<lambda>v. is_path_inside cwd (wm_root w) (wm_root v) \<or> is_path_inside cwd (wm_root v) (wm_root w)) ws \<or>
     roots_overlap cwd ws"

definition create_registry ::
  "string \<Rightarrow> (nat \<Rightarrow> fs_view) \<Rightarrow> workspace_config list \<Rightarrow> nat \<Rightarrow> (nat, tool_error, workspace_metadata list) outcome" where
  "create_registry cwd fs configs n =
     then_with (create_workspaces cwd fs [] configs n) (\<lambda>n W.
     try_with n (ensure InvalidInput (\<not> roots_overlap cwd W)) (\<lambda>_. (n, Inr W)))"

definition registry_get :: "workspace_metadata list \<Rightarrow> string \<Rightarrow> workspace_metadata option" where
  "registry_get W i = find (\<lambda>w. wm_id w = i) W"

section \<open>The resolver\<close>

record resolved_path =
  rp_workspace :: workspace_metadata
  rp_operationPath :: string
  rp_canonicalPath :: string
  rp_exists :: bool

definition path_denied :: "string \<Rightarrow> workspace_metadata \<Rightarrow> bool \<Rightarrow> string \<Rightarrow> string \<Rightarrow> bool" where
  "path_denied cwd w deleting operationPath canonicalPath =
     list_ex (\<lambda>d. let full = posix_join [wm_root w, d] in
       is_path_inside cwd full operationPath \<or> is_path_inside cwd full canonicalPath \<or>
       deleting \<and> is_path_inside cwd operationPath full \<or>
       deleting \<and> is_path_inside cwd canonicalPath full) (wm_deny w)"

text \<open>Is the final entry a symbolic link? Asked only for a deletion.\<close>

definition final_entry_is_symlink ::
  "(nat \<Rightarrow> fs_view) \<Rightarrow> workspace_capability option \<Rightarrow> string \<Rightarrow> nat \<Rightarrow> nat \<times> bool" where
  "final_entry_is_symlink fs cap operationPath n =
     (if cap = Some CapDelete then (Suc n, fs_is_symlink (fs n) operationPath = Some True) else (n, False))"

definition parent_inside_workspace ::
  "string \<Rightarrow> (nat \<Rightarrow> fs_view) \<Rightarrow> string \<Rightarrow> bool \<Rightarrow> string \<Rightarrow> nat \<Rightarrow> nat \<times> bool" where
  "parent_inside_workspace cwd fs wsRoot symlink operationPath n =
     (if symlink
      then (Suc n, case fs_realpath (fs n) (posix_dirname operationPath) of
                     None \<Rightarrow> False
                   | Some p \<Rightarrow> is_path_inside cwd wsRoot p)
      else (n, False))"

definition resolve_workspace_path ::
  "string \<Rightarrow> (nat \<Rightarrow> fs_view) \<Rightarrow> workspace_metadata list \<Rightarrow> string \<Rightarrow> string \<Rightarrow> workspace_capability option \<Rightarrow> nat
   \<Rightarrow> (nat, tool_error, resolved_path) outcome" where
  "resolve_workspace_path cwd fs W workspaceId path cap n =
     try_with n (require WorkspaceNotFound (registry_get W workspaceId)) (\<lambda>w.
     try_with n (reject_unsafe_relative_path path) (\<lambda>_.
       let operationPath = posix_resolve cwd [posix_join [wm_root w, path]];
           (n, symlink) = final_entry_is_symlink fs cap operationPath n in
       then_with (canonicalize_target cwd fs (wm_root w) operationPath n) (\<lambda>n (canonicalPath, found).
       let inside = is_path_inside cwd (wm_root w) canonicalPath;
           (n, parentInside) = parent_inside_workspace cwd fs (wm_root w) symlink operationPath n in
       try_with n (ensure PathOutsideWorkspace (inside \<or> cap = Some CapDelete \<and> symlink \<and> parentInside)) (\<lambda>_.
       try_with n (ensure PermissionDenied (\<not> (cap = Some CapDelete \<and> operationPath = wm_root w))) (\<lambda>_.
       try_with n (ensure PermissionDenied
                     (\<not> path_denied cwd w (cap = Some CapDelete) operationPath canonicalPath)) (\<lambda>_.
       try_with n (ensure PermissionDenied
                     (case cap of None \<Rightarrow> True | Some c \<Rightarrow> capability_enabled (wm_capabilities w) c)) (\<lambda>_.
         (n, Inr \<lparr>rp_workspace = w, rp_operationPath = operationPath, rp_canonicalPath = canonicalPath,
                  rp_exists = (found \<or> symlink)\<rparr>))))))))"

text \<open>\<^verbatim>\<open>PermissionChecker\<close>: \<^verbatim>\<open>assertPath\<close> is the resolver with a capability.\<close>

definition assert_workspace ::
  "workspace_metadata list \<Rightarrow> string \<Rightarrow> workspace_capability \<Rightarrow> (tool_error, workspace_metadata) result" where
  "assert_workspace W workspaceId cap =
     bind_result (require WorkspaceNotFound (registry_get W workspaceId)) (\<lambda>w.
     bind_result (ensure PermissionDenied (capability_enabled (wm_capabilities w) cap)) (\<lambda>_. Inr w))"

datatype workspace_input = ListWorkspaces | GetWorkspace string
datatype workspace_output = AllWorkspaces "workspace_metadata list" | OneWorkspace workspace_metadata

definition workspace_tool ::
  "workspace_metadata list \<Rightarrow> workspace_input \<Rightarrow> (tool_error, workspace_output) result" where
  "workspace_tool W i =
     (case i of
        ListWorkspaces \<Rightarrow> Inr (AllWorkspaces W)
      | GetWorkspace k \<Rightarrow>
          bind_result (require WorkspaceNotFound (registry_get W k)) (\<lambda>w. Inr (OneWorkspace w)))"

section \<open>Containment of paths\<close>

lemma is_path_inside_iff:
  "is_path_inside cwd wsRoot target \<longleftrightarrow>
   prefix (path_names (posix_resolve cwd [wsRoot])) (path_names (posix_resolve cwd [target]))"
proof -
  let ?r = "path_names (posix_resolve cwd [wsRoot])" and ?t = "path_names (posix_resolve cwd [target])"
  obtain up down where d: "drop_common ?r ?t = (up, down)" by (cases "drop_common ?r ?t")
  have child: "posix_relative cwd wsRoot target = join_slash (replicate (length up) ''..'' @ down)"
    using d by (simp add: posix_relative_names del: resolve_names)
  have up: "up = [] \<longleftrightarrow> prefix ?r ?t" using drop_common_prefix [of ?r ?t] d by simp
  show ?thesis
  proof (cases "up = []")
    case False
    then obtain u us where "up = u # us" by (cases up) auto
    with join_up [of "replicate (length us) ''..'' @ down"] child False up show ?thesis
      by (auto simp: is_path_inside_def Let_def join_slash_Cons simp del: resolve_names)
  next
    case True
    have proper: "list_all proper_name ?t" by (simp add: normal_names_proper)
    from True up d have "down = drop (length ?r) ?t" by (simp add: drop_common_inside del: resolve_names)
    with proper have "list_all proper_name down" by (auto simp: list_all_iff dest: in_set_dropD)
    with True up child show ?thesis
      by (cases down)
        (simp_all add: is_path_inside_def Let_def join_proper_forward del: resolve_names join_slash.simps(3))
  qed
qed

text \<open>C35: The containment check of the agent is exact. It compares strings that \<^verbatim>\<open>path.relative\<close> made,
  and its answer is that the target is the directory or lies below it: after both are resolved the
  names of the directory are a prefix of the names of the target, whatever the names are, such as
  names that begin with two dots.\<close>

theorem path_inside_is_prefix:
  "is_path_inside cwd wsRoot target \<longleftrightarrow>
   prefix (path_names (posix_resolve cwd [wsRoot])) (path_names (posix_resolve cwd [target]))"
  by (rule is_path_inside_iff)

lemma inside_canonical:
  assumes "canonical_path p" "canonical_path q"
  shows "is_path_inside cwd p q \<longleftrightarrow> prefix (path_names p) (path_names q)"
  unfolding is_path_inside_iff by (simp only: resolve_id assms)

lemma relative_names_proper:
  assumes "is_path_inside cwd p q"
  shows "list_all proper_name (path_names (posix_relative cwd p q))"
proof -
  let ?r = "path_names (posix_resolve cwd [p])" and ?t = "path_names (posix_resolve cwd [q])"
  have "list_all proper_name ?t" by (simp add: normal_names_proper)
  then have proper: "list_all proper_name (drop (length ?r) ?t)" by (auto simp: list_all_iff dest: in_set_dropD)
  from assms have "drop_common ?r ?t = ([], drop (length ?r) ?t)"
    by (simp add: is_path_inside_iff drop_common_inside del: resolve_names)
  then have "posix_relative cwd p q = join_slash (drop (length ?r) ?t)"
    by (simp add: posix_relative_names del: resolve_names)
  with path_names_join [OF proper] proper show ?thesis by simp
qed

section \<open>What the registry guarantees\<close>

text \<open>\<^verbatim>\<open>realpath\<close> gives an absolute path without empty, dot or dot-dot names.\<close>

definition realpath_canonical :: "(nat \<Rightarrow> fs_view) \<Rightarrow> bool" where
  "realpath_canonical fs \<longleftrightarrow> (\<forall>n p q. fs_realpath (fs n) p = Some q \<longrightarrow> canonical_path q)"

lemma realpath_canonicalD: "realpath_canonical fs \<Longrightarrow> fs_realpath (fs n) p = Some q \<Longrightarrow> canonical_path q"
  by (auto simp: realpath_canonical_def)

definition metadata_ok :: "workspace_metadata \<Rightarrow> bool" where
  "metadata_ok w \<longleftrightarrow> canonical_path (wm_root w) \<and> (\<forall>d\<in>set (wm_deny w). list_all proper_name (path_names d))"

lemma canonical_denies_proper:
  "canonical_denies cwd fs wsRoot ds n = (m, Inr es) \<Longrightarrow> e \<in> set es \<Longrightarrow> list_all proper_name (path_names e)"
proof (induction ds arbitrary: n es)
  case (Cons d ds)
  from Cons.prems(1) obtain k p rest where
    inside: "is_path_inside cwd wsRoot p" and rest: "canonical_denies cwd fs wsRoot ds k = (m, Inr rest)"
    and es: "es = posix_relative cwd wsRoot p # rest"
    by (auto simp: then_with_Inr split: try_splits)
  from Cons.prems(2) es Cons.IH [OF rest] relative_names_proper [OF inside] show ?case by auto
qed simp

lemma create_workspaces_ok:
  assumes fs: "realpath_canonical fs"
  shows "create_workspaces cwd fs ids cs n = (m, Inr W) \<Longrightarrow>
    (\<forall>w\<in>set W. metadata_ok w) \<and> distinct (map wm_id W) \<and> set (map wm_id W) \<inter> set ids = {} \<and> list_all (\<lambda>w. wm_id w \<noteq> []) W"
proof (induction cs arbitrary: ids n W)
  case (Cons c cs)
  from Cons.prems obtain r k1 denied k2 rest where
    new: "wc_id c \<noteq> []" "wc_id c \<notin> set ids" and
    r: "canonicalize_root cwd fs (wc_root c) n = (k1, Inr r)" and
    d: "canonical_denies cwd fs r (case wc_deny c of None \<Rightarrow> [] | Some ds \<Rightarrow> ds) k1 = (k2, Inr denied)" and
    rest: "create_workspaces cwd fs (wc_id c # ids) cs k2 = (m, Inr rest)" and
    W: "W = \<lparr>wm_id = wc_id c, wm_name = wc_name c, wm_root = r, wm_capabilities = granted c, wm_deny = denied\<rparr> # rest"
    by (auto simp: then_with_Inr split: try_splits)
  have "canonical_path r" using r realpath_canonicalD [OF fs] by (auto simp: canonicalize_root_def)
  with canonical_denies_proper [OF d] have "metadata_ok (hd W)" by (simp add: W metadata_ok_def)
  with Cons.IH [OF rest] new W show ?case by auto
qed simp

lemma roots_overlap_pairs:
  "\<not> roots_overlap cwd W \<Longrightarrow> i < j \<Longrightarrow> j < length W \<Longrightarrow>
   \<not> is_path_inside cwd (wm_root (W ! i)) (wm_root (W ! j)) \<and> \<not> is_path_inside cwd (wm_root (W ! j)) (wm_root (W ! i))"
proof (induction W arbitrary: i j)
  case (Cons w ws)
  then show ?case by (cases i; cases j) (auto simp: list_ex_iff)
qed simp

lemma create_registry_ok:
  assumes "realpath_canonical fs" "create_registry cwd fs configs n = (m, Inr W)"
  shows "\<forall>w\<in>set W. metadata_ok w" "distinct (map wm_id W)" "\<not> roots_overlap cwd W"
  using assms(2) create_workspaces_ok [OF assms(1)]
  by (auto simp: create_registry_def then_with_Inr split: try_splits)

text \<open>A registry that was created has no two workspaces with one id, and no path lies in two of
  them: the root of no workspace is at or below the root of another one. So a path is governed by
  the capabilities and the deny list of one workspace only.\<close>

theorem registry_workspaces_disjoint:
  assumes "realpath_canonical fs" and "create_registry cwd fs configs n = (m, Inr W)"
    and "v \<in> set W" and "w \<in> set W" and "canonical_path p"
    and "is_path_inside cwd (wm_root v) p" and "is_path_inside cwd (wm_root w) p"
  shows "v = w \<and> registry_get W (wm_id v) = Some v"
proof -
  note ok = create_registry_ok [OF assms(1,2)]
  have canonical: "canonical_path (wm_root v)" "canonical_path (wm_root w)"
    using ok(1) assms(3,4) by (auto simp: metadata_ok_def)
  obtain i j where ij: "i < length W" "W ! i = v" "j < length W" "W ! j = w"
    using assms(3,4) by (metis in_set_conv_nth)
  have "prefix (path_names (wm_root v)) (path_names p)" "prefix (path_names (wm_root w)) (path_names p)"
    using assms(5-7) canonical by (simp_all add: inside_canonical)
  from prefix_same_cases [OF this] have
    "is_path_inside cwd (wm_root v) (wm_root w) \<or> is_path_inside cwd (wm_root w) (wm_root v)"
    using canonical by (simp add: inside_canonical)
  with roots_overlap_pairs [OF ok(3), of i j] roots_overlap_pairs [OF ok(3), of j i] ij have eq: "i = j"
    by (metis linorder_neqE_nat)
  have "registry_get W (wm_id v) = Some v"
  proof -
    have "\<exists>k<length W. W ! k = u \<and> wm_id u = wm_id v" if "find (\<lambda>w. wm_id w = wm_id v) W = Some u" for u
      using that by (auto simp: find_Some_iff)
    moreover have "find (\<lambda>w. wm_id w = wm_id v) W \<noteq> None"
      using assms(3) by (auto simp: find_None_iff)
    moreover have "u = v" if "u \<in> set W" "wm_id u = wm_id v" for u
      using ok(2) that assms(3) by (auto simp: distinct_map dest: inj_onD)
    ultimately show ?thesis unfolding registry_get_def by (metis not_Some_eq nth_mem)
  qed
  with eq ij show ?thesis by auto
qed

section \<open>Resolving a target\<close>

lemma parent_canonical:
  assumes "canonical_path p" "posix_resolve cwd [p, ''..''] \<noteq> p"
  shows "path_names p \<noteq> []" "posix_resolve cwd [p, ''..''] = abs_path (butlast (path_names p))"
    "drop (Suc (length (posix_resolve cwd [p, ''..'']))) p =
       (if butlast (path_names p) = [] then drop 1 (last (path_names p)) else last (path_names p))"
proof -
  show q: "posix_resolve cwd [p, ''..''] = abs_path (butlast (path_names p))"
    by (rule resolve_parent_canonical [OF assms(1)])
  show ne: "path_names p \<noteq> []"
  proof
    assume "path_names p = []"
    with q have "posix_resolve cwd [p, ''..''] = abs_path (path_names p)" by simp
    with assms(2) canonical_pathD [OF assms(1)] show False by simp
  qed
  show "drop (Suc (length (posix_resolve cwd [p, ''..'']))) p =
       (if butlast (path_names p) = [] then drop 1 (last (path_names p)) else last (path_names p))"
    using drop_parent [OF ne] canonical_pathD [OF assms(1)] unfolding q by simp
qed

lemma missing_name_plain:
  assumes "canonical_path p" "posix_resolve cwd [p, ''..''] \<noteq> p"
  shows "CHR ''/'' \<notin> set (drop (Suc (length (posix_resolve cwd [p, ''..'']))) p)"
proof -
  have "last (path_names p) \<in> set (path_names p)" using parent_canonical(1) [OF assms] by simp
  then have "CHR ''/'' \<notin> set (last (path_names p))"
    using canonical_names [OF assms(1)] by (auto simp: list_all_iff proper_name_def)
  then show ?thesis unfolding parent_canonical(3) [OF assms] by (auto dest: in_set_dropD)
qed

lemma existing_ancestor_canonical:
  "realpath_canonical fs \<Longrightarrow> canonical_path p \<Longrightarrow> \<forall>w\<in>set missing. CHR ''/'' \<notin> set w \<Longrightarrow>
    existing_ancestor cwd fs wsRoot p missing n = (m, Inr q) \<Longrightarrow> canonical_path q"
proof (induction cwd fs wsRoot p missing n rule: existing_ancestor.induct)
  case (1 cwd fs wsRoot p missing n)
  show ?case
  proof (cases "fs_realpath (fs n) p")
    case (Some e)
    with 1 have "q = posix_join (e # missing)" by (simp add: existing_ancestor.simps [of _ _ _ p])
    with posix_join_canonical [OF realpath_canonicalD [OF 1(2) Some] 1(4)] show ?thesis by simp
  next
    case None
    let ?parent = "posix_resolve cwd [p, ''..'']" and ?name = "drop (Suc (length (posix_resolve cwd [p, ''..'']))) p"
    from 1(5) None have up: "?parent \<noteq> p" "is_path_inside cwd wsRoot ?parent"
      "existing_ancestor cwd fs wsRoot ?parent (?name # missing) (Suc n) = (m, Inr q)"
      by (auto simp: existing_ancestor.simps [of _ _ _ p] Let_def split: if_splits)
    have "\<forall>w\<in>set (?name # missing). CHR ''/'' \<notin> set w"
      using missing_name_plain [OF 1(3) up(1)] 1(4) by simp
    from 1(1) [OF None refl _ 1(2) resolve_canonical this up(3)] up(1,2) show ?thesis by blast
  qed
qed

text \<open>
  What a path denotes: the real path of its nearest ancestor that has one (the path itself, if it
  exists), followed by the names below that ancestor, none of which exist. Directly below \<^verbatim>\<open>/\<close> the
  code loses the first character of a missing name.
\<close>

fun missing_below :: "string \<Rightarrow> string list \<Rightarrow> string list" where
  "missing_below a [] = []"
| "missing_below a (w # ws) = (if path_names a = [] then drop 1 w else w) # ws"

definition resolves_to :: "(nat \<Rightarrow> fs_view) \<Rightarrow> string \<Rightarrow> string \<Rightarrow> bool" where
  "resolves_to fs p q \<longleftrightarrow>
     (\<exists>k a e ws. canonical_path a \<and> path_names p = path_names a @ ws \<and> fs_realpath (fs k) a = Some e \<and>
        (\<forall>j. length (path_names a) < j \<and> j \<le> length (path_names p) \<longrightarrow>
             (\<exists>i. fs_realpath (fs i) (abs_path (take j (path_names p))) = None)) \<and>
        q = posix_join (e # missing_below a ws))"

lemma missing_below_snoc:
  "missing_below a (ws @ [w]) =
     missing_below a ws @ [if path_names a @ ws = [] then drop 1 w else w]"
  by (cases ws) auto

lemma existing_ancestor_found:
  "canonical_path p \<Longrightarrow> existing_ancestor cwd fs wsRoot p missing n = (m, Inr q) \<Longrightarrow>
   \<exists>k a e ws. canonical_path a \<and> path_names p = path_names a @ ws \<and> fs_realpath (fs k) a = Some e \<and>
     (\<forall>j. length (path_names a) < j \<and> j \<le> length (path_names p) \<longrightarrow>
          (\<exists>i. fs_realpath (fs i) (abs_path (take j (path_names p))) = None)) \<and>
     q = posix_join (e # missing_below a ws @ missing)"
proof (induction cwd fs wsRoot p missing n rule: existing_ancestor.induct)
  case (1 cwd fs wsRoot p missing n)
  show ?case
  proof (cases "fs_realpath (fs n) p")
    case (Some e)
    with 1 have "q = posix_join (e # missing)" by (simp add: existing_ancestor.simps [of _ _ _ p])
    with Some 1(2) show ?thesis
      by - (rule exI [of _ n], rule exI [of _ p], rule exI [of _ e], rule exI [of _ "[]"], auto)
  next
    case None
    let ?parent = "posix_resolve cwd [p, ''..'']" and ?name = "drop (Suc (length (posix_resolve cwd [p, ''..'']))) p"
    from 1(3) None have up: "?parent \<noteq> p" "is_path_inside cwd wsRoot ?parent"
      "existing_ancestor cwd fs wsRoot ?parent (?name # missing) (Suc n) = (m, Inr q)"
      by (auto simp: existing_ancestor.simps [of _ _ _ p] Let_def split: if_splits)
    note parent = parent_canonical [OF 1(2) up(1)]
    have names: "path_names ?parent = butlast (path_names p)"
      unfolding parent(2) by (rule path_names_abs [OF proper_butlast [OF canonical_names [OF 1(2)]]])
    from 1(1) [OF None refl _ resolve_canonical up(3)] up(1,2) obtain k a e ws where
      a: "canonical_path a" "butlast (path_names p) = path_names a @ ws" "fs_realpath (fs k) a = Some e" and
      gone: "\<And>j. length (path_names a) < j \<Longrightarrow> j \<le> length (butlast (path_names p)) \<Longrightarrow>
        \<exists>i. fs_realpath (fs i) (abs_path (take j (butlast (path_names p)))) = None" and
      q: "q = posix_join (e # missing_below a ws @ ?name # missing)"
      unfolding names by blast
    let ?ws = "ws @ [last (path_names p)]"
    have p: "path_names p = path_names a @ ?ws" using parent(1) a(2) by (metis append.assoc append_butlast_last_id)
    have "missing_below a ?ws @ missing = missing_below a ws @ ?name # missing"
      unfolding missing_below_snoc parent(3) a(2) by simp
    moreover have "\<exists>i. fs_realpath (fs i) (abs_path (take j (path_names p))) = None"
      if j: "length (path_names a) < j" "j \<le> length (path_names p)" for j
    proof (cases "j = length (path_names p)")
      case True
      with None canonical_pathD [OF 1(2)] show ?thesis by (metis take_all_iff order_refl)
    next
      case False
      with j(2) have "j < length (path_names p)" by simp
      with gone [OF j(1)] show ?thesis by (simp add: take_butlast)
    qed
    ultimately show ?thesis using a p q by - (rule exI [of _ k], rule exI [of _ a], rule exI [of _ e], rule exI [of _ ?ws], simp)
  qed
qed

lemma posix_join_single: "canonical_path p \<Longrightarrow> posix_join [p] = p"
  using canonical_not_Nil [of p] by (simp add: posix_join_def posix_normalize_canonical)

lemma canonicalize_target_resolves:
  assumes "realpath_canonical fs" "canonical_path p" "canonicalize_target cwd fs wsRoot p n = (m, Inr (q, b))"
  shows "resolves_to fs p q"
proof (cases "fs_realpath (fs n) p")
  case None
  with assms(3) have "existing_ancestor cwd fs wsRoot p [] (Suc n) = (m, Inr q)"
    by (auto simp: canonicalize_target_def then_with_Inr)
  from existing_ancestor_found [OF assms(2) this] show ?thesis unfolding resolves_to_def append_Nil2 .
next
  case (Some e)
  with assms(3) have "q = e" by (simp add: canonicalize_target_def)
  with Some assms(2) posix_join_single [OF realpath_canonicalD [OF assms(1) Some]] show ?thesis
    unfolding resolves_to_def
    by - (rule exI [of _ n], rule exI [of _ p], rule exI [of _ e], rule exI [of _ "[]"], auto)
qed

text \<open>How many calls the walk makes.\<close>

lemma existing_ancestor_calls:
  "fst (existing_ancestor cwd fs wsRoot p missing n) \<le> n + climb_rank cwd p + 1"
proof (induction cwd fs wsRoot p missing n rule: existing_ancestor.induct)
  case (1 cwd fs wsRoot p missing n)
  let ?parent = "posix_resolve cwd [p, ''..'']"
  show ?case
  proof (cases "fs_realpath (fs n) p = None \<and> ?parent \<noteq> p \<and> is_path_inside cwd wsRoot ?parent")
    case True
    then have "existing_ancestor cwd fs wsRoot p missing n =
        existing_ancestor cwd fs wsRoot ?parent (drop (Suc (length ?parent)) p # missing) (Suc n)"
      by (simp add: existing_ancestor.simps [of _ _ _ p] Let_def)
    moreover have "climb_rank cwd ?parent < climb_rank cwd p" using True by (intro climb_decreases) simp
    ultimately show ?thesis using 1 True by fastforce
  next
    case False
    then show ?thesis by (auto simp: existing_ancestor.simps [of _ _ _ p] Let_def split: option.split)
  qed
qed

text \<open>C36: Resolving a target always ends, however the file system changes meanwhile: the walk towards
  the root gives up names of the path one by one, so it makes at most three calls more than the
  path has names.\<close>

theorem canonicalize_target_terminates:
  "fst (canonicalize_target cwd fs wsRoot p n) \<le> n + length (path_names (posix_resolve cwd [p])) + 3"
proof (cases "fs_realpath (fs n) p")
  case None
  have "climb_rank cwd p \<le> length (path_names (posix_resolve cwd [p])) + 1"
    by (simp add: climb_rank_def del: resolve_names)
  with existing_ancestor_calls [of cwd fs wsRoot p "[]" "Suc n"] None show ?thesis
    by (cases "existing_ancestor cwd fs wsRoot p [] (Suc n)"; cases "snd (existing_ancestor cwd fs wsRoot p [] (Suc n))")
      (auto simp: canonicalize_target_def simp del: resolve_names)
qed (simp add: canonicalize_target_def del: resolve_names)

lemma canonicalize_target_canonical:
  assumes "realpath_canonical fs" "canonical_path p" "canonicalize_target cwd fs wsRoot p n = (m, Inr (q, b))"
  shows "canonical_path q"
proof (cases "fs_realpath (fs n) p")
  case None
  with assms(3) have "existing_ancestor cwd fs wsRoot p [] (Suc n) = (m, Inr q)"
    by (auto simp: canonicalize_target_def then_with_Inr)
  from existing_ancestor_canonical [OF assms(1,2) _ this] show ?thesis by simp
next
  case (Some e)
  with assms(3) realpath_canonicalD [OF assms(1) Some] show ?thesis by (simp add: canonicalize_target_def)
qed

section \<open>What the resolver lets through\<close>

lemma split_slash_map:
  assumes "f CHR ''/'' = CHR ''/''"
  shows "split_slash (map f p) = concat (map (\<lambda>w. split_slash (map f w)) (split_slash p))"
proof (induction p)
  case (Cons c p)
  obtain w ws where w: "split_slash p = w # ws" by (cases "split_slash p") auto
  show ?case
  proof (cases "c = CHR ''/''")
    case False
    obtain v vs where v: "split_slash (map f w) = v # vs" by (cases "split_slash (map f w)") auto
    with Cons w False show ?thesis by simp
  qed (use Cons assms in simp)
qed simp

lemma safe_relative_path:
  assumes "reject_unsafe_relative_path p = Inr u"
  shows "''..'' \<notin> set (path_names p)"
proof
  let ?f = "\<lambda>c. if c = CHR 0x5C then CHR ''/'' else c"
  assume "''..'' \<in> set (path_names p)"
  then have "''..'' \<in> set (split_slash p)" by (simp add: path_names_def)
  moreover have "split_slash (map ?f ''..'') = [''..'']" by simp
  ultimately have "''..'' \<in> set (split_slash (map ?f p))"
    by (subst split_slash_map) (force simp del: map_ident)+
  then show False
    using assms by (auto simp: reject_unsafe_relative_path_def list_ex_iff split: if_splits)
qed

text \<open>The branches of the resolver that succeed.\<close>

lemma resolve_workspace_path_Inr:
  assumes "resolve_workspace_path cwd fs W i path cap n = (n', Inr r)"
  obtains w n1 n2 symlink found parentInside where
    "registry_get W i = Some w" "reject_unsafe_relative_path path = Inr ()"
    "rp_workspace r = w" "rp_operationPath r = posix_resolve cwd [posix_join [wm_root w, path]]"
    "final_entry_is_symlink fs cap (rp_operationPath r) n = (n1, symlink)"
    "canonicalize_target cwd fs (wm_root w) (rp_operationPath r) n1 = (n2, Inr (rp_canonicalPath r, found))"
    "parent_inside_workspace cwd fs (wm_root w) symlink (rp_operationPath r) n2 = (n', parentInside)"
    "is_path_inside cwd (wm_root w) (rp_canonicalPath r) \<or> cap = Some CapDelete \<and> symlink \<and> parentInside"
    "\<not> (cap = Some CapDelete \<and> rp_operationPath r = wm_root w)"
    "\<not> path_denied cwd w (cap = Some CapDelete) (rp_operationPath r) (rp_canonicalPath r)"
    "case cap of None \<Rightarrow> True | Some c \<Rightarrow> capability_enabled (wm_capabilities w) c"
    "rp_exists r = (found \<or> symlink)"
proof -
  from assms obtain w where w: "registry_get W i = Some w" "reject_unsafe_relative_path path = Inr ()"
    by (auto simp: resolve_workspace_path_def try_with_Inr)
  let ?op = "posix_resolve cwd [posix_join [wm_root w, path]]"
  obtain n1 symlink where sym: "final_entry_is_symlink fs cap ?op n = (n1, symlink)"
    by (cases "final_entry_is_symlink fs cap ?op n")
  from assms obtain n2 q found where can: "canonicalize_target cwd fs (wm_root w) ?op n1 = (n2, Inr (q, found))"
    by (auto simp: resolve_workspace_path_def try_with_Inr then_with_Inr w sym Let_def)
  obtain n3 par where par: "parent_inside_workspace cwd fs (wm_root w) symlink ?op n2 = (n3, par)"
    by (cases "parent_inside_workspace cwd fs (wm_root w) symlink ?op n2")
  from assms have "n3 = n'" and
    "r = \<lparr>rp_workspace = w, rp_operationPath = ?op, rp_canonicalPath = q, rp_exists = (found \<or> symlink)\<rparr>" and
    "is_path_inside cwd (wm_root w) q \<or> cap = Some CapDelete \<and> symlink \<and> par"
    "\<not> (cap = Some CapDelete \<and> ?op = wm_root w)" "\<not> path_denied cwd w (cap = Some CapDelete) ?op q"
    "case cap of None \<Rightarrow> True | Some c \<Rightarrow> capability_enabled (wm_capabilities w) c"
    by (auto simp: resolve_workspace_path_def try_with_Inr w sym can par Let_def)
  with that [of w n1 symlink n2 found par] w sym can par show thesis by simp
qed

lemma registry_get_member: "registry_get W i = Some w \<Longrightarrow> w \<in> set W \<and> wm_id w = i"
  by (auto simp: registry_get_def find_Some_iff)

lemma not_denied:
  assumes "metadata_ok w" "canonical_path p" "canonical_path q" "\<not> path_denied cwd w deleting p q"
    and "d \<in> set (wm_deny w)"
  shows "\<not> prefix (path_names (wm_root w) @ path_names d) (path_names p)"
    "\<not> prefix (path_names (wm_root w) @ path_names d) (path_names q)"
    "deleting \<Longrightarrow> \<not> prefix (path_names p) (path_names (wm_root w) @ path_names d)"
    "deleting \<Longrightarrow> \<not> prefix (path_names q) (path_names (wm_root w) @ path_names d)"
proof -
  have full: "path_names (posix_resolve cwd [posix_join [wm_root w, d]]) = path_names (wm_root w) @ path_names d"
    using assms(1,5) by (intro resolve_join_proper) (auto simp: metadata_ok_def)
  have "\<not> is_path_inside cwd (posix_join [wm_root w, d]) p" "\<not> is_path_inside cwd (posix_join [wm_root w, d]) q"
    "deleting \<Longrightarrow> \<not> is_path_inside cwd p (posix_join [wm_root w, d])"
    "deleting \<Longrightarrow> \<not> is_path_inside cwd q (posix_join [wm_root w, d])"
    using assms(4,5) by (auto simp: path_denied_def list_ex_iff Let_def)
  then show "\<not> prefix (path_names (wm_root w) @ path_names d) (path_names p)"
    "\<not> prefix (path_names (wm_root w) @ path_names d) (path_names q)"
    "deleting \<Longrightarrow> \<not> prefix (path_names p) (path_names (wm_root w) @ path_names d)"
    "deleting \<Longrightarrow> \<not> prefix (path_names q) (path_names (wm_root w) @ path_names d)"
    unfolding is_path_inside_iff full resolve_id [OF assms(2)] resolve_id [OF assms(3)] by blast+
qed

text \<open>Names of a path that lies in a workspace and in none of its denied subtrees.\<close>

definition allowed_names :: "workspace_metadata \<Rightarrow> string list \<Rightarrow> bool" where
  "allowed_names w ns \<longleftrightarrow>
     prefix (path_names (wm_root w)) ns \<and>
     list_all (\<lambda>d. \<not> prefix (path_names (wm_root w) @ path_names d) ns) (wm_deny w)"

abbreviation allowed_path :: "workspace_metadata \<Rightarrow> string \<Rightarrow> bool" where
  "allowed_path w p \<equiv> allowed_names w (path_names p)"

text \<open>C31: What the resolver lets a tool touch. If it resolves a path for a capability, however the file
  system changes between its calls, then the workspace is the registered one and grants the
  capability; the path the tool will use lies lexically at or below the root; the second path is what
  the first one denotes (the real path of its nearest existing ancestor and the names below it), and
  it lies at or below the root too, except that a deletion may name a symbolic link (and then removes
  the link) whose directory is at or below the root; a deletion does not hit the root; no denied
  path contains either of the two, and for a deletion neither of the two contains a denied path.\<close>

theorem resolved_path_allowed:
  assumes "realpath_canonical fs0" and "create_registry cwd fs0 configs m = (m', Inr W)"
    and "realpath_canonical fs"
    and "resolve_workspace_path cwd fs W i path (Some cap) n = (n', Inr r)"
  shows "rp_workspace r \<in> set W \<and> wm_id (rp_workspace r) = i \<and>
    capability_enabled (wm_capabilities (rp_workspace r)) cap \<and>
    prefix (path_names (wm_root (rp_workspace r))) (path_names (rp_operationPath r)) \<and>
    resolves_to fs (rp_operationPath r) (rp_canonicalPath r) \<and>
    (prefix (path_names (wm_root (rp_workspace r))) (path_names (rp_canonicalPath r)) \<or>
     cap = CapDelete \<and>
     (\<exists>k. fs_is_symlink (fs k) (rp_operationPath r) = Some True) \<and>
     (\<exists>k q. fs_realpath (fs k) (posix_dirname (rp_operationPath r)) = Some q \<and>
        prefix (path_names (wm_root (rp_workspace r))) (path_names q))) \<and>
    \<not> (cap = CapDelete \<and> rp_operationPath r = wm_root (rp_workspace r)) \<and>
    list_all (\<lambda>d. list_all (\<lambda>p. \<not> prefix (path_names (wm_root (rp_workspace r)) @ path_names d) (path_names p) \<and>
        \<not> (cap = CapDelete \<and> prefix (path_names p) (path_names (wm_root (rp_workspace r)) @ path_names d)))
      [rp_operationPath r, rp_canonicalPath r]) (wm_deny (rp_workspace r))"
proof -
  obtain w n1 n2 symlink found parentInside where
    get: "registry_get W i = Some w" and safe: "reject_unsafe_relative_path path = Inr ()" and
    r: "rp_workspace r = w" "rp_operationPath r = posix_resolve cwd [posix_join [wm_root w, path]]" and
    sym: "final_entry_is_symlink fs (Some cap) (rp_operationPath r) n = (n1, symlink)" and
    can: "canonicalize_target cwd fs (wm_root w) (rp_operationPath r) n1 = (n2, Inr (rp_canonicalPath r, found))" and
    par: "parent_inside_workspace cwd fs (wm_root w) symlink (rp_operationPath r) n2 = (n', parentInside)" and
    ins: "is_path_inside cwd (wm_root w) (rp_canonicalPath r) \<or> cap = CapDelete \<and> symlink \<and> parentInside" and
    del: "\<not> (cap = CapDelete \<and> rp_operationPath r = wm_root w)" and
    den: "\<not> path_denied cwd w (cap = CapDelete) (rp_operationPath r) (rp_canonicalPath r)" and
    grant: "capability_enabled (wm_capabilities w) cap"
    by (rule resolve_workspace_path_Inr [OF assms(4)]) simp
  have w: "metadata_ok w" "w \<in> set W" "wm_id w = i"
    using registry_get_member [OF get] create_registry_ok(1) [OF assms(1,2)] by auto
  then have base: "canonical_path (wm_root w)" by (simp add: metadata_ok_def)
  have op: "canonical_path (rp_operationPath r)" unfolding r(2) by simp
  have canon: "canonical_path (rp_canonicalPath r)" by (rule canonicalize_target_canonical [OF assms(3) op can])
  have below: "prefix (path_names (wm_root w)) (path_names (rp_operationPath r))"
    unfolding r(2) resolve_join_below [OF base safe_relative_path [OF safe]] by simp
  have link: "\<exists>k. fs_is_symlink (fs k) (rp_operationPath r) = Some True" if "symlink"
    using sym that by (auto simp: final_entry_is_symlink_def split: if_splits)
  have parent: "\<exists>k q. fs_realpath (fs k) (posix_dirname (rp_operationPath r)) = Some q \<and>
      prefix (path_names (wm_root w)) (path_names q)" if "parentInside"
  proof -
    from par that obtain q where q: "fs_realpath (fs n2) (posix_dirname (rp_operationPath r)) = Some q"
      "is_path_inside cwd (wm_root w) q"
      by (auto simp: parent_inside_workspace_def split: if_splits option.splits)
    with inside_canonical [OF base realpath_canonicalD [OF assms(3) q(1)]] show ?thesis by blast
  qed
  have denied: "list_all (\<lambda>d. list_all (\<lambda>p. \<not> prefix (path_names (wm_root w) @ path_names d) (path_names p) \<and>
        \<not> (cap = CapDelete \<and> prefix (path_names p) (path_names (wm_root w) @ path_names d)))
      [rp_operationPath r, rp_canonicalPath r]) (wm_deny w)"
    using not_denied [OF w(1) op canon den] by (simp add: list_all_iff)
  show ?thesis
    unfolding r(1) using w(2,3) grant below ins link parent del denied inside_canonical [OF base canon]
      canonicalize_target_resolves [OF assms(3) op can] by blast
qed

section \<open>Sample file systems\<close>

text \<open>Without symbolic links: the entries that exist resolve to themselves.\<close>

definition plain_fs :: "string list \<Rightarrow> nat \<Rightarrow> fs_view" where
  "plain_fs entries n =
     \<lparr>fs_realpath = (\<lambda>p. if p \<in> set entries then Some p else None), fs_is_symlink = (\<lambda>p. Some False)\<rparr>"

lemma plain_fs_canonical: "list_all canonical_path entries \<Longrightarrow> realpath_canonical (plain_fs entries)"
  by (auto simp: realpath_canonical_def plain_fs_def list_all_iff split: if_splits)

definition sample_workspace_config :: "string \<Rightarrow> workspace_config" where
  "sample_workspace_config r = \<lparr>wc_id = ''w'', wc_name = ''work'', wc_root = r, wc_read = Some True,
     wc_write = Some True, wc_delete = None, wc_execute = None, wc_deny = Some [''secret/key'']\<rparr>"

definition sample_entries :: "string list" where
  "sample_entries = [''/'', ''/w'', ''/w/a'', ''/w/secret'', ''/w/secret/key'']"

definition sample_workspace :: workspace_metadata where
  "sample_workspace = \<lparr>wm_id = ''w'', wm_name = ''work'', wm_root = ''/w'',
     wm_capabilities = \<lparr>wcap_read = True, wcap_write = True, wcap_delete = False, wcap_execute = False\<rparr>,
     wm_deny = [''secret/key'']\<rparr>"

lemma sample_registry_created:
  "create_registry ''/'' (plain_fs sample_entries) [sample_workspace_config ''/w''] 0 = (2, Inr [sample_workspace])"
  by code_simp

lemma sample_entries_canonical: "realpath_canonical (plain_fs sample_entries)"
  by (rule plain_fs_canonical) code_simp

lemma sample_resolved:
  "resolve_workspace_path ''/'' (plain_fs sample_entries) [sample_workspace] ''w'' ''a'' (Some CapRead) 0 =
   (1, Inr \<lparr>rp_workspace = sample_workspace, rp_operationPath = ''/w/a'', rp_canonicalPath = ''/w/a'', rp_exists = True\<rparr>)"
  by code_simp

lemma resolved_path_allowed_witness:
  "resolves_to (plain_fs sample_entries) ''/w/a'' ''/w/a'' \<and> prefix (path_names ''/w'') (path_names ''/w/a'') \<and>
   list_all (\<lambda>d. \<not> prefix (path_names ''/w'' @ path_names d) (path_names ''/w/a'')) [''secret/key'']"
  using resolved_path_allowed [OF sample_entries_canonical sample_registry_created sample_entries_canonical
      sample_resolved]
  by (simp add: sample_workspace_def)

lemma registry_workspaces_disjoint_witness:
  "registry_get [sample_workspace] (wm_id sample_workspace) = Some sample_workspace"
proof -
  have "canonical_path ''/w/a''" "is_path_inside ''/'' (wm_root sample_workspace) ''/w/a''" by code_simp+
  with registry_workspaces_disjoint [OF sample_entries_canonical sample_registry_created, of sample_workspace
      sample_workspace "''/w/a''"]
  show ?thesis by simp
qed

section \<open>Gaps of the resolver\<close>

text \<open>
  A workspace whose root is the root directory loses the first character of a denied name that does
  not exist when the registry is created: the walk cuts off the parent's length and one more
  character, although the parent \<^verbatim>\<open>/\<close> already ends with the separator. The path named in the
  configuration is then not denied once it exists.
\<close>

lemma root_workspace_loses_deny:
  "map_sum id (map wm_deny) (snd (create_registry ''/'' (plain_fs [''/'']) 
      [(sample_workspace_config ''/'')\<lparr>wc_deny := Some [''secret'']\<rparr>] 0)) = Inr [[''ecret'']] \<and>
   \<not> isl (snd (resolve_workspace_path ''/'' (plain_fs [''/'', ''/secret''])
      [sample_workspace\<lparr>wm_root := ''/'', wm_deny := [''ecret'']\<rparr>] ''w'' ''secret'' (Some CapRead) 0))"
  by code_simp

text \<open>
  A directory that contains a denied path cannot be deleted, but it can be resolved for writing,
  which is what a move asks of its source: after \<^verbatim>\<open>secret\<close> has been moved to \<^verbatim>\<open>open\<close>, the denied
  \<^verbatim>\<open>secret/key\<close> can be read as \<^verbatim>\<open>open/key\<close>.
\<close>

lemma moved_directory_uncovers_denied:
  "\<not> isl (snd (resolve_workspace_path ''/'' (plain_fs sample_entries) [sample_workspace] ''w'' ''secret''
      (Some CapWrite) 0)) \<and>
   \<not> isl (snd (resolve_workspace_path ''/'' (plain_fs sample_entries) [sample_workspace] ''w'' ''open''
      (Some CapWrite) 0)) \<and>
   snd (resolve_workspace_path ''/'' (plain_fs sample_entries) [sample_workspace] ''w'' ''secret/key''
      (Some CapRead) 0) = Inl PermissionDenied \<and>
   \<not> isl (snd (resolve_workspace_path ''/'' (plain_fs [''/'', ''/w'', ''/w/open'', ''/w/open/key''])
      [sample_workspace] ''w'' ''open/key'' (Some CapRead) 0))"
  by code_simp

text \<open>A file system with symbolic links: the real path of each entry, and which entries are links.\<close>

definition linked_fs :: "(string \<times> string) list \<Rightarrow> string list \<Rightarrow> nat \<Rightarrow> fs_view" where
  "linked_fs entries symlinks n = \<lparr>fs_realpath = map_of entries, fs_is_symlink = (\<lambda>p. Some (p \<in> set symlinks))\<rparr>"

definition deleting_workspace :: workspace_metadata where
  "deleting_workspace = sample_workspace\<lparr>wm_capabilities := (wm_capabilities sample_workspace)\<lparr>wcap_delete := True\<rparr>,
     wm_deny := [''secret'']\<rparr>"

text \<open>
  For a deletion of a symbolic link the deny list is compared with the link's path and its target,
  but not with the real directory of the link: \<^verbatim>\<open>link\<close> leads to the denied \<^verbatim>\<open>secret\<close>, \<^verbatim>\<open>secret/x\<close> is a
  symbolic link to \<^verbatim>\<open>a\<close>, and it may be deleted as \<^verbatim>\<open>link/x\<close>.
\<close>

lemma denied_link_deletable:
  defines "fs \<equiv> linked_fs [(''/w/a'', ''/w/a''), (''/w/link'', ''/w/secret''), (''/w/link/x'', ''/w/a''),
    (''/w/secret/x'', ''/w/a'')] [''/w/link'', ''/w/link/x'', ''/w/secret/x'']"
  shows "snd (resolve_workspace_path ''/'' fs [deleting_workspace] ''w'' ''secret/x'' (Some CapDelete) 0) = Inl PermissionDenied \<and>
    \<not> isl (snd (resolve_workspace_path ''/'' fs [deleting_workspace] ''w'' ''link/x'' (Some CapDelete) 0)) \<and>
    fs_realpath (fs 0) (posix_dirname ''/w/link/x'') = Some ''/w/secret''"
  unfolding fs_def by code_simp

text \<open>
  When the target of the link lies in the workspace, the real directory of the link is not compared
  with the root either: \<^verbatim>\<open>out\<close> leads to \<^verbatim>\<open>/etc\<close>, and \<^verbatim>\<open>/etc/x\<close>, a symbolic link to \<^verbatim>\<open>/w/a\<close>, may be deleted
  as \<^verbatim>\<open>out/x\<close>.
\<close>

lemma outside_link_deletable:
  defines "fs \<equiv> linked_fs [(''/w/a'', ''/w/a''), (''/w/out'', ''/etc''), (''/w/out/x'', ''/w/a'')]
    [''/w/out'', ''/w/out/x'']"
  shows "\<not> isl (snd (resolve_workspace_path ''/'' fs [deleting_workspace] ''w'' ''out/x'' (Some CapDelete) 0)) \<and>
    fs_realpath (fs 0) (posix_dirname ''/w/out/x'') = Some ''/etc''"
  unfolding fs_def by code_simp

section \<open>Children of a directory\<close>

text \<open>The path of a directory entry, as the tools form it.\<close>

lemma join_child:
  assumes "canonical_path p" "proper_name w"
  shows "canonical_path (posix_join [p, w])" "path_names (posix_join [p, w]) = path_names p @ [w]"
proof -
  have w: "w \<noteq> []" "CHR ''/'' \<notin> set w" using assms(2) by (simp_all add: proper_name_def)
  show "canonical_path (posix_join [p, w])" by (rule posix_join_canonical [OF assms(1)]) (simp add: w)
  show "path_names (posix_join [p, w]) = path_names p @ [w]"
    using posix_join_absolute [OF canonical_absolute [OF assms(1)], of "[w]"] assms w
    by (simp add: path_names_plain normal_names_canonical norm_step_proper)
qed

lemma relative_below:
  assumes "canonical_path p" "canonical_path q" "prefix (path_names p) (path_names q)"
  shows "path_names p @ path_names (posix_relative cwd p q) = path_names q"
proof -
  from assms(3) obtain ws where ws: "path_names q = path_names p @ ws" by (auto elim: prefixE)
  then have "list_all proper_name ws" using canonical_names [OF assms(2)] by simp
  with ws assms show ?thesis
    by (simp add: posix_relative_names resolve_id drop_common_inside path_names_join del: resolve_names)
qed

lemma resolved_below:
  assumes "\<forall>w\<in>set W. metadata_ok w" "resolve_workspace_path cwd fs W i path cap n = (m, Inr r)"
  shows "rp_workspace r \<in> set W" "metadata_ok (rp_workspace r)" "canonical_path (rp_operationPath r)"
    "prefix (path_names (wm_root (rp_workspace r))) (path_names (rp_operationPath r))"
proof -
  obtain w where w: "registry_get W i = Some w" "reject_unsafe_relative_path path = Inr ()"
    "rp_workspace r = w" "rp_operationPath r = posix_resolve cwd [posix_join [wm_root w, path]]"
    by (rule resolve_workspace_path_Inr [OF assms(2)]) simp
  show in_W: "rp_workspace r \<in> set W" using registry_get_member [OF w(1)] w(3) by simp
  then show ok: "metadata_ok (rp_workspace r)" using assms(1) by blast
  show "canonical_path (rp_operationPath r)" unfolding w(4) by simp
  from ok w(3) have "canonical_path (wm_root w)" by (simp add: metadata_ok_def)
  then show "prefix (path_names (wm_root (rp_workspace r))) (path_names (rp_operationPath r))"
    unfolding w(3,4) by (simp add: resolve_join_below [OF _ safe_relative_path [OF w(2)]] del: resolve_names)
qed

end
