(* ===== verification/Utf8_Text.thy ===== *)
theory Utf8_Text
  imports Js_Values
begin

unbundle bit_operations_syntax

text \<open>
  UTF-8 as the file tools of the agent meet it: encoding and fatal decoding of Unicode scalar
  values as \<^verbatim>\<open>TextDecoder("utf-8", { fatal: true })\<close> does them, and the function of
  \<^verbatim>\<open>apps/agent/src/filesystem-read.ts\<close> that cuts an incomplete sequence off the end of a chunk.
\<close>

section \<open>Encoding and decoding\<close>

type_synonym unicode_text = "nat list"

definition is_scalar :: "nat \<Rightarrow> bool" where
  "is_scalar c \<longleftrightarrow> c < 55296 \<or> 57344 \<le> c \<and> c < 1114112"

definition utf8_of_scalar :: "nat \<Rightarrow> byte list" where
  "utf8_of_scalar c =
     (if c < 128 then [of_nat c]
      else if c < 2048 then [of_nat (192 + c div 64), of_nat (128 + c mod 64)]
      else if c < 65536 then
        [of_nat (224 + c div 4096), of_nat (128 + c div 64 mod 64), of_nat (128 + c mod 64)]
      else
        [of_nat (240 + c div 262144), of_nat (128 + c div 4096 mod 64), of_nat (128 + c div 64 mod 64),
         of_nat (128 + c mod 64)])"

definition utf8_text :: "unicode_text \<Rightarrow> byte list" where
  "utf8_text cs = concat (map utf8_of_scalar cs)"

definition is_continuation :: "byte \<Rightarrow> bool" where
  "is_continuation b \<longleftrightarrow> 128 \<le> unat b \<and> unat b < 192"

fun decode_fatal :: "byte list \<Rightarrow> unicode_text option" where
  "decode_fatal [] = Some []"
| "decode_fatal (b # bs) =
     (if unat b < 128 then map_option ((#) (unat b)) (decode_fatal bs)
      else if 194 \<le> unat b \<and> unat b < 224 then
        (case bs of
           c # r \<Rightarrow> if is_continuation c
                     then map_option ((#) ((unat b - 192) * 64 + (unat c - 128))) (decode_fatal r) else None
         | _ \<Rightarrow> None)
      else if 224 \<le> unat b \<and> unat b < 240 then
        (case bs of
           c # d # r \<Rightarrow>
             if is_continuation c \<and> is_continuation d \<and> (unat b = 224 \<longrightarrow> 160 \<le> unat c) \<and>
                (unat b = 237 \<longrightarrow> unat c < 160)
             then map_option ((#) ((unat b - 224) * 4096 + (unat c - 128) * 64 + (unat d - 128))) (decode_fatal r)
             else None
         | _ \<Rightarrow> None)
      else if 240 \<le> unat b \<and> unat b < 245 then
        (case bs of
           c # d # e # r \<Rightarrow>
             if is_continuation c \<and> is_continuation d \<and> is_continuation e \<and>
                (unat b = 240 \<longrightarrow> 144 \<le> unat c) \<and> (unat b = 244 \<longrightarrow> unat c < 144)
             then map_option ((#) ((unat b - 240) * 262144 + (unat c - 128) * 4096 + (unat d - 128) * 64 +
                                   (unat e - 128))) (decode_fatal r)
             else None
         | _ \<Rightarrow> None)
      else None)"

text \<open>The decoder drops a byte order mark at the start of what it decodes.\<close>

definition decode_text :: "byte list \<Rightarrow> unicode_text option" where
  "decode_text bs = decode_fatal (if take 3 bs = [239, 187, 191] then drop 3 bs else bs)"

section \<open>Cutting an incomplete sequence\<close>

definition expected_length :: "byte \<Rightarrow> nat" where
  "expected_length b =
     (if b AND 0xE0 = 0xC0 then 2 else if b AND 0xF0 = 0xE0 then 3 else if b AND 0xF8 = 0xF0 then 4 else 1)"

text \<open>\<open>i\<close> counts the bytes from the end; the list holds the bytes still to look at, the last one first.\<close>

fun trim_scan :: "nat \<Rightarrow> byte list \<Rightarrow> nat \<Rightarrow> nat" where
  "trim_scan i [] len = len"
| "trim_scan i (b # r) len =
     (if i > 4 then len
      else if b AND 0x80 = 0 then len
      else if b AND 0xC0 = 0xC0 then (if i < expected_length b then len - i else len)
      else trim_scan (Suc i) r len)"

definition trim_incomplete_utf8 :: "byte list \<Rightarrow> nat" where
  "trim_incomplete_utf8 buf = (if buf = [] then 0 else trim_scan 1 (rev buf) (length buf))"

section \<open>Classes of bytes\<close>

lemma all_bytes:
  assumes "list_all (\<lambda>n. P (of_nat n)) [0..<256]"
  shows "P (b :: byte)"
proof -
  have "unat b \<in> set [0..<256]" using unsigned_less [of b] by simp
  moreover have "\<forall>n\<in>set [0..<256]. P (of_nat n)" using assms by (simp only: list_all_iff)
  ultimately have "P (of_nat (unat b))" by (rule bspec [rotated])
  then show ?thesis by simp
qed

lemma ascii_byte: "(b AND 0x80 = 0) = (unat (b :: byte) < 128)"
  by (rule all_bytes) code_simp

lemma lead_byte: "(b AND 0xC0 = 0xC0) = (192 \<le> unat (b :: byte))"
  by (rule all_bytes) code_simp

lemma expected_length_byte:
  "expected_length b = (if 192 \<le> unat b \<and> unat b < 224 then 2 else if 224 \<le> unat b \<and> unat b < 240 then 3
     else if 240 \<le> unat b \<and> unat b < 248 then 4 else 1)"
  by (rule all_bytes) code_simp

lemma unat_of_nat_byte: "n < 256 \<Longrightarrow> unat (of_nat n :: byte) = n"
  by (simp add: unat_of_nat)

text \<open>A scalar value is a leading byte and continuation bytes.\<close>

lemma utf8_of_scalar_shape:
  assumes "is_scalar c"
  obtains b bs where "utf8_of_scalar c = b # bs" "\<forall>x\<in>set bs. is_continuation x" "length bs \<le> 3"
    "bs = [] \<longrightarrow> unat b < 128" "bs \<noteq> [] \<longrightarrow> 192 \<le> unat b \<and> expected_length b = Suc (length bs)"
proof -
  have m: "128 + n mod 64 < (256::nat)" "128 \<le> 128 + n mod 64" "128 + n mod 64 < (192::nat)" for n :: nat
    using mod_less_divisor [of 64 n] by linarith+
  have cont: "is_continuation (of_nat (128 + n mod 64))" for n
    using m [of n] by (simp only: is_continuation_def unat_of_nat_byte)
  have c: "c < 1114112" using assms by (auto simp: is_scalar_def)
  consider (1) "c < 128" | (2) "128 \<le> c" "c < 2048" | (3) "2048 \<le> c" "c < 65536" | (4) "65536 \<le> c" by linarith
  then show thesis
  proof cases
    case 1
    then show thesis by (intro that [of "of_nat c" "[]"]) (simp_all add: utf8_of_scalar_def unat_of_nat_byte)
  next
    case 2
    then have "192 + c div 64 < 224" by (simp add: div_less_iff_less_mult)
    then have "unat (of_nat (192 + c div 64) :: byte) = 192 + c div 64" by (intro unat_of_nat_byte) linarith
    with 2 \<open>192 + c div 64 < 224\<close> show thesis
      by (intro that [of "of_nat (192 + c div 64)" "[of_nat (128 + c mod 64)]"])
        (simp_all only: utf8_of_scalar_def expected_length_byte, simp_all add: cont [simplified])
  next
    case 3
    then have "224 + c div 4096 < 240" by (simp add: div_less_iff_less_mult)
    then have "unat (of_nat (224 + c div 4096) :: byte) = 224 + c div 4096" by (intro unat_of_nat_byte) linarith
    with 3 \<open>224 + c div 4096 < 240\<close> show thesis
      by (intro that [of "of_nat (224 + c div 4096)" "[of_nat (128 + c div 64 mod 64), of_nat (128 + c mod 64)]"])
        (simp_all only: utf8_of_scalar_def expected_length_byte, simp_all add: cont [simplified])
  next
    case 4
    with c have "240 + c div 262144 < 248" by (simp add: div_less_iff_less_mult)
    then have "unat (of_nat (240 + c div 262144) :: byte) = 240 + c div 262144" by (intro unat_of_nat_byte) linarith
    with 4 \<open>240 + c div 262144 < 248\<close> show thesis
      by (intro that [of "of_nat (240 + c div 262144)" "[of_nat (128 + c div 4096 mod 64),
          of_nat (128 + c div 64 mod 64), of_nat (128 + c mod 64)]"])
        (simp_all only: utf8_of_scalar_def expected_length_byte, simp_all add: cont [simplified])
  qed
qed

lemma utf8_text_simps [simp]:
  "utf8_text [] = []" "utf8_text (c # cs) = utf8_of_scalar c @ utf8_text cs" "utf8_text (cs @ ds) = utf8_text cs @ utf8_text ds"
  by (simp_all add: utf8_text_def)

lemma utf8_of_scalar_not_Nil [simp]: "utf8_of_scalar c \<noteq> []"
  by (simp add: utf8_of_scalar_def)

section \<open>Decoding what was encoded\<close>

lemma sextets_of_scalar:
  "c div 64 * 64 + c mod 64 = (c :: nat)"
  "c div 4096 * 4096 + c div 64 mod 64 * 64 + c mod 64 = c"
  "c div 262144 * 262144 + c div 4096 mod 64 * 4096 + c div 64 mod 64 * 64 + c mod 64 = c"
proof -
  have d: "c div 4096 = c div 64 div 64" "c div 262144 = c div 4096 div 64"
    by (simp_all add: div_mult2_eq [symmetric])
  note e = div_mult_mod_eq [of c 64] div_mult_mod_eq [of "c div 64" 64] div_mult_mod_eq [of "c div 4096" 64]
  show 1: "c div 64 * 64 + c mod 64 = c" by (rule e(1))
  show 2: "c div 4096 * 4096 + c div 64 mod 64 * 64 + c mod 64 = c"
    using e(1,2) unfolding d(1) by linarith
  show "c div 262144 * 262144 + c div 4096 mod 64 * 4096 + c div 64 mod 64 * 64 + c mod 64 = c"
    using 2 e(3) unfolding d(2) by linarith
qed

lemma decode_scalar:
  assumes "is_scalar c"
  shows "decode_fatal (utf8_of_scalar c @ r) = map_option ((#) c) (decode_fatal r)"
proof -
  have m: "128 + n mod 64 < (256::nat)" for n :: nat using mod_less_divisor [of 64 n] by linarith
  have u: "unat (of_nat (128 + n mod 64) :: byte) = 128 + n mod 64" for n by (rule unat_of_nat_byte [OF m])
  have cont: "is_continuation (of_nat (128 + n mod 64))" for n
    using mod_less_divisor [of 64 n] by (simp only: is_continuation_def u) linarith
  have c: "c < 1114112" "c < 55296 \<or> 57344 \<le> c" using assms by (auto simp: is_scalar_def)
  consider (1) "c < 128" | (2) "128 \<le> c" "c < 2048" | (3) "2048 \<le> c" "c < 65536" | (4) "65536 \<le> c" by linarith
  then show ?thesis
  proof cases
    case 1
    then show ?thesis by (simp add: utf8_of_scalar_def unat_of_nat_byte)
  next
    case 2
    have lead: "unat (of_nat (192 + c div 64) :: byte) = 192 + c div 64" using 2 by (intro unat_of_nat_byte) linarith
    have "194 \<le> 192 + c div 64" "192 + c div 64 < 224" using 2 by linarith+
    moreover note sextets_of_scalar(1) [of c]
    moreover have "utf8_of_scalar c = [of_nat (192 + c div 64), of_nat (128 + c mod 64)]"
      using 2 by (simp only: utf8_of_scalar_def) simp
    ultimately show ?thesis
      by (simp only: append.simps decode_fatal.simps list.case lead u cont if_True) simp
  next
    case 3
    let ?a = "c div 4096" and ?b = "c div 64 mod 64" and ?d = "c mod 64"
    have lead: "unat (of_nat (224 + ?a) :: byte) = 224 + ?a" using 3 by (intro unat_of_nat_byte) linarith
    note sum = sextets_of_scalar(2) [of c]
    have "?a < 16" using 3 by linarith
    moreover have "?a = 0 \<longrightarrow> 160 \<le> 128 + ?b" using 3 sum by linarith
    moreover have "?a = 13 \<longrightarrow> 128 + ?b < 160" using c(2) sum by linarith
    moreover have "utf8_of_scalar c = [of_nat (224 + ?a), of_nat (128 + ?b), of_nat (128 + ?d)]"
      using 3 by (simp only: utf8_of_scalar_def) simp
    ultimately show ?thesis using sum
      by (simp only: append.simps decode_fatal.simps list.case lead u cont if_True) simp
  next
    case 4
    let ?a = "c div 262144" and ?b = "c div 4096 mod 64" and ?d = "c div 64 mod 64" and ?e = "c mod 64"
    have lead: "unat (of_nat (240 + ?a) :: byte) = 240 + ?a" using c by (intro unat_of_nat_byte) linarith
    note sum = sextets_of_scalar(3) [of c]
    have "?a < 5" using c by linarith
    moreover have "?a = 0 \<longrightarrow> 144 \<le> 128 + ?b" using 4 sum by linarith
    moreover have "?a = 4 \<longrightarrow> 128 + ?b < 144" using c(1) sum by linarith
    moreover have "utf8_of_scalar c = [of_nat (240 + ?a), of_nat (128 + ?b), of_nat (128 + ?d), of_nat (128 + ?e)]"
      using 4 by (simp only: utf8_of_scalar_def) simp
    ultimately show ?thesis using sum
      by (simp only: append.simps decode_fatal.simps list.case lead u cont if_True) simp
  qed
qed

lemma decode_encoded: "list_all is_scalar cs \<Longrightarrow> decode_fatal (utf8_text cs) = Some cs"
  by (induction cs) (simp_all add: decode_scalar del: decode_fatal.simps(2))

section \<open>The cut is at the last complete sequence\<close>

lemma continuation_bits: "is_continuation b \<Longrightarrow> b AND 0x80 \<noteq> 0 \<and> b AND 0xC0 \<noteq> 0xC0"
  by (simp add: ascii_byte lead_byte is_continuation_def)

lemma trim_scan_continuations:
  "\<forall>x\<in>set xs. is_continuation x \<Longrightarrow> i + length xs \<le> 4 \<Longrightarrow>
   trim_scan i (xs @ r) len = trim_scan (i + length xs) r len"
  by (induction xs arbitrary: i) (simp_all add: continuation_bits)

lemma trim_scalar:
  assumes c: "is_scalar c" and j: "0 < j" "j \<le> length (utf8_of_scalar c)"
  shows "trim_incomplete_utf8 (pre @ take j (utf8_of_scalar c)) =
    (if j = length (utf8_of_scalar c) then length pre + j else length pre)"
proof -
  obtain b bs where bs: "utf8_of_scalar c = b # bs" "\<forall>x\<in>set bs. is_continuation x" "length bs \<le> 3"
    "bs = [] \<longrightarrow> unat b < 128" "bs \<noteq> [] \<longrightarrow> 192 \<le> unat b \<and> expected_length b = Suc (length bs)"
    by (rule utf8_of_scalar_shape [OF c])
  let ?k = "j - 1"
  have j': "j = Suc ?k" "?k \<le> length bs" using j bs(1) by simp_all
  let ?ys = "rev (take ?k bs)"
  have take: "take j (utf8_of_scalar c) = b # take ?k bs" unfolding bs(1) by (subst j'(1)) simp
  have ys: "\<forall>x\<in>set ?ys. is_continuation x" "length ?ys = ?k" using bs(2) j'(2) by (auto dest: in_set_takeD)
  have "trim_incomplete_utf8 (pre @ take j (utf8_of_scalar c)) = trim_scan 1 (?ys @ b # rev pre) (length pre + j)"
    unfolding take using j' by (simp add: trim_incomplete_utf8_def)
  also have "\<dots> = trim_scan (1 + length ?ys) (b # rev pre) (length pre + j)"
    by (rule trim_scan_continuations [OF ys(1)]) (use ys(2) j'(2) bs(3) in linarith)
  also have "1 + length ?ys = j" using ys(2) j'(1) by linarith
  finally show ?thesis
    using bs(3-5) j j'(2) bs(1) by (cases "bs = []") (auto simp: ascii_byte lead_byte)
qed

lemma trim_complete: "list_all is_scalar cs \<Longrightarrow> trim_incomplete_utf8 (utf8_text cs) = length (utf8_text cs)"
proof (cases cs rule: rev_cases)
  case (snoc ds c)
  assume "list_all is_scalar cs"
  with snoc have "is_scalar c" by simp
  from trim_scalar [OF this, of "length (utf8_of_scalar c)" "utf8_text ds"] snoc show ?thesis by simp
qed (simp add: trim_incomplete_utf8_def)

text \<open>A prefix of encoded text is encoded text and a beginning of one more encoded value.\<close>

lemma prefix_of_text:
  "\<exists>mid rest part. cs = mid @ rest \<and> take k (utf8_text cs) = utf8_text mid @ part \<and>
     (part = [] \<and> (rest = [] \<or> length (utf8_text mid) = k) \<or>
      (\<exists>c r j. rest = c # r \<and> 0 < j \<and> j < length (utf8_of_scalar c) \<and> part = take j (utf8_of_scalar c)))"
proof (induction cs arbitrary: k)
  case Nil
  show ?case by (intro exI [of _ "[]"]) simp
next
  case (Cons c cs)
  show ?case
  proof (cases "length (utf8_of_scalar c) \<le> k")
    case True
    from Cons.IH [of "k - length (utf8_of_scalar c)"] obtain mid rest part where
      *: "cs = mid @ rest" "take (k - length (utf8_of_scalar c)) (utf8_text cs) = utf8_text mid @ part"
      "part = [] \<and> (rest = [] \<or> length (utf8_text mid) = k - length (utf8_of_scalar c)) \<or>
       (\<exists>c r j. rest = c # r \<and> 0 < j \<and> j < length (utf8_of_scalar c) \<and> part = take j (utf8_of_scalar c))"
      by blast
    show ?thesis
      by (intro exI [of _ "c # mid"] exI [of _ rest] exI [of _ part]) (use * True in auto)
  next
    case False
    then show ?thesis
      by (intro exI [of _ "[]"] exI [of _ "c # cs"] exI [of _ "take k (utf8_of_scalar c)"]) auto
  qed
qed

lemma trim_prefix:
  assumes "list_all is_scalar cs"
  obtains mid rest where "cs = mid @ rest" "trim_incomplete_utf8 (take k (utf8_text cs)) = length (utf8_text mid)"
    "take (length (utf8_text mid)) (take k (utf8_text cs)) = utf8_text mid" "length (utf8_text mid) \<le> k"
    "rest \<noteq> [] \<longrightarrow> k < length (utf8_text mid) + 4"
proof -
  from prefix_of_text [of cs k] obtain mid rest part where
    *: "cs = mid @ rest" "take k (utf8_text cs) = utf8_text mid @ part"
    "part = [] \<and> (rest = [] \<or> length (utf8_text mid) = k) \<or>
     (\<exists>c r j. rest = c # r \<and> 0 < j \<and> j < length (utf8_of_scalar c) \<and> part = take j (utf8_of_scalar c))"
    by blast
  have mid: "list_all is_scalar mid" using assms *(1) by simp
  have lk: "length (utf8_text mid) \<le> k" using arg_cong [OF *(2), of length] by simp
  from *(3) show thesis
  proof (elim disjE conjE exE)
    assume part: "part = []" and "rest = []"
    with that [OF *(1)] *(2) trim_complete [OF mid] lk show thesis by simp
  next
    assume part: "part = []" and "length (utf8_text mid) = k"
    with that [OF *(1)] *(2) trim_complete [OF mid] show thesis by simp
  next
    fix c r j
    assume r: "rest = c # r" "0 < j" "j < length (utf8_of_scalar c)" "part = take j (utf8_of_scalar c)"
    have c: "is_scalar c" using assms *(1) r(1) by simp
    have cut: "trim_incomplete_utf8 (take k (utf8_text cs)) = length (utf8_text mid)"
      using trim_scalar [OF c, of j "utf8_text mid"] r *(2) by simp
    obtain b bs where "utf8_of_scalar c = b # bs" "length bs \<le> 3" by (rule utf8_of_scalar_shape [OF c])
    then have len: "length (utf8_of_scalar c) \<le> 4" by simp
    have "length (take k (utf8_text cs)) = length (utf8_text mid) + j"
      using *(2) r(3,4) by simp
    moreover have "length (utf8_text mid) + length (utf8_of_scalar c) \<le> length (utf8_text cs)"
      using *(1) r(1) by simp
    ultimately have k: "k = length (utf8_text mid) + j" using r(3) by (simp add: min_def split: if_splits)
    have "take (length (utf8_text mid)) (take k (utf8_text cs)) = utf8_text mid" using *(2) by simp
    from that [OF *(1) cut this lk] k len r(3) show thesis by simp
  qed
qed

end
