(* ===== verification/Filesystem_Read.thy ===== *)
theory Filesystem_Read
  imports Workspace Utf8_Text
begin

text \<open>
  The tool \<^verbatim>\<open>filesystem.read\<close> of the agent (\<^verbatim>\<open>apps/agent/src/filesystem-read.ts\<close>): reading a chunk of a
  text file, listing a directory and looking at an entry. As in theory \<^verbatim>\<open>Workspace\<close> the \<open>n\<close>-th call of
  the operating system sees \<open>F n\<close>, and a call that throws an error the code does not catch ends the
  tool with \<^verbatim>\<open>InternalError\<close>, which is how the server reports it.
\<close>

section \<open>The operating system\<close>

datatype file_kind = RegularFile | Directory | SymbolicLink | OtherKind

record file_stat =
  st_kind :: file_kind
  st_size :: nat
  st_mode :: nat
  st_mtimeMs :: int
  st_birthtimeMs :: int

record dirent =
  de_name :: string
  de_kind :: file_kind

record fs_calls =
  fc_view :: fs_view
  fc_lstat :: "string \<Rightarrow> file_stat option"
  fc_stat :: "string \<Rightarrow> file_stat option"
  fc_readdir :: "string \<Rightarrow> dirent list option"
  fc_read :: "string \<Rightarrow> byte list option"

definition fs_views :: "(nat \<Rightarrow> fs_calls) \<Rightarrow> nat \<Rightarrow> fs_view" where
  "fs_views F n = fc_view (F n)"

definition os_call :: "(nat \<Rightarrow> fs_calls) \<Rightarrow> (fs_calls \<Rightarrow> 'a option) \<Rightarrow> nat \<Rightarrow> (nat, tool_error, 'a) outcome" where
  "os_call F f n = (Suc n, require InternalError (f (F n)))"

section \<open>Input\<close>

definition max_read_limit :: nat where "max_read_limit = 1048576"
definition default_read_limit :: nat where "default_read_limit = 65536"

datatype read_input =
  ReadFile (ri_workspace: string) (ri_path: string) "nat option" "nat option"
| ListDirectory (ri_workspace: string) "string option" "bool option" "nat option" "nat option"
| StatPath (ri_workspace: string) "string option"
| SearchText (ri_workspace: string) "string option" unicode_text "nat option"

text \<open>The bounds of the input schema.\<close>

definition in_bounds :: "nat \<Rightarrow> nat \<Rightarrow> nat option \<Rightarrow> bool" where
  "in_bounds lo hi x \<longleftrightarrow> (case x of None \<Rightarrow> True | Some k \<Rightarrow> lo \<le> k \<and> k \<le> hi)"

fun read_input_ok :: "read_input \<Rightarrow> bool" where
  "read_input_ok (ReadFile w p offset limit) \<longleftrightarrow> w \<noteq> [] \<and> p \<noteq> [] \<and> in_bounds 1 max_read_limit limit"
| "read_input_ok (ListDirectory w p recursive limit depth) \<longleftrightarrow> w \<noteq> [] \<and> in_bounds 1 1000 limit \<and> in_bounds 1 10 depth"
| "read_input_ok (StatPath w p) \<longleftrightarrow> w \<noteq> []"
| "read_input_ok (SearchText w p query results) \<longleftrightarrow> w \<noteq> [] \<and> query \<noteq> [] \<and> in_bounds 1 200 results"

section \<open>Reading a chunk\<close>

record read_chunk_result =
  fr_content :: unicode_text
  fr_size :: nat
  fr_offset :: nat
  fr_limit :: nat
  fr_bytesRead :: nat
  fr_nextOffset :: nat
  fr_truncated :: bool

definition is_binary_buffer :: "byte list \<Rightarrow> bool" where
  "is_binary_buffer buf \<longleftrightarrow> list_ex (\<lambda>b. b = 0) (take 8192 buf)"

text \<open>The buffer is allocated with zeros; what the read does not fill stays zero.\<close>

definition filled_buffer :: "nat \<Rightarrow> nat \<Rightarrow> byte list \<Rightarrow> byte list" where
  "filled_buffer k offset content =
     (let got = take k (drop offset content) in got @ replicate (k - length got) 0)"

definition decode_chunk :: "nat \<Rightarrow> nat \<Rightarrow> nat \<Rightarrow> byte list \<Rightarrow> (tool_error, read_chunk_result) result" where
  "decode_chunk totalSize offset limit raw =
     (let readLength = length raw in
      if is_binary_buffer raw then Inl InvalidInput
      else
        let validLength = (if offset + readLength < totalSize then trim_incomplete_utf8 raw else readLength) in
        if 0 < readLength \<and> validLength = 0 then Inl InvalidInput
        else
          bind_result (require InvalidInput (decode_text (take validLength raw))) (\<lambda>content.
            Inr \<lparr>fr_content = content, fr_size = totalSize, fr_offset = offset, fr_limit = limit,
                 fr_bytesRead = validLength, fr_nextOffset = offset + validLength,
                 fr_truncated = (offset + validLength < totalSize)\<rparr>))"

definition target_stat :: "(nat \<Rightarrow> fs_calls) \<Rightarrow> string \<Rightarrow> nat \<Rightarrow> (nat, tool_error, file_stat) outcome" where
  "target_stat F p n =
     then_with (os_call F (\<lambda>v. fc_lstat v p) n) (\<lambda>n st.
       if st_kind st = SymbolicLink then os_call F (\<lambda>v. fc_stat v p) n else (n, Inr st))"

definition read_file ::
  "string \<Rightarrow> (nat \<Rightarrow> fs_calls) \<Rightarrow> workspace_metadata list \<Rightarrow> string \<Rightarrow> string \<Rightarrow> nat option \<Rightarrow> nat option \<Rightarrow> nat
   \<Rightarrow> (nat, tool_error, read_chunk_result) outcome" where
  "read_file cwd F W workspace path offsetIn limitIn n =
     then_with (resolve_workspace_path cwd (fs_views F) W workspace path (Some CapRead) n) (\<lambda>n r.
     try_with n (ensure PathNotFound (rp_exists r)) (\<lambda>_.
     then_with (target_stat F (rp_operationPath r) n) (\<lambda>n target.
     try_with n (ensure InvalidInput (st_kind target \<noteq> Directory)) (\<lambda>_.
     try_with n (ensure InvalidInput (st_kind target = RegularFile)) (\<lambda>_.
       let totalSize = st_size target;
           offset = (case offsetIn of None \<Rightarrow> 0 | Some k \<Rightarrow> k);
           limit = (case limitIn of None \<Rightarrow> default_read_limit | Some k \<Rightarrow> k);
           readLength = min limit (totalSize - offset) in
       then_with (if readLength > 0 then os_call F (\<lambda>v. fc_read v (rp_operationPath r)) n else (n, Inr [])) (\<lambda>n content.
       try_with n (decode_chunk totalSize offset limit (filled_buffer readLength offset content)) (\<lambda>res.
         (n, Inr res))))))))"

section \<open>Looking at an entry\<close>

definition or_dot :: "string option \<Rightarrow> string" where
  "or_dot p = (case p of None \<Rightarrow> ''.'' | Some s \<Rightarrow> if s = [] then ''.'' else s)"

definition stat_path ::
  "string \<Rightarrow> (nat \<Rightarrow> fs_calls) \<Rightarrow> workspace_metadata list \<Rightarrow> string \<Rightarrow> string option \<Rightarrow> nat
   \<Rightarrow> (nat, tool_error, file_stat) outcome" where
  "stat_path cwd F W workspace path n =
     then_with (resolve_workspace_path cwd (fs_views F) W workspace (or_dot path) (Some CapRead) n) (\<lambda>n r.
     try_with n (ensure PathNotFound (rp_exists r)) (\<lambda>_.
       os_call F (\<lambda>v. fc_lstat v (rp_operationPath r)) n))"

section \<open>Listing\<close>

record listed_entry =
  le_name :: string
  le_path :: string
  le_type :: file_kind
  le_size :: "nat option"

record list_context =
  lc_cwd :: string
  lc_calls :: "nat \<Rightarrow> fs_calls"
  lc_aborted :: "nat \<Rightarrow> bool"
  lc_sort :: "dirent list \<Rightarrow> dirent list"
  lc_workspace :: workspace_metadata
  lc_limit :: nat
  lc_maxDepth :: nat
  lc_recursive :: bool

record queue_item =
  qi_operationPath :: string
  qi_canonicalPath :: string
  qi_depth :: nat

definition is_denied :: "string \<Rightarrow> workspace_metadata \<Rightarrow> string \<Rightarrow> bool" where
  "is_denied cwd w targetPath = list_ex (\<lambda>d. is_path_inside cwd (posix_join [wm_root w, d]) targetPath) (wm_deny w)"

text \<open>What an entry is reported as; \<^verbatim>\<open>None\<close> when it is left out.\<close>

definition classify_entry ::
  "list_context \<Rightarrow> string \<Rightarrow> file_kind \<Rightarrow> nat \<Rightarrow> nat \<times> (file_kind \<times> nat option) option" where
  "classify_entry X full kind n =
     (case kind of
        SymbolicLink \<Rightarrow>
          (Suc n, case fs_realpath (fs_views (lc_calls X) n) full of
                    Some t \<Rightarrow>
                      if \<not> is_path_inside (lc_cwd X) (wm_root (lc_workspace X)) t \<or> is_denied (lc_cwd X) (lc_workspace X) t
                      then None else Some (SymbolicLink, None)
                  | None \<Rightarrow> Some (SymbolicLink, None))
      | RegularFile \<Rightarrow> (Suc n, Some (RegularFile, map_option st_size (fc_lstat (lc_calls X n) full)))
      | k \<Rightarrow> (n, Some (k, None)))"

text \<open>The entries of one directory; the flag says that the limit was reached.\<close>

fun list_entries ::
  "list_context \<Rightarrow> queue_item \<Rightarrow> dirent list \<Rightarrow> listed_entry list \<Rightarrow> queue_item list \<Rightarrow> nat
   \<Rightarrow> (nat, tool_error, listed_entry list \<times> queue_item list \<times> bool) outcome" where
  "list_entries X cur [] entries queue n = (n, Inr (entries, queue, False))"
| "list_entries X cur (d # ds) entries queue n =
     (if lc_aborted X n then (n, Inl ToolTimeout)
      else
        let full = posix_join [qi_operationPath cur, de_name d];
            canonical = posix_join [qi_canonicalPath cur, de_name d] in
        if is_denied (lc_cwd X) (lc_workspace X) full \<or> is_denied (lc_cwd X) (lc_workspace X) canonical
        then list_entries X cur ds entries queue n
        else
          (case classify_entry X full (de_kind d) n of
             (n, None) \<Rightarrow> list_entries X cur ds entries queue n
           | (n, Some (kind, bytes)) \<Rightarrow>
               let queue = (if kind = Directory \<and> lc_recursive X \<and> qi_depth cur + 1 < lc_maxDepth X
                            then queue @ [\<lparr>qi_operationPath = full, qi_canonicalPath = canonical,
                                           qi_depth = qi_depth cur + 1\<rparr>]
                            else queue);
                   entries = entries @ [\<lparr>le_name = de_name d,
                      le_path = posix_relative (lc_cwd X) (wm_root (lc_workspace X)) full, le_type = kind,
                      le_size = bytes\<rparr>] in
               if length entries \<ge> lc_limit X then (n, Inr (entries, queue, True))
               else list_entries X cur ds entries queue n))"

lemma list_entries_growth:
  "list_entries X cur ds entries queue n = (m, Inr (entries', queue', False)) \<Longrightarrow>
   length queue' + length entries \<le> length queue + length entries' \<and>
   (entries' = entries \<and> queue' = queue \<or> length entries < length entries' \<and> length entries' < lc_limit X)"
proof (induction X cur ds entries queue n rule: list_entries.induct)
  case (2 X cur d ds entries queue n)
  from 2(4) show ?case
    by (auto simp: Let_def split: if_splits prod.splits option.splits dest!: 2(1,2,3) [rotated -1])
qed simp

text \<open>
  The walk over the queue. It ends: a directory is queued only together with an entry that is
  reported, and the walk stops at the limit on reported entries.
\<close>

function list_loop ::
  "list_context \<Rightarrow> queue_item list \<Rightarrow> listed_entry list \<Rightarrow> nat \<Rightarrow> (nat, tool_error, listed_entry list \<times> bool) outcome" where
  "list_loop X [] entries n = (n, Inr (entries, False))"
| "list_loop X (cur # queue) entries n =
     (if lc_aborted X n then (n, Inl ToolTimeout)
      else
        (case fc_readdir (lc_calls X n) (qi_operationPath cur) of
           None \<Rightarrow> list_loop X queue entries (Suc n)
         | Some ds \<Rightarrow>
             (case list_entries X cur (lc_sort X ds) entries queue (Suc n) of
                (n, Inl e) \<Rightarrow> (n, Inl e)
              | (n, Inr (entries, queue, True)) \<Rightarrow> (n, Inr (entries, True))
              | (n, Inr (entries, queue, False)) \<Rightarrow> list_loop X queue entries n)))"
  by pat_completeness auto

termination list_loop
proof (relation "measure (\<lambda>(X, queue, entries, n). length queue + 2 * (lc_limit X - length entries))", goal_cases)
  case 1
  show ?case by simp
next
  case (2 X cur queue entries n)
  then show ?case by simp
next
  case (3 X cur queue entries n ds p m)
  then show ?case by (auto dest!: list_entries_growth [OF sym])
qed

definition list_directory ::
  "string \<Rightarrow> (nat \<Rightarrow> fs_calls) \<Rightarrow> (nat \<Rightarrow> bool) \<Rightarrow> (dirent list \<Rightarrow> dirent list) \<Rightarrow> workspace_metadata list
   \<Rightarrow> string \<Rightarrow> string option \<Rightarrow> bool option \<Rightarrow> nat option \<Rightarrow> nat option \<Rightarrow> nat
   \<Rightarrow> (nat, tool_error, listed_entry list \<times> bool) outcome" where
  "list_directory cwd F aborted sortNames W workspace path recursive limit maxDepth n =
     then_with (resolve_workspace_path cwd (fs_views F) W workspace (or_dot path) (Some CapRead) n) (\<lambda>n r.
     try_with n (ensure PathNotFound (rp_exists r)) (\<lambda>_.
     then_with (target_stat F (rp_operationPath r) n) (\<lambda>n target.
     try_with n (ensure InvalidInput (st_kind target = Directory)) (\<lambda>_.
       list_loop
         \<lparr>lc_cwd = cwd, lc_calls = F, lc_aborted = aborted, lc_sort = sortNames, lc_workspace = rp_workspace r,
          lc_limit = (case limit of None \<Rightarrow> 200 | Some k \<Rightarrow> k),
          lc_maxDepth = (case maxDepth of None \<Rightarrow> 5 | Some k \<Rightarrow> k),
          lc_recursive = (case recursive of None \<Rightarrow> False | Some b \<Rightarrow> b)\<rparr>
         [\<lparr>qi_operationPath = rp_operationPath r, qi_canonicalPath = rp_canonicalPath r, qi_depth = 0\<rparr>] [] n))))"

section \<open>A file is read completely in chunks\<close>

lemma text_bytes_nonzero:
  assumes "is_scalar c" "c \<noteq> 0" "b \<in> set (utf8_of_scalar c)"
  shows "b \<noteq> 0"
proof -
  have "unat b \<noteq> 0"
  proof (cases "c < 128")
    case True
    with assms show ?thesis by (simp add: utf8_of_scalar_def unat_of_nat_byte)
  next
    case False
    obtain l bs where shape: "utf8_of_scalar c = l # bs" "\<forall>x\<in>set bs. is_continuation x"
      "bs \<noteq> [] \<longrightarrow> 192 \<le> unat l \<and> expected_length l = Suc (length bs)"
      by (rule utf8_of_scalar_shape [OF assms(1)])
    have "bs \<noteq> []" using False shape(1) by (auto simp: utf8_of_scalar_def split: if_splits)
    with shape assms(3) show ?thesis by (auto simp: is_continuation_def)
  qed
  then show ?thesis by auto
qed

text \<open>Text the tool can show: Unicode scalar values without NUL and without byte order marks.\<close>

definition plain_text :: "unicode_text \<Rightarrow> bool" where
  "plain_text cs \<longleftrightarrow> list_all (\<lambda>c. is_scalar c \<and> c \<noteq> 0 \<and> c \<noteq> 65279) cs"

lemma plain_text_append [simp]: "plain_text (as @ bs) \<longleftrightarrow> plain_text as \<and> plain_text bs"
  by (simp add: plain_text_def)

lemma plain_text_scalars: "plain_text cs \<Longrightarrow> list_all is_scalar cs"
  by (auto simp: plain_text_def list_all_iff)

lemma plain_text_not_binary: "plain_text cs \<Longrightarrow> set bs \<subseteq> set (utf8_text cs) \<Longrightarrow> \<not> is_binary_buffer bs"
  by (auto simp: is_binary_buffer_def list_ex_iff plain_text_def list_all_iff utf8_text_def
      dest!: in_set_takeD subsetD text_bytes_nonzero)

lemma decode_plain_text:
  assumes cs: "plain_text cs"
  shows "decode_text (utf8_text cs) = Some cs"
proof -
  have d: "decode_fatal (utf8_text cs) = Some cs" by (rule decode_encoded [OF plain_text_scalars [OF cs]])
  have "take 3 (utf8_text cs) \<noteq> [239, 187, 191]"
  proof
    assume mark: "take 3 (utf8_text cs) = [239, 187, 191]"
    let ?r = "drop 3 (utf8_text cs)"
    have "utf8_text cs = 239 # 187 # 191 # ?r" using append_take_drop_id [of 3 "utf8_text cs"] mark by simp
    moreover have "decode_fatal (239 # 187 # 191 # ?r) = map_option ((#) 65279) (decode_fatal ?r)"
      by (simp add: is_continuation_def)
    ultimately obtain r where "Some cs = Some (65279 # r)" using d by (cases "decode_fatal ?r") auto
    with cs show False by (simp add: plain_text_def)
  qed
  with d show ?thesis by (simp add: decode_text_def)
qed

lemma chunk_of_text:
  assumes cs: "plain_text (pre @ post)" and limit: "4 \<le> limit"
    and stored: "stored = utf8_text (pre @ post)" and offset: "offset = length (utf8_text pre)"
  shows "\<exists>mid rest. post = mid @ rest \<and> (post \<noteq> [] \<longrightarrow> mid \<noteq> []) \<and>
    decode_chunk (length stored) offset limit
      (filled_buffer (min limit (length stored - offset)) offset stored) =
    Inr \<lparr>fr_content = mid, fr_size = length stored, fr_offset = offset, fr_limit = limit,
         fr_bytesRead = length (utf8_text mid), fr_nextOffset = length (utf8_text (pre @ mid)),
         fr_truncated = (rest \<noteq> [])\<rparr>"
proof -
  let ?k = "min limit (length stored - offset)"
  have rest_len: "length stored - offset = length (utf8_text post)" using stored offset by simp
  have buf: "filled_buffer ?k offset stored = take ?k (utf8_text post)"
    unfolding filled_buffer_def using stored offset by (simp add: Let_def)
  have len: "length (take ?k (utf8_text post)) = ?k" using rest_len by simp
  have post: "list_all is_scalar post" using cs plain_text_scalars by simp
  have plain: "plain_text post" using cs by simp
  have nonzero: "utf8_text ds = [] \<longleftrightarrow> ds = []" for ds by (cases ds) simp_all
  have not_binary: "\<not> is_binary_buffer (take ?k (utf8_text post))"
    by (rule plain_text_not_binary [OF plain]) (rule set_take_subset)
  show ?thesis
  proof (cases "limit < length (utf8_text post)")
    case False
    then have k: "?k = length (utf8_text post)" using rest_len by simp
    have all: "offset + length (utf8_text post) = length stored" using stored offset by simp
    have whole: "take ?k (utf8_text post) = utf8_text post" unfolding k by simp
    show ?thesis
      using not_binary decode_plain_text [OF plain] all nonzero [of post]
      unfolding buf unfolding whole by (intro exI [of _ post] exI [of _ "[]"]) (simp add: decode_chunk_def Let_def offset stored)
  next
    case True
    then have k: "?k = limit" using rest_len by simp
    have more: "offset + limit < length stored" using True rest_len by simp
    obtain mid rest where mid: "post = mid @ rest" "trim_incomplete_utf8 (take limit (utf8_text post)) = length (utf8_text mid)"
      "take (length (utf8_text mid)) (take limit (utf8_text post)) = utf8_text mid" "length (utf8_text mid) \<le> limit"
      "rest \<noteq> [] \<longrightarrow> limit < length (utf8_text mid) + 4"
      by (rule trim_prefix [OF post, of limit])
    have rest: "rest \<noteq> []" using True mid(1,4) by auto
    have some: "0 < length (utf8_text mid)" using mid(5) rest limit by linarith
    then have ne: "mid \<noteq> []" by auto
    have "plain_text mid" using plain mid(1) by simp
    note dec = decode_plain_text [OF this]
    have trunc: "offset + length (utf8_text mid) < length stored"
      using stored offset mid(1) rest nonzero [of rest] by simp
    have "decode_chunk (length stored) offset limit raw =
        Inr \<lparr>fr_content = mid, fr_size = length stored, fr_offset = offset, fr_limit = limit,
          fr_bytesRead = length (utf8_text mid), fr_nextOffset = offset + length (utf8_text mid), fr_truncated = True\<rparr>"
      if "\<not> is_binary_buffer raw" "length raw = limit" "trim_incomplete_utf8 raw = length (utf8_text mid)"
        "take (length (utf8_text mid)) raw = utf8_text mid" for raw
      using that more some dec trunc by (simp add: decode_chunk_def Let_def)
    from this [of "take limit (utf8_text post)"] not_binary len mid(2,3)
    have "decode_chunk (length stored) offset limit (filled_buffer ?k offset stored) =
        Inr \<lparr>fr_content = mid, fr_size = length stored, fr_offset = offset, fr_limit = limit,
          fr_bytesRead = length (utf8_text mid), fr_nextOffset = offset + length (utf8_text mid), fr_truncated = True\<rparr>"
      unfolding buf unfolding k by blast
    with mid(1) ne rest offset show ?thesis by (intro exI [of _ mid] exI [of _ rest]) simp
  qed
qed

text \<open>What a client does that follows \<^verbatim>\<open>nextOffset\<close> until the answer is not truncated.\<close>

fun read_whole :: "nat \<Rightarrow> byte list \<Rightarrow> nat \<Rightarrow> nat \<Rightarrow> unicode_text option" where
  "read_whole 0 stored limit offset = None"
| "read_whole (Suc k) stored limit offset =
     (case decode_chunk (length stored) offset limit
             (filled_buffer (min limit (length stored - offset)) offset stored) of
        Inl _ \<Rightarrow> None
      | Inr c \<Rightarrow>
          if fr_truncated c then map_option ((@) (fr_content c)) (read_whole k stored limit (fr_nextOffset c))
          else Some (fr_content c))"

lemma read_whole_from:
  assumes "plain_text (pre @ post)" "4 \<le> limit" "length post < k"
  shows "read_whole k (utf8_text (pre @ post)) limit (length (utf8_text pre)) = Some post"
  using assms
proof (induction k arbitrary: pre post)
  case (Suc k)
  from chunk_of_text [OF Suc.prems(1,2) refl refl] obtain mid rest where
    c: "post = mid @ rest" "post \<noteq> [] \<longrightarrow> mid \<noteq> []"
      "decode_chunk (length (utf8_text (pre @ post))) (length (utf8_text pre)) limit
        (filled_buffer (min limit (length (utf8_text (pre @ post)) - length (utf8_text pre))) (length (utf8_text pre))
          (utf8_text (pre @ post))) =
       Inr \<lparr>fr_content = mid, fr_size = length (utf8_text (pre @ post)), fr_offset = length (utf8_text pre),
            fr_limit = limit, fr_bytesRead = length (utf8_text mid),
            fr_nextOffset = length (utf8_text (pre @ mid)), fr_truncated = (rest \<noteq> [])\<rparr>"
    by blast
  show ?case
  proof (cases "rest = []")
    case True
    with c show ?thesis by (simp del: utf8_text_simps(3))
  next
    case False
    with c have "length rest < k" using Suc.prems(3) by (cases mid) auto
    with Suc.IH [of "pre @ mid" rest] Suc.prems(1,2) c(1)
    have "read_whole k (utf8_text (pre @ post)) limit (length (utf8_text (pre @ mid))) = Some rest"
      by (simp del: utf8_text_simps(3))
    with c False show ?thesis by (simp del: utf8_text_simps(3))
  qed
qed simp

text \<open>C37: A text file is read without loss in chunks of any size of at least four bytes: following
  \<^verbatim>\<open>nextOffset\<close> from the start until an answer is not truncated gives exactly the text, although the
  limit cuts through multi-byte characters; each chunk makes progress, so one request per character
  is enough. (Text with NUL is refused as binary, and the decoder drops byte order marks.)\<close>

theorem chunked_reading_complete:
  assumes "plain_text cs" and "4 \<le> limit"
  shows "read_whole (Suc (length cs)) (utf8_text cs) limit 0 = Some cs"
  using read_whole_from [of "[]" cs limit "Suc (length cs)"] assms by simp

lemma chunked_reading_complete_witness:
  "read_whole 5 (utf8_text [72, 233, 8364, 128512]) 4 0 = Some [72, 233, 8364, 128512]"
proof -
  have "plain_text [72, 233, 8364, 128512]" by (simp add: plain_text_def is_scalar_def)
  note whole = chunked_reading_complete [OF this, of 4]
  have "Suc (length [72, 233, 8364, 128512 :: nat]) = 5" by simp
  from whole [unfolded this] show ?thesis by (simp del: read_whole.simps utf8_text_simps)
qed

section \<open>What a listing shows\<close>

text \<open>
  The listed directory is addressed by the path \<open>D\<close> and denotes \<open>Q\<close>. An entry may be shown if its path
  lies in the workspace and in no denied subtree, both below \<open>D\<close> and below \<open>Q\<close>, and if it is no
  symbolic link that leads out of the workspace or into a denied subtree.
\<close>

definition link_allowed :: "(nat \<Rightarrow> fs_view) \<Rightarrow> workspace_metadata \<Rightarrow> string \<Rightarrow> bool" where
  "link_allowed fs w p \<longleftrightarrow> (\<exists>j. case fs_realpath (fs j) p of None \<Rightarrow> True | Some t \<Rightarrow> allowed_path w t)"

definition entry_allowed ::
  "(nat \<Rightarrow> fs_view) \<Rightarrow> workspace_metadata \<Rightarrow> string \<Rightarrow> string \<Rightarrow> listed_entry \<Rightarrow> bool" where
  "entry_allowed fs w D Q e \<longleftrightarrow>
     (\<exists>p c ns. ns \<noteq> [] \<and> path_names p = path_names (wm_root w) @ path_names (le_path e) \<and>
        path_names p = path_names D @ ns \<and> path_names c = path_names Q @ ns \<and>
        allowed_path w p \<and> allowed_path w c \<and> (le_type e = SymbolicLink \<longrightarrow> link_allowed fs w p))"

definition item_inside :: "string \<Rightarrow> string \<Rightarrow> queue_item \<Rightarrow> bool" where
  "item_inside D Q q \<longleftrightarrow>
     canonical_path (qi_operationPath q) \<and> canonical_path (qi_canonicalPath q) \<and>
     (\<exists>ns. path_names (qi_operationPath q) = path_names D @ ns \<and> path_names (qi_canonicalPath q) = path_names Q @ ns)"

lemma not_is_denied:
  assumes "metadata_ok w" "canonical_path p" "\<not> is_denied cwd w p" "d \<in> set (wm_deny w)"
  shows "\<not> prefix (path_names (wm_root w) @ path_names d) (path_names p)"
proof -
  have full: "path_names (posix_resolve cwd [posix_join [wm_root w, d]]) = path_names (wm_root w) @ path_names d"
    using assms(1,4) by (intro resolve_join_proper) (auto simp: metadata_ok_def)
  have "\<not> is_path_inside cwd (posix_join [wm_root w, d]) p"
    using assms(3,4) by (auto simp: is_denied_def list_ex_iff)
  then show ?thesis unfolding is_path_inside_iff full resolve_id [OF assms(2)] .
qed

lemma not_is_denied_allowed:
  assumes "metadata_ok w" "canonical_path p" "\<not> is_denied cwd w p" "prefix (path_names (wm_root w)) (path_names p)"
  shows "allowed_path w p"
  using assms(4) not_is_denied [OF assms(1-3)] by (simp add: allowed_names_def list_all_iff)

lemma classify_link:
  assumes "realpath_canonical (fs_views (lc_calls X))" "metadata_ok (lc_workspace X)"
    and "classify_entry X p kind n = (m, Some (SymbolicLink, bytes))"
  shows "link_allowed (fs_views (lc_calls X)) (lc_workspace X) p"
proof -
  let ?t = "fs_realpath (fs_views (lc_calls X) n) p"
  have kind: "kind = SymbolicLink" using assms(3) by (cases kind) (auto simp: classify_entry_def)
  have "case ?t of None \<Rightarrow> True | Some t \<Rightarrow> allowed_path (lc_workspace X) t"
  proof (cases ?t)
    case (Some t)
    with assms(3) kind have t: "is_path_inside (lc_cwd X) (wm_root (lc_workspace X)) t"
      "\<not> is_denied (lc_cwd X) (lc_workspace X) t"
      by (auto simp: classify_entry_def split: if_splits)
    note canonical = realpath_canonicalD [OF assms(1) Some]
    have "canonical_path (wm_root (lc_workspace X))" using assms(2) by (simp add: metadata_ok_def)
    with t(1) canonical have "prefix (path_names (wm_root (lc_workspace X))) (path_names t)" by (simp add: inside_canonical)
    with not_is_denied_allowed [OF assms(2) canonical t(2)] Some show ?thesis by simp
  qed simp
  then show ?thesis unfolding link_allowed_def by blast
qed

lemma child_allowed:
  assumes w: "metadata_ok w" and fs: "realpath_canonical (fs_views (lc_calls X))" "lc_workspace X = w"
    and D: "prefix (path_names (wm_root w)) (path_names D)" and Q: "prefix (path_names (wm_root w)) (path_names Q)"
    and q: "item_inside D Q cur" and name: "proper_name x"
    and ok: "\<not> is_denied cwd w (posix_join [qi_operationPath cur, x])"
      "\<not> is_denied cwd w (posix_join [qi_canonicalPath cur, x])"
    and kind: "classify_entry X (posix_join [qi_operationPath cur, x]) k n = (m, Some (le_type e, bytes))"
    and e: "le_path e = posix_relative cwd (wm_root w) (posix_join [qi_operationPath cur, x])"
  shows "entry_allowed (fs_views (lc_calls X)) w D Q e \<and> item_inside D Q \<lparr>qi_operationPath = posix_join [qi_operationPath cur, x],
    qi_canonicalPath = posix_join [qi_canonicalPath cur, x], qi_depth = depth\<rparr>"
proof -
  let ?full = "posix_join [qi_operationPath cur, x]" and ?canonical = "posix_join [qi_canonicalPath cur, x]"
  obtain ns where cur: "canonical_path (qi_operationPath cur)" "canonical_path (qi_canonicalPath cur)"
    "path_names (qi_operationPath cur) = path_names D @ ns" "path_names (qi_canonicalPath cur) = path_names Q @ ns"
    using q by (auto simp: item_inside_def)
  note full = join_child [OF cur(1) name] and canonical = join_child [OF cur(2) name]
  have below: "prefix (path_names (wm_root w)) (path_names ?full)" "prefix (path_names (wm_root w)) (path_names ?canonical)"
    using D Q full(2) canonical(2) cur(3,4) by simp_all
  have base: "canonical_path (wm_root w)" using w by (simp add: metadata_ok_def)
  have "path_names ?full = path_names (wm_root w) @ path_names (le_path e)"
    unfolding e by (rule relative_below [OF base full(1) below(1), symmetric])
  moreover have "le_type e = SymbolicLink \<longrightarrow> link_allowed (fs_views (lc_calls X)) w ?full"
    using classify_link [OF fs(1) w [folded fs(2)]] kind unfolding fs(2) by metis
  ultimately have "entry_allowed (fs_views (lc_calls X)) w D Q e"
    unfolding entry_allowed_def
    using full(2) canonical(2) cur(3,4) not_is_denied_allowed [OF w full(1) ok(1) below(1)]
      not_is_denied_allowed [OF w canonical(1) ok(2) below(2)]
    by - (rule exI [of _ ?full], rule exI [of _ ?canonical], rule exI [of _ "ns @ [x]"], simp)
  with full canonical cur(3,4) show ?thesis by (simp add: item_inside_def)
qed

lemma list_entries_allowed:
  assumes "metadata_ok (lc_workspace X)" "realpath_canonical (fs_views (lc_calls X))"
    and "prefix (path_names (wm_root (lc_workspace X))) (path_names D)"
    and "prefix (path_names (wm_root (lc_workspace X))) (path_names Q)"
  shows "list_entries X cur ds entries queue n = (m, Inr (entries', queue', b)) \<Longrightarrow>
    \<forall>d\<in>set ds. proper_name (de_name d) \<Longrightarrow> item_inside D Q cur \<Longrightarrow>
    list_all (entry_allowed (fs_views (lc_calls X)) (lc_workspace X) D Q) entries \<Longrightarrow> list_all (item_inside D Q) queue \<Longrightarrow>
    length entries < lc_limit X \<Longrightarrow>
    list_all (entry_allowed (fs_views (lc_calls X)) (lc_workspace X) D Q) entries' \<and> list_all (item_inside D Q) queue' \<and>
    length entries' \<le> lc_limit X \<and> (b \<longleftrightarrow> length entries' = lc_limit X)"
  using assms
proof (induction X cur ds entries queue n rule: list_entries.induct)
  case (1 X cur entries queue n)
  then show ?case by auto
next
  case (2 X cur d ds entries queue n)
  let ?full = "posix_join [qi_operationPath cur, de_name d]"
  let ?canonical = "posix_join [qi_canonicalPath cur, de_name d]"
  from 2(4) have go: "\<not> lc_aborted X n" by (auto split: if_splits)
  have name: "proper_name (de_name d)" using 2(5) by simp
  show ?case
  proof (cases "is_denied (lc_cwd X) (lc_workspace X) ?full \<or> is_denied (lc_cwd X) (lc_workspace X) ?canonical")
    case True
    with 2(1) [OF go refl refl True] 2(4-) go show ?thesis by simp
  next
    case False
    show ?thesis
    proof (cases "classify_entry X ?full (de_kind d) n")
      case (Pair k out)
      show ?thesis
      proof (cases out)
        case None
        with 2(2) [OF go refl refl False Pair [symmetric] None] 2(4-) go False Pair show ?thesis by simp
      next
        case (Some c)
        obtain kind bytes where c: "c = (kind, bytes)" by (cases c)
        let ?item = "\<lparr>qi_operationPath = ?full, qi_canonicalPath = ?canonical, qi_depth = qi_depth cur + 1\<rparr>"
        let ?queue = "if kind = Directory \<and> lc_recursive X \<and> qi_depth cur + 1 < lc_maxDepth X then queue @ [?item] else queue"
        let ?e = "\<lparr>le_name = de_name d, le_path = posix_relative (lc_cwd X) (wm_root (lc_workspace X)) ?full,
          le_type = kind, le_size = bytes\<rparr>"
        have "entry_allowed (fs_views (lc_calls X)) (lc_workspace X) D Q ?e \<and> item_inside D Q ?item"
          by (rule child_allowed [OF 2(10,11) refl 2(12,13,6) name]) (use False Pair Some c in simp_all)
        with 2(7,8) have ok: "list_all (entry_allowed (fs_views (lc_calls X)) (lc_workspace X) D Q) (entries @ [?e])"
          "list_all (item_inside D Q) ?queue" by simp_all
        show ?thesis
        proof (cases "length (entries @ [?e]) \<ge> lc_limit X")
          case True
          with 2(4,9) go False Pair Some c ok show ?thesis by (auto simp: Let_def)
        next
          case small: False
          with 2(4) go False Pair Some c have
            "list_entries X cur ds (entries @ [?e]) ?queue k = (m, Inr (entries', queue', b))"
            by (simp add: Let_def)
          from 2(3) [OF go refl refl False Pair [symmetric] Some c [symmetric] refl refl small this] 2(5,6,10-13) ok small
          show ?thesis by simp
        qed
      qed
    qed
  qed
qed

lemma list_loop_allowed:
  assumes names: "\<And>k p ds d. fc_readdir (lc_calls X k) p = Some ds \<Longrightarrow> d \<in> set ds \<Longrightarrow> proper_name (de_name d)"
    and sort: "\<And>ds. set (lc_sort X ds) = set ds" and w: "metadata_ok (lc_workspace X)"
      "realpath_canonical (fs_views (lc_calls X))" "prefix (path_names (wm_root (lc_workspace X))) (path_names D)"
      "prefix (path_names (wm_root (lc_workspace X))) (path_names Q)"
  shows "list_loop X queue entries n = (m, Inr (entries', b)) \<Longrightarrow>
    list_all (entry_allowed (fs_views (lc_calls X)) (lc_workspace X) D Q) entries \<Longrightarrow> list_all (item_inside D Q) queue \<Longrightarrow>
    length entries < lc_limit X \<Longrightarrow>
    list_all (entry_allowed (fs_views (lc_calls X)) (lc_workspace X) D Q) entries' \<and> length entries' \<le> lc_limit X \<and>
    (b \<longleftrightarrow> length entries' = lc_limit X)"
proof (induction "length queue + 2 * (lc_limit X - length entries)" arbitrary: queue entries n rule: less_induct)
  case less
  show ?case
  proof (cases queue)
    case Nil
    with less.prems show ?thesis by auto
  next
    case (Cons cur rest)
    from less.prems(1) Cons have go: "\<not> lc_aborted X n" by (auto split: if_splits)
    show ?thesis
    proof (cases "fc_readdir (lc_calls X n) (qi_operationPath cur)")
      case None
      with less.prems(1) go Cons have "list_loop X rest entries (Suc n) = (m, Inr (entries', b))" by simp
      from less.hyps [OF _ this] less.prems Cons show ?thesis by simp
    next
      case (Some ds)
      have proper: "\<forall>d\<in>set (lc_sort X ds). proper_name (de_name d)" using names [OF Some] by (simp add: sort)
      from less.prems(1) go Cons Some obtain k es q stop where
        step: "list_entries X cur (lc_sort X ds) entries rest (Suc n) = (k, Inr (es, q, stop))"
        by (cases "list_entries X cur (lc_sort X ds) entries rest (Suc n)") (auto split: sum.splits)
      have all: "list_all (entry_allowed (fs_views (lc_calls X)) (lc_workspace X) D Q) es \<and> list_all (item_inside D Q) q \<and>
          length es \<le> lc_limit X \<and> (stop \<longleftrightarrow> length es = lc_limit X)"
        using list_entries_allowed [OF w step proper] less.prems(2-4) Cons by simp
      show ?thesis
      proof (cases stop)
        case True
        with step less.prems(1) go Cons Some all show ?thesis by auto
      next
        case False
        with step less.prems(1) go Cons Some have loop: "list_loop X q es k = (m, Inr (entries', b))" by simp
        have "list_entries X cur (lc_sort X ds) entries rest (Suc n) = (k, Inr (es, q, False))" using step False by simp
        from list_entries_growth [OF this] less.prems(4) Cons
        have "length q + 2 * (lc_limit X - length es) < length queue + 2 * (lc_limit X - length entries)" by auto
        from less.hyps [OF this loop] all False show ?thesis by auto
      qed
    qed
  qed
qed

text \<open>C38: What a listing shows, however deep it goes, whatever symbolic links exist and however the file
  system changes while the walk runs. It lists below the directory that the input addresses, \<open>D\<close>, and
  \<open>Q\<close> is what \<open>D\<close> denotes when its symbolic links are followed. The path of every entry shown lies below
  \<open>D\<close>, in the workspace and in no denied subtree; so does the path with the same names below \<open>Q\<close>, so an
  alias of a directory uncovers nothing denied in it; and an entry shown as a symbolic link is dangling
  or leads to a path in the workspace and in no denied subtree. There are never more entries than the
  limit, and the answer says truncated exactly when it stopped at it.\<close>

theorem listing_respects_deny:
  assumes "realpath_canonical fs" and "create_registry cwd fs configs k = (k', Inr W)"
    and "\<And>j p ds d. fc_readdir (F j) p = Some ds \<Longrightarrow> d \<in> set ds \<Longrightarrow> proper_name (de_name d)"
    and "\<And>ds. set (sortNames ds) = set ds"
    and "read_input_ok (ListDirectory i path recursive limit depth)"
    and "realpath_canonical (fs_views F)"
    and "list_directory cwd F aborted sortNames W i path recursive limit depth n = (m, Inr (entries, truncated))"
  shows "\<exists>w\<in>set W. wm_id w = i \<and>
    (\<exists>D Q. D = posix_resolve cwd [posix_join [wm_root w, or_dot path]] \<and> resolves_to (fs_views F) D Q \<and>
       list_all (entry_allowed (fs_views F) w D Q) entries) \<and>
    length entries \<le> (case limit of None \<Rightarrow> 200 | Some l \<Rightarrow> l) \<and>
    (truncated \<longleftrightarrow> length entries = (case limit of None \<Rightarrow> 200 | Some l \<Rightarrow> l))"
proof -
  let ?X = "\<lambda>r. \<lparr>lc_cwd = cwd, lc_calls = F, lc_aborted = aborted, lc_sort = sortNames, lc_workspace = rp_workspace r,
      lc_limit = (case limit of None \<Rightarrow> 200 | Some l \<Rightarrow> l), lc_maxDepth = (case depth of None \<Rightarrow> 5 | Some l \<Rightarrow> l),
      lc_recursive = (case recursive of None \<Rightarrow> False | Some b \<Rightarrow> b)\<rparr>"
  from assms(7) obtain r n1 n2 where
    r: "resolve_workspace_path cwd (fs_views F) W i (or_dot path) (Some CapRead) n = (n1, Inr r)" and
    loop: "list_loop (?X r) [\<lparr>qi_operationPath = rp_operationPath r, qi_canonicalPath = rp_canonicalPath r,
      qi_depth = 0\<rparr>] [] n2 = (m, Inr (entries, truncated))"
    by (auto simp: list_directory_def then_with_Inr try_with_Inr)
  note below = resolved_below [OF create_registry_ok(1) [OF assms(1,2)] r]
  obtain w n3 n4 found where w: "registry_get W i = Some w" "rp_workspace r = w"
    "rp_operationPath r = posix_resolve cwd [posix_join [wm_root w, or_dot path]]"
    "canonicalize_target cwd (fs_views F) (wm_root w) (rp_operationPath r) n3 = (n4, Inr (rp_canonicalPath r, found))"
    "is_path_inside cwd (wm_root w) (rp_canonicalPath r)"
    by (rule resolve_workspace_path_Inr [OF r]) simp
  have q: "canonical_path (rp_canonicalPath r)" by (rule canonicalize_target_canonical [OF assms(6) below(3) w(4)])
  have base: "canonical_path (wm_root w)" using below(2) w(2) by (simp add: metadata_ok_def)
  have Q: "prefix (path_names (wm_root w)) (path_names (rp_canonicalPath r))" using w(5) inside_canonical [OF base q] by simp
  have "list_all (entry_allowed (fs_views (lc_calls (?X r))) (lc_workspace (?X r)) (rp_operationPath r) (rp_canonicalPath r)) entries \<and>
      length entries \<le> lc_limit (?X r) \<and> (truncated \<longleftrightarrow> length entries = lc_limit (?X r))"
    by (rule list_loop_allowed [OF _ _ _ _ _ _ loop])
      (use assms(3-6) below Q w(2) q in \<open>auto simp: item_inside_def in_bounds_def split: option.splits\<close>)
  then have shown: "list_all (entry_allowed (fs_views F) w (rp_operationPath r) (rp_canonicalPath r)) entries"
    "length entries \<le> (case limit of None \<Rightarrow> 200 | Some l \<Rightarrow> l)"
    "truncated \<longleftrightarrow> length entries = (case limit of None \<Rightarrow> 200 | Some l \<Rightarrow> l)"
    using w(2) by simp_all
  show ?thesis
    using registry_get_member [OF w(1)] w(3) canonicalize_target_resolves [OF assms(6) below(3) w(4)] shown by blast
qed

text \<open>A directory with a denied file.\<close>

definition sample_calls :: "nat \<Rightarrow> fs_calls" where
  "sample_calls n =
     \<lparr>fc_view = plain_fs sample_entries n,
      fc_lstat = (\<lambda>p. Some \<lparr>st_kind = (if p = ''/w/secret'' then Directory else RegularFile), st_size = 3, st_mode = 420,
        st_mtimeMs = 1, st_birthtimeMs = 1\<rparr>),
      fc_stat = (\<lambda>p. None),
      fc_readdir = (\<lambda>p. if p = ''/w/secret''
        then Some [\<lparr>de_name = ''key'', de_kind = RegularFile\<rparr>, \<lparr>de_name = ''note'', de_kind = RegularFile\<rparr>] else None),
      fc_read = (\<lambda>p. None)\<rparr>"

lemma sample_listing:
  "list_directory ''/'' sample_calls (\<lambda>_. False) id [sample_workspace] ''w'' (Some ''secret'') None None None 0 =
   (4, Inr ([\<lparr>le_name = ''note'', le_path = ''secret/note'', le_type = RegularFile, le_size = Some 3\<rparr>], False))"
  by code_simp

lemma listing_respects_deny_witness:
  "\<exists>D Q. D = posix_resolve ''/'' [posix_join [''/w'', ''secret'']] \<and> resolves_to (fs_views sample_calls) D Q \<and>
     entry_allowed (fs_views sample_calls) sample_workspace D Q
       \<lparr>le_name = ''note'', le_path = ''secret/note'', le_type = RegularFile, le_size = Some 3\<rparr>"
proof -
  have views: "fs_views sample_calls = plain_fs sample_entries" by (simp add: fs_views_def sample_calls_def fun_eq_iff)
  have "proper_name (de_name d)" if "fc_readdir (sample_calls j) p = Some ds" "d \<in> set ds" for j p ds d
    using that by (auto simp: sample_calls_def proper_name_def split: if_splits)
  moreover have "read_input_ok (ListDirectory ''w'' (Some ''secret'') None None None)" by (simp add: in_bounds_def)
  moreover have "realpath_canonical (fs_views sample_calls)" unfolding views by (rule sample_entries_canonical)
  moreover note sample_listing
  ultimately obtain w D Q where "w \<in> set [sample_workspace]"
    "D = posix_resolve ''/'' [posix_join [wm_root w, or_dot (Some ''secret'')]]" "resolves_to (fs_views sample_calls) D Q"
    "list_all (entry_allowed (fs_views sample_calls) w D Q)
       [\<lparr>le_name = ''note'', le_path = ''secret/note'', le_type = RegularFile, le_size = Some 3\<rparr>]"
    using listing_respects_deny [OF sample_entries_canonical sample_registry_created, of sample_calls id "''w''"
        "Some ''secret''" None None None "\<lambda>_. False" 0 4
        "[\<lparr>le_name = ''note'', le_path = ''secret/note'', le_type = RegularFile, le_size = Some 3\<rparr>]" False]
    by (simp only: id_apply) blast
  moreover have "wm_root sample_workspace = ''/w''" "or_dot (Some ''secret'') = ''secret''"
    by (simp_all add: sample_workspace_def or_dot_def)
  ultimately show ?thesis by (metis empty_iff empty_set insert_iff list.pred_inject(2) list.set(2))
qed

end
