(* ===== verification/Filesystem_Search.thy ===== *)
theory Filesystem_Search
  imports Filesystem_Read
begin

text \<open>
  The action \<^verbatim>\<open>search\<close> of \<^verbatim>\<open>filesystem.read\<close> (\<^verbatim>\<open>apps/agent/src/filesystem-read.ts\<close>): lines that contain a
  text, in one file or in all files below a directory, within limits on files, bytes and results.
  The walk over directories has no limit of its own, so it is a partial function; it returns when
  the directories are nested to a bounded depth.
\<close>

section \<open>One file\<close>

definition max_search_files :: nat where "max_search_files = 1000"
definition max_search_file_size :: nat where "max_search_file_size = 2 * 1024 * 1024"
definition max_search_total_bytes :: nat where "max_search_total_bytes = 20 * 1024 * 1024"
definition max_search_line_preview :: nat where "max_search_line_preview = 200"

record search_match =
  sm_path :: string
  sm_lineNumber :: nat
  sm_line :: "nat list"

record search_state =
  ss_matches :: "search_match list"
  ss_truncated :: bool
  ss_bytes :: nat
  ss_files :: nat

text \<open>\<^verbatim>\<open>split(/\r?\n/)\<close>.\<close>

fun split_lines :: "unicode_text \<Rightarrow> unicode_text list" where
  "split_lines [] = [[]]"
| "split_lines (c # cs) =
     (if c = 10 then [] # split_lines cs
      else if c = 13 \<and> cs \<noteq> [] \<and> hd cs = 10 then [] # split_lines (tl cs)
      else (case split_lines cs of [] \<Rightarrow> [[c]] | l # ls \<Rightarrow> (c # l) # ls))"

fun includes_text :: "unicode_text \<Rightarrow> unicode_text \<Rightarrow> bool" where
  "includes_text [] q \<longleftrightarrow> q = []"
| "includes_text (c # cs) q \<longleftrightarrow> prefix q (c # cs) \<or> includes_text cs q"

text \<open>A line is cut to a number of UTF-16 code units.\<close>

definition utf16_of_scalar :: "nat \<Rightarrow> nat list" where
  "utf16_of_scalar c =
     (if c < 65536 then [c] else [55296 + (c - 65536) div 1024, 56320 + (c - 65536) mod 1024])"

definition line_preview :: "unicode_text \<Rightarrow> nat list" where
  "line_preview l = take max_search_line_preview (concat (map utf16_of_scalar l))"

text \<open>The loop over the lines; the flag says that the number of results was reached.\<close>

fun search_lines ::
  "unicode_text \<Rightarrow> nat \<Rightarrow> string \<Rightarrow> nat \<Rightarrow> unicode_text list \<Rightarrow> search_state \<Rightarrow> search_state \<times> bool" where
  "search_lines q maxResults rel i [] s = (s, False)"
| "search_lines q maxResults rel i (l # ls) s =
     (if includes_text l q then
        let s = s\<lparr>ss_matches := ss_matches s @ [\<lparr>sm_path = rel, sm_lineNumber = Suc i, sm_line = line_preview l\<rparr>]\<rparr> in
        if length (ss_matches s) \<ge> maxResults then (s\<lparr>ss_truncated := True\<rparr>, True)
        else search_lines q maxResults rel (Suc i) ls s
      else search_lines q maxResults rel (Suc i) ls s)"

record search_context =
  sx_cwd :: string
  sx_calls :: "nat \<Rightarrow> fs_calls"
  sx_aborted :: "nat \<Rightarrow> bool"
  sx_sort :: "dirent list \<Rightarrow> dirent list"
  sx_workspace :: workspace_metadata
  sx_query :: unicode_text
  sx_maxResults :: nat

text \<open>What is done with the bytes of a file that was read.\<close>

definition search_content ::
  "search_context \<Rightarrow> string \<Rightarrow> byte list \<Rightarrow> search_state \<Rightarrow> search_state \<times> bool" where
  "search_content X rel buf s =
     (if is_binary_buffer buf then (s, False)
      else (case decode_text buf of
              None \<Rightarrow> (s, False)
            | Some t \<Rightarrow> search_lines (sx_query X) (sx_maxResults X) rel 0 (split_lines t) s))"

definition search_file ::
  "search_context \<Rightarrow> string \<Rightarrow> string \<Rightarrow> search_state \<Rightarrow> nat \<Rightarrow> (nat, tool_error, search_state \<times> bool) outcome" where
  "search_file X filePath rel s n =
     (if sx_aborted X n then (n, Inl ToolTimeout)
      else if ss_files s \<ge> max_search_files then (n, Inr (s\<lparr>ss_truncated := True\<rparr>, True))
      else
        let s = s\<lparr>ss_files := Suc (ss_files s)\<rparr> in
        (case fc_stat (sx_calls X n) filePath of
           None \<Rightarrow> (Suc n, Inr (s, False))
         | Some st \<Rightarrow>
             if st_kind st \<noteq> RegularFile \<or> st_size st > max_search_file_size then (Suc n, Inr (s, False))
             else if ss_bytes s + st_size st > max_search_total_bytes
             then (Suc n, Inr (s\<lparr>ss_truncated := True\<rparr>, True))
             else
               let s = s\<lparr>ss_bytes := ss_bytes s + st_size st\<rparr> in
               (case fc_read (sx_calls X (Suc n)) filePath of
                  None \<Rightarrow> (Suc (Suc n), Inr (s, False))
                | Some content \<Rightarrow>
                    (Suc (Suc n), Inr (search_content X rel (filled_buffer (st_size st) 0 content) s)))))"

section \<open>Directories\<close>

text \<open>One entry of a directory; the flag says that the loop over the entries breaks.\<close>

definition search_entry ::
  "search_context \<Rightarrow> string \<Rightarrow> string \<Rightarrow> file_kind \<Rightarrow> search_state \<Rightarrow> (string \<times> string) list \<Rightarrow> nat
   \<Rightarrow> (nat, tool_error, search_state \<times> (string \<times> string) list \<times> bool) outcome" where
  "search_entry X full canonical kind s queue n =
     (let rel = posix_relative (sx_cwd X) (wm_root (sx_workspace X)) full in
      case kind of
        SymbolicLink \<Rightarrow>
          (case fs_realpath (fs_views (sx_calls X) n) full of
             None \<Rightarrow> (Suc n, Inr (s, queue, False))
           | Some t \<Rightarrow>
               if \<not> is_path_inside (sx_cwd X) (wm_root (sx_workspace X)) t \<or> is_denied (sx_cwd X) (sx_workspace X) t
               then (Suc n, Inr (s, queue, False))
               else
                 (case fc_stat (sx_calls X (Suc n)) full of
                    None \<Rightarrow> (Suc (Suc n), Inr (s, queue, False))
                  | Some st \<Rightarrow>
                      if st_kind st = RegularFile
                      then
                        (case search_file X full rel s (Suc (Suc n)) of
                           (n, Inl e) \<Rightarrow> (n, Inr (s, queue, False))
                         | (n, Inr (s, stop)) \<Rightarrow> (n, Inr (s, queue, stop)))
                      else (Suc (Suc n), Inr (s, queue, False))))
      | Directory \<Rightarrow> (n, Inr (s, queue @ [(full, canonical)], False))
      | RegularFile \<Rightarrow>
          then_with (search_file X full rel s n) (\<lambda>n (s, stop). (n, Inr (s, queue, stop)))
      | OtherKind \<Rightarrow> (n, Inr (s, queue, False)))"

fun search_entries ::
  "search_context \<Rightarrow> string \<times> string \<Rightarrow> dirent list \<Rightarrow> search_state \<Rightarrow> (string \<times> string) list \<Rightarrow> nat
   \<Rightarrow> (nat, tool_error, search_state \<times> (string \<times> string) list) outcome" where
  "search_entries X cur [] s queue n = (n, Inr (s, queue))"
| "search_entries X cur (d # ds) s queue n =
     (if sx_aborted X n then (n, Inl ToolTimeout)
      else
        let full = posix_join [fst cur, de_name d]; canonical = posix_join [snd cur, de_name d] in
        if is_denied (sx_cwd X) (sx_workspace X) full \<or> is_denied (sx_cwd X) (sx_workspace X) canonical
        then search_entries X cur ds s queue n
        else then_with (search_entry X full canonical (de_kind d) s queue n) (\<lambda>n (s, queue, stop).
               if stop then (n, Inr (s, queue)) else search_entries X cur ds s queue n))"

partial_function (option) search_loop ::
  "search_context \<Rightarrow> search_state \<Rightarrow> (string \<times> string) list \<Rightarrow> nat \<Rightarrow> (nat, tool_error, search_state) outcome option" where
  "search_loop X s queue n =
     (case queue of
        [] \<Rightarrow> Some (n, Inr s)
      | cur # rest \<Rightarrow>
          if ss_truncated s then Some (n, Inr s)
          else if sx_aborted X n then Some (n, Inl ToolTimeout)
          else (case fc_readdir (sx_calls X n) (fst cur) of
                  None \<Rightarrow> search_loop X s rest (Suc n)
                | Some ds \<Rightarrow>
                    (case search_entries X cur (sx_sort X ds) s rest (Suc n) of
                       (n, Inl e) \<Rightarrow> Some (n, Inl e)
                     | (n, Inr (s, queue)) \<Rightarrow> search_loop X s queue n)))"

definition empty_search :: search_state where
  "empty_search = \<lparr>ss_matches = [], ss_truncated = False, ss_bytes = 0, ss_files = 0\<rparr>"

text \<open>The look at the target itself: a link that leads nowhere is a missing path.\<close>

definition search_target_stat :: "(nat \<Rightarrow> fs_calls) \<Rightarrow> string \<Rightarrow> nat \<Rightarrow> (nat, tool_error, file_stat) outcome" where
  "search_target_stat F p n =
     then_with (os_call F (\<lambda>v. fc_lstat v p) n) (\<lambda>n st.
       if st_kind st = SymbolicLink then (Suc n, require PathNotFound (fc_stat (F n) p)) else (n, Inr st))"

definition search_text ::
  "string \<Rightarrow> (nat \<Rightarrow> fs_calls) \<Rightarrow> (nat \<Rightarrow> bool) \<Rightarrow> (dirent list \<Rightarrow> dirent list) \<Rightarrow> workspace_metadata list
   \<Rightarrow> string \<Rightarrow> string option \<Rightarrow> unicode_text \<Rightarrow> nat option \<Rightarrow> nat \<Rightarrow> (nat, tool_error, search_state) outcome option" where
  "search_text cwd F aborted sortNames W workspace path query maxResults n =
     (case resolve_workspace_path cwd (fs_views F) W workspace (or_dot path) (Some CapRead) n of
        (n, Inl e) \<Rightarrow> Some (n, Inl e)
      | (n, Inr r) \<Rightarrow>
          if \<not> rp_exists r then Some (n, Inl PathNotFound)
          else
            (case search_target_stat F (rp_operationPath r) n of
               (n, Inl e) \<Rightarrow> Some (n, Inl e)
             | (n, Inr target) \<Rightarrow>
                 let X = \<lparr>sx_cwd = cwd, sx_calls = F, sx_aborted = aborted, sx_sort = sortNames,
                          sx_workspace = rp_workspace r, sx_query = query,
                          sx_maxResults = (case maxResults of None \<Rightarrow> 50 | Some k \<Rightarrow> k)\<rparr> in
                 (case st_kind target of
                    RegularFile \<Rightarrow>
                      Some (then_with (search_file X (rp_operationPath r)
                              (posix_relative cwd (wm_root (rp_workspace r)) (rp_operationPath r)) empty_search n)
                              (\<lambda>n (s, _). (n, Inr s)))
                  | Directory \<Rightarrow> search_loop X empty_search [(rp_operationPath r, rp_canonicalPath r)] n
                  | _ \<Rightarrow> Some (n, Inr empty_search))))"

section \<open>Limits\<close>

definition search_bounded :: "search_context \<Rightarrow> search_state \<Rightarrow> bool" where
  "search_bounded X s \<longleftrightarrow>
     length (ss_matches s) \<le> sx_maxResults X \<and> ss_files s \<le> max_search_files \<and> ss_bytes s \<le> max_search_total_bytes"

text \<open>Between two files the number of results is below the limit unless the search was cut off.\<close>

definition search_running :: "search_context \<Rightarrow> search_state \<Rightarrow> bool" where
  "search_running X s \<longleftrightarrow> search_bounded X s \<and> (ss_truncated s \<or> length (ss_matches s) < sx_maxResults X)"

lemma search_lines_bounded:
  "search_lines q k rel i ls s = (s', b) \<Longrightarrow> length (ss_matches s) < k \<Longrightarrow>
   length (ss_matches s') \<le> k \<and> ss_files s' = ss_files s \<and> ss_bytes s' = ss_bytes s \<and>
   (b \<longrightarrow> ss_truncated s') \<and> (\<not> b \<longrightarrow> length (ss_matches s') < k \<and> ss_truncated s' = ss_truncated s)"
  by (induction q k rel i ls s rule: search_lines.induct) (auto simp: Let_def split: if_splits)

lemma search_content_bounded:
  assumes "search_content X rel buf s = (s', b)" "search_bounded X s" "length (ss_matches s) < sx_maxResults X"
  shows "search_running X s' \<and> (b \<longrightarrow> ss_truncated s') \<and> (\<not> b \<longrightarrow> ss_truncated s' = ss_truncated s)"
  using assms by (auto simp: search_content_def search_running_def search_bounded_def
      split: if_splits option.splits dest!: search_lines_bounded)

lemma search_file_bounded:
  assumes run: "search_file X p rel s n = (m, Inr (s', b))" and s: "search_running X s" "\<not> ss_truncated s"
  shows "search_running X s' \<and> (b \<longrightarrow> ss_truncated s') \<and> (\<not> b \<longrightarrow> \<not> ss_truncated s')"
proof -
  have r: "search_bounded X s" "length (ss_matches s) < sx_maxResults X" using s by (auto simp: search_running_def)
  have counted: "search_bounded X (s\<lparr>ss_files := Suc (ss_files s)\<rparr>)" if "ss_files s < max_search_files"
    using r that by (simp add: search_bounded_def)
  have paid: "search_bounded X (s\<lparr>ss_files := Suc (ss_files s), ss_bytes := ss_bytes s + k\<rparr>)"
    if "ss_files s < max_search_files" "ss_bytes s + k \<le> max_search_total_bytes" for k
    using r that by (simp add: search_bounded_def)
  show ?thesis
    using run r s counted paid
    by (auto simp: search_file_def Let_def search_running_def search_bounded_def not_le
        split: if_splits option.splits
        dest!: search_content_bounded [unfolded search_running_def search_bounded_def])
qed

lemma search_entry_bounded:
  assumes "search_entry X full can kind s queue n = (m, Inr (s', queue', b))" "search_running X s" "\<not> ss_truncated s"
  shows "search_running X s' \<and> (\<not> b \<longrightarrow> \<not> ss_truncated s') \<and>
    (queue' = queue \<or> kind = Directory \<and> queue' = queue @ [(full, can)])"
  using assms search_file_bounded [of X full]
  by (auto simp: search_entry_def Let_def then_with_Inr split: file_kind.splits option.splits if_splits prod.splits sum.splits)

lemma search_entries_bounded:
  "search_entries X cur ds s queue n = (m, Inr (s', queue')) \<Longrightarrow> search_running X s \<Longrightarrow> \<not> ss_truncated s \<Longrightarrow>
   search_running X s' \<and> (\<exists>ks. queue' = queue @ ks \<and> length ks \<le> length ds \<and>
     (\<forall>k\<in>set ks. \<exists>d\<in>set ds. de_kind d = Directory \<and> fst k = posix_join [fst cur, de_name d]))"
proof (induction X cur ds s queue n rule: search_entries.induct)
  case (2 X cur d ds s queue n)
  let ?full = "posix_join [fst cur, de_name d]" and ?can = "posix_join [snd cur, de_name d]"
  from 2(3) have go: "\<not> sx_aborted X n" by (auto split: if_splits)
  show ?case
  proof (cases "is_denied (sx_cwd X) (sx_workspace X) ?full \<or> is_denied (sx_cwd X) (sx_workspace X) ?can")
    case True
    with 2(3) go have "search_entries X cur ds s queue n = (m, Inr (s', queue'))" by (auto simp: Let_def)
    from 2(1) [OF go refl refl True this 2(4,5)] show ?thesis by fastforce
  next
    case allowed: False
    with 2(3) go obtain k t q stop where
      e: "search_entry X ?full ?can (de_kind d) s queue n = (k, Inr (t, q, stop))" and
      rest: "(if stop then (k, Inr (t, q)) else search_entries X cur ds t q k) = (m, Inr (s', queue'))"
      by (auto simp: Let_def then_with_Inr)
    have t: "search_running X t \<and> (\<not> stop \<longrightarrow> \<not> ss_truncated t) \<and>
        (q = queue \<or> de_kind d = Directory \<and> q = queue @ [(?full, ?can)])"
      by (rule search_entry_bounded [OF e 2(4,5)])
    obtain js where js: "q = queue @ js" "length js \<le> 1"
        "\<forall>j\<in>set js. de_kind d = Directory \<and> fst j = ?full"
      using t by (cases "q = queue") auto
    show ?thesis
    proof (cases stop)
      case True
      with rest t js show ?thesis by auto
    next
      case False
      with rest have "search_entries X cur ds t q k = (m, Inr (s', queue'))" by simp
      with 2(2) [OF go refl refl allowed False] False t obtain ks where
        "search_running X s'" "queue' = q @ ks" "length ks \<le> length ds"
        "\<forall>k\<in>set ks. \<exists>d\<in>set ds. de_kind d = Directory \<and> fst k = posix_join [fst cur, de_name d]"
        by blast
      with js show ?thesis by (intro conjI exI [of _ "js @ ks"]) auto
    qed
  qed
qed simp

section \<open>The walk returns\<close>

text \<open>
  What the search needs of the file system to end: directories are nested to a bounded depth, with a
  bounded number of entries each. \<open>nesting p\<close> bounds how deep directories below \<open>p\<close> can be nested.
\<close>

definition bounded_nesting :: "(nat \<Rightarrow> fs_calls) \<Rightarrow> (string \<Rightarrow> nat) \<Rightarrow> nat \<Rightarrow> bool" where
  "bounded_nesting F nesting width \<longleftrightarrow>
     (\<forall>n p ds. fc_readdir (F n) p = Some ds \<longrightarrow> length ds \<le> width \<and>
        (\<forall>d\<in>set ds. de_kind d = Directory \<longrightarrow> nesting (posix_join [p, de_name d]) < nesting p))"

definition queue_weight :: "(string \<Rightarrow> nat) \<Rightarrow> nat \<Rightarrow> (string \<times> string) list \<Rightarrow> nat" where
  "queue_weight nesting width queue = sum_list (map (\<lambda>q. (width + 1) ^ nesting (fst q)) queue)"

lemma queue_weight_children:
  assumes "length ks \<le> width" "\<forall>k\<in>set ks. nesting (fst k) < nesting p"
  shows "queue_weight nesting width ks < (width + 1) ^ nesting p"
proof (cases "ks = []")
  case True
  then show ?thesis by (simp add: queue_weight_def)
next
  case False
  then obtain k where "k \<in> set ks" by (cases ks) auto
  with assms(2) have "nesting p > 0" by fastforce
  then obtain e where e: "nesting p = Suc e" by (cases "nesting p") auto
  have "(width + 1) ^ nesting (fst k) \<le> (width + 1) ^ e" if "k \<in> set ks" for k
    using assms(2) that e by (intro power_increasing) auto
  then have "queue_weight nesting width ks \<le> length ks * (width + 1) ^ e"
    unfolding queue_weight_def by (induction ks) fastforce+
  also have "\<dots> \<le> width * (width + 1) ^ e" using assms(1) by simp
  also have "\<dots> < (width + 1) ^ nesting p" by (simp add: e)
  finally show ?thesis .
qed

lemma search_loop_returns:
  assumes nest: "bounded_nesting (sx_calls X) nesting width"
    and sort: "\<And>ds. set (sx_sort X ds) = set ds \<and> length (sx_sort X ds) = length ds"
  shows "search_running X s \<Longrightarrow>
    \<exists>r. search_loop X s queue n = Some r \<and> (\<forall>m t. r = (m, Inr t) \<longrightarrow> search_running X t)"
proof (induction "queue_weight nesting width queue" arbitrary: s queue n rule: less_induct)
  case less
  show ?case
  proof (cases queue)
    case Nil
    with less.prems show ?thesis by (subst search_loop.simps) simp
  next
    case (Cons cur rest)
    have pop: "queue_weight nesting width rest < queue_weight nesting width queue"
      by (simp add: Cons queue_weight_def)
    show ?thesis
    proof (cases "ss_truncated s \<or> sx_aborted X n")
      case True
      with less.prems Cons show ?thesis by (subst search_loop.simps) auto
    next
      case go: False
      show ?thesis
      proof (cases "fc_readdir (sx_calls X n) (fst cur)")
        case None
        from less.hyps [OF pop less.prems, of "Suc n"] None go Cons show ?thesis
          by (subst search_loop.simps) simp
      next
        case (Some ds)
        show ?thesis
        proof (cases "search_entries X cur (sx_sort X ds) s rest (Suc n)")
          case (Pair k out)
          show ?thesis
          proof (cases out)
            case (Inl e)
            with Pair Some go Cons show ?thesis by (subst search_loop.simps) simp
          next
            case (Inr a)
            obtain t q where a: "a = (t, q)" by (cases a)
            have run: "search_entries X cur (sx_sort X ds) s rest (Suc n) = (k, Inr (t, q))"
              using Pair Inr a by simp
            have "\<not> ss_truncated s" using go by simp
            from search_entries_bounded [OF run less.prems this] obtain ks where
              ks: "search_running X t" "q = rest @ ks" "length ks \<le> length (sx_sort X ds)"
              "\<forall>x\<in>set ks. \<exists>d\<in>set (sx_sort X ds). de_kind d = Directory \<and> fst x = posix_join [fst cur, de_name d]"
              by blast
            have "length ks \<le> width" "\<forall>x\<in>set ks. nesting (fst x) < nesting (fst cur)"
              using ks(3,4) nest Some sort unfolding bounded_nesting_def by fastforce+
            from queue_weight_children [OF this]
            have "queue_weight nesting width q < queue_weight nesting width queue"
              by (simp add: ks(2) Cons queue_weight_def)
            from less.hyps [OF this ks(1), of k] run Some go Cons show ?thesis
              by (subst search_loop.simps) simp
          qed
        qed
      qed
    qed
  qed
qed

text \<open>C39: A search ends and stays within its limits: when directories are nested to a bounded depth with
  boundedly many entries, it returns, whatever links and files there are and however they change, and
  a result has at most the requested number of matches, from at most 1000 files and 20 MiB.\<close>

theorem search_returns_bounded:
  assumes "bounded_nesting F nesting width"
    and "\<And>ds. set (sortNames ds) = set ds \<and> length (sortNames ds) = length ds"
    and "read_input_ok (SearchText i path query maxResults)"
  shows "\<exists>r. search_text cwd F aborted sortNames W i path query maxResults n = Some r \<and>
    (\<forall>m s. r = (m, Inr s) \<longrightarrow>
       length (ss_matches s) \<le> (case maxResults of None \<Rightarrow> 50 | Some k \<Rightarrow> k) \<and>
       ss_files s \<le> max_search_files \<and> ss_bytes s \<le> max_search_total_bytes)"
proof -
  let ?X = "\<lambda>r. \<lparr>sx_cwd = cwd, sx_calls = F, sx_aborted = aborted, sx_sort = sortNames,
    sx_workspace = rp_workspace r, sx_query = query, sx_maxResults = (case maxResults of None \<Rightarrow> 50 | Some k \<Rightarrow> k)\<rparr>"
  have empty: "search_running (?X r) empty_search" for r
    using assms(3) by (auto simp: search_running_def search_bounded_def empty_search_def in_bounds_def split: option.splits)
  have bounded: "length (ss_matches s) \<le> (case maxResults of None \<Rightarrow> 50 | Some k \<Rightarrow> k) \<and>
      ss_files s \<le> max_search_files \<and> ss_bytes s \<le> max_search_total_bytes" if "search_running (?X r) s" for r s
    using that by (simp add: search_running_def search_bounded_def)
  have loop: "\<exists>t. search_loop (?X r) empty_search queue k = Some t \<and> (\<forall>m s. t = (m, Inr s) \<longrightarrow>
      length (ss_matches s) \<le> (case maxResults of None \<Rightarrow> 50 | Some k \<Rightarrow> k) \<and>
      ss_files s \<le> max_search_files \<and> ss_bytes s \<le> max_search_total_bytes)" for r queue k
  proof -
    have "\<exists>t. search_loop (?X r) empty_search queue k = Some t \<and> (\<forall>m s. t = (m, Inr s) \<longrightarrow> search_running (?X r) s)"
      by (rule search_loop_returns [OF _ _ empty]) (use assms(1,2) in simp_all)
    then show ?thesis using bounded by blast
  qed
  have single: "length (ss_matches s) \<le> (case maxResults of None \<Rightarrow> 50 | Some k \<Rightarrow> k) \<and>
      ss_files s \<le> max_search_files \<and> ss_bytes s \<le> max_search_total_bytes" if "search_file (?X r) p rel empty_search k = (m, Inr (s, b))" for r p rel k m s b
  proof (rule bounded)
    show "search_running (?X r) s" using search_file_bounded [OF that empty] by (simp add: empty_search_def)
  qed
  obtain n1 out where r: "resolve_workspace_path cwd (fs_views F) W i (or_dot path) (Some CapRead) n = (n1, out)"
    by (cases "resolve_workspace_path cwd (fs_views F) W i (or_dot path) (Some CapRead) n")
  show ?thesis
  proof (cases out)
    case (Inl e)
    with r show ?thesis by (simp add: search_text_def)
  next
    case (Inr res)
    obtain n2 st where t: "search_target_stat F (rp_operationPath res) n1 = (n2, st)"
      by (cases "search_target_stat F (rp_operationPath res) n1")
    show ?thesis
    proof (cases "rp_exists res \<and> \<not> isl st")
      case False
      with r Inr t show ?thesis by (cases st) (auto simp: search_text_def)
    next
      case True
      then obtain target where st: "st = Inr target" by (cases st) auto
      consider (f) "st_kind target = RegularFile" | (d) "st_kind target = Directory"
        | (o) "st_kind target = SymbolicLink \<or> st_kind target = OtherKind"
        by (cases "st_kind target") auto
      then show ?thesis
      proof cases
        case f
        with r Inr t st True show ?thesis
          by (auto simp: search_text_def Let_def then_with_Inr dest!: single)
      next
        case d
        with r Inr t st True loop [of res "[(rp_operationPath res, rp_canonicalPath res)]" n2] show ?thesis
          by (auto simp: search_text_def Let_def)
      next
        case o
        with r Inr t st True bounded [OF empty [of res]] show ?thesis by (auto simp: search_text_def Let_def)
      qed
    qed
  qed
qed

text \<open>A directory with a file and a directory with another file, both with a line that matches.\<close>

definition search_entries_sample :: "string list" where
  "search_entries_sample = [''/'', ''/w'', ''/w/a'', ''/w/sub'', ''/w/sub/b'']"

definition search_calls :: "nat \<Rightarrow> fs_calls" where
  "search_calls n =
     \<lparr>fc_view = plain_fs search_entries_sample n,
      fc_lstat = (\<lambda>p. Some \<lparr>st_kind = (if p = ''/w'' \<or> p = ''/w/sub'' then Directory else RegularFile), st_size = 3,
        st_mode = 420, st_mtimeMs = 1, st_birthtimeMs = 1\<rparr>),
      fc_stat = (\<lambda>p. Some \<lparr>st_kind = RegularFile, st_size = 3, st_mode = 420, st_mtimeMs = 1, st_birthtimeMs = 1\<rparr>),
      fc_readdir = (\<lambda>p. if p = ''/w''
        then Some [\<lparr>de_name = ''a'', de_kind = RegularFile\<rparr>, \<lparr>de_name = ''sub'', de_kind = Directory\<rparr>]
        else if p = ''/w/sub'' then Some [\<lparr>de_name = ''b'', de_kind = RegularFile\<rparr>] else None),
      fc_read = (\<lambda>p. Some [121, 10, 120])\<rparr>"

definition search_sample :: search_context where
  "search_sample = \<lparr>sx_cwd = ''/'', sx_calls = search_calls, sx_aborted = (\<lambda>_. False), sx_sort = id,
     sx_workspace = sample_workspace, sx_query = [120], sx_maxResults = 2\<rparr>"

lemma search_sample_paths:
  "posix_join [''/w'', ''a''] = ''/w/a''" "posix_join [''/w'', ''sub''] = ''/w/sub''"
  "posix_join [''/w/sub'', ''b''] = ''/w/sub/b''"
  "posix_relative ''/'' ''/w'' ''/w/a'' = ''a''" "posix_relative ''/'' ''/w'' ''/w/sub/b'' = ''sub/b''"
  "\<not> is_denied ''/'' sample_workspace ''/w/a''" "\<not> is_denied ''/'' sample_workspace ''/w/sub''"
  "\<not> is_denied ''/'' sample_workspace ''/w/sub/b''" "wm_root sample_workspace = ''/w''"
  by code_simp+

lemma search_sample_content:
  "search_content search_sample rel [121, 10, 120] s =
     (let t = s\<lparr>ss_matches := ss_matches s @ [\<lparr>sm_path = rel, sm_lineNumber = 2, sm_line = [120]\<rparr>]\<rparr> in
      if 2 \<le> length (ss_matches t) then (t\<lparr>ss_truncated := True\<rparr>, True) else (t, False))"
proof -
  have "decode_text [121, 10, 120] = Some [121, 10, 120]" "\<not> is_binary_buffer [121, 10, 120]" by code_simp+
  then show ?thesis
    by (simp add: search_content_def search_sample_def line_preview_def utf16_of_scalar_def
        max_search_line_preview_def Let_def numeral_2_eq_2)
qed

lemma search_sample_file:
  assumes "ss_files s < max_search_files" "ss_bytes s + 3 \<le> max_search_total_bytes"
  shows "search_file search_sample p rel s n =
    (Suc (Suc n), Inr (search_content search_sample rel [121, 10, 120]
      (s\<lparr>ss_files := Suc (ss_files s), ss_bytes := ss_bytes s + 3\<rparr>)))"
  using assms
  by (simp add: search_file_def search_sample_def search_calls_def filled_buffer_def max_search_file_size_def Let_def)

lemma search_sample_sel:
  "sx_cwd search_sample = ''/''" "sx_workspace search_sample = sample_workspace" "sx_sort search_sample = id"
  "sx_aborted search_sample n = False" "sx_calls search_sample = search_calls"
  by (simp_all add: search_sample_def)

lemma sample_search:
  "search_text ''/'' search_calls (\<lambda>_. False) id [sample_workspace] ''w'' None [120] (Some 2) 0 =
   Some (8, Inr \<lparr>ss_matches = [\<lparr>sm_path = ''a'', sm_lineNumber = 2, sm_line = [120]\<rparr>,
     \<lparr>sm_path = ''sub/b'', sm_lineNumber = 2, sm_line = [120]\<rparr>], ss_truncated = True, ss_bytes = 6, ss_files = 2\<rparr>)"
proof -
  note run = search_entry_def search_sample_file search_sample_content search_sample_paths search_sample_sel
    max_search_files_def max_search_total_bytes_def Let_def
  let ?one = "\<lparr>ss_matches = [\<lparr>sm_path = ''a'', sm_lineNumber = 2, sm_line = [120]\<rparr>], ss_truncated = False,
    ss_bytes = 3, ss_files = 1\<rparr>"
  have first: "search_entries search_sample (''/w'', ''/w'')
      [\<lparr>de_name = ''a'', de_kind = RegularFile\<rparr>, \<lparr>de_name = ''sub'', de_kind = Directory\<rparr>] empty_search [] 3 =
      (5, Inr (?one, [(''/w/sub'', ''/w/sub'')]))"
    by (simp add: run empty_search_def)
  have second: "search_entries search_sample (''/w/sub'', ''/w/sub'') [\<lparr>de_name = ''b'', de_kind = RegularFile\<rparr>] ?one [] 6 =
      (8, Inr (\<lparr>ss_matches = [\<lparr>sm_path = ''a'', sm_lineNumber = 2, sm_line = [120]\<rparr>,
        \<lparr>sm_path = ''sub/b'', sm_lineNumber = 2, sm_line = [120]\<rparr>], ss_truncated = True, ss_bytes = 6, ss_files = 2\<rparr>, []))"
    by (simp add: run)
  have dirs: "fc_readdir (search_calls n) ''/w'' =
      Some [\<lparr>de_name = ''a'', de_kind = RegularFile\<rparr>, \<lparr>de_name = ''sub'', de_kind = Directory\<rparr>]"
    "fc_readdir (search_calls n) ''/w/sub'' = Some [\<lparr>de_name = ''b'', de_kind = RegularFile\<rparr>]" for n
    by (simp_all add: search_calls_def)
  have loop: "search_loop search_sample empty_search [(''/w'', ''/w'')] 2 = Some (8, Inr
      \<lparr>ss_matches = [\<lparr>sm_path = ''a'', sm_lineNumber = 2, sm_line = [120]\<rparr>,
        \<lparr>sm_path = ''sub/b'', sm_lineNumber = 2, sm_line = [120]\<rparr>], ss_truncated = True, ss_bytes = 6, ss_files = 2\<rparr>)"
    using first second
    by (subst search_loop.simps, subst (2) search_loop.simps, subst (3) search_loop.simps)
      (simp add: dirs search_sample_sel empty_search_def)
  have resolve: "resolve_workspace_path ''/'' (fs_views search_calls) [sample_workspace] ''w'' ''.'' (Some CapRead) 0 =
      (Suc 0, Inr \<lparr>rp_workspace = sample_workspace, rp_operationPath = ''/w'', rp_canonicalPath = ''/w'', rp_exists = True\<rparr>)"
    by code_simp
  have target: "search_target_stat search_calls ''/w'' (Suc 0) =
      (2, Inr \<lparr>st_kind = Directory, st_size = 3, st_mode = 420, st_mtimeMs = 1, st_birthtimeMs = 1\<rparr>)"
    by code_simp
  show ?thesis
    using loop by (simp add: search_text_def or_dot_def resolve target search_sample_def)
qed

lemma search_returns_bounded_witness:
  "length [\<lparr>sm_path = ''a'', sm_lineNumber = 2, sm_line = [120]\<rparr>,
     \<lparr>sm_path = ''sub/b'', sm_lineNumber = 2, sm_line = [120 :: nat]\<rparr>] \<le> 2 \<and>
   2 \<le> max_search_files \<and> 6 \<le> max_search_total_bytes"
proof -
  have "posix_join [''/w'', ''sub''] = ''/w/sub''" by code_simp
  then have "bounded_nesting search_calls (\<lambda>p. if p = ''/w'' then 1 else 0) 2"
    by (auto simp: bounded_nesting_def search_calls_def split: if_splits)
  moreover have "read_input_ok (SearchText ''w'' None [120] (Some 2))" by (simp add: in_bounds_def)
  ultimately show ?thesis
    using search_returns_bounded [of search_calls "\<lambda>p. if p = ''/w'' then 1 else 0" 2 id "''w''" None "[120]" "Some 2"
        "''/''" "\<lambda>_. False" "[sample_workspace]" 0] sample_search
    by simp
qed

end
