(* ===== verification/Filesystem_Write.thy ===== *)
theory Filesystem_Write
  imports Filesystem_Read
begin

text \<open>
  The tools \<^verbatim>\<open>filesystem.write\<close> and \<^verbatim>\<open>filesystem.delete\<close> of the agent
  (\<^verbatim>\<open>apps/agent/src/filesystem-write.ts\<close>, \<^verbatim>\<open>filesystem-delete.ts\<close>). The state of a run is the number
  of calls made so far and the list of changes requested from the operating system; the \<open>n\<close>-th call
  is answered by \<open>W n\<close>.
\<close>

section \<open>The operating system\<close>

datatype os_error = EExist | ENoEnt | ENotDir | EXDev | OtherOsError

datatype os_request =
  WriteNewFile string unicode_text
| Chmod string nat
| Rename string string
| RemoveForced string
| MakeDirectory string bool
| RemoveDirectory string
| Remove string bool

record write_calls =
  wr_view :: fs_view
  wr_lstat :: "string \<Rightarrow> os_error + file_stat"
  wr_readFile :: "string \<Rightarrow> os_error + byte list"
  wr_readdir :: "string \<Rightarrow> os_error + string list"
  wr_do :: "os_request \<Rightarrow> os_error option"

type_synonym write_run = "nat \<times> os_request list"

definition ask :: "(nat \<Rightarrow> write_calls) \<Rightarrow> (write_calls \<Rightarrow> os_error + 'a) \<Rightarrow> write_run \<Rightarrow> (write_run, os_error, 'a) outcome" where
  "ask W f s = ((Suc (fst s), snd s), f (W (fst s)))"

definition request :: "(nat \<Rightarrow> write_calls) \<Rightarrow> os_request \<Rightarrow> write_run \<Rightarrow> (write_run, os_error, unit) outcome" where
  "request W r s =
     ((Suc (fst s), snd s @ [r]), case wr_do (W (fst s)) r of None \<Rightarrow> Inr () | Some e \<Rightarrow> Inl e)"

fun domain_error :: "os_error \<Rightarrow> tool_error" where
  "domain_error EExist = AlreadyExists"
| "domain_error ENoEnt = PathNotFound"
| "domain_error ENotDir = InvalidInput"
| "domain_error EXDev = InvalidInput"
| "domain_error OtherOsError = InternalError"

definition map_error :: "('e \<Rightarrow> 'f) \<Rightarrow> (write_run, 'e, 'a) outcome \<Rightarrow> (write_run, 'f, 'a) outcome" where
  "map_error f p = (fst p, map_sum f id (snd p))"

abbreviation as_domain :: "(write_run, os_error, 'a) outcome \<Rightarrow> (write_run, tool_error, 'a) outcome" where
  "as_domain \<equiv> map_error domain_error"

abbreviation uncaught :: "(write_run, os_error, 'a) outcome \<Rightarrow> (write_run, tool_error, 'a) outcome" where
  "uncaught \<equiv> map_error (\<lambda>_. InternalError)"

text \<open>The resolver inside a run.\<close>

definition resolved ::
  "string \<Rightarrow> (nat \<Rightarrow> write_calls) \<Rightarrow> workspace_metadata list \<Rightarrow> string \<Rightarrow> string \<Rightarrow> workspace_capability \<Rightarrow> write_run
   \<Rightarrow> (write_run, tool_error, resolved_path) outcome" where
  "resolved cwd W ws i path cap s =
     (case resolve_workspace_path cwd (\<lambda>n. wr_view (W n)) ws i path (Some cap) (fst s) of
        (n, out) \<Rightarrow> ((n, snd s), out))"

section \<open>Text\<close>

fun index_of :: "unicode_text \<Rightarrow> unicode_text \<Rightarrow> nat option" where
  "index_of q [] = (if q = [] then Some 0 else None)"
| "index_of q (c # cs) = (if prefix q (c # cs) then Some 0 else map_option Suc (index_of q cs))"

text \<open>The loop of \<^verbatim>\<open>countOccurrences\<close> does not end for an empty text, which the schema excludes.\<close>

partial_function (option) count_occurrences :: "unicode_text \<Rightarrow> unicode_text \<Rightarrow> nat option" where
  "count_occurrences content needle =
     (case index_of needle content of
        None \<Rightarrow> Some 0
      | Some i \<Rightarrow> Option.bind (count_occurrences (drop (i + length needle) content) needle) (\<lambda>k. Some (Suc k)))"

lemma index_of_bound: "index_of q s = Some i \<Longrightarrow> i + length q \<le> length s"
  by (induction q s arbitrary: i rule: index_of.induct) (auto split: if_splits dest: prefix_length_le)

function split_text :: "unicode_text \<Rightarrow> unicode_text \<Rightarrow> unicode_text list" where
  "split_text sep s =
     (if sep = [] then map (\<lambda>c. [c]) s
      else (case index_of sep s of
              None \<Rightarrow> [s]
            | Some i \<Rightarrow> take i s # split_text sep (drop (i + length sep) s)))"
  by pat_completeness auto
termination
proof (relation "measure (\<lambda>(sep, s). length s)", goal_cases)
  case (2 sep s i)
  then have "0 < length sep" "i + length sep \<le> length s" by (auto dest: index_of_bound)
  then have "length (drop (i + length sep) s) < length s" unfolding length_drop by linarith
  then show ?case by (simp only: in_measure prod.case)
qed simp

declare split_text.simps [simp del]

fun join_text :: "unicode_text \<Rightarrow> unicode_text list \<Rightarrow> unicode_text" where
  "join_text sep [] = []"
| "join_text sep [s] = s"
| "join_text sep (s # ss) = s @ sep @ join_text sep ss"

text \<open>
  Decoding that replaces what is no UTF-8 (\<^verbatim>\<open>readFile(path, "utf8")\<close>): each maximal beginning of a
  sequence that does not continue becomes U+FFFD.
\<close>

definition continues :: "byte \<Rightarrow> nat \<Rightarrow> byte \<Rightarrow> bool" where
  "continues b i c \<longleftrightarrow>
     is_continuation c \<and>
     (i = 0 \<longrightarrow> (unat b = 224 \<longrightarrow> 160 \<le> unat c) \<and> (unat b = 237 \<longrightarrow> unat c < 160) \<and>
                 (unat b = 240 \<longrightarrow> 144 \<le> unat c) \<and> (unat b = 244 \<longrightarrow> unat c < 144))"

definition sequence_tail :: "byte \<Rightarrow> nat" where
  "sequence_tail b =
     (if 194 \<le> unat b \<and> unat b < 224 then 1 else if 224 \<le> unat b \<and> unat b < 240 then 2
      else if 240 \<le> unat b \<and> unat b < 245 then 3 else 0)"

fun matching :: "byte \<Rightarrow> nat \<Rightarrow> nat \<Rightarrow> byte list \<Rightarrow> nat" where
  "matching b i 0 cs = 0"
| "matching b i (Suc k) [] = 0"
| "matching b i (Suc k) (c # cs) = (if continues b i c then Suc (matching b (Suc i) k cs) else 0)"

function decode_lossy :: "byte list \<Rightarrow> unicode_text" where
  "decode_lossy [] = []"
| "decode_lossy (b # bs) =
     (if unat b < 128 then unat b # decode_lossy bs
      else
        let k = sequence_tail b; m = matching b 0 k bs in
        if 0 < k \<and> m = k
        then (case decode_fatal (b # take k bs) of Some [c] \<Rightarrow> c | _ \<Rightarrow> 65533) # decode_lossy (drop k bs)
        else 65533 # decode_lossy (drop m bs))"
  by pat_completeness auto
termination by (relation "measure length") auto

section \<open>Replacing a file\<close>

definition temporary_path :: "string \<Rightarrow> string \<Rightarrow> string" where
  "temporary_path path uuid = path @ ''.doctmcp-'' @ uuid @ ''.tmp''"

definition atomic_replace ::
  "(nat \<Rightarrow> write_calls) \<Rightarrow> string \<Rightarrow> string \<Rightarrow> unicode_text \<Rightarrow> nat option \<Rightarrow> write_run \<Rightarrow> (write_run, os_error, unit) outcome" where
  "atomic_replace W uuid path content mode s =
     (let temp = temporary_path path uuid;
          (s, out) =
            then_with (request W (WriteNewFile temp content) s) (\<lambda>s _.
            then_with (case mode of None \<Rightarrow> (s, Inr ()) | Some m \<Rightarrow> request W (Chmod temp m) s) (\<lambda>s _.
              request W (Rename temp path) s)) in
      (fst (request W (RemoveForced temp) s), out))"

definition write_new_file ::
  "(nat \<Rightarrow> write_calls) \<Rightarrow> string \<Rightarrow> string \<Rightarrow> unicode_text \<Rightarrow> bool \<Rightarrow> nat option \<Rightarrow> write_run
   \<Rightarrow> (write_run, os_error, unit) outcome" where
  "write_new_file W uuid path content overwrite existingMode s =
     (if overwrite then atomic_replace W uuid path content existingMode s
      else request W (WriteNewFile path content) s)"

definition permission_bits :: "nat \<Rightarrow> nat" where "permission_bits m = m mod 4096"

definition ensure_regular_file :: "(nat \<Rightarrow> write_calls) \<Rightarrow> string \<Rightarrow> write_run \<Rightarrow> (write_run, tool_error, nat) outcome" where
  "ensure_regular_file W path s =
     then_with (as_domain (ask W (\<lambda>v. wr_lstat v path) s)) (\<lambda>s st.
     try_with s (ensure InvalidInput (st_kind st = RegularFile)) (\<lambda>_. (s, Inr (permission_bits (st_mode st)))))"

definition ensure_regular_file_or_directory ::
  "(nat \<Rightarrow> write_calls) \<Rightarrow> string \<Rightarrow> write_run \<Rightarrow> (write_run, tool_error, unit) outcome" where
  "ensure_regular_file_or_directory W path s =
     then_with (as_domain (ask W (\<lambda>v. wr_lstat v path) s)) (\<lambda>s st.
     try_with s (ensure InvalidInput (st_kind st = RegularFile \<or> st_kind st = Directory)) (\<lambda>_. (s, Inr ())))"

definition display_path :: "string \<Rightarrow> string \<Rightarrow> string \<Rightarrow> string" where
  "display_path cwd wsRoot path =
     (let p = map (\<lambda>c. if c = CHR 0x5C then CHR ''/'' else c) (posix_relative cwd wsRoot path) in
      if p = [] then ''.'' else p)"

section \<open>The actions\<close>

record write_result =
  wt_path :: string
  wt_bytes :: nat
  wt_created :: bool
  wt_overwritten :: bool

definition default_max_write_bytes :: nat where "default_max_write_bytes = 1048576"

definition byte_length :: "unicode_text \<Rightarrow> nat" where "byte_length t = length (utf8_text t)"

definition write_file ::
  "string \<Rightarrow> (nat \<Rightarrow> write_calls) \<Rightarrow> workspace_metadata list \<Rightarrow> nat \<Rightarrow> string \<Rightarrow> string \<Rightarrow> string \<Rightarrow> unicode_text
   \<Rightarrow> bool option \<Rightarrow> bool option \<Rightarrow> write_run \<Rightarrow> (write_run, tool_error, write_result) outcome" where
  "write_file cwd W ws maxWriteBytes uuid i path content overwrite createParents s =
     try_with s (ensure OutputLimitExceeded (byte_length content \<le> maxWriteBytes)) (\<lambda>_.
     then_with (resolved cwd W ws i path CapWrite s) (\<lambda>s r.
     try_with s (ensure AlreadyExists (rp_exists r \<longrightarrow> overwrite = Some True)) (\<lambda>_.
     then_with (if rp_exists r
                then then_with (ensure_regular_file W (rp_operationPath r) s) (\<lambda>s m. (s, Inr (Some m)))
                else (s, Inr None)) (\<lambda>s existingMode.
     then_with (if createParents = Some True
                then uncaught (request W (MakeDirectory (posix_dirname (rp_operationPath r)) True) s)
                else (s, Inr ())) (\<lambda>s _.
     then_with (as_domain (write_new_file W uuid (rp_operationPath r) content (overwrite = Some True) existingMode s)) (\<lambda>s _.
       (s, Inr \<lparr>wt_path = display_path cwd (wm_root (rp_workspace r)) (rp_operationPath r), wt_bytes = byte_length content,
                wt_created = (\<not> rp_exists r), wt_overwritten = rp_exists r\<rparr>)))))))"

record patch_result =
  pt_path :: string
  pt_bytes :: nat
  pt_occurrences :: nat

definition patch_file ::
  "string \<Rightarrow> (nat \<Rightarrow> write_calls) \<Rightarrow> workspace_metadata list \<Rightarrow> nat \<Rightarrow> string \<Rightarrow> string \<Rightarrow> string \<Rightarrow> unicode_text \<Rightarrow> unicode_text
   \<Rightarrow> nat option \<Rightarrow> write_run \<Rightarrow> (write_run, tool_error, patch_result) outcome option" where
  "patch_file cwd W ws maxWriteBytes uuid i path oldText newText expected s =
     (case then_with (resolved cwd W ws i path CapWrite s) (\<lambda>s r.
           then_with (ensure_regular_file W (rp_operationPath r) s) (\<lambda>s m.
           then_with (as_domain (ask W (\<lambda>v. wr_readFile v (rp_operationPath r)) s)) (\<lambda>s bytes.
             (s, Inr (r, m, decode_lossy bytes))))) of
        (s, Inl e) \<Rightarrow> Some (s, Inl e)
      | (s, Inr (r, m, content)) \<Rightarrow>
          Option.bind (count_occurrences content oldText) (\<lambda>occurrences.
          Some (try_with s (ensure InvalidInput (occurrences = (case expected of None \<Rightarrow> 1 | Some k \<Rightarrow> k))) (\<lambda>_.
            let patched = join_text newText (split_text oldText content) in
            try_with s (ensure OutputLimitExceeded (byte_length patched \<le> maxWriteBytes)) (\<lambda>_.
            then_with (as_domain (atomic_replace W uuid (rp_operationPath r) patched (Some m) s)) (\<lambda>s _.
              (s, Inr \<lparr>pt_path = display_path cwd (wm_root (rp_workspace r)) (rp_operationPath r),
                       pt_bytes = byte_length patched, pt_occurrences = occurrences\<rparr>)))))))"

definition make_directory ::
  "string \<Rightarrow> (nat \<Rightarrow> write_calls) \<Rightarrow> workspace_metadata list \<Rightarrow> string \<Rightarrow> string \<Rightarrow> bool option \<Rightarrow> write_run
   \<Rightarrow> (write_run, tool_error, string \<times> bool) outcome" where
  "make_directory cwd W ws i path recursive s =
     then_with (resolved cwd W ws i path CapWrite s) (\<lambda>s r.
       if rp_exists r
       then then_with (as_domain (ask W (\<lambda>v. wr_lstat v (rp_operationPath r)) s)) (\<lambda>s st.
            try_with s (ensure AlreadyExists (st_kind st = Directory)) (\<lambda>_.
              (s, Inr (display_path cwd (wm_root (rp_workspace r)) (rp_operationPath r), False))))
       else then_with (as_domain (request W (MakeDirectory (rp_operationPath r) (recursive = Some True)) s)) (\<lambda>s _.
              (s, Inr (display_path cwd (wm_root (rp_workspace r)) (rp_operationPath r), True))))"

definition move_path ::
  "string \<Rightarrow> (nat \<Rightarrow> write_calls) \<Rightarrow> workspace_metadata list \<Rightarrow> string \<Rightarrow> string \<Rightarrow> string \<Rightarrow> bool option \<Rightarrow> write_run
   \<Rightarrow> (write_run, tool_error, string \<times> string \<times> bool) outcome" where
  "move_path cwd W ws i start target overwrite s =
     then_with (resolved cwd W ws i start CapWrite s) (\<lambda>s source.
     then_with (ensure_regular_file_or_directory W (rp_operationPath source) s) (\<lambda>s _.
     then_with (resolved cwd W ws i target CapWrite s) (\<lambda>s destination.
     try_with s (ensure AlreadyExists (rp_exists destination \<longrightarrow> overwrite = Some True)) (\<lambda>_.
     then_with (as_domain (request W (Rename (rp_operationPath source) (rp_operationPath destination)) s)) (\<lambda>s _.
       (s, Inr (display_path cwd (wm_root (rp_workspace source)) (rp_operationPath source),
                display_path cwd (wm_root (rp_workspace destination)) (rp_operationPath destination),
                rp_exists destination)))))))"

text \<open>The handler of the tool.\<close>

datatype write_command =
  WriteCommand string string unicode_text "bool option" "bool option"
| PatchCommand string string unicode_text unicode_text "nat option"
| MkdirCommand string string "bool option"
| MoveCommand string string string "bool option"

datatype write_answer =
  Wrote write_result
| Patched patch_result
| MadeDirectory string bool
| Moved string string bool

definition answered_with :: "('a \<Rightarrow> 'b) \<Rightarrow> (write_run, tool_error, 'a) outcome \<Rightarrow> (write_run, tool_error, 'b) outcome" where
  "answered_with f p = (fst p, map_sum id f (snd p))"

definition filesystem_write ::
  "string \<Rightarrow> (nat \<Rightarrow> write_calls) \<Rightarrow> workspace_metadata list \<Rightarrow> nat \<Rightarrow> string \<Rightarrow> bool \<Rightarrow> write_command \<Rightarrow> write_run
   \<Rightarrow> (write_run, tool_error, write_answer) outcome option" where
  "filesystem_write cwd W ws maxWriteBytes uuid aborted cmd s =
     (if aborted then Some (s, Inl ToolTimeout)
      else
        (case cmd of
           WriteCommand i path content overwrite parents \<Rightarrow>
             Some (answered_with Wrote (write_file cwd W ws maxWriteBytes uuid i path content overwrite parents s))
         | PatchCommand i path oldText newText expected \<Rightarrow>
             map_option (answered_with Patched) (patch_file cwd W ws maxWriteBytes uuid i path oldText newText expected s)
         | MkdirCommand i path recursive \<Rightarrow>
             Some (answered_with (\<lambda>(p, b). MadeDirectory p b) (make_directory cwd W ws i path recursive s))
         | MoveCommand i start target overwrite \<Rightarrow>
             Some (answered_with (\<lambda>(p, q, b). Moved p q b) (move_path cwd W ws i start target overwrite s))))"

fun command_workspace :: "write_command \<Rightarrow> string" where
  "command_workspace (WriteCommand i path content overwrite parents) = i"
| "command_workspace (PatchCommand i path oldText newText expected) = i"
| "command_workspace (MkdirCommand i path recursive) = i"
| "command_workspace (MoveCommand i start target overwrite) = i"

section \<open>Deleting\<close>

definition delete_error :: "os_error \<Rightarrow> tool_error" where
  "delete_error e = (if e = ENoEnt then PathNotFound else InternalError)"

definition delete_path ::
  "string \<Rightarrow> (nat \<Rightarrow> write_calls) \<Rightarrow> workspace_metadata list \<Rightarrow> string \<Rightarrow> string \<Rightarrow> bool \<Rightarrow> write_run
   \<Rightarrow> (write_run, tool_error, bool) outcome" where
  "delete_path cwd W ws i path recursive s =
     then_with (resolved cwd W ws i path CapDelete s) (\<lambda>s r.
     try_with s (ensure PathNotFound (rp_exists r)) (\<lambda>_.
     then_with (map_error (\<lambda>_. PathNotFound) (ask W (\<lambda>v. wr_lstat v (rp_operationPath r)) s)) (\<lambda>s st.
     let isDirectory = (st_kind st = Directory) in
     try_with s (ensure PermissionDenied (st_kind st \<noteq> OtherKind)) (\<lambda>_.
     then_with (if isDirectory \<and> \<not> recursive
                then then_with (uncaught (ask W (\<lambda>v. wr_readdir v (rp_operationPath r)) s)) (\<lambda>s es.
                       (s, ensure PermissionDenied (es = [])))
                else (s, Inr ())) (\<lambda>s _.
     then_with (map_error delete_error
                 (if isDirectory \<and> \<not> recursive then request W (RemoveDirectory (rp_operationPath r)) s
                  else request W (Remove (rp_operationPath r) recursive) s)) (\<lambda>s _.
       (s, Inr isDirectory)))))))"

section \<open>Counting and splitting agree\<close>

lemma index_of_split: "index_of q s = Some i \<Longrightarrow> s = take i s @ q @ drop (i + length q) s"
proof (induction q s arbitrary: i rule: index_of.induct)
  case (2 q c cs)
  show ?case
  proof (cases "prefix q (c # cs)")
    case True
    then obtain r where r: "c # cs = q @ r" by (auto elim: prefixE)
    have i: "i = 0" using 2(2) True by simp
    show ?thesis unfolding i using r by simp
  next
    case False
    with 2(2) obtain j where j: "index_of q cs = Some j" "i = Suc j" by auto
    from 2(1) [OF False j(1)] j(2) show ?thesis by simp
  qed
qed (simp split: if_splits)

lemma split_count:
  assumes "q \<noteq> []"
  shows "split_text q s \<noteq> [] \<and> count_occurrences s q = Some (length (split_text q s) - 1) \<and>
    join_text q (split_text q s) = s"
proof (induction "length s" arbitrary: s rule: less_induct)
  case less
  show ?case
  proof (cases "index_of q s")
    case None
    then show ?thesis
      using assms by (subst count_occurrences.simps) (simp add: split_text.simps [of q s])
  next
    case (Some i)
    let ?rest = "drop (i + length q) s"
    have "length ?rest < length s" using index_of_bound [OF Some] assms by (cases q) auto
    from less [OF this] have rest: "split_text q ?rest \<noteq> []"
      "count_occurrences ?rest q = Some (length (split_text q ?rest) - 1)" "join_text q (split_text q ?rest) = ?rest"
      by auto
    have split: "split_text q s = take i s # split_text q ?rest"
      using assms Some by (simp add: split_text.simps [of q s])
    have "count_occurrences s q = Some (Suc (length (split_text q ?rest) - 1))"
      using Some rest(2) by (subst count_occurrences.simps) simp
    moreover have "join_text q (take i s # split_text q ?rest) = take i s @ q @ ?rest"
      using rest(1,3) by (cases "split_text q ?rest") auto
    ultimately show ?thesis
      unfolding split using rest(1) index_of_split [OF Some] by (cases "split_text q ?rest") auto
  qed
qed

section \<open>Requests of a run\<close>

definition only :: "(os_request \<Rightarrow> bool) \<Rightarrow> write_run \<Rightarrow> write_run \<times> 'b \<Rightarrow> bool" where
  "only P s p \<longleftrightarrow> (\<exists>rs. snd (fst p) = snd s @ rs \<and> list_all P rs)"

lemma only_return: "only P s (s, x)"
  by (simp add: only_def)

lemma only_then:
  assumes "only P s p" "\<And>t a. p = (t, Inr a) \<Longrightarrow> only P t (f t a)"
  shows "only P s (then_with p f)"
proof (cases p)
  case (Pair t out)
  show ?thesis
  proof (cases out)
    case (Inl e)
    with assms(1) Pair show ?thesis by (simp add: only_def)
  next
    case (Inr a)
    with assms Pair show ?thesis by (fastforce simp: only_def)
  qed
qed

lemma only_try: "(\<And>a. r = Inr a \<Longrightarrow> only P s (f a)) \<Longrightarrow> only P s (try_with s r f)"
  by (cases r) (simp_all add: only_return)

lemma only_request: "P r \<Longrightarrow> only P s (request W r s)"
  by (simp add: only_def request_def)

lemma only_ask: "only P s (ask W f s)"
  by (simp add: only_def ask_def)

lemma only_map_error: "only P s p \<Longrightarrow> only P s (map_error f p)"
  by (simp add: only_def map_error_def)

lemma only_resolved: "only P s (resolved cwd W ws i path cap s)"
  by (simp add: only_def resolved_def split: prod.split)

lemma only_if: "(b \<Longrightarrow> only P s p) \<Longrightarrow> (\<not> b \<Longrightarrow> only P s q) \<Longrightarrow> only P s (if b then p else q)"
  by simp

lemmas only_intros = only_return only_then only_try only_request only_ask only_resolved only_if only_map_error

lemma only_atomic_replace:
  assumes "\<And>p. p \<in> {path, temporary_path path uuid} \<Longrightarrow> P (WriteNewFile p content)"
    and "\<And>m. P (Chmod (temporary_path path uuid) m)" "P (Rename (temporary_path path uuid) path)"
    and "P (RemoveForced (temporary_path path uuid))"
  shows "only P s (atomic_replace W uuid path content mode s)"
proof -
  let ?temp = "temporary_path path uuid"
  let ?p = "then_with (request W (WriteNewFile ?temp content) s) (\<lambda>s _.
            then_with (case mode of None \<Rightarrow> (s, Inr ()) | Some m \<Rightarrow> request W (Chmod ?temp m) s) (\<lambda>s _.
              request W (Rename ?temp path) s))"
  have "only P s ?p"
    by (intro only_then) (auto simp: assms intro: only_intros split: option.split)
  moreover obtain t out where p: "?p = (t, out)" by (cases ?p)
  ultimately obtain rs where "snd t = snd s @ rs" "list_all P rs" by (auto simp: only_def)
  with assms(4) show ?thesis unfolding atomic_replace_def Let_def p prod.case by (simp add: only_def request_def)
qed

text \<open>
  What the run of a tool assumes of its environment: real paths are canonical, the roots of the
  workspaces stay directories, and the identifier in a temporary name has no slash.
\<close>

definition roots_are_directories :: "(nat \<Rightarrow> write_calls) \<Rightarrow> workspace_metadata list \<Rightarrow> bool" where
  "roots_are_directories W ws \<longleftrightarrow>
     (\<forall>n. \<forall>w\<in>set ws. fs_realpath (wr_view (W n)) (wm_root w) \<noteq> None \<and>
        (case wr_lstat (W n) (wm_root w) of Inl e \<Rightarrow> True | Inr st \<Rightarrow> st_kind st = Directory))"

definition write_environment :: "(nat \<Rightarrow> write_calls) \<Rightarrow> workspace_metadata list \<Rightarrow> string \<Rightarrow> bool" where
  "write_environment W ws uuid \<longleftrightarrow>
     realpath_canonical (\<lambda>n. wr_view (W n)) \<and> roots_are_directories W ws \<and> CHR ''/'' \<notin> set uuid"

text \<open>A path that may be addressed in a workspace: neither the path nor what it denotes leaves the
  root or enters a denied subtree.\<close>

definition addressed_path :: "(nat \<Rightarrow> write_calls) \<Rightarrow> workspace_metadata \<Rightarrow> string \<Rightarrow> bool" where
  "addressed_path W w p \<longleftrightarrow>
     allowed_path w p \<and> (\<exists>q. resolves_to (\<lambda>n. wr_view (W n)) p q \<and> allowed_path w q)"

text \<open>A path a tool may change: an addressed path, or its temporary sibling or, to create it, its
  directory, as long as these lie at or below the root too.\<close>

definition permitted_path ::
  "(nat \<Rightarrow> write_calls) \<Rightarrow> workspace_metadata list \<Rightarrow> string \<Rightarrow> workspace_capability \<Rightarrow> string \<Rightarrow> string \<Rightarrow> bool" where
  "permitted_path W ws i cap uuid p \<longleftrightarrow>
     (\<exists>w a. w \<in> set ws \<and> wm_id w = i \<and> capability_enabled (wm_capabilities w) cap \<and> addressed_path W w a \<and>
        prefix (path_names (wm_root w)) (path_names p) \<and> p \<in> {a, temporary_path a uuid, posix_dirname a})"

fun request_paths :: "os_request \<Rightarrow> string list" where
  "request_paths (WriteNewFile p t) = [p]"
| "request_paths (Chmod p m) = [p]"
| "request_paths (Rename p q) = [p, q]"
| "request_paths (RemoveForced p) = [p]"
| "request_paths (MakeDirectory p b) = [p]"
| "request_paths (RemoveDirectory p) = [p]"
| "request_paths (Remove p b) = [p]"

definition permitted ::
  "(nat \<Rightarrow> write_calls) \<Rightarrow> workspace_metadata list \<Rightarrow> string \<Rightarrow> workspace_capability \<Rightarrow> string \<Rightarrow> os_request \<Rightarrow> bool" where
  "permitted W ws i cap uuid r \<longleftrightarrow> list_all (permitted_path W ws i cap uuid) (request_paths r)"

lemma resolved_run:
  "resolved cwd W ws i path cap s = (t, Inr r) \<Longrightarrow>
   \<exists>n. resolve_workspace_path cwd (\<lambda>n. wr_view (W n)) ws i path (Some cap) (fst s) = (n, Inr r)"
  by (auto simp: resolved_def split: prod.splits)

lemma not_prefix_butlast: "prefix xs ys \<Longrightarrow> xs \<noteq> ys \<Longrightarrow> prefix xs (butlast ys)"
  by (cases ys rule: rev_cases) auto

text \<open>A resolved path is addressed; the root itself exists, so a path that is missing, or a regular
  file, is not the root.\<close>

lemma resolved_addressed:
  assumes ws: "\<forall>w\<in>set ws. metadata_ok w" and env: "write_environment W ws uuid"
    and r: "resolved cwd W ws i path CapWrite s = (t, Inr r)"
  shows "rp_workspace r \<in> set ws" "wm_id (rp_workspace r) = i"
    "capability_enabled (wm_capabilities (rp_workspace r)) CapWrite"
    "addressed_path W (rp_workspace r) (rp_operationPath r)"
    "rp_operationPath r = wm_root (rp_workspace r) \<Longrightarrow> rp_exists r"
proof -
  let ?fs = "\<lambda>n. wr_view (W n)"
  from resolved_run [OF r] obtain n where run: "resolve_workspace_path cwd ?fs ws i path (Some CapWrite) (fst s) = (n, Inr r)"
    by blast
  note below = resolved_below [OF ws run]
  have canon: "realpath_canonical ?fs" using env by (simp add: write_environment_def)
  obtain w n1 n2 symlink found where w: "registry_get ws i = Some w" "rp_workspace r = w"
    "canonicalize_target cwd ?fs (wm_root w) (rp_operationPath r) n1 = (n2, Inr (rp_canonicalPath r, found))"
    "is_path_inside cwd (wm_root w) (rp_canonicalPath r)"
    "\<not> path_denied cwd w False (rp_operationPath r) (rp_canonicalPath r)"
    "capability_enabled (wm_capabilities w) CapWrite" "rp_exists r = (found \<or> symlink)"
    by (rule resolve_workspace_path_Inr [OF run]) simp
  show "rp_workspace r \<in> set ws" "wm_id (rp_workspace r) = i"
    "capability_enabled (wm_capabilities (rp_workspace r)) CapWrite"
    using registry_get_member [OF w(1)] w(2,6) by simp_all
  have q: "canonical_path (rp_canonicalPath r)" by (rule canonicalize_target_canonical [OF canon below(3) w(3)])
  have base: "canonical_path (wm_root w)" using below(2) w(2) by (simp add: metadata_ok_def)
  have "allowed_path w (rp_operationPath r)" "allowed_path w (rp_canonicalPath r)"
    unfolding allowed_names_def
    using below(4) inside_canonical [OF base q] w(2,4) not_denied [OF below(2) [unfolded w(2)] below(3) q w(5)]
    by (simp_all add: list_all_iff)
  with canonicalize_target_resolves [OF canon below(3) w(3)] w(2) show
    "addressed_path W (rp_workspace r) (rp_operationPath r)"
    unfolding addressed_path_def by blast
  show "rp_exists r" if "rp_operationPath r = wm_root (rp_workspace r)"
  proof -
    have "fs_realpath (?fs n1) (rp_operationPath r) \<noteq> None"
      using env that registry_get_member [OF w(1)] w(2) by (simp add: write_environment_def roots_are_directories_def)
    with w(3) have found by (auto simp: canonicalize_target_def)
    with w(7) show ?thesis by simp
  qed
qed

lemma ensure_regular_file_kind:
  assumes "ensure_regular_file W p s = (t, Inr m)"
  obtains st where "wr_lstat (W (fst s)) p = Inr st" "st_kind st = RegularFile"
  using assms that
  by (auto simp: ensure_regular_file_def then_with_Inr try_with_Inr ask_def map_error_def map_sum_def split: sum.splits)

lemma regular_not_root:
  assumes "roots_are_directories W ws" "ensure_regular_file W p s = (t, Inr m)" "w \<in> set ws"
  shows "p \<noteq> wm_root w"
proof
  assume p: "p = wm_root w"
  obtain st where "wr_lstat (W (fst s)) p = Inr st" "st_kind st = RegularFile"
    by (rule ensure_regular_file_kind [OF assms(2)])
  moreover have "case wr_lstat (W (fst s)) p of Inl e \<Rightarrow> True | Inr st \<Rightarrow> st_kind st = Directory"
    using assms(1,3) p by (simp add: roots_are_directories_def)
  ultimately show False by simp
qed

lemma resolved_permitted:
  assumes "\<forall>w\<in>set ws. metadata_ok w" "write_environment W ws uuid" "resolved cwd W ws i path CapWrite s = (t, Inr r)"
  shows "permitted_path W ws i CapWrite uuid (rp_operationPath r)"
    "rp_operationPath r \<noteq> wm_root (rp_workspace r) \<Longrightarrow>
       permitted_path W ws i CapWrite uuid (temporary_path (rp_operationPath r) uuid) \<and>
       permitted_path W ws i CapWrite uuid (posix_dirname (rp_operationPath r))"
proof -
  let ?p = "rp_operationPath r" and ?names = "path_names (rp_operationPath r)" and ?w = "rp_workspace r"
  note ok = resolved_addressed [OF assms]
  from resolved_run [OF assms(3)] obtain n where run:
    "resolve_workspace_path cwd (\<lambda>n. wr_view (W n)) ws i path (Some CapWrite) (fst s) = (n, Inr r)"
    by blast
  note below = resolved_below [OF assms(1) run]
  show "permitted_path W ws i CapWrite uuid ?p"
    unfolding permitted_path_def using ok(1-4) below(4) by blast
  show "permitted_path W ws i CapWrite uuid (temporary_path ?p uuid) \<and>
      permitted_path W ws i CapWrite uuid (posix_dirname ?p)" if differ: "?p \<noteq> wm_root ?w"
  proof -
    have base: "canonical_path (wm_root ?w)" using below(2) by (simp add: metadata_ok_def)
    have "path_names (wm_root ?w) \<noteq> ?names" using differ canonical_names_eq [OF base below(3)] by auto
    with below(4) have inside: "prefix (path_names (wm_root ?w)) (butlast ?names)" "?names \<noteq> []"
      by (auto intro: not_prefix_butlast)
    let ?tail = "''.doctmcp-'' @ uuid @ ''.tmp''"
    have "path_names (posix_dirname ?p) = butlast ?names"
      unfolding dirname_canonical [OF below(3) inside(2)]
      by (rule path_names_abs [OF proper_butlast [OF canonical_names [OF below(3)]]])
    moreover have "path_names (temporary_path ?p uuid) = butlast ?names @ [last ?names @ ?tail]"
      unfolding temporary_path_def
      by (rule sibling_canonical(2) [OF below(3) inside(2)]) (use assms(2) in \<open>simp_all add: write_environment_def\<close>)
    ultimately have "prefix (path_names (wm_root ?w)) (path_names x)" if "x \<in> {temporary_path ?p uuid, posix_dirname ?p}" for x
      using inside(1) that by auto
    then show ?thesis unfolding permitted_path_def using ok(1-4) by blast
  qed
qed

lemma permitted_simps:
  "permitted W ws i cap uuid r \<longleftrightarrow> list_all (permitted_path W ws i cap uuid) (request_paths r)"
  by (simp add: permitted_def)

lemma only_ensure: "only P s (ensure_regular_file W path s)" "only P s (ensure_regular_file_or_directory W path s)"
  unfolding ensure_regular_file_def ensure_regular_file_or_directory_def by (intro only_intros)+

lemma only_write_new_file:
  assumes "permitted_path W ws i cap uuid path" "permitted_path W ws i cap uuid (temporary_path path uuid)"
  shows "only (permitted W ws i cap uuid) s (atomic_replace W uuid path content mode s)"
    "only (permitted W ws i cap uuid) s (write_new_file W uuid path content overwrite mode s)"
  using assms unfolding write_new_file_def
  by (intro only_if only_atomic_replace only_request; auto simp: permitted_simps)+

lemma only_write_file:
  assumes ws: "\<forall>w\<in>set ws. metadata_ok w" and env: "write_environment W ws uuid"
  shows "only (permitted W ws i CapWrite uuid) s (write_file cwd W ws mx uuid i path content overwrite parents s)"
  unfolding write_file_def
proof (intro only_try only_then [OF only_resolved])
  fix t r
  assume r: "resolved cwd W ws i path CapWrite s = (t, Inr r)"
  let ?p = "rp_operationPath r"
  let ?existing = "if rp_exists r then then_with (ensure_regular_file W ?p t) (\<lambda>s m. (s, Inr (Some m))) else (t, Inr None)"
  note permitted = resolved_permitted [OF ws env r]
  show "only (permitted W ws i CapWrite uuid) t (then_with ?existing (\<lambda>s existingMode.
    then_with (if parents = Some True then uncaught (request W (MakeDirectory (posix_dirname ?p) True) s) else (s, Inr ())) (\<lambda>s _.
    then_with (as_domain (write_new_file W uuid ?p content (overwrite = Some True) existingMode s)) (\<lambda>s _.
      (s, Inr \<lparr>wt_path = display_path cwd (wm_root (rp_workspace r)) ?p, wt_bytes = byte_length content,
               wt_created = (\<not> rp_exists r), wt_overwritten = rp_exists r\<rparr>)))))"
  proof (rule only_then)
    show "only (permitted W ws i CapWrite uuid) t ?existing" by (intro only_intros only_ensure)
  next
    fix u a
    assume e: "?existing = (u, Inr a)"
    have "?p \<noteq> wm_root (rp_workspace r)"
    proof (cases "rp_exists r")
      case True
      with e obtain v m where "ensure_regular_file W ?p t = (v, Inr m)" by (auto simp: then_with_Inr)
      with regular_not_root env resolved_addressed(1) [OF ws env r] show ?thesis
        unfolding write_environment_def by blast
    qed (use resolved_addressed(5) [OF ws env r] in blast)
    note ok = permitted(1) permitted(2) [OF this, THEN conjunct1] permitted(2) [OF this, THEN conjunct2]
    show "only (permitted W ws i CapWrite uuid) u (then_with
        (if parents = Some True then uncaught (request W (MakeDirectory (posix_dirname ?p) True) u) else (u, Inr ())) (\<lambda>s _.
        then_with (as_domain (write_new_file W uuid ?p content (overwrite = Some True) a s)) (\<lambda>s _.
          (s, Inr \<lparr>wt_path = display_path cwd (wm_root (rp_workspace r)) ?p, wt_bytes = byte_length content,
                   wt_created = (\<not> rp_exists r), wt_overwritten = rp_exists r\<rparr>))))"
      by (intro only_intros only_write_new_file ok) (simp add: permitted_simps ok)
  qed
qed

lemma only_make_directory:
  assumes ws: "\<forall>w\<in>set ws. metadata_ok w" and env: "write_environment W ws uuid"
  shows "only (permitted W ws i CapWrite uuid) s (make_directory cwd W ws i path recursive s)"
  unfolding make_directory_def
  by (intro only_intros) (auto simp: permitted_simps dest!: resolved_permitted(1) [OF ws env])

lemma only_move_path:
  assumes ws: "\<forall>w\<in>set ws. metadata_ok w" and env: "write_environment W ws uuid"
  shows "only (permitted W ws i CapWrite uuid) s (move_path cwd W ws i start target overwrite s)"
  unfolding move_path_def
  by (intro only_intros only_ensure) (auto simp: permitted_simps dest!: resolved_permitted(1) [OF ws env])

lemma only_patch_file:
  assumes ws: "\<forall>w\<in>set ws. metadata_ok w" and env: "write_environment W ws uuid"
    and run: "patch_file cwd W ws mx uuid i path oldText newText expected s = Some p"
  shows "only (permitted W ws i CapWrite uuid) s p"
proof -
  let ?q = "then_with (resolved cwd W ws i path CapWrite s) (\<lambda>s r.
           then_with (ensure_regular_file W (rp_operationPath r) s) (\<lambda>s m.
           then_with (as_domain (ask W (\<lambda>v. wr_readFile v (rp_operationPath r)) s)) (\<lambda>s bytes.
             (s, Inr (r, m, decode_lossy bytes)))))"
  have q: "only (permitted W ws i CapWrite uuid) s ?q" by (intro only_intros only_ensure)
  obtain t out where t: "?q = (t, out)" by (cases ?q)
  show ?thesis
  proof (cases out)
    case (Inl e)
    with run t have "p = (t, Inl e)" by (simp add: patch_file_def)
    with q t Inl show ?thesis by (simp add: only_def)
  next
    case (Inr a)
    obtain r m content where a: "a = (r, m, content)" by (cases a)
    from t Inr a obtain u v where r: "resolved cwd W ws i path CapWrite s = (u, Inr r)"
      and "ensure_regular_file W (rp_operationPath r) u = (v, Inr m)"
      by (auto simp: then_with_Inr)
    with regular_not_root env resolved_addressed(1) [OF ws env r] have
      "rp_operationPath r \<noteq> wm_root (rp_workspace r)"
      unfolding write_environment_def by blast
    note ok = resolved_permitted(1) [OF ws env r] resolved_permitted(2) [OF ws env r this]
    have "only (permitted W ws i CapWrite uuid) s (then_with ?q (\<lambda>_ _. p))"
    proof (rule only_then [OF q])
      fix t' a'
      assume "?q = (t', Inr a')"
      with t Inr a have e: "t' = t" "a' = (r, m, content)" by auto
      from run t Inr a obtain k where p: "p = try_with t (ensure InvalidInput (k = (case expected of None \<Rightarrow> 1 | Some k \<Rightarrow> k))) (\<lambda>_.
            let patched = join_text newText (split_text oldText content) in
            try_with t (ensure OutputLimitExceeded (byte_length patched \<le> mx)) (\<lambda>_.
            then_with (as_domain (atomic_replace W uuid (rp_operationPath r) patched (Some m) t)) (\<lambda>s _.
              (s, Inr \<lparr>pt_path = display_path cwd (wm_root (rp_workspace r)) (rp_operationPath r),
                       pt_bytes = byte_length patched, pt_occurrences = k\<rparr>))))"
        by (auto simp: patch_file_def bind_eq_Some_conv)
      show "only (permitted W ws i CapWrite uuid) t' p"
        unfolding p e Let_def using ok by (intro only_intros only_write_new_file) simp_all
    qed
    with t Inr show ?thesis by simp
  qed
qed

text \<open>C32: A write tool changes nothing outside what the workspace permits. Every path in every change it
  requests from the operating system, on success and on failure and however the file system changes
  meanwhile, lies at or below the root of the addressed workspace, which grants the write capability,
  and is an addressed path, or the temporary sibling or the directory of one: a path that lies at or
  below the root and in no denied subtree, and so does what it denotes when its symbolic links are
  followed. The run assumes that real paths are canonical, that the roots stay directories, and that
  the random identifier in a temporary name has no slash.\<close>

theorem write_requests_permitted:
  assumes "realpath_canonical fs" and "create_registry cwd0 fs configs k = (k', Inr ws)"
    and "filesystem_write cwd W ws maxWriteBytes uuid aborted cmd (n, []) = Some ((m, rs), out)"
    and "write_environment W ws uuid"
  shows "list_all (\<lambda>r. list_all (permitted_path W ws (command_workspace cmd) CapWrite uuid) (request_paths r)) rs"
proof -
  note ws = create_registry_ok(1) [OF assms(1,2)]
  have answered: "only P s (answered_with f p) = only P s p" for P s p and f :: "'x \<Rightarrow> 'y"
    by (simp add: only_def answered_with_def)
  have "only (permitted W ws (command_workspace cmd) CapWrite uuid) (n, []) ((m, rs), out)"
  proof (cases aborted)
    case True
    with assms(3) show ?thesis by (simp add: filesystem_write_def only_return)
  next
    case False
    note run = assms(3) [unfolded filesystem_write_def]
    show ?thesis
    proof (cases cmd)
      case (PatchCommand i path oldText newText expected)
      with run False obtain p where "patch_file cwd W ws maxWriteBytes uuid i path oldText newText expected (n, []) = Some p"
        "answered_with Patched p = ((m, rs), out)"
        by auto
      with only_patch_file [OF ws assms(4) this(1)] answered PatchCommand show ?thesis by (metis command_workspace.simps(2))
    next
      case (WriteCommand i path content overwrite parents)
      with run False have "((m, rs), out) = answered_with Wrote (write_file cwd W ws maxWriteBytes uuid i path content overwrite parents (n, []))" by simp
      with only_write_file [OF ws assms(4)] answered WriteCommand show ?thesis by (metis command_workspace.simps(1))
    next
      case (MkdirCommand i path recursive)
      with run False have "((m, rs), out) = answered_with (\<lambda>(p, b). MadeDirectory p b) (make_directory cwd W ws i path recursive (n, []))" by simp
      with only_make_directory [OF ws assms(4)] answered MkdirCommand show ?thesis by (metis command_workspace.simps(3))
    next
      case (MoveCommand i start target overwrite)
      with run False have "((m, rs), out) = answered_with (\<lambda>(p, q, b). Moved p q b) (move_path cwd W ws i start target overwrite (n, []))" by simp
      with only_move_path [OF ws assms(4)] answered MoveCommand show ?thesis by (metis command_workspace.simps(4))
    qed
  qed
  then show ?thesis by (simp add: only_def permitted_def [abs_def])
qed

lemma write_requests_permitted_witness:
  "\<exists>W. filesystem_write ''/'' W [sample_workspace] 100 ''u'' False (WriteCommand ''w'' ''new'' [104, 105] None None) (0, []) =
      Some ((4, [WriteNewFile ''/w/new'' [104, 105]]),
        Inr (Wrote \<lparr>wt_path = ''new'', wt_bytes = 2, wt_created = True, wt_overwritten = False\<rparr>)) \<and>
    permitted_path W [sample_workspace] ''w'' CapWrite ''u'' ''/w/new''"
proof -
  define W :: "nat \<Rightarrow> write_calls" where "W = (\<lambda>n. \<lparr>wr_view = plain_fs sample_entries n, wr_lstat = (\<lambda>p. Inl ENoEnt),
    wr_readFile = (\<lambda>p. Inl ENoEnt), wr_readdir = (\<lambda>p. Inl ENoEnt), wr_do = (\<lambda>r. None)\<rparr>)"
  have run: "filesystem_write ''/'' W [sample_workspace] 100 ''u'' False (WriteCommand ''w'' ''new'' [104, 105] None None) (0, []) =
    Some ((4, [WriteNewFile ''/w/new'' [104, 105]]),
      Inr (Wrote \<lparr>wt_path = ''new'', wt_bytes = 2, wt_created = True, wt_overwritten = False\<rparr>))"
    unfolding W_def by code_simp
  have "roots_are_directories W [sample_workspace]"
    by (simp add: roots_are_directories_def W_def plain_fs_def sample_entries_def sample_workspace_def)
  with sample_entries_canonical have "write_environment W [sample_workspace] ''u''"
    by (simp add: write_environment_def W_def)
  from write_requests_permitted [OF sample_entries_canonical sample_registry_created run this] run show ?thesis
    by auto
qed

text \<open>
  The assumption on the roots is needed: the registry takes any path that exists as a root, and when
  the root is a regular file, overwriting it writes the temporary sibling beside it, outside.
\<close>

lemma file_root_writes_outside:
  "filesystem_write ''/'' (\<lambda>n. \<lparr>wr_view = plain_fs sample_entries n, wr_lstat = (\<lambda>p. Inr \<lparr>st_kind = RegularFile, st_size = 3,
      st_mode = 420, st_mtimeMs = 1, st_birthtimeMs = 1\<rparr>), wr_readFile = (\<lambda>p. Inl ENoEnt), wr_readdir = (\<lambda>p. Inl ENoEnt),
      wr_do = (\<lambda>r. None)\<rparr>) [sample_workspace] 100 ''u'' False (WriteCommand ''w'' ''.'' [104] (Some True) None) (0, []) =
    Some ((6, [WriteNewFile ''/w.doctmcp-u.tmp'' [104], Chmod ''/w.doctmcp-u.tmp'' 420, Rename ''/w.doctmcp-u.tmp'' ''/w'',
        RemoveForced ''/w.doctmcp-u.tmp'']),
      Inr (Wrote \<lparr>wt_path = ''.'', wt_bytes = 1, wt_created = False, wt_overwritten = True\<rparr>))"
  by code_simp

section \<open>What a deletion spares\<close>

text \<open>
  What a deletion may remove: a path strictly below the root, in no denied subtree and with no denied
  path below it, and the same for what the path denotes; only a symbolic link may lead out of the
  root, and then its own directory does not.
\<close>

definition clear_of_denied :: "workspace_metadata \<Rightarrow> string \<Rightarrow> bool" where
  "clear_of_denied w p \<longleftrightarrow>
     list_all (\<lambda>d. \<not> prefix (path_names (wm_root w) @ path_names d) (path_names p) \<and>
                   \<not> prefix (path_names p) (path_names (wm_root w) @ path_names d)) (wm_deny w)"

definition link_inside :: "(nat \<Rightarrow> write_calls) \<Rightarrow> workspace_metadata \<Rightarrow> string \<Rightarrow> bool" where
  "link_inside W w p \<longleftrightarrow>
     (\<exists>k. fs_is_symlink (wr_view (W k)) p = Some True) \<and>
     (\<exists>k e. fs_realpath (wr_view (W k)) (posix_dirname p) = Some e \<and> prefix (path_names (wm_root w)) (path_names e))"

definition spared_path :: "(nat \<Rightarrow> write_calls) \<Rightarrow> workspace_metadata list \<Rightarrow> string \<Rightarrow> string \<Rightarrow> bool" where
  "spared_path W ws i p \<longleftrightarrow>
     (\<exists>w\<in>set ws. wm_id w = i \<and> capability_enabled (wm_capabilities w) CapDelete \<and>
        strict_prefix (path_names (wm_root w)) (path_names p) \<and> clear_of_denied w p \<and>
        (\<exists>q. resolves_to (\<lambda>n. wr_view (W n)) p q \<and> clear_of_denied w q \<and>
           (prefix (path_names (wm_root w)) (path_names q) \<or> link_inside W w p)))"

lemma resolved_spared:
  assumes ws: "create_registry cwd fs0 configs m = (m', Inr ws)" "realpath_canonical fs0"
    and canon: "realpath_canonical (\<lambda>n. wr_view (W n))"
    and r: "resolved cwd W ws i path CapDelete s = (t, Inr r)"
  shows "spared_path W ws i (rp_operationPath r)"
proof -
  let ?fs = "\<lambda>n. wr_view (W n)"
  from resolved_run [OF r] obtain n where run: "resolve_workspace_path cwd ?fs ws i path (Some CapDelete) (fst s) = (n, Inr r)"
    by blast
  note ok = create_registry_ok(1) [OF ws(2,1)]
  note below = resolved_below [OF ok run]
  obtain w n0 n1 n2 symlink found parentInside where w: "registry_get ws i = Some w" "rp_workspace r = w"
    "final_entry_is_symlink ?fs (Some CapDelete) (rp_operationPath r) (fst s) = (n1, symlink)"
    "canonicalize_target cwd ?fs (wm_root w) (rp_operationPath r) n1 = (n2, Inr (rp_canonicalPath r, found))"
    "parent_inside_workspace cwd ?fs (wm_root w) symlink (rp_operationPath r) n2 = (n0, parentInside)"
    "is_path_inside cwd (wm_root w) (rp_canonicalPath r) \<or> symlink \<and> parentInside"
    "\<not> path_denied cwd w True (rp_operationPath r) (rp_canonicalPath r)"
    "capability_enabled (wm_capabilities w) CapDelete" "rp_operationPath r \<noteq> wm_root w"
    by (rule resolve_workspace_path_Inr [OF run]) auto
  have base: "canonical_path (wm_root w)" using below(2) w(2) by (simp add: metadata_ok_def)
  have q: "canonical_path (rp_canonicalPath r)" by (rule canonicalize_target_canonical [OF canon below(3) w(4)])
  have "path_names (wm_root w) \<noteq> path_names (rp_operationPath r)"
    using w(9) canonical_names_eq [OF base below(3)] by auto
  then have "strict_prefix (path_names (wm_root w)) (path_names (rp_operationPath r))"
    using below(4) w(2) by (simp add: strict_prefix_def)
  moreover have "clear_of_denied w (rp_operationPath r)" "clear_of_denied w (rp_canonicalPath r)"
    using not_denied [OF below(2) [unfolded w(2)] below(3) q w(7)] by (simp_all add: clear_of_denied_def list_all_iff)
  moreover have "link_inside W w (rp_operationPath r)" if link: "symlink" "parentInside"
  proof -
    have "\<exists>k. fs_is_symlink (?fs k) (rp_operationPath r) = Some True"
      using w(3) link by (auto simp: final_entry_is_symlink_def split: if_splits)
    moreover obtain e where e: "fs_realpath (?fs n2) (posix_dirname (rp_operationPath r)) = Some e"
      "is_path_inside cwd (wm_root w) e"
      using w(5) link by (auto simp: parent_inside_workspace_def split: if_splits option.splits)
    ultimately show ?thesis
      unfolding link_inside_def using inside_canonical [OF base realpath_canonicalD [OF canon e(1)]] by blast
  qed
  ultimately show ?thesis
    unfolding spared_path_def
    using registry_get_member [OF w(1)] w(6,8) canonicalize_target_resolves [OF canon below(3) w(4)]
      inside_canonical [OF base q]
    by blast
qed

lemma only_delete_spared:
  assumes ws: "create_registry cwd fs0 configs k = (k', Inr ws)" "realpath_canonical fs0"
    and canon: "realpath_canonical (\<lambda>n. wr_view (W n))"
  shows "only (\<lambda>r. list_all (spared_path W ws i) (request_paths r)) s (delete_path cwd W ws i path recursive s)"
  unfolding delete_path_def Let_def
  by (intro only_intros only_request) (auto dest!: resolved_spared [OF ws canon])

text \<open>C33: What a deletion spares, however the file system changes meanwhile. Whatever path is asked to be
  removed, recursively or not, lies strictly below the root of the addressed workspace, which grants
  the delete capability; neither the path nor what it denotes is in a denied subtree or contains a
  denied path; and what it denotes lies at or below the root too, unless the path is a symbolic link
  (so that the link is removed) in a directory whose real path lies at or below the root.\<close>

theorem delete_spares_denied:
  assumes "create_registry cwd fs0 configs k = (k', Inr ws)" and "realpath_canonical fs0"
    and "realpath_canonical (\<lambda>n. wr_view (W n))"
    and "delete_path cwd W ws i path recursive (n, []) = ((m, rs), out)"
  shows "list_all (\<lambda>r. list_all (\<lambda>p. \<exists>w\<in>set ws. wm_id w = i \<and> capability_enabled (wm_capabilities w) CapDelete \<and>
        strict_prefix (path_names (wm_root w)) (path_names p) \<and> clear_of_denied w p \<and>
        (\<exists>q. resolves_to (\<lambda>n. wr_view (W n)) p q \<and> clear_of_denied w q \<and>
           (prefix (path_names (wm_root w)) (path_names q) \<or> link_inside W w p)))
      (request_paths r)) rs"
  using only_delete_spared [OF assms(1-3), of i "(n, [])" path recursive] assms(4)
  by (simp add: only_def spared_path_def [abs_def])

lemma sample_delete_registry:
  "create_registry ''/'' (plain_fs sample_entries) [(sample_workspace_config ''/w'')\<lparr>wc_delete := Some True\<rparr>] 0 =
    (2, Inr [sample_workspace\<lparr>wm_capabilities := (wm_capabilities sample_workspace)\<lparr>wcap_delete := True\<rparr>\<rparr>])"
  by code_simp

lemma delete_spares_denied_witness:
  "\<exists>q. resolves_to (plain_fs sample_entries) ''/w/a'' q \<and> clear_of_denied sample_workspace q \<and>
     prefix (path_names ''/w'') (path_names q) \<and>
     \<not> prefix (path_names ''/w/a'') (path_names ''/w'' @ path_names ''secret/key'')"
proof -
  define W :: "nat \<Rightarrow> write_calls" where "W = (\<lambda>n. \<lparr>wr_view = plain_fs sample_entries n,
    wr_lstat = (\<lambda>p. Inr \<lparr>st_kind = RegularFile, st_size = 3, st_mode = 420, st_mtimeMs = 1, st_birthtimeMs = 1\<rparr>),
    wr_readFile = (\<lambda>p. Inl ENoEnt), wr_readdir = (\<lambda>p. Inl ENoEnt), wr_do = (\<lambda>r. None)\<rparr>)"
  let ?w = "sample_workspace\<lparr>wm_capabilities := (wm_capabilities sample_workspace)\<lparr>wcap_delete := True\<rparr>\<rparr>"
  have "delete_path ''/'' W [?w] ''w'' ''a'' True (0, []) = ((4, [Remove ''/w/a'' True]), Inr False)"
    unfolding W_def by code_simp
  moreover have "realpath_canonical (\<lambda>n. wr_view (W n))" using sample_entries_canonical by (simp add: W_def)
  moreover have view: "(\<lambda>n. wr_view (W n)) = plain_fs sample_entries" by (simp add: W_def)
  moreover have plain: "\<not> link_inside W w p" for w p by (simp add: link_inside_def W_def plain_fs_def)
  ultimately show ?thesis
    using delete_spares_denied [OF sample_delete_registry sample_entries_canonical, of W "''w''" "''a''" True 0]
    by (auto simp: view plain sample_workspace_def clear_of_denied_def)
qed

section \<open>What a patch writes\<close>

lemma index_of_before: "index_of q s = Some i \<Longrightarrow> q \<noteq> [] \<Longrightarrow> index_of q (take i s) = None"
proof (induction q s arbitrary: i rule: index_of.induct)
  case (2 q c cs)
  show ?case
  proof (cases "prefix q (c # cs)")
    case False
    with 2(2) obtain j where j: "index_of q cs = Some j" "i = Suc j" by auto
    have "\<not> prefix q (c # take j cs)" using False by (metis prefix_order.trans take_Suc_Cons take_is_prefix)
    with 2(1) [OF False j(1) 2(3)] j(2) show ?thesis by simp
  qed (use 2 in simp)
qed simp

lemma split_pieces: "q \<noteq> [] \<Longrightarrow> list_all (\<lambda>p. index_of q p = None) (split_text q s)"
proof (induction "length s" arbitrary: s rule: less_induct)
  case less
  show ?case
  proof (cases "index_of q s")
    case None
    with less.prems show ?thesis by (simp add: split_text.simps [of q s])
  next
    case (Some i)
    have "length (drop (i + length q) s) < length s" using index_of_bound [OF Some] less.prems by (cases q) auto
    from less.hyps [OF this less.prems] Some less.prems show ?thesis
      by (simp add: split_text.simps [of q s] index_of_before)
  qed
qed


lemma request_log: "request W r s = (t, out) \<Longrightarrow> snd t = snd s @ [r]"
  by (auto simp: request_def)

lemma atomic_replace_log:
  assumes "atomic_replace W uuid path text (Some mode) s = (t, out)"
  defines "steps \<equiv> [WriteNewFile (temporary_path path uuid) text, Chmod (temporary_path path uuid) mode,
    Rename (temporary_path path uuid) path]"
  shows "\<exists>k\<le>3. snd t = snd s @ take k steps @ [RemoveForced (temporary_path path uuid)] \<and> (\<not> isl out \<longrightarrow> k = 3)"
proof -
  let ?temp = "temporary_path path uuid"
  obtain a x where a: "request W (WriteNewFile ?temp text) s = (a, x)" by fastforce
  obtain b y where b: "request W (Chmod ?temp mode) a = (b, y)" by fastforce
  obtain c z where c: "request W (Rename ?temp path) b = (c, z)" by fastforce
  note logs = request_log [OF a] request_log [OF b] request_log [OF c]
  have last: "snd (fst (request W r u)) = snd u @ [r]" for r u by (simp add: request_def)
  note run = assms(1) [unfolded atomic_replace_def Let_def option.case a then_with_def prod.case b c]
  show ?thesis
  proof (cases x)
    case Inl
    with run logs show ?thesis by (intro exI [of _ 1]) (auto simp: last steps_def)
  next
    case x: Inr
    show ?thesis
    proof (cases y)
      case Inl
      with run x logs show ?thesis by (intro exI [of _ 2]) (auto simp: last steps_def b numeral_2_eq_2)
    next
      case Inr
      with run x logs show ?thesis by (intro exI [of _ 3]) (auto simp: last steps_def b c numeral_3_eq_3)
    qed
  qed
qed

text \<open>C34: What a patch does. For a nonempty text to replace it always comes to an answer. If it succeeds,
  the file it read consists of pieces without that text, joined by it, one more piece than the
  expected number of occurrences; it has asked for exactly four changes: to write the same pieces
  joined by the new text into a temporary sibling, to give that the mode of the file, to rename it to
  the file, and to remove the temporary name; and what it wrote is within the limit. If it fails,
  it has asked for nothing, or for the first of these steps up to the failing one and the removal.\<close>

theorem patch_replaces_occurrences:
  assumes "oldText \<noteq> []"
  shows "\<exists>m rs out. patch_file cwd W ws maxWriteBytes uuid i path oldText newText expected (n, []) = Some ((m, rs), out) \<and>
    (case out of
       Inl e \<Rightarrow> rs = [] \<or> (\<exists>p text mode k. k \<le> 3 \<and>
         rs = take k [WriteNewFile (temporary_path p uuid) text, Chmod (temporary_path p uuid) mode,
                      Rename (temporary_path p uuid) p] @ [RemoveForced (temporary_path p uuid)])
     | Inr res \<Rightarrow> (\<exists>p mode j bytes pieces.
         wr_readFile (W j) p = Inr bytes \<and> decode_lossy bytes = join_text oldText pieces \<and>
         list_all (\<lambda>x. index_of oldText x = None) pieces \<and>
         length pieces = Suc (case expected of None \<Rightarrow> 1 | Some k \<Rightarrow> k) \<and>
         rs = [WriteNewFile (temporary_path p uuid) (join_text newText pieces), Chmod (temporary_path p uuid) mode,
               Rename (temporary_path p uuid) p, RemoveForced (temporary_path p uuid)] \<and>
         pt_bytes res = byte_length (join_text newText pieces) \<and> pt_bytes res \<le> maxWriteBytes))"
proof -
  let ?q = "then_with (resolved cwd W ws i path CapWrite (n, [])) (\<lambda>s r.
           then_with (ensure_regular_file W (rp_operationPath r) s) (\<lambda>s m.
           then_with (as_domain (ask W (\<lambda>v. wr_readFile v (rp_operationPath r)) s)) (\<lambda>s bytes.
             (s, Inr (r, m, decode_lossy bytes)))))"
  have "only (\<lambda>_. False) (n, []) ?q" by (intro only_intros only_ensure)
  moreover obtain t x where t: "?q = (t, x)" by (cases ?q)
  ultimately have quiet: "snd t = []" by (auto simp: only_def list_all_iff)
  show ?thesis
  proof (cases x)
    case (Inl e)
    with t have "patch_file cwd W ws maxWriteBytes uuid i path oldText newText expected (n, []) = Some (t, Inl e)"
      by (simp add: patch_file_def)
    with quiet show ?thesis by (cases t) auto
  next
    case (Inr y)
    obtain r mode content where y: "y = (r, mode, content)" by (cases y)
    let ?p = "rp_operationPath r"
    from t Inr y obtain s bytes where "as_domain (ask W (\<lambda>v. wr_readFile v ?p) s) = (t, Inr bytes)"
      and content: "content = decode_lossy bytes"
      by (auto simp: then_with_Inr)
    then have read: "wr_readFile (W (fst s)) ?p = Inr bytes"
      by (auto simp: ask_def map_error_def map_sum_def split: sum.splits)
    let ?pieces = "split_text oldText content"
    note split = split_count [OF assms, of content]
    let ?text = "join_text newText ?pieces"
    obtain u out where u: "atomic_replace W uuid ?p ?text (Some mode) t = (u, out)" by fastforce
    note log = atomic_replace_log [OF u]
    have run: "patch_file cwd W ws maxWriteBytes uuid i path oldText newText expected (n, []) =
      Some (try_with t (ensure InvalidInput (length ?pieces - 1 = (case expected of None \<Rightarrow> 1 | Some k \<Rightarrow> k))) (\<lambda>_.
            try_with t (ensure OutputLimitExceeded (byte_length ?text \<le> maxWriteBytes)) (\<lambda>_.
            then_with (as_domain (u, out)) (\<lambda>s _.
              (s, Inr \<lparr>pt_path = display_path cwd (wm_root (rp_workspace r)) ?p,
                       pt_bytes = byte_length ?text, pt_occurrences = length ?pieces - 1\<rparr>)))))"
      unfolding patch_file_def t Inr y using split u by (simp add: Let_def)
    show ?thesis
    proof (cases "length ?pieces - 1 = (case expected of None \<Rightarrow> 1 | Some k \<Rightarrow> k) \<and> byte_length ?text \<le> maxWriteBytes")
      case False
      then obtain e where "patch_file cwd W ws maxWriteBytes uuid i path oldText newText expected (n, []) = Some (t, Inl e)"
        unfolding run
        by (cases "length ?pieces - 1 = (case expected of None \<Rightarrow> 1 | Some k \<Rightarrow> k)") auto
      with quiet show ?thesis by (cases t) auto
    next
      case ok: True
      show ?thesis
      proof (cases out)
        case (Inl e)
        with ok log quiet show ?thesis unfolding run by (cases u) (auto simp: map_error_def)
      next
        case (Inr z)
        from log Inr quiet have "snd u = [WriteNewFile (temporary_path ?p uuid) ?text, Chmod (temporary_path ?p uuid) mode,
            Rename (temporary_path ?p uuid) ?p, RemoveForced (temporary_path ?p uuid)]"
          by (auto simp: numeral_3_eq_3)
        moreover have "length ?pieces = Suc (case expected of None \<Rightarrow> 1 | Some k \<Rightarrow> k)"
          using ok split by (cases ?pieces) auto
        moreover have "decode_lossy bytes = join_text oldText ?pieces" using split content by simp
        ultimately show ?thesis
          unfolding run using ok Inr read split_pieces [OF assms, of content]
          by (cases u) (auto simp: map_error_def intro!: exI [of _ bytes])
      qed
    qed
  qed
qed

lemma sample_resolved_write:
  "resolve_workspace_path ''/'' (plain_fs sample_entries) [sample_workspace] ''w'' ''a'' (Some CapWrite) 0 =
   (1, Inr \<lparr>rp_workspace = sample_workspace, rp_operationPath = ''/w/a'', rp_canonicalPath = ''/w/a'', rp_exists = True\<rparr>)"
  by code_simp

text \<open>
  A sample run. The file holds a byte that is no UTF-8: the patch replaces the requested text, and
  that byte by the three bytes of U+FFFD.
\<close>

lemma patch_rewrites_other_bytes:
  defines "W \<equiv> (\<lambda>n::nat. \<lparr>wr_view = plain_fs sample_entries n,
    wr_lstat = (\<lambda>p. Inr \<lparr>st_kind = RegularFile, st_size = 4, st_mode = 33188, st_mtimeMs = 1, st_birthtimeMs = 1\<rparr>),
    wr_readFile = (\<lambda>p. Inr [255, 97, 98, 99]), wr_readdir = (\<lambda>p. Inl ENoEnt), wr_do = (\<lambda>r. None)\<rparr>)"
  shows "patch_file ''/'' W [sample_workspace] 100 ''u'' ''w'' ''a'' [98] [120, 120] None (0, []) =
    Some ((7, [WriteNewFile ''/w/a.doctmcp-u.tmp'' [65533, 97, 120, 120, 99], Chmod ''/w/a.doctmcp-u.tmp'' 420,
      Rename ''/w/a.doctmcp-u.tmp'' ''/w/a'', RemoveForced ''/w/a.doctmcp-u.tmp'']),
      Inr \<lparr>pt_path = ''a'', pt_bytes = 7, pt_occurrences = 1\<rparr>)"
proof -
  have "split_text [98] [65533, 97, 98, 99] = [[65533, 97], [99 :: nat]]"
    by (simp add: split_text.simps [of "[98]" "[65533, 97, 98, 99]"] split_text.simps [of "[98]" "[99]"])
  with split_count [of "[98]" "[65533, 97, 98, 99]"] have
    counted: "count_occurrences [65533, 97, 98, 99] [98] = Some 1" "split_text [98] [65533, 97, 98, 99] = [[65533, 97], [99 :: nat]]"
    by simp_all
  have lossy: "decode_lossy [255, 97, 98, 99] = [65533, 97, 98, 99]" by (simp add: sequence_tail_def)
  have r: "resolved ''/'' W [sample_workspace] ''w'' ''a'' CapWrite (0, []) =
    ((1, []), Inr \<lparr>rp_workspace = sample_workspace, rp_operationPath = ''/w/a'', rp_canonicalPath = ''/w/a'', rp_exists = True\<rparr>)"
    by (simp add: resolved_def W_def sample_resolved_write)
  have m: "ensure_regular_file W ''/w/a'' (Suc 0, []) = ((2, []), Inr 420)"
    by (simp add: ensure_regular_file_def ask_def map_error_def permission_bits_def W_def)
  have d: "display_path ''/'' ''/w'' ''/w/a'' = ''a''" by code_simp
  have b: "byte_length [65533, 97, 120, 120, 99] = 7" by (simp add: byte_length_def utf8_text_def utf8_of_scalar_def)
  have w: "as_domain (atomic_replace W ''u'' ''/w/a'' [65533, 97, 120, 120, 99] (Some 420) (3, [])) =
    ((7, [WriteNewFile ''/w/a.doctmcp-u.tmp'' [65533, 97, 120, 120, 99], Chmod ''/w/a.doctmcp-u.tmp'' 420,
      Rename ''/w/a.doctmcp-u.tmp'' ''/w/a'', RemoveForced ''/w/a.doctmcp-u.tmp'']), Inr ())"
    by (simp add: atomic_replace_def Let_def temporary_path_def request_def map_error_def W_def)
  have f: "as_domain (ask W (\<lambda>v. wr_readFile v ''/w/a'') (2, [])) = ((3, []), Inr [255, 97, 98, 99])"
    by (simp add: W_def ask_def map_error_def)
  have s: "wm_root sample_workspace = ''/w''" by (simp add: sample_workspace_def)
  show ?thesis by (simp add: patch_file_def Let_def r m f lossy counted [simplified] b w d s del: decode_lossy.simps)
qed

lemma patch_replaces_occurrences_witness:
  "\<exists>r. patch_file ''/'' (\<lambda>n. \<lparr>wr_view = plain_fs sample_entries n, wr_lstat = (\<lambda>p. Inl ENoEnt), wr_readFile = (\<lambda>p. Inl ENoEnt),
      wr_readdir = (\<lambda>p. Inl ENoEnt), wr_do = (\<lambda>r. None)\<rparr>) [sample_workspace] 100 ''u'' ''w'' ''a'' [98] [120] None (0, []) = Some r"
  using patch_replaces_occurrences [of "[98]"] by blast

end
