(* ===== verification/Sqlite_Credentials.thy ===== *)
theory Sqlite_Credentials
  imports Device_Credential
begin

text \<open>
  The credential repository of the production storage
  (\<^verbatim>\<open>apps/server/src/storage/sqlite-device-credential-repository.ts\<close>). SQL runs in a library; what
  the repository uses of it is modelled as tables, that is lists of rows, whose statements check
  the constraints of the migration \<^verbatim>\<open>0003_device_credentials.sql\<close> and throw when one is violated.
  A transaction that throws leaves the tables as they were. A transaction may also throw because
  the database is busy: which ones do is the arbitrary function \<^verbatim>\<open>db_busy\<close> of the state.
\<close>

section \<open>Tables\<close>

record credential_row =
  cr_credential_id :: string
  cr_device_id :: string
  cr_version :: int
  cr_secret_digest :: string
  cr_created_at_ms :: int
  cr_state :: credential_state
  cr_revoked_at_ms :: "int option"

record credential_db =
  db_devices :: "string list"
  db_credentials :: "credential_row list"
  db_used :: "(string \<times> string) list"
  db_busy :: "nat \<Rightarrow> bool"
  db_begun :: nat

definition empty_credential_db :: "string list \<Rightarrow> (nat \<Rightarrow> bool) \<Rightarrow> credential_db" where
  "empty_credential_db devices busy =
     \<lparr>db_devices = devices, db_credentials = [], db_used = [], db_busy = busy, db_begun = 0\<rparr>"

text \<open>The \<^verbatim>\<open>CHECK\<close> constraints of a row.\<close>

definition row_checks :: "credential_row \<Rightarrow> bool" where
  "row_checks r \<longleftrightarrow>
     0 < cr_version r \<and> length (cr_secret_digest r) = 64 \<and>
     (cr_state r = Active \<and> cr_revoked_at_ms r = None \<or>
      cr_state r = Revoked \<and> (case cr_revoked_at_ms r of None \<Rightarrow> True | Some t \<Rightarrow> cr_created_at_ms r \<le> t))"

text \<open>A statement gives the tables it leaves and what it returns.\<close>

definition transaction ::
  "(credential_db \<Rightarrow> (credential_db, credential_error, 'a) outcome) \<Rightarrow> credential_db
   \<Rightarrow> (credential_db, credential_error, 'a) outcome" where
  "transaction body s0 =
     (let s = s0\<lparr>db_begun := Suc (db_begun s0)\<rparr> in
      if db_busy s0 (db_begun s0) then (s, Inl CredentialStorageFailure)
      else (case body s of
              (t, Inr a) \<Rightarrow> (t, Inr a)
            | (t, Inl e) \<Rightarrow> (s, Inl e)))"

definition select_credential :: "credential_db \<Rightarrow> string \<Rightarrow> credential_row option" where
  "select_credential s deviceId = find (\<lambda>r. cr_device_id r = deviceId) (db_credentials s)"

definition insert_used_id ::
  "string \<Rightarrow> string \<Rightarrow> credential_db \<Rightarrow> (credential_db, credential_error, unit) outcome" where
  "insert_used_id credentialId deviceId s =
     try_with s (ensure CredentialStorageFailure (credentialId \<notin> fst ` set (db_used s))) (\<lambda>_.
     try_with s (ensure CredentialStorageFailure (deviceId \<in> set (db_devices s))) (\<lambda>_.
       (s\<lparr>db_used := db_used s @ [(credentialId, deviceId)]\<rparr>, Inr ())))"

text \<open>\<^verbatim>\<open>UNIQUE\<close>: no other device's row carries the credential id.\<close>

definition id_free :: "credential_db \<Rightarrow> credential_row \<Rightarrow> bool" where
  "id_free s r \<longleftrightarrow>
     list_all (\<lambda>q. cr_credential_id q = cr_credential_id r \<longrightarrow> cr_device_id q = cr_device_id r) (db_credentials s)"

definition put_row :: "credential_row \<Rightarrow> credential_row list \<Rightarrow> credential_row list" where
  "put_row r rows =
     (if cr_device_id r \<in> cr_device_id ` set rows
      then map (\<lambda>q. if cr_device_id q = cr_device_id r then r else q) rows
      else rows @ [r])"

definition upsert_credential ::
  "credential_row \<Rightarrow> credential_db \<Rightarrow> (credential_db, credential_error, unit) outcome" where
  "upsert_credential r s =
     try_with s (ensure CredentialStorageFailure
       (row_checks r \<and> id_free s r \<and> cr_device_id r \<in> set (db_devices s))) (\<lambda>_.
       (s\<lparr>db_credentials := put_row r (db_credentials s)\<rparr>, Inr ()))"

text \<open>\<^verbatim>\<open>UPDATE ... WHERE device_id = ? AND credential_id = ? AND version = ? AND state = 'active'\<close>; it returns
  the number of changed rows.\<close>

definition update_active ::
  "(credential_row \<Rightarrow> credential_row) \<Rightarrow> string \<Rightarrow> string \<Rightarrow> int \<Rightarrow> credential_db
   \<Rightarrow> (credential_db, credential_error, nat) outcome" where
  "update_active f deviceId credentialId version s =
     (let hit = (\<lambda>r. cr_device_id r = deviceId \<and> cr_credential_id r = credentialId \<and> cr_version r = version \<and>
                     cr_state r = Active);
          hits = filter hit (db_credentials s) in
      try_with s (ensure CredentialStorageFailure (list_all (\<lambda>r. row_checks (f r) \<and> id_free s (f r)) hits)) (\<lambda>_.
        (s\<lparr>db_credentials := map (\<lambda>r. if hit r then f r else r) (db_credentials s)\<rparr>, Inr (length hits))))"

section \<open>The repository\<close>

definition credential_of_row :: "credential_row \<Rightarrow> device_credential" where
  "credential_of_row r =
     \<lparr>cred_credentialId = cr_credential_id r, cred_version = cr_version r, cred_deviceId = cr_device_id r,
      cred_state = cr_state r, cred_createdAt = cr_created_at_ms r, cred_revokedAt = cr_revoked_at_ms r\<rparr>"

definition row_snapshot :: "credential_row \<Rightarrow> (credential_error, device_credential) result" where
  "row_snapshot r = require CredentialStorageFailure (device_credential_schema (credential_of_row r))"

definition sql_require_unused :: "string \<Rightarrow> credential_db \<Rightarrow> (credential_error, unit) result" where
  "sql_require_unused credentialId s = ensure CredentialIdConflict (credentialId \<notin> fst ` set (db_used s))"

definition read_back ::
  "string \<Rightarrow> credential_db \<Rightarrow> (credential_db, credential_error, device_credential) outcome" where
  "read_back deviceId s =
     try_with s (require CredentialStorageFailure (select_credential s deviceId)) (\<lambda>row.
     try_with s (row_snapshot row) (\<lambda>c. (s, Inr c)))"

definition sql_credential_issue ::
  "credential_db \<Rightarrow> string \<Rightarrow> string \<Rightarrow> string \<Rightarrow> js_date
   \<Rightarrow> (credential_db, credential_error, device_credential) outcome" where
  "sql_credential_issue s deviceIdIn credentialIdIn secretDigest createdAt =
     try_with s (cred_parse_device_id deviceIdIn) (\<lambda>deviceId.
     try_with s (cred_parse_credential_id credentialIdIn) (\<lambda>credentialId.
     try_with s (cred_parse_digest secretDigest) (\<lambda>digest.
     try_with s (cred_read_time createdAt) (\<lambda>createdAtMs.
       transaction (\<lambda>s.
         let existing = select_credential s deviceId in
         if map_option cr_state existing = Some Active then (s, Inl CredentialAlreadyExists)
         else
           try_with s (sql_require_unused credentialId s) (\<lambda>_.
           let version = (case existing of None \<Rightarrow> 0 | Some e \<Rightarrow> cr_version e) + 1 in
           then_with (insert_used_id credentialId deviceId s) (\<lambda>s _.
           then_with (upsert_credential
               \<lparr>cr_credential_id = credentialId, cr_device_id = deviceId, cr_version = version,
                cr_secret_digest = digest, cr_created_at_ms = createdAtMs, cr_state = Active,
                cr_revoked_at_ms = None\<rparr> s) (\<lambda>s _.
             read_back deviceId s)))) s))))"

definition sql_credential_getActive ::
  "credential_db \<Rightarrow> string \<Rightarrow> (credential_error, device_credential option) result" where
  "sql_credential_getActive s deviceIdIn =
     bind_result (cred_parse_device_id deviceIdIn) (\<lambda>deviceId.
       case select_credential s deviceId of
         None \<Rightarrow> Inr None
       | Some row \<Rightarrow> if cr_state row = Active then bind_result (row_snapshot row) (\<lambda>c. Inr (Some c)) else Inr None)"

definition sql_credential_verify ::
  "credential_db \<Rightarrow> string \<Rightarrow> string \<Rightarrow> (credential_error, device_credential option) result" where
  "sql_credential_verify s deviceIdIn secretDigest =
     bind_result (cred_parse_device_id deviceIdIn) (\<lambda>deviceId.
     bind_result (cred_parse_digest secretDigest) (\<lambda>digest.
       case select_credential s deviceId of
         None \<Rightarrow> Inr None
       | Some row \<Rightarrow>
           if cr_state row = Active \<and> constant_time_equal_hex (cr_secret_digest row) digest
           then bind_result (row_snapshot row) (\<lambda>c. Inr (Some c)) else Inr None))"

text \<open>The guard of the two mutations that name the generation they expect.\<close>

definition row_is_generation :: "credential_row \<Rightarrow> string \<Rightarrow> int \<Rightarrow> bool" where
  "row_is_generation r credentialId version \<longleftrightarrow>
     cr_state r = Active \<and> cr_credential_id r = credentialId \<and> cr_version r = version"

definition sql_credential_revoke ::
  "credential_db \<Rightarrow> string \<Rightarrow> string \<Rightarrow> js_number \<Rightarrow> js_date
   \<Rightarrow> (credential_db, credential_error, device_credential option) outcome" where
  "sql_credential_revoke s deviceIdIn expectedCredentialId expectedVersion revokedAt =
     try_with s (cred_parse_device_id deviceIdIn) (\<lambda>deviceId.
     try_with s (cred_parse_credential_id expectedCredentialId) (\<lambda>credentialId.
     try_with s (cred_parse_version expectedVersion) (\<lambda>version.
     try_with s (cred_read_time revokedAt) (\<lambda>revokedAtMs.
       transaction (\<lambda>s.
         case select_credential s deviceId of
           None \<Rightarrow> (s, Inr None)
         | Some current \<Rightarrow>
             if \<not> row_is_generation current credentialId version then (s, Inr None)
             else if revokedAtMs < cr_created_at_ms current then (s, Inl CredentialInvalidClock)
             else
               then_with (update_active (\<lambda>r. r\<lparr>cr_state := Revoked, cr_revoked_at_ms := Some revokedAtMs\<rparr>)
                   deviceId credentialId version s) (\<lambda>s changes.
                 if changes \<noteq> 1 then (s, Inr None)
                 else then_with (read_back deviceId s) (\<lambda>s c. (s, Inr (Some c))))) s))))"

definition sql_credential_rotate ::
  "credential_db \<Rightarrow> string \<Rightarrow> string \<Rightarrow> js_number \<Rightarrow> string \<Rightarrow> string \<Rightarrow> js_date
   \<Rightarrow> (credential_db, credential_error, device_credential) outcome" where
  "sql_credential_rotate s deviceIdIn expectedCredentialId expectedVersionIn credentialIdIn secretDigest rotatedAt =
     try_with s (cred_parse_device_id deviceIdIn) (\<lambda>deviceId.
     try_with s (cred_parse_credential_id expectedCredentialId) (\<lambda>expectedId.
     try_with s (cred_parse_version expectedVersionIn) (\<lambda>expectedVersion.
     try_with s (cred_parse_credential_id credentialIdIn) (\<lambda>credentialId.
     try_with s (cred_parse_digest secretDigest) (\<lambda>digest.
     try_with s (cred_read_time rotatedAt) (\<lambda>rotatedAtMs.
       transaction (\<lambda>s.
         case select_credential s deviceId of
           None \<Rightarrow> (s, Inl CredentialUnavailable)
         | Some current \<Rightarrow>
             if \<not> row_is_generation current expectedId expectedVersion then (s, Inl CredentialUnavailable)
             else
               try_with s (sql_require_unused credentialId s) (\<lambda>_.
               if rotatedAtMs < cr_created_at_ms current then (s, Inl CredentialInvalidClock)
               else
                 then_with (insert_used_id credentialId deviceId s) (\<lambda>s _.
                 then_with (update_active (\<lambda>r. r\<lparr>cr_credential_id := credentialId, cr_version := cr_version current + 1,
                       cr_secret_digest := digest, cr_created_at_ms := rotatedAtMs, cr_state := Active,
                       cr_revoked_at_ms := None\<rparr>) deviceId expectedId expectedVersion s) (\<lambda>s changes.
                   if changes \<noteq> 1 then (s, Inl CredentialUnavailable) else read_back deviceId s)))) s))))))"

definition sqlite_credential_repository :: "credential_db credential_repository" where
  "sqlite_credential_repository =
     \<lparr>cri_issue = sql_credential_issue, cri_getActive = sql_credential_getActive,
      cri_verify = sql_credential_verify, cri_revoke = sql_credential_revoke,
      cri_rotate = sql_credential_rotate\<rparr>"

section \<open>Invariant and abstraction\<close>

definition stored_row_ok :: "credential_db \<Rightarrow> credential_row \<Rightarrow> bool" where
  "stored_row_ok s r \<longleftrightarrow>
     cr_credential_id r \<in> fst ` set (db_used s) \<and> cr_device_id r \<in> set (db_devices s) \<and>
     is_sha256_hex (cr_secret_digest r) \<and>
     device_credential_schema (credential_of_row r) = Some (credential_of_row r)"

definition credential_db_ok :: "credential_db \<Rightarrow> bool" where
  "credential_db_ok s \<longleftrightarrow>
     distinct (map cr_device_id (db_credentials s)) \<and> distinct (map cr_credential_id (db_credentials s)) \<and>
     list_all (stored_row_ok s) (db_credentials s)"

definition sql_cred_abs :: "credential_db \<Rightarrow> credential_spec" where
  "sql_cred_abs s =
     \<lparr>csp_latest = (\<lambda>d. map_option (\<lambda>r. (credential_of_row r, cr_secret_digest r)) (select_credential s d)),
      csp_used = fst ` set (db_used s)\<rparr>"

definition begun :: "credential_db \<Rightarrow> credential_db" where
  "begun s = s\<lparr>db_begun := Suc (db_begun s)\<rparr>"

lemma sql_cred_abs_sel [simp]:
  "csp_latest (sql_cred_abs s) d =
     map_option (\<lambda>r. (credential_of_row r, cr_secret_digest r)) (select_credential s d)"
  "csp_used (sql_cred_abs s) = fst ` set (db_used s)"
  by (simp_all add: sql_cred_abs_def)

lemma credential_of_row_sel [simp]:
  "cred_credentialId (credential_of_row r) = cr_credential_id r"
  "cred_version (credential_of_row r) = cr_version r"
  "cred_deviceId (credential_of_row r) = cr_device_id r"
  "cred_state (credential_of_row r) = cr_state r"
  "cred_createdAt (credential_of_row r) = cr_created_at_ms r"
  "cred_revokedAt (credential_of_row r) = cr_revoked_at_ms r"
  by (simp_all add: credential_of_row_def)

lemma begun_sel [simp]:
  "db_credentials (begun s) = db_credentials s" "db_used (begun s) = db_used s"
  "db_devices (begun s) = db_devices s" "select_credential (begun s) d = select_credential s d"
  by (simp_all add: begun_def select_credential_def)

lemma begun_used [simp]: "(begun s)\<lparr>db_used := db_used s\<rparr> = begun s"
  by (cases s) (simp add: begun_def)

lemma begun_abs [simp]: "sql_cred_abs (begun s) = sql_cred_abs s"
  by (simp add: sql_cred_abs_def)

lemma stored_row_ok_begun [simp]: "stored_row_ok (begun s) = stored_row_ok s"
  by (intro ext) (simp add: stored_row_ok_def)

lemma begun_ok [simp]: "credential_db_ok (begun s) = credential_db_ok s"
  by (simp add: credential_db_ok_def)

lemma selected:
  "select_credential s d = Some r \<Longrightarrow> r \<in> set (db_credentials s) \<and> cr_device_id r = d"
  by (auto simp: select_credential_def find_Some_iff)

lemma selected_ok:
  assumes "credential_db_ok s" "select_credential s d = Some r"
  shows "stored_row_ok s r" "cr_device_id r = d" "0 < cr_version r"
    "row_snapshot r = Inr (credential_of_row r)"
proof -
  show r: "stored_row_ok s r" "cr_device_id r = d"
    using assms selected [OF assms(2)] by (auto simp: credential_db_ok_def list_all_iff)
  show "0 < cr_version r" using r(1) credential_schema_parts(3) [of "credential_of_row r" "credential_of_row r"]
    by (simp add: stored_row_ok_def)
  show "row_snapshot r = Inr (credential_of_row r)" using r(1) by (simp add: row_snapshot_def stored_row_ok_def)
qed

lemma selected_unique:
  assumes "credential_db_ok s" "r \<in> set (db_credentials s)" "cr_device_id r = d"
  shows "select_credential s d = Some r"
proof -
  obtain q where q: "select_credential s d = Some q"
    using assms(2,3) by (cases "select_credential s d") (auto simp: select_credential_def find_None_iff)
  have "inj_on cr_device_id (set (db_credentials s))"
    using assms(1) by (simp add: credential_db_ok_def distinct_map)
  from inj_onD [OF this, of q r] selected [OF q] assms(2,3) q show ?thesis by simp
qed

lemma find_device: "find (\<lambda>q. cr_device_id q = d) rows = Some q \<Longrightarrow> cr_device_id q = d"
  by (auto simp: find_Some_iff)

lemma find_put_row:
  "find (\<lambda>q. cr_device_id q = d) (put_row r rows) =
     (if d = cr_device_id r then Some r else find (\<lambda>q. cr_device_id q = d) rows)"
proof (cases "cr_device_id r \<in> cr_device_id ` set rows")
  case True
  let ?g = "\<lambda>q. if cr_device_id q = cr_device_id r then r else q"
  have "find (\<lambda>q. cr_device_id q = d) (map ?g rows) = map_option ?g (find (\<lambda>q. cr_device_id q = d) rows)"
    by (induction rows) simp_all
  moreover have "map_option ?g (find (\<lambda>q. cr_device_id q = d) rows) =
      (if d = cr_device_id r then Some r else find (\<lambda>q. cr_device_id q = d) rows)"
  proof (cases "find (\<lambda>q. cr_device_id q = d) rows")
    case None
    then have "d \<noteq> cr_device_id r" using True by (auto simp: find_None_iff)
    with None show ?thesis by simp
  next
    case (Some q)
    with find_device [OF Some] show ?thesis by auto
  qed
  ultimately show ?thesis using True by (simp only: put_row_def if_True)
next
  case False
  then have "find (\<lambda>q. cr_device_id q = d) (rows @ [r]) =
     (if d = cr_device_id r then Some r else find (\<lambda>q. cr_device_id q = d) rows)"
    by (induction rows) auto
  with False show ?thesis by (simp add: put_row_def)
qed

lemma put_row_devices:
  "map cr_device_id (put_row r rows) =
     (if cr_device_id r \<in> cr_device_id ` set rows then map cr_device_id rows else map cr_device_id rows @ [cr_device_id r])"
  by (auto simp: put_row_def)

lemma set_put_row: "set (put_row r rows) = insert r {q \<in> set rows. cr_device_id q \<noteq> cr_device_id r}"
  by (auto simp: put_row_def image_iff)

lemma put_row_ids:
  assumes "distinct (map cr_device_id rows)" "distinct (map cr_credential_id rows)"
    and "\<And>q. q \<in> set rows \<Longrightarrow> cr_credential_id q = cr_credential_id r \<Longrightarrow> cr_device_id q = cr_device_id r"
  shows "distinct (map cr_credential_id (put_row r rows))"
proof -
  have d: "distinct (put_row r rows)"
    using assms(1) by (intro distinct_map [THEN iffD1, THEN conjunct1, of cr_device_id]) (simp add: put_row_devices)
  have "inj_on cr_credential_id (set (put_row r rows))"
    using assms(2,3) by (fastforce simp: set_put_row inj_on_def distinct_map)
  with d show ?thesis by (simp add: distinct_map)
qed

lemma stored_row_ok_mono:
  assumes "stored_row_ok s q" "set (db_used s) \<subseteq> set (db_used t)" "db_devices t = db_devices s"
  shows "stored_row_ok t q"
  using assms image_mono [OF assms(2), of fst] by (auto simp: stored_row_ok_def)

lemma stored_row_ok_rows [simp]: "stored_row_ok (s\<lparr>db_credentials := rows\<rparr>) = stored_row_ok s"
  by (intro ext) (simp add: stored_row_ok_def)

text \<open>Storing a row, with the ids used so far or one more.\<close>

lemma put_row_ok:
  assumes ok: "credential_db_ok s" and used: "set (db_used s) \<subseteq> set used"
    and row: "stored_row_ok (s\<lparr>db_used := used\<rparr>) r"
    and free: "id_free s r"
  shows "credential_db_ok (s\<lparr>db_used := used, db_credentials := put_row r (db_credentials s)\<rparr>)"
proof -
  have "stored_row_ok (s\<lparr>db_used := used, db_credentials := put_row r (db_credentials s)\<rparr>) q"
    if "q \<in> set (put_row r (db_credentials s))" for q
  proof (cases "q = r")
    case True
    with row show ?thesis by (simp add: stored_row_ok_def)
  next
    case False
    with that ok have "stored_row_ok s q" by (auto simp: set_put_row credential_db_ok_def list_all_iff)
    then show ?thesis by (rule stored_row_ok_mono) (simp_all add: used)
  qed
  then show ?thesis
    using ok free put_row_ids [of "db_credentials s" r]
    by (auto simp: credential_db_ok_def list_all_iff put_row_devices id_free_def)
qed

lemma put_row_abs:
  assumes "cr_device_id r = d"
  shows "sql_cred_abs (s\<lparr>db_used := used, db_credentials := put_row r (db_credentials s)\<rparr>) =
    \<lparr>csp_latest = (csp_latest (sql_cred_abs s))(d \<mapsto> (credential_of_row r, cr_secret_digest r)),
     csp_used = fst ` set used\<rparr>"
  using assms by (auto simp: sql_cred_abs_def select_credential_def find_put_row fun_eq_iff)

lemma filter_single: "distinct xs \<Longrightarrow> x \<in> set xs \<Longrightarrow> filter (\<lambda>y. y = x) xs = [x]"
  by (induction xs) (auto simp: filter_empty_conv)

lemma update_active_generation:
  assumes ok: "credential_db_ok s" and r: "select_credential s d = Some r" "row_is_generation r ci v"
    and f: "cr_device_id (f r) = d"
  shows "update_active f d ci v s =
    try_with s (ensure CredentialStorageFailure (row_checks (f r) \<and> id_free s (f r))) (\<lambda>_.
      (s\<lparr>db_credentials := put_row (f r) (db_credentials s)\<rparr>, Inr 1))"
proof -
  let ?hit = "\<lambda>q. cr_device_id q = d \<and> cr_credential_id q = ci \<and> cr_version q = v \<and> cr_state q = Active"
  have hit: "?hit q \<longleftrightarrow> q = r" if "q \<in> set (db_credentials s)" for q
    using r selected [OF r(1)] selected_unique [OF ok that refl] unfolding row_is_generation_def by (metis option.inject)
  have same: "cr_device_id q = d \<longleftrightarrow> q = r" if "q \<in> set (db_credentials s)" for q
    using r(1) selected [OF r(1)] selected_unique [OF ok that refl] by (metis option.inject)
  have "filter ?hit (db_credentials s) = filter (\<lambda>q. q = r) (db_credentials s)"
    by (rule filter_cong [OF refl hit])
  also have "\<dots> = [r]"
    using ok selected [OF r(1)] by (intro filter_single) (auto simp: credential_db_ok_def distinct_map)
  finally have hits: "filter ?hit (db_credentials s) = [r]" .
  have "map (\<lambda>q. if ?hit q then f q else q) (db_credentials s) =
      map (\<lambda>q. if cr_device_id q = d then f r else q) (db_credentials s)"
    using hit same by (intro map_cong refl) auto
  also have "\<dots> = put_row (f r) (db_credentials s)"
    using imageI [of r "set (db_credentials s)" cr_device_id] selected [OF r(1)] f by (simp add: put_row_def)
  finally have upd: "map (\<lambda>q. if ?hit q then f q else q) (db_credentials s) = put_row (f r) (db_credentials s)" .
  show ?thesis unfolding update_active_def Let_def hits upd by simp
qed

section \<open>The repository implements the specification\<close>

text \<open>
  An operation does what the specification does, or it fails with a storage error and changes
  nothing the specification sees; the latter only for the given reason.
\<close>

definition faithful ::
  "bool \<Rightarrow> credential_db \<Rightarrow> (credential_db, credential_error, 'r) outcome \<Rightarrow> (credential_spec, credential_error, 'r) outcome \<Rightarrow> bool" where
  "faithful why s p spec \<longleftrightarrow>
     credential_db_ok (fst p) \<and> db_devices (fst p) = db_devices s \<and>
     (spec = (sql_cred_abs (fst p), snd p) \<or>
      why \<and> sql_cred_abs (fst p) = sql_cred_abs s \<and> snd p = Inl CredentialStorageFailure)"

lemma faithful_pair [simp]:
  "faithful why s (t, out) spec \<longleftrightarrow>
     credential_db_ok t \<and> db_devices t = db_devices s \<and>
     (spec = (sql_cred_abs t, out) \<or> why \<and> sql_cred_abs t = sql_cred_abs s \<and> out = Inl CredentialStorageFailure)"
  by (simp add: faithful_def)

lemma faithful_try:
  assumes "credential_db_ok s" "\<And>x. r = Inr x \<Longrightarrow> faithful why s (f x) (g x)"
  shows "faithful why s (try_with s r f) (try_with (sql_cred_abs s) r g)"
  using assms by (cases r) simp_all

text \<open>A transaction whose body, on the tables as they were, fails without a trace or succeeds.\<close>

lemma faithful_transaction:
  assumes ok: "credential_db_ok s"
    and body: "\<And>t out. db_busy s (db_begun s) = False \<Longrightarrow> body (begun s) = (t, out) \<Longrightarrow>
      (case out of Inl e \<Rightarrow> spec = (sql_cred_abs s, Inl e) \<or> why \<and> e = CredentialStorageFailure
       | Inr a \<Rightarrow> credential_db_ok t \<and> db_devices t = db_devices s \<and> spec = (sql_cred_abs t, Inr a))"
    and busy: "db_busy s (db_begun s) \<Longrightarrow> why"
  shows "faithful why s (transaction body s) spec"
proof -
  obtain t out where b: "body (begun s) = (t, out)" by (cases "body (begun s)")
  have "transaction body s = (if db_busy s (db_begun s) then (begun s, Inl CredentialStorageFailure)
      else (case out of Inl e \<Rightarrow> (begun s, Inl e) | Inr a \<Rightarrow> (t, Inr a)))"
    using b by (simp add: transaction_def begun_def Let_def split: sum.split)
  then show ?thesis
    using ok body [OF _ b] busy by (cases out; cases "db_busy s (db_begun s)") (auto simp: faithful_def)
qed

lemma row_checks_active:
  "0 < v \<Longrightarrow> is_sha256_hex g \<Longrightarrow>
   row_checks \<lparr>cr_credential_id = ci, cr_device_id = d, cr_version = v, cr_secret_digest = g, cr_created_at_ms = t,
      cr_state = Active, cr_revoked_at_ms = None\<rparr>"
  by (simp add: row_checks_def is_sha256_hex_def)

lemma sql_spec_active:
  "spec_active (sql_cred_abs s) d =
     (case select_credential s d of
        None \<Rightarrow> None
      | Some r \<Rightarrow> if cr_state r = Active then Some (credential_of_row r, cr_secret_digest r) else None)"
  by (simp add: spec_active_def split: option.splits)

lemma sql_expected_generation:
  "expected_generation (sql_cred_abs s) d ci v =
     (case select_credential s d of
        None \<Rightarrow> None
      | Some r \<Rightarrow> if row_is_generation r ci v then Some (credential_of_row r, cr_secret_digest r) else None)"
  by (auto simp: expected_generation_def sql_spec_active row_is_generation_def split: option.splits)

definition storage_trouble :: "credential_db \<Rightarrow> string \<Rightarrow> bool" where
  "storage_trouble s deviceIdIn \<longleftrightarrow>
     db_busy s (db_begun s) \<or>
     (\<exists>d. device_id_schema deviceIdIn = Some d \<and>
        (d \<notin> set (db_devices s) \<or>
         (\<exists>r. select_credential s d = Some r \<and> max_safe_integer \<le> cr_version r)))"

text \<open>The tables after a new generation was written.\<close>

definition with_generation :: "credential_row \<Rightarrow> credential_db \<Rightarrow> credential_db" where
  "with_generation r s =
     s\<lparr>db_used := db_used s @ [(cr_credential_id r, cr_device_id r)], db_credentials := put_row r (db_credentials s)\<rparr>"

lemma new_generation:
  assumes ok: "credential_db_ok s"
    and r: "r = \<lparr>cr_credential_id = ci, cr_device_id = d, cr_version = v, cr_secret_digest = g, cr_created_at_ms = t,
        cr_state = Active, cr_revoked_at_ms = None\<rparr>"
    and parsed: "device_id_schema d = Some d" "device_credential_id_schema ci = Some ci" "is_sha256_hex g" "0 < v"
    and fresh: "ci \<notin> fst ` set (db_used s)" and known: "d \<in> set (db_devices s)"
  shows "id_free s r"
    and "read_back d (with_generation r s) =
      (with_generation r s, if v \<le> max_safe_integer then Inr (active_credential d ci v t) else Inl CredentialStorageFailure)"
    and "v \<le> max_safe_integer \<Longrightarrow> credential_db_ok (with_generation r s)"
    and "sql_cred_abs (with_generation r s) = spec_install (sql_cred_abs s) (active_credential d ci v t) g"
proof -
  have sel: "cr_device_id r = d" "cr_credential_id r = ci" "cr_secret_digest r = g" by (simp_all add: r)
  have c: "credential_of_row r = active_credential d ci v t"
    by (simp add: r credential_of_row_def active_credential_def)
  have "cr_credential_id q \<in> fst ` set (db_used s)" if "q \<in> set (db_credentials s)" for q
    using ok that by (auto simp: credential_db_ok_def list_all_iff stored_row_ok_def)
  with fresh sel show free: "id_free s r" unfolding id_free_def list_all_iff by metis
  have sch: "device_credential_schema (credential_of_row r) =
      (if v \<le> max_safe_integer then Some (credential_of_row r) else None)"
    unfolding c using parsed by (simp add: active_credential_schema)
  have "select_credential (with_generation r s) d = Some r"
    by (simp add: select_credential_def with_generation_def find_put_row sel)
  then show "read_back d (with_generation r s) =
      (with_generation r s, if v \<le> max_safe_integer then Inr (active_credential d ci v t) else Inl CredentialStorageFailure)"
    by (simp add: read_back_def row_snapshot_def sch [unfolded c] c)
  show "credential_db_ok (with_generation r s)" if "v \<le> max_safe_integer"
    unfolding with_generation_def using sch that parsed known sel free
    by (intro put_row_ok [OF ok]) (auto simp: stored_row_ok_def)
  show "sql_cred_abs (with_generation r s) = spec_install (sql_cred_abs s) (active_credential d ci v t) g"
    unfolding with_generation_def using put_row_abs [OF sel(1)] by (simp add: spec_install_def c sel)
qed

lemma id_free_frame [simp]:
  "id_free (begun s) = id_free s" "id_free (s\<lparr>db_used := used\<rparr>) = id_free s"
  by (intro ext; simp add: id_free_def)+

lemma parsed_ids:
  "cred_parse_device_id dIn = Inr d \<Longrightarrow> device_id_schema dIn = Some d \<and> device_id_schema d = Some d"
  "cred_parse_credential_id ciIn = Inr ci \<Longrightarrow> device_credential_id_schema ci = Some ci"
  "cred_parse_digest gIn = Inr g \<Longrightarrow> is_sha256_hex g"
  by (auto simp: cred_parse_device_id_def cred_parse_credential_id_def require_def
      dest: device_id_canonical device_credential_id_canonical split: option.splits)

lemma sql_issue_faithful:
  assumes ok: "credential_db_ok s"
  shows "faithful (storage_trouble s dIn) s (sql_credential_issue s dIn ciIn gIn tIn) (spec_issue (sql_cred_abs s) dIn ciIn gIn tIn)"
  unfolding sql_credential_issue_def spec_issue_def
proof (intro faithful_try ok faithful_transaction, goal_cases)
  case (1 d ci g t u out)
  note p = parsed_ids(1) [OF 1(1)] parsed_ids(2) [OF 1(2)] parsed_ids(3) [OF 1(3)]
  let ?v = "(case select_credential s d of None \<Rightarrow> 0 | Some e \<Rightarrow> cr_version e) + 1"
  let ?r = "\<lparr>cr_credential_id = ci, cr_device_id = d, cr_version = ?v, cr_secret_digest = g, cr_created_at_ms = t,
                cr_state = Active, cr_revoked_at_ms = None\<rparr>"
  have v: "0 < ?v" using selected_ok(3) [OF ok, of d] by (auto split: option.split intro: add_pos_pos)
  have big: "storage_trouble s dIn" if "\<not> ?v \<le> max_safe_integer"
    using that p unfolding storage_trouble_def by (cases "select_credential s d") (auto simp: max_safe_integer_def)
  consider (active) "map_option cr_state (select_credential s d) = Some Active"
    | (used) "map_option cr_state (select_credential s d) \<noteq> Some Active" "ci \<in> fst ` set (db_used s)"
    | (unknown) "map_option cr_state (select_credential s d) \<noteq> Some Active" "ci \<notin> fst ` set (db_used s)" "d \<notin> set (db_devices s)"
    | (fresh) "map_option cr_state (select_credential s d) \<noteq> Some Active" "ci \<notin> fst ` set (db_used s)" "d \<in> set (db_devices s)"
    by blast
  then show ?case
  proof cases
    case active
    with 1(6) show ?thesis by (auto simp: Let_def sql_spec_active)
  next
    case used
    then have "spec_active (sql_cred_abs s) d = None" by (auto simp: sql_spec_active split: option.splits)
    moreover have "out = Inl CredentialIdConflict" using used 1(6)
      by (cases "select_credential s d") (simp_all add: Let_def sql_require_unused_def)
    ultimately show ?thesis using used by (simp add: Let_def)
  next
    case unknown
    with 1(6) have "out = Inl CredentialStorageFailure"
      by (cases "select_credential s d") (simp_all add: Let_def sql_require_unused_def insert_used_id_def)
    with unknown p show ?thesis by (auto simp: storage_trouble_def)
  next
    case fresh
    have none: "spec_active (sql_cred_abs s) d = None" using fresh by (auto simp: sql_spec_active split: option.splits)
    note g = new_generation [of "begun s" ?r ci d ?v g t, OF _ refl _ p(2,3) v]
    have "then_with (insert_used_id ci d (begun s)) (\<lambda>s _. then_with (upsert_credential ?r s) (\<lambda>s _. read_back d s)) =
        read_back d (with_generation ?r (begun s))"
      using fresh g(1) ok p row_checks_active [OF v p(3)]
      by (simp add: insert_used_id_def upsert_credential_def with_generation_def)
    moreover have "csp_latest (sql_cred_abs s) d = map_option (\<lambda>r. (credential_of_row r, cr_secret_digest r)) (select_credential s d)"
      by simp
    ultimately have out: "(u, out) = read_back d (with_generation ?r (begun s))"
      using 1(6) fresh by (cases "select_credential s d") (simp_all add: Let_def sql_require_unused_def)
    have vs: "(case csp_latest (sql_cred_abs s) d of None \<Rightarrow> 0 | Some (c, _) \<Rightarrow> cred_version c) + 1 = ?v"
      by (cases "select_credential s d") simp_all
    show ?thesis
    proof (cases "?v \<le> max_safe_integer")
      case True
      with out g(2) ok p fresh have "u = with_generation ?r (begun s)" "out = Inr (active_credential d ci ?v t)" by simp_all
      moreover have "db_devices (with_generation ?r (begun s)) = db_devices s" by (simp add: with_generation_def)
      ultimately show ?thesis
        unfolding Let_def vs using True none fresh g(3,4) ok p by simp
    next
      case False
      with out g(2) ok p fresh big show ?thesis by simp
    qed
  qed
next
  case 2
  then show ?case by (simp add: storage_trouble_def)
qed

lemma faithful_mono: "faithful why s p spec \<Longrightarrow> why \<Longrightarrow> why' \<Longrightarrow> faithful why' s p spec"
  by (auto simp: faithful_def)

lemma sql_revoke_faithful:
  assumes ok: "credential_db_ok s"
  shows "faithful (db_busy s (db_begun s)) s (sql_credential_revoke s dIn ciIn vIn tIn) (spec_revoke (sql_cred_abs s) dIn ciIn vIn tIn)"
  unfolding sql_credential_revoke_def spec_revoke_def
proof (intro faithful_try ok faithful_transaction, goal_cases)
  case (1 d ci v t u out)
  show ?case
  proof (cases "expected_generation (sql_cred_abs s) d ci v")
    case None
    with 1(6) have "out = Inr None" "u = begun s"
      by (auto simp: sql_expected_generation split: option.splits if_splits)
    with None ok show ?thesis by simp
  next
    case (Some x)
    then obtain r where r: "select_credential s d = Some r" "row_is_generation r ci v"
      "x = (credential_of_row r, cr_secret_digest r)"
      by (auto simp: sql_expected_generation split: option.splits if_splits)
    show ?thesis
    proof (cases "t < cr_created_at_ms r")
      case True
      with 1(6) r Some show ?thesis by auto
    next
      case False
      let ?r = "r\<lparr>cr_state := Revoked, cr_revoked_at_ms := Some t\<rparr>"
      let ?t = "(begun s)\<lparr>db_credentials := put_row ?r (db_credentials (begun s))\<rparr>"
      note row = selected_ok [OF ok r(1)]
      have free: "id_free s ?r"
        using inj_onD [of cr_credential_id "set (db_credentials s)" _ r] ok selected [OF r(1)]
        by (auto simp: id_free_def credential_db_ok_def list_all_iff distinct_map)
      have c: "credential_of_row ?r = (credential_of_row r)\<lparr>cred_state := Revoked, cred_revokedAt := Some t\<rparr>"
        by (simp add: credential_of_row_def)
      have sch: "device_credential_schema (credential_of_row ?r) = Some (credential_of_row ?r)"
        using row(1) False unfolding stored_row_ok_def
        by (simp add: credential_schema_self device_credential_refined_def)
      have "stored_row_ok (begun s) ?r" using row(1) sch by (simp add: stored_row_ok_def)
      then have "credential_db_ok ?t"
        using put_row_ok [of "begun s" "db_used s" ?r] ok free by simp
      moreover have "sql_cred_abs ?t = (sql_cred_abs s)\<lparr>csp_latest := (csp_latest (sql_cred_abs s))(d \<mapsto>
          (credential_of_row ?r, cr_secret_digest r))\<rparr>"
        using put_row_abs [of ?r d "begun s" "db_used s"] row(2) by (simp add: sql_cred_abs_def)
      moreover have "out = Inr (Some (credential_of_row ?r)) \<and> u = ?t"
      proof -
        have "row_checks ?r" using row(1,3) False by (simp add: row_checks_def stored_row_ok_def is_sha256_hex_def)
        moreover have "select_credential ?t d = Some ?r"
          by (simp add: select_credential_def find_put_row row(2))
        ultimately show ?thesis
          using 1(6) r False free sch row(2) update_active_generation [of "begun s" d r ci v
            "\<lambda>r. r\<lparr>cr_state := Revoked, cr_revoked_at_ms := Some t\<rparr>"] ok
          by (simp add: read_back_def row_snapshot_def)
      qed
      ultimately show ?thesis using Some r(3) False c by (simp add: Let_def)
    qed
  qed
next
  case 2
  then show ?case by simp
qed

lemma sql_rotate_faithful:
  assumes ok: "credential_db_ok s"
  shows "faithful (storage_trouble s dIn) s (sql_credential_rotate s dIn eciIn evIn ciIn gIn tIn)
    (spec_rotate (sql_cred_abs s) dIn eciIn evIn ciIn gIn tIn)"
  unfolding sql_credential_rotate_def spec_rotate_def
proof (intro faithful_try ok faithful_transaction, goal_cases)
  case (1 d eci ev ci g t u out)
  note p = parsed_ids(1) [OF 1(1)] parsed_ids(2) [OF 1(4)] parsed_ids(3) [OF 1(5)]
  show ?case
  proof (cases "expected_generation (sql_cred_abs s) d eci ev")
    case None
    with 1(8) have "out = Inl CredentialUnavailable"
      by (auto simp: sql_expected_generation split: option.splits if_splits)
    with None show ?thesis by simp
  next
    case (Some x)
    then obtain r where r: "select_credential s d = Some r" "row_is_generation r eci ev"
      "x = (credential_of_row r, cr_secret_digest r)"
      by (auto simp: sql_expected_generation split: option.splits if_splits)
    note row = selected_ok [OF ok r(1)]
    have known: "d \<in> set (db_devices s)" using row(1,2) by (simp add: stored_row_ok_def)
    show ?thesis
    proof (cases "ci \<in> fst ` set (db_used s) \<or> t < cr_created_at_ms r")
      case True
      with 1(8) r have "out = Inl (if ci \<in> fst ` set (db_used s) then CredentialIdConflict else CredentialInvalidClock)"
        by (cases "ci \<in> fst ` set (db_used s)") (simp_all add: sql_require_unused_def)
      with True r(3) Some show ?thesis by (cases "ci \<in> fst ` set (db_used s)") simp_all
    next
      case False
      let ?f = "\<lambda>q. q\<lparr>cr_credential_id := ci, cr_version := cr_version r + 1, cr_secret_digest := g,
          cr_created_at_ms := t, cr_state := Active, cr_revoked_at_ms := None\<rparr>"
      let ?v = "cr_version r + 1"
      let ?r = "\<lparr>cr_credential_id = ci, cr_device_id = d, cr_version = ?v, cr_secret_digest = g, cr_created_at_ms = t,
                cr_state = Active, cr_revoked_at_ms = None\<rparr>"
      let ?u = "(begun s)\<lparr>db_used := db_used s @ [(ci, d)]\<rparr>"
      have v: "0 < ?v" using row(3) by simp
      have f: "?f r = ?r" using row(2) by (cases r) simp
      note new = new_generation [of "begun s" ?r ci d ?v g t, OF _ refl _ p(2,3) v]
      have okU: "credential_db_ok ?u"
        using ok stored_row_ok_mono [of s _ ?u] by (auto simp: credential_db_ok_def list_all_iff)
      have selU: "select_credential ?u d = Some r" using r(1) by (simp add: select_credential_def)
      have "update_active ?f d eci ev ?u = (with_generation ?r (begun s), Inr 1)"
        using update_active_generation [OF okU selU r(2), of ?f] row(2) f False new(1) ok p known
          row_checks_active [OF v p(3)]
        by (simp add: with_generation_def)
      then have out: "(u, out) = read_back d (with_generation ?r (begun s))"
        using 1(8) r False known by (simp add: sql_require_unused_def insert_used_id_def)
      show ?thesis
      proof (cases "?v \<le> max_safe_integer")
        case True
        with out new(2) ok p False known have "u = with_generation ?r (begun s)" "out = Inr (active_credential d ci ?v t)"
          by simp_all
        moreover have "db_devices (with_generation ?r (begun s)) = db_devices s" by (simp add: with_generation_def)
        ultimately show ?thesis
          using True False new(3,4) ok p known Some r(3) by (simp add: Let_def)
      next
        case big: False
        have "storage_trouble s dIn"
          using big r(1) p unfolding storage_trouble_def by auto
        with out new(2) ok p False known big show ?thesis by simp
      qed
    qed
  qed
next
  case 2
  then show ?case by (simp add: storage_trouble_def)
qed

lemma sql_getActive_spec:
  "credential_db_ok s \<Longrightarrow> sql_credential_getActive s d = spec_getActive (sql_cred_abs s) d"
  by (auto simp: sql_credential_getActive_def spec_getActive_def sql_spec_active bind_result_def
      selected_ok(4) split: sum.splits option.splits)

lemma sql_verify_spec:
  "credential_db_ok s \<Longrightarrow> sql_credential_verify s d g = spec_verify (sql_cred_abs s) d g"
  by (auto simp: sql_credential_verify_def spec_verify_def sql_spec_active bind_result_def
      constant_time_equal_hex_iff selected_ok(4) split: sum.splits option.splits)

lemma sql_spec_ok: "credential_db_ok s \<Longrightarrow> spec_ok (sql_cred_abs s)"
  using selected_ok(1,2) [of s] by (fastforce simp: spec_ok_def stored_row_ok_def)

lemma faithful_sound:
  assumes "faithful why s p spec" "p = (t, out)"
  shows "credential_db_ok t \<and> sound_outcome (sql_cred_abs s) spec (sql_cred_abs t) out"
  using assms by (auto simp: sound_outcome_def)

interpretation sqlite_credentials:
  credential_store sqlite_credential_repository sql_cred_abs credential_db_ok
proof
  fix s :: credential_db and s' d ci g t v eci ev issued revoked rotated
  assume ok: "credential_db_ok s"
  show "spec_ok (sql_cred_abs s)" using ok by (rule sql_spec_ok)
  show "cri_getActive sqlite_credential_repository s d = spec_getActive (sql_cred_abs s) d"
    by (simp add: sqlite_credential_repository_def sql_getActive_spec ok)
  show "cri_verify sqlite_credential_repository s d g = spec_verify (sql_cred_abs s) d g"
    by (simp add: sqlite_credential_repository_def sql_verify_spec ok)
  show "credential_db_ok s' \<and> sound_outcome (sql_cred_abs s) (spec_issue (sql_cred_abs s) d ci g t) (sql_cred_abs s') issued"
    if "cri_issue sqlite_credential_repository s d ci g t = (s', issued)"
    using faithful_sound [OF sql_issue_faithful [OF ok]] that by (simp add: sqlite_credential_repository_def)
  show "credential_db_ok s' \<and> sound_outcome (sql_cred_abs s) (spec_revoke (sql_cred_abs s) d ci v t) (sql_cred_abs s') revoked"
    if "cri_revoke sqlite_credential_repository s d ci v t = (s', revoked)"
    using faithful_sound [OF sql_revoke_faithful [OF ok]] that by (simp add: sqlite_credential_repository_def)
  show "credential_db_ok s' \<and> sound_outcome (sql_cred_abs s) (spec_rotate (sql_cred_abs s) d eci ev ci g t) (sql_cred_abs s') rotated"
    if "cri_rotate sqlite_credential_repository s d eci ev ci g t = (s', rotated)"
    using faithful_sound [OF sql_rotate_faithful [OF ok]] that by (simp add: sqlite_credential_repository_def)
qed

lemma empty_credential_db_ok: "credential_db_ok (empty_credential_db devices busy)"
  by (simp add: credential_db_ok_def empty_credential_db_def)

text \<open>C40: The persistent credential repository implements the specification of a credential
  repository, in every history of issues, revocations and rotations from an empty database, with
  the database busy at any of them: the look-ups are those of the specification; a mutation has the
  result and the effect of the specification, or fails with a storage error and without effect; and
  it fails so only when the database is busy, or (not for a revocation) the device has no row in
  the devices table or the version has reached the largest safe integer.\<close>

theorem sqlite_implements_specification:
  "let s = foldl (credential_step sqlite_credential_repository) (empty_credential_db devices busy) cs;
       a = sql_cred_abs s in
   sql_cred_abs (empty_credential_db devices busy) = \<lparr>csp_latest = Map.empty, csp_used = {}\<rparr> \<and>
   sql_credential_getActive s d = spec_getActive a d \<and>
   sql_credential_verify s d g = spec_verify a d g \<and>
   faithful (storage_trouble s d) s (sql_credential_issue s d ci g t) (spec_issue a d ci g t) \<and>
   faithful (storage_trouble s d) s (sql_credential_rotate s d eci v ci g t) (spec_rotate a d eci v ci g t) \<and>
   faithful (db_busy s (db_begun s)) s (sql_credential_revoke s d ci v t) (spec_revoke a d ci v t)"
proof -
  let ?s = "foldl (credential_step sqlite_credential_repository) (empty_credential_db devices busy) cs"
  have ok: "credential_db_ok ?s" by (rule sqlite_credentials.run_keeps [OF empty_credential_db_ok])
  have "sql_cred_abs (empty_credential_db devices busy) = \<lparr>csp_latest = Map.empty, csp_used = {}\<rparr>"
    by (simp add: sql_cred_abs_def empty_credential_db_def select_credential_def)
  with sql_getActive_spec [OF ok] sql_verify_spec [OF ok] sql_issue_faithful [OF ok] sql_rotate_faithful [OF ok]
    sql_revoke_faithful [OF ok]
  show ?thesis by (simp add: Let_def)
qed

text \<open>A revoked device stays locked out in the database as well; the same lemma of the contract gives it.\<close>

lemma sqlite_revocation_locks_out:
  assumes "credential_db_ok s"
    and "sql_credential_revoke s d ci v t = (s', Inr (Some c))" and "is_sha256_hex g"
  shows "sql_credential_getActive s' d = Inr None \<and> sql_credential_verify s' d g = Inr None"
  using sqlite_credentials.revoked_cannot_verify [of s d ci v t s' c] assms
  by (simp add: sqlite_credential_repository_def)

end
