(* ===== verification/Pairing_Channel.thy ===== *)
theory Pairing_Channel
  imports Bridge_Protocol Completion_Service
begin

text \<open>
  The channels over which a machine that is being paired receives its first credential
  (\<^verbatim>\<open>apps/server/src/pairing-channel.ts\<close>). A channel is registered with the digest of a proof when
  the pairing code is made, a socket attaches to it by showing the proof, and once the code has been
  claimed the credential is delivered to the socket, which acknowledges it.

  Entries and deliveries are objects that outlive the map they were taken from, so they are numbers
  in heaps. Every public operation, every continuation after an \<^verbatim>\<open>await\<close> and every timer is an event;
  continuations that wait are tasks of the state. The \<open>i\<close>-th reading of the clock in a step is
  \<open>clock i\<close>.
\<close>

section \<open>Data\<close>

record channel_socket =
  cs_ref :: nat
  cs_id :: string

record channel_config =
  pc_sha256 :: "byte list \<Rightarrow> byte list"
  pc_toISOString :: "int \<Rightarrow> string"
  pc_cancels :: bool
  pc_forgets :: bool
  pc_maxPending :: int
  pc_timeoutMs :: int

definition default_channel_max_pending :: int where "default_channel_max_pending = 256"
definition default_delivery_timeout_ms :: int where "default_delivery_timeout_ms = 30000"

definition validate_positive_integer :: "js_number \<Rightarrow> int option" where
  "validate_positive_integer v = (if \<not> js_is_safe_integer v \<or> js_le_zero v then None else Some (js_to_int v))"

definition new_channel_config ::
  "(byte list \<Rightarrow> byte list) \<Rightarrow> (int \<Rightarrow> string) \<Rightarrow> bool \<Rightarrow> bool \<Rightarrow> js_number option \<Rightarrow> js_number option \<Rightarrow> channel_config option" where
  "new_channel_config sha256 toISO cancels forgets maxPending timeoutMs =
     Option.bind (validate_positive_integer
       (case maxPending of None \<Rightarrow> js_int default_channel_max_pending | Some v \<Rightarrow> v)) (\<lambda>m.
     Option.bind (validate_positive_integer
       (case timeoutMs of None \<Rightarrow> js_int default_delivery_timeout_ms | Some v \<Rightarrow> v)) (\<lambda>t.
       Some \<lparr>pc_sha256 = sha256, pc_toISOString = toISO, pc_cancels = cancels, pc_forgets = forgets,
             pc_maxPending = m, pc_timeoutMs = t\<rparr>))"

record pending_delivery =
  pd_completed :: completed_credential
  pd_sentSocketId :: "string option"
  pd_acknowledging :: bool

record channel_entry =
  ce_session :: pairing_session
  ce_proofDigest :: string
  ce_timer :: bool
  ce_deadlineMs :: int
  ce_socket :: "channel_socket option"
  ce_attaching :: bool
  ce_delivery :: "nat option"

text \<open>What waits: the first number is the call whose promise is open, if there is one.\<close>

datatype channel_task =
  RegisterDigest nat pairing_session string
| AttachDigest nat nat string string channel_socket
| AttachedSent nat nat channel_socket
| AttachDone nat nat
| CredentialSent "nat option" nat nat channel_socket
| CancelAsked nat nat
| AckAsked nat nat nat channel_socket
| CloseSent nat channel_socket
| ClosingEntry nat nat "nat list"

text \<open>\<^verbatim>\<open>pch_waiters\<close> holds the waiters of all deliveries: the call that waits and its delivery.\<close>

record pairing_channels =
  pch_entries :: "(string, nat) js_map"
  pch_heap :: "(nat, channel_entry) js_map"
  pch_deliveries :: "(nat, pending_delivery) js_map"
  pch_waiters :: "(nat \<times> nat) list"
  pch_tasks :: "(nat, channel_task) js_map"
  pch_next :: nat
  pch_closed :: bool

definition new_pairing_channels :: pairing_channels where
  "new_pairing_channels =
     \<lparr>pch_entries = [], pch_heap = [], pch_deliveries = [], pch_waiters = [], pch_tasks = [], pch_next = 0,
      pch_closed = False\<rparr>"

text \<open>
  What a step does to the outside. \<^verbatim>\<open>Settle\<close> settles the promise of a call of \<^verbatim>\<open>deliver\<close>, \<^verbatim>\<open>Answer\<close>
  that of any other call.
\<close>

datatype channel_output =
  SendFrame channel_socket pairing_channel_message
| CloseSocket channel_socket nat string
| CancelSession string
| ForgetCompletion string bool
| AskAcknowledge acknowledge_input
| Settle nat "(channel_error_code, unit) result"
| Answer nat "(channel_error_code, unit) result"

datatype channel_event =
  Register nat pairing_session string
| Attach nat string string channel_socket
| Detach string channel_socket
| CancelPairing nat string "channel_socket option"
| Deliver nat completed_credential
| Acknowledge nat channel_socket string string string int
| ClientError nat channel_socket
| CloseChannels nat
| Resume nat bool
| ExpiryFires nat
| WaiterFires nat nat

type_synonym channel_step = "pairing_channels \<times> channel_output list"

section \<open>Digests\<close>

definition channel_proof_digest_prefix :: string where
  "channel_proof_digest_prefix = ''doctmcp-pairing-channel:v1'' @ [CHR 0x00]"

definition digest_proof :: "channel_config \<Rightarrow> string \<Rightarrow> string" where
  "digest_proof cfg proof = hex_bytes (pc_sha256 cfg (utf8_encode (channel_proof_digest_prefix @ proof)))"

definition constant_time_hex_equal :: "string \<Rightarrow> string \<Rightarrow> bool" where
  "constant_time_hex_equal left right =
     (if length left \<noteq> 64 \<or> length right \<noteq> 64 then False else xor_difference 0 left right = 0)"

section \<open>Helpers\<close>

definition after :: "channel_output list \<Rightarrow> channel_step \<Rightarrow> channel_step" where
  "after outs p = (fst p, outs @ snd p)"

definition and_then :: "channel_step \<Rightarrow> (pairing_channels \<Rightarrow> channel_step) \<Rightarrow> channel_step" where
  "and_then p f = after (snd p) (f (fst p))"

definition update_entry :: "nat \<Rightarrow> (channel_entry \<Rightarrow> channel_entry) \<Rightarrow> pairing_channels \<Rightarrow> pairing_channels" where
  "update_entry k f C =
     (case js_get (pch_heap C) k of None \<Rightarrow> C | Some e \<Rightarrow> C\<lparr>pch_heap := js_set k (f e) (pch_heap C)\<rparr>)"

definition update_delivery :: "nat \<Rightarrow> (pending_delivery \<Rightarrow> pending_delivery) \<Rightarrow> pairing_channels \<Rightarrow> pairing_channels" where
  "update_delivery d f C =
     (case js_get (pch_deliveries C) d of
        None \<Rightarrow> C | Some p \<Rightarrow> C\<lparr>pch_deliveries := js_set d (f p) (pch_deliveries C)\<rparr>)"

definition start_task :: "channel_task \<Rightarrow> pairing_channels \<Rightarrow> pairing_channels" where
  "start_task t C = C\<lparr>pch_tasks := js_set (pch_next C) t (pch_tasks C), pch_next := Suc (pch_next C)\<rparr>"

definition refuse :: "nat \<Rightarrow> channel_error_code \<Rightarrow> pairing_channels \<Rightarrow> channel_step" where
  "refuse call e C = (C, [Answer call (Inl e)])"

definition delivery_waiters :: "nat \<Rightarrow> pairing_channels \<Rightarrow> nat list" where
  "delivery_waiters d C = map fst (filter (\<lambda>w. snd w = d) (pch_waiters C))"

definition clear_waiters :: "nat \<Rightarrow> pairing_channels \<Rightarrow> pairing_channels" where
  "clear_waiters d C = C\<lparr>pch_waiters := filter (\<lambda>w. snd w \<noteq> d) (pch_waiters C)\<rparr>"

definition reject_waiters :: "nat \<Rightarrow> channel_error_code \<Rightarrow> pairing_channels \<Rightarrow> channel_step" where
  "reject_waiters d e C = (clear_waiters d C, map (\<lambda>c. Settle c (Inl e)) (delivery_waiters d C))"

definition reject_entry :: "nat \<Rightarrow> channel_error_code \<Rightarrow> pairing_channels \<Rightarrow> channel_step" where
  "reject_entry k e C =
     (case Option.bind (js_get (pch_heap C) k) ce_delivery of None \<Rightarrow> (C, []) | Some d \<Rightarrow> reject_waiters d e C)"

definition close_entry_socket :: "nat \<Rightarrow> nat \<Rightarrow> string \<Rightarrow> pairing_channels \<Rightarrow> channel_step" where
  "close_entry_socket k code reason C =
     (C, case Option.bind (js_get (pch_heap C) k) ce_socket of None \<Rightarrow> [] | Some s \<Rightarrow> [CloseSocket s code reason])"

definition remove_entry :: "channel_config \<Rightarrow> nat \<Rightarrow> bool \<Rightarrow> pairing_channels \<Rightarrow> channel_step" where
  "remove_entry cfg k preserveDelivered C =
     (case js_get (pch_heap C) k of
        None \<Rightarrow> (C, [])
      | Some e \<Rightarrow>
          let sid = ps_pairingSessionId (ce_session e);
              C = C\<lparr>pch_entries := js_delete sid (pch_entries C)\<rparr> in
          after (if pc_forgets cfg then [ForgetCompletion sid preserveDelivered] else [])
            (and_then (reject_entry k PairingUnavailable C) (\<lambda>C.
               (update_entry k (\<lambda>e. e\<lparr>ce_timer := False, ce_proofDigest := [], ce_delivery := None, ce_socket := None\<rparr>) C, []))))"

definition expire :: "channel_config \<Rightarrow> string \<Rightarrow> pairing_channels \<Rightarrow> channel_step" where
  "expire cfg sid C =
     (case js_get (pch_entries C) sid of
        None \<Rightarrow> (C, [])
      | Some k \<Rightarrow>
          and_then (reject_entry k ChannelTimeout C) (\<lambda>C.
          and_then (close_entry_socket k 1000 ''Pairing expired'' C) (\<lambda>C.
            remove_entry cfg k False C)))"

definition entry_session_id :: "pairing_channels \<Rightarrow> nat \<Rightarrow> string" where
  "entry_session_id C k =
     (case js_get (pch_heap C) k of None \<Rightarrow> [] | Some e \<Rightarrow> ps_pairingSessionId (ce_session e))"

definition entry_overdue :: "pairing_channels \<Rightarrow> int \<Rightarrow> nat \<Rightarrow> bool" where
  "entry_overdue C now k = (case js_get (pch_heap C) k of None \<Rightarrow> False | Some e \<Rightarrow> ce_deadlineMs e \<le> now)"

fun expire_all :: "channel_config \<Rightarrow> string list \<Rightarrow> pairing_channels \<Rightarrow> channel_step" where
  "expire_all cfg [] C = (C, [])"
| "expire_all cfg (sid # sids) C = and_then (expire cfg sid C) (expire_all cfg sids)"

definition prune_channels :: "channel_config \<Rightarrow> int \<Rightarrow> pairing_channels \<Rightarrow> channel_step" where
  "prune_channels cfg now C =
     expire_all cfg (map (entry_session_id C) (filter (entry_overdue C now) (map snd (pch_entries C)))) C"

text \<open>\<^verbatim>\<open>#liveEntry\<close>: the entry of a session id that is not overdue; an overdue one is expired.\<close>

definition live_entry ::
  "channel_config \<Rightarrow> (nat \<Rightarrow> js_date) \<Rightarrow> string \<Rightarrow> pairing_channels \<Rightarrow> channel_step \<times> nat option" where
  "live_entry cfg clock sidIn C =
     (case Option.bind (pairing_session_id_schema sidIn) (js_get (pch_entries C)) of
        None \<Rightarrow> ((C, []), None)
      | Some k \<Rightarrow>
          (case (clock 0, js_get (pch_heap C) k) of
             (Some now, Some e) \<Rightarrow>
               if ce_deadlineMs e \<le> now then (expire cfg (ps_pairingSessionId (ce_session e)) C, None)
               else ((C, []), Some k)
           | _ \<Rightarrow> ((C, []), None)))"

section \<open>Sending\<close>

text \<open>\<^verbatim>\<open>#sendPendingDelivery\<close> up to its \<^verbatim>\<open>await\<close>; the flag says whether it waits for the socket.\<close>

definition credential_frame :: "completed_credential \<Rightarrow> pairing_channel_message" where
  "credential_frame c =
     PairingCredential (ps_pairingSessionId (cc_session c)) (dev_deviceId (cc_device c))
       (device_credential.cred_credentialId (cc_credential c)) (device_credential.cred_version (cc_credential c)) (cc_secret c)"

definition send_pending_delivery ::
  "nat option \<Rightarrow> nat \<Rightarrow> channel_socket \<Rightarrow> pairing_channels \<Rightarrow> channel_step \<times> bool" where
  "send_pending_delivery origin k socket C =
     (case js_get (pch_heap C) k of
        None \<Rightarrow> ((C, []), False)
      | Some e \<Rightarrow>
          (case ce_delivery e of
             None \<Rightarrow> ((C, []), False)
           | Some d \<Rightarrow>
               (case js_get (pch_deliveries C) d of
                  None \<Rightarrow> ((C, []), False)
                | Some p \<Rightarrow>
                    if ce_socket e \<noteq> Some socket \<or> pd_sentSocketId p = Some (cs_id socket) then ((C, []), False)
                    else ((start_task (CredentialSent origin k d socket)
                             (update_delivery d (\<lambda>p. p\<lparr>pd_sentSocketId := Some (cs_id socket)\<rparr>) C),
                           [SendFrame socket (credential_frame (pd_completed p))]), True))))"

section \<open>Registering\<close>

definition register_channel ::
  "channel_config \<Rightarrow> (nat \<Rightarrow> js_date) \<Rightarrow> nat \<Rightarrow> pairing_session \<Rightarrow> string \<Rightarrow> pairing_channels \<Rightarrow> channel_step" where
  "register_channel cfg clock call session proof C =
     (if pch_closed C then refuse call ChannelServerShutdown C
      else
        (case pairing_channel_proof_schema proof of
           None \<Rightarrow> refuse call PairingUnavailable C
         | Some proof \<Rightarrow>
             if ps_state session \<noteq> Pending \<or> ps_claimedAt session \<noteq> None \<or> ps_deviceId session \<noteq> None
             then refuse call PairingUnavailable C
             else
               (case clock 0 of
                  None \<Rightarrow> refuse call PairingUnavailable C
                | Some now \<Rightarrow>
                    if ps_expiresAt session \<le> now then refuse call PairingUnavailable C
                    else (start_task (RegisterDigest call session proof) C, []))))"

definition new_entry :: "channel_config \<Rightarrow> pairing_session \<Rightarrow> string \<Rightarrow> channel_entry" where
  "new_entry cfg session digest =
     \<lparr>ce_session = session, ce_proofDigest = digest, ce_timer = True,
      ce_deadlineMs = ps_expiresAt session + pc_timeoutMs cfg, ce_socket = None, ce_attaching = False,
      ce_delivery = None\<rparr>"

definition store_entry :: "channel_entry \<Rightarrow> pairing_channels \<Rightarrow> pairing_channels" where
  "store_entry e C =
     C\<lparr>pch_entries := js_set (ps_pairingSessionId (ce_session e)) (pch_next C) (pch_entries C),
       pch_heap := js_set (pch_next C) e (pch_heap C), pch_next := Suc (pch_next C)\<rparr>"

text \<open>After the digest: the clock is read to prune, to compare and to set the timer.\<close>

definition add_entry ::
  "channel_config \<Rightarrow> (nat \<Rightarrow> js_date) \<Rightarrow> nat \<Rightarrow> pairing_session \<Rightarrow> string \<Rightarrow> pairing_channels \<Rightarrow> channel_step" where
  "add_entry cfg clock call session proof C =
     (case clock 1 of
        None \<Rightarrow> refuse call PairingUnavailable C
      | Some now \<Rightarrow>
          if ps_expiresAt session \<le> now \<or> js_has (pch_entries C) (ps_pairingSessionId session)
          then refuse call PairingUnavailable C
          else if pc_maxPending cfg \<le> int (js_size (pch_entries C))
          then refuse call channel_error_code.PairingRateLimited C
          else if clock 2 = None then refuse call PairingUnavailable C
          else (store_entry (new_entry cfg session (digest_proof cfg proof)) C, [Answer call (Inr ())]))"

definition register_digested ::
  "channel_config \<Rightarrow> (nat \<Rightarrow> js_date) \<Rightarrow> nat \<Rightarrow> pairing_session \<Rightarrow> string \<Rightarrow> pairing_channels \<Rightarrow> channel_step" where
  "register_digested cfg clock call session proof C =
     (if pch_closed C then refuse call ChannelServerShutdown C
      else
        (case clock 0 of
           None \<Rightarrow> refuse call PairingUnavailable C
         | Some now \<Rightarrow> and_then (prune_channels cfg now C) (add_entry cfg clock call session proof)))"

section \<open>Attaching\<close>

definition attach_entry ::
  "nat \<Rightarrow> string \<Rightarrow> string \<Rightarrow> channel_socket \<Rightarrow> nat \<Rightarrow> pairing_channels \<Rightarrow> channel_step" where
  "attach_entry call sid proof socket k C =
     (case js_get (pch_heap C) k of
        None \<Rightarrow> refuse call PairingUnavailable C
      | Some e \<Rightarrow>
          if ce_socket e \<noteq> None \<or> ce_attaching e then refuse call PairingUnavailable C
          else (start_task (AttachDigest call k sid proof socket) (update_entry k (\<lambda>e. e\<lparr>ce_attaching := True\<rparr>) C), []))"

definition attach_channel ::
  "channel_config \<Rightarrow> (nat \<Rightarrow> js_date) \<Rightarrow> nat \<Rightarrow> string \<Rightarrow> string \<Rightarrow> channel_socket \<Rightarrow> pairing_channels \<Rightarrow> channel_step" where
  "attach_channel cfg clock call sidIn proofIn socket C =
     (if pch_closed C then refuse call ChannelServerShutdown C
      else
        (case (pairing_session_id_schema sidIn, pairing_channel_proof_schema proofIn) of
           (Some sid, Some proof) \<Rightarrow>
             (case live_entry cfg clock sid C of
                (p, None) \<Rightarrow> and_then p (refuse call PairingUnavailable)
              | (p, Some k) \<Rightarrow> and_then p (attach_entry call sid proof socket k))
         | _ \<Rightarrow> refuse call PairingUnavailable C))"

definition attach_failed :: "nat \<Rightarrow> nat \<Rightarrow> channel_socket \<Rightarrow> pairing_channels \<Rightarrow> channel_step" where
  "attach_failed call k socket C =
     (update_entry k (\<lambda>e. e\<lparr>ce_socket := if ce_socket e = Some socket then None else ce_socket e,
                             ce_attaching := False\<rparr>) C,
      [Answer call (Inl PairingUnavailable)])"

definition attach_digested ::
  "channel_config \<Rightarrow> nat \<Rightarrow> nat \<Rightarrow> string \<Rightarrow> string \<Rightarrow> channel_socket \<Rightarrow> pairing_channels \<Rightarrow> channel_step" where
  "attach_digested cfg call k sid proof socket C =
     (case js_get (pch_heap C) k of
        None \<Rightarrow> (C, [])
      | Some e \<Rightarrow>
          if js_get (pch_entries C) sid \<noteq> Some k \<or>
             \<not> constant_time_hex_equal (ce_proofDigest e) (digest_proof cfg proof)
          then attach_failed call k socket C
          else (start_task (AttachedSent call k socket) (update_entry k (\<lambda>e. e\<lparr>ce_socket := Some socket\<rparr>) C),
                [SendFrame socket (PairingAttached sid (pc_toISOString cfg (ps_expiresAt (ce_session e))))]))"

definition attach_done :: "nat \<Rightarrow> nat \<Rightarrow> pairing_channels \<Rightarrow> channel_step" where
  "attach_done call k C = (update_entry k (\<lambda>e. e\<lparr>ce_attaching := False\<rparr>) C, [Answer call (Inr ())])"

definition attached_sent :: "nat \<Rightarrow> nat \<Rightarrow> channel_socket \<Rightarrow> bool \<Rightarrow> pairing_channels \<Rightarrow> channel_step" where
  "attached_sent call k socket ok C =
     (if \<not> ok then attach_failed call k socket C
      else
        (case send_pending_delivery (Some call) k socket C of
           (p, True) \<Rightarrow> p
         | (p, False) \<Rightarrow>
             and_then p (\<lambda>C.
               if Option.bind (js_get (pch_heap C) k) ce_delivery = None then attach_done call k C
               else (start_task (AttachDone call k) C, []))))"

text \<open>The continuation of \<^verbatim>\<open>#sendPendingDelivery\<close> and of the attach that called it.\<close>

definition credential_sent ::
  "nat option \<Rightarrow> nat \<Rightarrow> nat \<Rightarrow> channel_socket \<Rightarrow> bool \<Rightarrow> pairing_channels \<Rightarrow> channel_step" where
  "credential_sent origin k d socket ok C =
     (let C = (if ok then C
               else update_delivery d (\<lambda>p. p\<lparr>pd_sentSocketId :=
                        if pd_sentSocketId p = Some (cs_id socket) then None else pd_sentSocketId p\<rparr>)
                      (update_entry k (\<lambda>e. e\<lparr>ce_socket := if ce_socket e = Some socket then None else ce_socket e\<rparr>) C)) in
      (case origin of None \<Rightarrow> (C, []) | Some call \<Rightarrow> attach_done call k C))"

definition detach_channel :: "string \<Rightarrow> channel_socket \<Rightarrow> pairing_channels \<Rightarrow> channel_step" where
  "detach_channel sidIn socket C =
     (case Option.bind (pairing_session_id_schema sidIn) (js_get (pch_entries C)) of
        None \<Rightarrow> (C, [])
      | Some k \<Rightarrow>
          (case js_get (pch_heap C) k of
             None \<Rightarrow> (C, [])
           | Some e \<Rightarrow>
               if ce_socket e \<noteq> Some socket then (C, [])
               else
                 let C = update_entry k (\<lambda>e. e\<lparr>ce_socket := None\<rparr>) C in
                 (case ce_delivery e of
                    None \<Rightarrow> (C, [])
                  | Some d \<Rightarrow>
                      (update_delivery d (\<lambda>p. p\<lparr>pd_sentSocketId :=
                          if pd_sentSocketId p = Some (cs_id socket) then None else pd_sentSocketId p\<rparr>) C, []))))"

section \<open>Cancelling\<close>

definition end_entry ::
  "channel_config \<Rightarrow> nat \<Rightarrow> channel_error_code \<Rightarrow> nat \<Rightarrow> string \<Rightarrow> pairing_channels \<Rightarrow> channel_step" where
  "end_entry cfg k e code reason C =
     and_then (reject_entry k e C) (\<lambda>C.
     and_then (close_entry_socket k code reason C) (\<lambda>C.
       remove_entry cfg k False C))"

definition cancel_asked :: "channel_config \<Rightarrow> nat \<Rightarrow> nat \<Rightarrow> pairing_channels \<Rightarrow> channel_step" where
  "cancel_asked cfg call k C =
     and_then (end_entry cfg k PairingUnavailable 1000 ''Pairing cancelled'' C) (\<lambda>C. (C, [Answer call (Inr ())]))"

definition cancel_channel :: "channel_config \<Rightarrow> nat \<Rightarrow> string \<Rightarrow> channel_socket option \<Rightarrow> pairing_channels \<Rightarrow> channel_step" where
  "cancel_channel cfg call sidIn socket C =
     (case Option.bind (pairing_session_id_schema sidIn) (js_get (pch_entries C)) of
        None \<Rightarrow> refuse call PairingUnavailable C
      | Some k \<Rightarrow>
          (case js_get (pch_heap C) k of
             None \<Rightarrow> refuse call PairingUnavailable C
           | Some e \<Rightarrow>
               if socket \<noteq> None \<and> ce_socket e \<noteq> socket then refuse call PairingUnavailable C
               else if ps_state (ce_session e) = Pending
               then (start_task (CancelAsked call k) C,
                     if pc_cancels cfg then [CancelSession (ps_pairingSessionId (ce_session e))] else [])
               else cancel_asked cfg call k C))"

text \<open>\<^verbatim>\<open>close\<close> goes through the entries there were, waiting for a cancellation before each.\<close>

definition entry_pending :: "pairing_channels \<Rightarrow> nat \<Rightarrow> bool" where
  "entry_pending C k = (case js_get (pch_heap C) k of None \<Rightarrow> False | Some e \<Rightarrow> ps_state (ce_session e) = Pending)"

fun close_next :: "channel_config \<Rightarrow> nat \<Rightarrow> nat list \<Rightarrow> pairing_channels \<Rightarrow> channel_step" where
  "close_next cfg call [] C = (C, [Answer call (Inr ())])"
| "close_next cfg call (k # ks) C =
     (if entry_pending C k
      then (start_task (ClosingEntry call k ks) C, if pc_cancels cfg then [CancelSession (entry_session_id C k)] else [])
      else and_then (end_entry cfg k ChannelServerShutdown 1012 ''Server shutdown'' C) (close_next cfg call ks))"

definition close_channels :: "channel_config \<Rightarrow> nat \<Rightarrow> pairing_channels \<Rightarrow> channel_step" where
  "close_channels cfg call C =
     (if pch_closed C then (C, [Answer call (Inr ())])
      else close_next cfg call (map snd (pch_entries C)) (C\<lparr>pch_closed := True\<rparr>))"

definition closing_entry :: "channel_config \<Rightarrow> nat \<Rightarrow> nat \<Rightarrow> nat list \<Rightarrow> pairing_channels \<Rightarrow> channel_step" where
  "closing_entry cfg call k ks C =
     and_then (end_entry cfg k ChannelServerShutdown 1012 ''Server shutdown'' C) (close_next cfg call ks)"

section \<open>Delivering\<close>

definition same_credential :: "completed_credential \<Rightarrow> completed_credential \<Rightarrow> bool" where
  "same_credential a b \<longleftrightarrow>
     device_credential.cred_credentialId (cc_credential a) = device_credential.cred_credentialId (cc_credential b) \<and>
     device_credential.cred_version (cc_credential a) = device_credential.cred_version (cc_credential b) \<and>
     cc_secret a = cc_secret b"

text \<open>The checks of the session before its channel is looked up.\<close>

definition deliverable :: "completed_credential \<Rightarrow> bool" where
  "deliverable c \<longleftrightarrow>
     ps_state (cc_session c) = Claimed \<and> ps_deviceId (cc_session c) = Some (dev_deviceId (cc_device c)) \<and>
     (case ps_claimedAt (cc_session c) of None \<Rightarrow> False | Some t \<Rightarrow> t < ps_expiresAt (cc_session c))"

definition wait_for_delivery ::
  "nat \<Rightarrow> nat \<Rightarrow> nat \<Rightarrow> pairing_channels \<Rightarrow> channel_step" where
  "wait_for_delivery call k d C =
     (let C = C\<lparr>pch_waiters := pch_waiters C @ [(call, d)]\<rparr> in
      (case Option.bind (js_get (pch_heap C) k) ce_socket of
         None \<Rightarrow> (C, [])
       | Some socket \<Rightarrow> fst (send_pending_delivery None k socket C)))"

definition add_delivery :: "pending_delivery \<Rightarrow> pairing_channels \<Rightarrow> pairing_channels" where
  "add_delivery p C = C\<lparr>pch_deliveries := js_set (pch_next C) p (pch_deliveries C), pch_next := Suc (pch_next C)\<rparr>"

text \<open>The first delivery of an entry moves its deadline to the time of the claim and the timeout.\<close>

definition open_delivery ::
  "channel_config \<Rightarrow> (nat \<Rightarrow> js_date) \<Rightarrow> nat \<Rightarrow> completed_credential \<Rightarrow> nat \<Rightarrow> string \<Rightarrow> pairing_channels \<Rightarrow> channel_step" where
  "open_delivery cfg clock call completed k sid C =
     (let deadline = (case ps_claimedAt (cc_session completed) of None \<Rightarrow> 0 | Some t \<Rightarrow> t) + pc_timeoutMs cfg in
      (case clock 1 of
         None \<Rightarrow> (C, [Settle call (Inl PairingUnavailable)])
       | Some now \<Rightarrow>
           if deadline \<le> now then and_then (expire cfg sid C) (\<lambda>C. (C, [Settle call (Inl ChannelTimeout)]))
           else
             let C = update_entry k (\<lambda>e. e\<lparr>ce_deadlineMs := deadline, ce_timer := clock 2 \<noteq> None\<rparr>) C in
             if clock 2 = None then (C, [Settle call (Inl PairingUnavailable)])
             else
               let d = pch_next C;
                   C = add_delivery \<lparr>pd_completed = completed, pd_sentSocketId = None, pd_acknowledging = False\<rparr> C in
               wait_for_delivery call k d (update_entry k (\<lambda>e. e\<lparr>ce_delivery := Some d\<rparr>) C)))"

definition deliver_to ::
  "channel_config \<Rightarrow> (nat \<Rightarrow> js_date) \<Rightarrow> nat \<Rightarrow> completed_credential \<Rightarrow> nat \<Rightarrow> pairing_channels \<Rightarrow> channel_step" where
  "deliver_to cfg clock call completed k C =
     (case js_get (pch_heap C) k of
        None \<Rightarrow> (C, [Settle call (Inl PairingUnavailable)])
      | Some e \<Rightarrow>
          if ps_pairingSessionId (ce_session e) \<noteq> ps_pairingSessionId (cc_session completed)
          then (C, [Settle call (Inl PairingUnavailable)])
          else
            (case ce_delivery e of
               Some d \<Rightarrow>
                 (case js_get (pch_deliveries C) d of
                    None \<Rightarrow> (C, [Settle call (Inl PairingUnavailable)])
                  | Some old \<Rightarrow>
                      if same_credential (pd_completed old) completed then wait_for_delivery call k d C
                      else (C, [Settle call (Inl PairingUnavailable)]))
             | None \<Rightarrow> open_delivery cfg clock call completed k (ps_pairingSessionId (ce_session e)) C))"

definition deliver_channel ::
  "channel_config \<Rightarrow> (nat \<Rightarrow> js_date) \<Rightarrow> nat \<Rightarrow> completed_credential \<Rightarrow> pairing_channels \<Rightarrow> channel_step" where
  "deliver_channel cfg clock call completed C =
     (if pch_closed C then (C, [Settle call (Inl ChannelServerShutdown)])
      else if \<not> deliverable completed then (C, [Settle call (Inl PairingUnavailable)])
      else
        (case live_entry cfg clock (ps_pairingSessionId (cc_session completed)) C of
           (p, None) \<Rightarrow> and_then p (\<lambda>C. (C, [Settle call (Inl PairingUnavailable)]))
         | (p, Some k) \<Rightarrow> and_then p (deliver_to cfg clock call completed k)))"

section \<open>Acknowledging\<close>

definition acknowledgeable ::
  "pending_delivery \<Rightarrow> channel_entry \<Rightarrow> channel_socket \<Rightarrow> string \<Rightarrow> string \<Rightarrow> int \<Rightarrow> bool" where
  "acknowledgeable p e socket deviceId credentialId version \<longleftrightarrow>
     ce_socket e = Some socket \<and> \<not> pd_acknowledging p \<and>
     dev_deviceId (cc_device (pd_completed p)) = deviceId \<and>
     device_credential.cred_credentialId (cc_credential (pd_completed p)) = credentialId \<and>
     device_credential.cred_version (cc_credential (pd_completed p)) = version"

definition acknowledge_entry ::
  "nat \<Rightarrow> channel_socket \<Rightarrow> string \<Rightarrow> string \<Rightarrow> int \<Rightarrow> nat \<Rightarrow> pairing_channels \<Rightarrow> channel_step" where
  "acknowledge_entry call socket deviceId credentialId version k C =
     (case Option.bind (js_get (pch_heap C) k) (\<lambda>e. Option.bind (ce_delivery e) (\<lambda>d.
             Option.bind (js_get (pch_deliveries C) d) (\<lambda>p.
               if acknowledgeable p e socket deviceId credentialId version then Some (d, p) else None))) of
        None \<Rightarrow> refuse call PairingUnavailable C
      | Some (d, p) \<Rightarrow>
          (start_task (AckAsked call k d socket) (update_delivery d (\<lambda>p. p\<lparr>pd_acknowledging := True\<rparr>) C),
           [AskAcknowledge \<lparr>ai_pairingSessionId = ps_pairingSessionId (cc_session (pd_completed p)),
              ai_ownerId = dev_ownerId (cc_device (pd_completed p)),
              ai_credentialId = device_credential.cred_credentialId (cc_credential (pd_completed p)),
              ai_credentialVersion = device_credential.cred_version (cc_credential (pd_completed p))\<rparr>]))"

definition acknowledge_channel ::
  "channel_config \<Rightarrow> (nat \<Rightarrow> js_date) \<Rightarrow> nat \<Rightarrow> channel_socket \<Rightarrow> string \<Rightarrow> string \<Rightarrow> string \<Rightarrow> int
   \<Rightarrow> pairing_channels \<Rightarrow> channel_step" where
  "acknowledge_channel cfg clock call socket sid deviceId credentialId version C =
     (case live_entry cfg clock sid C of
        (p, None) \<Rightarrow> and_then p (refuse call PairingUnavailable)
      | (p, Some k) \<Rightarrow> and_then p (acknowledge_entry call socket deviceId credentialId version k))"

definition ack_asked ::
  "channel_config \<Rightarrow> nat \<Rightarrow> nat \<Rightarrow> nat \<Rightarrow> channel_socket \<Rightarrow> bool \<Rightarrow> pairing_channels \<Rightarrow> channel_step" where
  "ack_asked cfg call k d socket ok C =
     (if \<not> ok
      then and_then (reject_waiters d PairingUnavailable (update_delivery d (\<lambda>p. p\<lparr>pd_acknowledging := False\<rparr>) C))
             (refuse call PairingUnavailable)
      else
        let waiters = delivery_waiters d C in
        and_then (remove_entry cfg k True (clear_waiters d C)) (\<lambda>C.
          (start_task (CloseSent call socket) C,
           map (\<lambda>c. Settle c (Inr ())) waiters @ [SendFrame socket (PairingClose CloseNormal)])))"

definition close_sent :: "nat \<Rightarrow> channel_socket \<Rightarrow> pairing_channels \<Rightarrow> channel_step" where
  "close_sent call socket C = (C, [CloseSocket socket 1000 ''Pairing complete'', Answer call (Inr ())])"

text \<open>\<^verbatim>\<open>reportClientError\<close>: the first entry of the socket with a delivery.\<close>

definition client_error_delivery :: "channel_socket \<Rightarrow> pairing_channels \<Rightarrow> nat option" where
  "client_error_delivery socket C =
     Option.bind
       (find (\<lambda>k. case js_get (pch_heap C) k of None \<Rightarrow> False
                    | Some e \<Rightarrow> ce_socket e = Some socket \<and> ce_delivery e \<noteq> None) (map snd (pch_entries C)))
       (\<lambda>k. Option.bind (js_get (pch_heap C) k) ce_delivery)"

definition report_client_error :: "nat \<Rightarrow> channel_socket \<Rightarrow> pairing_channels \<Rightarrow> channel_step" where
  "report_client_error call socket C =
     (case client_error_delivery socket C of
        None \<Rightarrow> refuse call PairingUnavailable C
      | Some d \<Rightarrow> and_then (reject_waiters d PairingStorageFailed C) (\<lambda>C. (C, [Answer call (Inr ())])))"

section \<open>Events\<close>

definition resume_task ::
  "channel_config \<Rightarrow> (nat \<Rightarrow> js_date) \<Rightarrow> channel_task \<Rightarrow> bool \<Rightarrow> pairing_channels \<Rightarrow> channel_step" where
  "resume_task cfg clock t ok C =
     (case t of
        RegisterDigest call session proof \<Rightarrow> register_digested cfg clock call session proof C
      | AttachDigest call k sid proof socket \<Rightarrow> attach_digested cfg call k sid proof socket C
      | AttachedSent call k socket \<Rightarrow> attached_sent call k socket ok C
      | AttachDone call k \<Rightarrow> attach_done call k C
      | CredentialSent origin k d socket \<Rightarrow> credential_sent origin k d socket ok C
      | CancelAsked call k \<Rightarrow> cancel_asked cfg call k C
      | AckAsked call k d socket \<Rightarrow> ack_asked cfg call k d socket ok C
      | CloseSent call socket \<Rightarrow> close_sent call socket C
      | ClosingEntry call k ks \<Rightarrow> closing_entry cfg call k ks C)"

definition expiry_fires :: "channel_config \<Rightarrow> nat \<Rightarrow> pairing_channels \<Rightarrow> channel_step" where
  "expiry_fires cfg k C =
     (case js_get (pch_heap C) k of
        None \<Rightarrow> (C, [])
      | Some e \<Rightarrow>
          if ce_timer e then expire cfg (ps_pairingSessionId (ce_session e)) (update_entry k (\<lambda>e. e\<lparr>ce_timer := False\<rparr>) C)
          else (C, []))"

definition waiter_fires :: "nat \<Rightarrow> nat \<Rightarrow> pairing_channels \<Rightarrow> channel_step" where
  "waiter_fires call d C =
     (if (call, d) \<in> set (pch_waiters C)
      then (C\<lparr>pch_waiters := remove1 (call, d) (pch_waiters C)\<rparr>, [Settle call (Inl ChannelTimeout)])
      else (C, []))"

definition channel_step ::
  "channel_config \<Rightarrow> pairing_channels \<Rightarrow> (nat \<Rightarrow> js_date) \<times> channel_event \<Rightarrow> channel_step" where
  "channel_step cfg C ev =
     (case ev of (clock, event) \<Rightarrow>
      case event of
        Register call session proof \<Rightarrow> register_channel cfg clock call session proof C
      | Attach call sid proof socket \<Rightarrow> attach_channel cfg clock call sid proof socket C
      | Detach sid socket \<Rightarrow> detach_channel sid socket C
      | CancelPairing call sid socket \<Rightarrow> cancel_channel cfg call sid socket C
      | Deliver call completed \<Rightarrow> deliver_channel cfg clock call completed C
      | Acknowledge call socket sid d ci v \<Rightarrow> acknowledge_channel cfg clock call socket sid d ci v C
      | ClientError call socket \<Rightarrow> report_client_error call socket C
      | CloseChannels call \<Rightarrow> close_channels cfg call C
      | Resume t ok \<Rightarrow>
          (case js_get (pch_tasks C) t of
             None \<Rightarrow> (C, [])
           | Some task \<Rightarrow> resume_task cfg clock task ok (C\<lparr>pch_tasks := js_delete t (pch_tasks C)\<rparr>))
      | ExpiryFires k \<Rightarrow> expiry_fires cfg k C
      | WaiterFires call d \<Rightarrow> waiter_fires call d C)"

fun channel_run ::
  "channel_config \<Rightarrow> pairing_channels \<Rightarrow> ((nat \<Rightarrow> js_date) \<times> channel_event) list \<Rightarrow> channel_step" where
  "channel_run cfg C [] = (C, [])"
| "channel_run cfg C (e # es) = and_then (channel_step cfg C e) (\<lambda>C. channel_run cfg C es)"

section \<open>Every delivery is settled once\<close>

definition settles :: "nat \<Rightarrow> channel_output list \<Rightarrow> nat" where
  "settles c outs = length (filter (\<lambda>x. case x of Settle c' r \<Rightarrow> c' = c | _ \<Rightarrow> False) outs)"

definition waiting :: "nat \<Rightarrow> pairing_channels \<Rightarrow> nat" where
  "waiting c C = length (filter (\<lambda>w. fst w = c) (pch_waiters C))"

text \<open>A step settles what waited before, or was asked in it, and waits no longer.\<close>

definition balanced :: "nat \<Rightarrow> pairing_channels \<Rightarrow> nat \<Rightarrow> channel_step \<Rightarrow> bool" where
  "balanced c C n p \<longleftrightarrow> settles c (snd p) + waiting c (fst p) = waiting c C + n"

lemma settles_simps [simp]:
  "settles c [] = 0" "settles c (a @ b) = settles c a + settles c b"
  "settles c (Settle c' r # outs) = (if c' = c then 1 else 0) + settles c outs"
  "settles c (SendFrame s m # outs) = settles c outs" "settles c (CloseSocket s n t # outs) = settles c outs"
  "settles c (CancelSession sid # outs) = settles c outs" "settles c (ForgetCompletion sid f # outs) = settles c outs"
  "settles c (AskAcknowledge i # outs) = settles c outs" "settles c (Answer x r # outs) = settles c outs"
  by (simp_all add: settles_def)

lemma settles_map [simp]: "settles c (map (\<lambda>c. Settle c r) cs) = length (filter (\<lambda>x. x = c) cs)"
  by (induction cs) simp_all

lemma waiters_frame [simp]:
  "pch_waiters (update_entry k f C) = pch_waiters C" "pch_waiters (update_delivery d g C) = pch_waiters C"
  "pch_waiters (start_task t C) = pch_waiters C" "pch_waiters (store_entry e C) = pch_waiters C"
  "pch_waiters (add_delivery p C) = pch_waiters C"
  by (simp_all add: update_entry_def update_delivery_def start_task_def store_entry_def add_delivery_def split: option.split)

lemma balanced_quiet: "pch_waiters D = pch_waiters C \<Longrightarrow> settles c outs = 0 \<Longrightarrow> balanced c C 0 (D, outs)"
  by (simp add: balanced_def waiting_def)

lemma balanced_frame: "pch_waiters D = pch_waiters C \<Longrightarrow> balanced c D n p \<Longrightarrow> balanced c C n p"
  by (simp add: balanced_def waiting_def)

lemma balanced_and_then:
  assumes "balanced c C m p" "balanced c (fst p) n (f (fst p))"
  shows "balanced c C (m + n) (and_then p f)"
  using assms by (simp add: balanced_def and_then_def after_def)

lemmas balanced_then = balanced_and_then [where m = 0, simplified] balanced_and_then [where n = 0, simplified]

lemma balanced_after: "balanced c C n p \<Longrightarrow> settles c outs = 0 \<Longrightarrow> balanced c C n (after outs p)"
  by (simp add: balanced_def after_def)

lemma waiting_split:
  "length (filter (\<lambda>x. x = c) (map fst (filter (\<lambda>w. snd w = d) ws))) + length (filter (\<lambda>w. fst w = c) (filter (\<lambda>w. snd w \<noteq> d) ws)) =
   length (filter (\<lambda>w. fst w = c) ws)"
  by (induction ws) auto

lemma balanced_reject_waiters: "balanced c C 0 (reject_waiters d e C)"
  unfolding balanced_def reject_waiters_def waiting_def clear_waiters_def delivery_waiters_def fst_conv snd_conv
    settles_map using waiting_split [of c d "pch_waiters C"] by simp

lemma balanced_reject_entry: "balanced c C 0 (reject_entry k e C)"
  by (simp add: reject_entry_def balanced_reject_waiters balanced_quiet split: option.split)

lemma balanced_close_socket: "balanced c C 0 (close_entry_socket k code reason C)"
  by (simp add: close_entry_socket_def balanced_quiet split: option.split)

lemma balanced_remove_entry: "balanced c C 0 (remove_entry cfg k b C)"
proof (cases "js_get (pch_heap C) k")
  case (Some e)
  let ?D = "C\<lparr>pch_entries := js_delete (ps_pairingSessionId (ce_session e)) (pch_entries C)\<rparr>"
  have "balanced c ?D 0 (and_then (reject_entry k PairingUnavailable ?D) (\<lambda>C.
      (update_entry k (\<lambda>e. e\<lparr>ce_timer := False, ce_proofDigest := [], ce_delivery := None, ce_socket := None\<rparr>) C, [])))"
    by (rule balanced_then(1) [OF balanced_reject_entry balanced_quiet]) simp_all
  then have "balanced c C 0 (and_then (reject_entry k PairingUnavailable ?D) (\<lambda>C.
      (update_entry k (\<lambda>e. e\<lparr>ce_timer := False, ce_proofDigest := [], ce_delivery := None, ce_socket := None\<rparr>) C, [])))"
    by (rule balanced_frame [rotated]) simp
  then show ?thesis
    unfolding remove_entry_def Some option.case Let_def by (rule balanced_after) simp
qed (simp add: remove_entry_def balanced_quiet)

lemma balanced_end_entry: "balanced c C 0 (end_entry cfg k e code reason C)"
  unfolding end_entry_def
  by (intro balanced_then(1) balanced_reject_entry balanced_close_socket balanced_remove_entry)

lemma balanced_expire: "balanced c C 0 (expire cfg sid C)"
  unfolding expire_def
  by (auto split: option.split
      intro!: balanced_then(1) balanced_quiet balanced_reject_entry balanced_close_socket balanced_remove_entry)

lemma balanced_expire_all: "balanced c C 0 (expire_all cfg sids C)"
proof (induction sids arbitrary: C)
  case (Cons sid sids)
  show ?case unfolding expire_all.simps by (intro balanced_then(1) balanced_expire Cons.IH)
qed (simp add: balanced_quiet)

lemma balanced_live_entry: "live_entry cfg clock sid C = (p, r) \<Longrightarrow> balanced c C 0 p"
  by (auto simp: live_entry_def balanced_quiet balanced_expire split: option.splits if_splits)

lemma balanced_send_pending: "balanced c C 0 (fst (send_pending_delivery origin k s C))"
  by (simp add: send_pending_delivery_def balanced_quiet split: option.split)

lemmas balanced_intros = balanced_quiet balanced_then balanced_expire balanced_expire_all balanced_end_entry
  balanced_remove_entry balanced_reject_waiters balanced_send_pending

lemma balanced_refuse [simp]: "balanced c C 0 (refuse call e C)"
  by (simp add: refuse_def balanced_quiet)

definition one_if :: "bool \<Rightarrow> nat" where "one_if b = (if b then 1 else 0)"

lemma balanced_wait: "balanced c C (one_if (call = c)) (wait_for_delivery call k d C)"
proof -
  let ?D = "C\<lparr>pch_waiters := pch_waiters C @ [(call, d)]\<rparr>"
  have "waiting c ?D = waiting c C + (one_if (call = c))" by (simp add: waiting_def one_if_def)
  moreover have "balanced c ?D 0 (fst (send_pending_delivery None k s ?D))" for s by (rule balanced_send_pending)
  ultimately show ?thesis
    by (auto simp: wait_for_delivery_def Let_def balanced_def split: option.split)
qed

lemma balanced_close_next: "balanced c C 0 (close_next cfg call ks C)"
proof (induction ks arbitrary: C)
  case (Cons k ks)
  show ?case
    by (cases "entry_pending C k") (simp_all add: balanced_quiet balanced_then(1) balanced_end_entry Cons.IH)
qed (simp add: balanced_quiet)

lemma if_prop: "(b \<Longrightarrow> P x) \<Longrightarrow> (\<not> b \<Longrightarrow> P y) \<Longrightarrow> P (if b then x else y)"
  by simp

definition delivers :: "nat \<Rightarrow> channel_event \<Rightarrow> nat" where
  "delivers c ev = (case ev of Deliver call x \<Rightarrow> one_if (call = c) | _ \<Rightarrow> 0)"

lemma balanced_settled: "pch_waiters D = pch_waiters C \<Longrightarrow> balanced c C (one_if (call = c)) (D, [Settle call r])"
  by (simp add: balanced_def waiting_def one_if_def)

lemma balanced_live:
  assumes "live_entry cfg clock sid C = (p, r)" "\<And>D. balanced c D n (f D)"
  shows "balanced c C n (and_then p f)"
  by (rule balanced_then(1)) (rule balanced_live_entry [OF assms(1)], rule assms(2))

lemma balanced_wait_later:
  "pch_waiters D = pch_waiters C \<Longrightarrow> balanced c C (one_if (call = c)) (wait_for_delivery call k d D)"
  by (rule balanced_frame [OF _ balanced_wait])

lemma balanced_expired:
  "balanced c D (one_if (call = c)) (and_then (expire cfg sid D) (\<lambda>C. (C, [Settle call r])))"
  by (rule balanced_then(1) [OF balanced_expire balanced_settled]) simp

lemma balanced_open: "balanced c C (one_if (call = c)) (open_delivery cfg clock call x k sid C)"
  unfolding open_delivery_def Let_def
  by (split option.split, intro conjI allI impI if_prop [where P = "balanced c C (one_if (call = c))"]
      balanced_settled balanced_expired balanced_wait_later) simp_all

lemma balanced_deliver_to: "balanced c C (one_if (call = c)) (deliver_to cfg clock call x k C)"
proof -
  have "balanced c C (one_if (call = c)) (C, [Settle call r])" for r by (rule balanced_settled) simp
  then show ?thesis
    unfolding deliver_to_def using balanced_wait balanced_open by (auto split: option.split)
qed

lemma balanced_deliver: "balanced c C (one_if (call = c)) (deliver_channel cfg clock call x C)"
proof -
  obtain p r where l: "live_entry cfg clock (ps_pairingSessionId (cc_session x)) C = (p, r)" by fastforce
  have "balanced c D (one_if (call = c)) (D, [Settle call e])" for D e by (rule balanced_settled) simp
  then show ?thesis
    unfolding deliver_channel_def l prod.case using balanced_live [OF l] balanced_deliver_to
    by (cases r) (simp_all del: if_split)
qed

lemma balanced_answer: "balanced c C 0 (D, [Answer call r])" if "pch_waiters D = pch_waiters C"
  by (rule balanced_quiet [OF that]) simp

lemma balanced_attach_done: "pch_waiters D = pch_waiters C \<Longrightarrow> balanced c C 0 (attach_done call k D)"
  by (simp add: attach_done_def balanced_answer)

lemma balanced_resume:
  assumes "pch_waiters D = pch_waiters C"
  shows "balanced c C 0 (resume_task cfg clock t ok D)"
proof (rule balanced_frame [OF assms], cases t)
  case (RegisterDigest call session shown)
  have "balanced c E 0 (add_entry cfg clock call session shown E)" for E
    by (auto simp: add_entry_def balanced_answer split: option.split)
  then show "balanced c D 0 (resume_task cfg clock t ok D)"
    by (auto simp: RegisterDigest resume_task_def register_digested_def prune_channels_def
        intro!: balanced_then(1) balanced_expire_all split: option.split)
next
  case (AttachDigest call k sid shown socket)
  then show "balanced c D 0 (resume_task cfg clock t ok D)"
    by (auto simp: resume_task_def attach_digested_def attach_failed_def balanced_quiet split: option.split)
next
  case (AttachedSent call k socket)
  obtain p b where p: "send_pending_delivery (Some call) k socket D = (p, b)" by fastforce
  then have "balanced c D 0 p" using balanced_send_pending [of c D "Some call" k socket] by simp
  then show "balanced c D 0 (resume_task cfg clock t ok D)"
    by (cases b) (auto simp: AttachedSent resume_task_def attached_sent_def p attach_failed_def balanced_quiet
        intro!: balanced_then(1) balanced_attach_done)
next
  case (AttachDone call k)
  then show "balanced c D 0 (resume_task cfg clock t ok D)" by (simp add: resume_task_def balanced_attach_done)
next
  case (CredentialSent origin k d socket)
  then show "balanced c D 0 (resume_task cfg clock t ok D)"
    by (auto simp: resume_task_def credential_sent_def Let_def balanced_quiet intro!: balanced_attach_done split: option.split)
next
  case (CancelAsked call k)
  then show "balanced c D 0 (resume_task cfg clock t ok D)"
    by (auto simp: resume_task_def cancel_asked_def balanced_answer intro!: balanced_then(1) balanced_end_entry)
next
  case (AckAsked call k d socket)
  show "balanced c D 0 (resume_task cfg clock t ok D)"
  proof (cases ok)
    case False
    have "balanced c D 0 (reject_waiters d PairingUnavailable (update_delivery d (\<lambda>p. p\<lparr>pd_acknowledging := False\<rparr>) D))"
      by (rule balanced_frame [OF _ balanced_reject_waiters]) simp
    then show ?thesis using False
      by (auto simp: AckAsked resume_task_def ack_asked_def intro!: balanced_then(1))
  next
    case True
    let ?p = "remove_entry cfg k True (clear_waiters d D)"
    have "settles c (snd ?p) + waiting c (fst ?p) = waiting c (clear_waiters d D)"
      using balanced_remove_entry [of c "clear_waiters d D" cfg k True] by (simp add: balanced_def)
    moreover have "length (filter (\<lambda>x. x = c) (delivery_waiters d D)) + waiting c (clear_waiters d D) = waiting c D"
      unfolding delivery_waiters_def clear_waiters_def waiting_def using waiting_split [of c d "pch_waiters D"] by simp
    ultimately show ?thesis using True
      by (simp add: AckAsked resume_task_def ack_asked_def Let_def balanced_def and_then_def after_def waiting_def)
  qed
next
  case (CloseSent call socket)
  then show "balanced c D 0 (resume_task cfg clock t ok D)" by (simp add: resume_task_def close_sent_def balanced_quiet)
next
  case (ClosingEntry call k ks)
  then show "balanced c D 0 (resume_task cfg clock t ok D)"
    by (auto simp: resume_task_def closing_entry_def intro!: balanced_then(1) balanced_end_entry balanced_close_next)
qed

lemma balanced_step: "balanced c C (delivers c (snd ev)) (channel_step cfg C ev)"
proof -
  obtain clock event where ev: "ev = (clock, event)" by (cases ev)
  have live: "balanced c C 0 (and_then p f)"
    if "live_entry cfg clock sid C = (p, r)" "\<And>D. balanced c D 0 (f D)" for sid p r f
    using balanced_live [OF that] .
  show ?thesis
  proof (cases event)
    case (Register call session shown)
    then show ?thesis
      by (auto simp: ev channel_step_def delivers_def register_channel_def balanced_quiet split: option.split)
  next
    case (Attach call sid shown socket)
    have "balanced c D 0 (attach_entry call s q socket k D)" for s q k D
      by (auto simp: attach_entry_def balanced_quiet split: option.split)
    then show ?thesis
      by (auto simp: Attach ev channel_step_def delivers_def attach_channel_def split: option.split prod.split intro!: live)
  next
    case (Detach sid socket)
    then show ?thesis
      by (auto simp: ev channel_step_def delivers_def detach_channel_def Let_def balanced_quiet split: option.split)
  next
    case (CancelPairing call sid socket)
    then show ?thesis
      by (auto simp: ev channel_step_def delivers_def cancel_channel_def cancel_asked_def balanced_quiet split: option.split
          intro!: balanced_then(1) balanced_end_entry)
  next
    case (Deliver call x)
    then show ?thesis by (simp add: ev channel_step_def delivers_def balanced_deliver)
  next
    case (Acknowledge call socket sid d ci v)
    have "balanced c D 0 (acknowledge_entry call socket d ci v k D)" for k D
      by (auto simp: acknowledge_entry_def balanced_quiet split: option.split)
    then show ?thesis
      by (auto simp: Acknowledge ev channel_step_def delivers_def acknowledge_channel_def split: option.split prod.split intro!: live)
  next
    case (ClientError call socket)
    then show ?thesis
      by (auto simp: ev channel_step_def delivers_def report_client_error_def balanced_answer split: option.split
          intro!: balanced_then(1) balanced_reject_waiters)
  next
    case (CloseChannels call)
    then show ?thesis
      by (auto simp: ev channel_step_def delivers_def close_channels_def balanced_answer
          intro!: balanced_frame [OF _ balanced_close_next])
  next
    case (Resume t ok)
    then show ?thesis
      by (auto simp: ev channel_step_def delivers_def balanced_quiet intro!: balanced_resume split: option.split)
  next
    case (ExpiryFires k)
    then show ?thesis
      by (auto simp: ev channel_step_def delivers_def expiry_fires_def balanced_quiet
          intro!: balanced_frame [OF _ balanced_expire] split: option.split)
  next
    case (WaiterFires call d)
    have "length (filter (\<lambda>w. fst w = c) ws) = length (filter (\<lambda>w. fst w = c) (remove1 (call, d) ws)) + one_if (call = c)"
      if "(call, d) \<in> set ws" for ws
      using that by (induction ws) (auto simp: one_if_def)
    then show ?thesis
      by (auto simp: WaiterFires ev channel_step_def delivers_def waiter_fires_def balanced_def waiting_def one_if_def)
  qed
qed

text \<open>C7: Every call of \<^verbatim>\<open>deliver\<close> is settled exactly once or still waits. In every run, with any
  interleaving of calls, timers and continuations, the number of times the promise of a call is
  settled and the number of its waiters add up to the number of times it was made. So no waiter is
  lost when its channel expires, is cancelled, acknowledged or closed, and none is settled twice.\<close>

theorem deliveries_settled_once:
  "settles c (snd (channel_run cfg new_pairing_channels es)) + waiting c (fst (channel_run cfg new_pairing_channels es)) =
   sum_list (map (delivers c) (map snd es))"
proof -
  have "balanced c C (sum_list (map (delivers c) (map snd es))) (channel_run cfg C es)" for C
  proof (induction es arbitrary: C)
    case (Cons e es)
    show ?case unfolding channel_run.simps list.map sum_list.Cons by (rule balanced_and_then) (rule balanced_step, rule Cons.IH)
  qed (simp add: balanced_quiet)
  then show ?thesis by (simp add: balanced_def) (simp add: waiting_def new_pairing_channels_def)
qed

end
