(* ===== verification/Pairing_Channel_Safety.thy ===== *)
theory Pairing_Channel_Safety
  imports Pairing_Channel
begin

text \<open>
  Who receives a credential over a pairing channel (\<^verbatim>\<open>apps/server/src/pairing-channel.ts\<close>): the
  invariant of the channels in terms of the events so far, and what it says of the frames that are
  sent, of the deliveries that succeed, and of the number of channels.
\<close>

section \<open>The past\<close>

text \<open>The session was registered, pending, with a proof of this digest.\<close>

definition registered :: "channel_config \<Rightarrow> channel_event set \<Rightarrow> string \<Rightarrow> string \<Rightarrow> bool" where
  "registered cfg past sid digest \<longleftrightarrow>
     (\<exists>call session proof. Register call session proof \<in> past \<and> ps_pairingSessionId session = sid \<and>
        ps_state session = Pending \<and> digest_proof cfg proof = digest)"

text \<open>The socket has shown, for the session, a proof of the digest it was registered with.\<close>

definition authorised :: "channel_config \<Rightarrow> channel_event set \<Rightarrow> string \<Rightarrow> channel_socket \<Rightarrow> bool" where
  "authorised cfg past sid socket \<longleftrightarrow>
     (\<exists>call sidIn proof. Attach call sidIn proof socket \<in> past \<and> pairing_session_id_schema sidIn = Some sid \<and>
        registered cfg past sid (digest_proof cfg proof))"

definition delivered :: "channel_event set \<Rightarrow> completed_credential \<Rightarrow> bool" where
  "delivered past c \<longleftrightarrow> (\<exists>call. Deliver call c \<in> past \<and> deliverable c)"

definition acknowledged :: "channel_config \<Rightarrow> channel_event set \<Rightarrow> completed_credential \<Rightarrow> bool" where
  "acknowledged cfg past c \<longleftrightarrow>
     (\<exists>call socket sidIn. Acknowledge call socket sidIn (dev_deviceId (cc_device c))
          (device_credential.cred_credentialId (cc_credential c)) (device_credential.cred_version (cc_credential c)) \<in> past \<and>
        authorised cfg past (ps_pairingSessionId (cc_session c)) socket)"

lemma past_mono:
  assumes "past \<subseteq> past'"
  shows "registered cfg past sid g \<Longrightarrow> registered cfg past' sid g"
    "authorised cfg past sid s \<Longrightarrow> authorised cfg past' sid s"
    "delivered past c \<Longrightarrow> delivered past' c" "acknowledged cfg past c \<Longrightarrow> acknowledged cfg past' c"
proof -
  show reg: "registered cfg past sid g \<Longrightarrow> registered cfg past' sid g" for sid g
    using assms unfolding registered_def by blast
  show auth: "authorised cfg past sid s \<Longrightarrow> authorised cfg past' sid s" for sid s
    using assms reg unfolding authorised_def by blast
  show "delivered past c \<Longrightarrow> delivered past' c" using assms unfolding delivered_def by blast
  show "acknowledged cfg past c \<Longrightarrow> acknowledged cfg past' c" using assms auth unfolding acknowledged_def by blast
qed

section \<open>The invariant\<close>

definition completed_of :: "pairing_channels \<Rightarrow> nat \<Rightarrow> completed_credential option" where
  "completed_of C d = map_option pd_completed (js_get (pch_deliveries C) d)"

definition channel_entry_ok ::
  "channel_config \<Rightarrow> channel_event set \<Rightarrow> (nat \<Rightarrow> completed_credential option) \<Rightarrow> channel_entry \<Rightarrow> bool" where
  "channel_entry_ok cfg past cof e \<longleftrightarrow>
     (let sid = ps_pairingSessionId (ce_session e) in
      (\<forall>s. ce_socket e = Some s \<longrightarrow> authorised cfg past sid s) \<and>
      (ce_proofDigest e = [] \<or> registered cfg past sid (ce_proofDigest e)) \<and>
      (\<forall>d. ce_delivery e = Some d \<longrightarrow>
         (\<exists>c. cof d = Some c \<and> delivered past c \<and> ps_pairingSessionId (cc_session c) = sid)))"

definition waiter_ok :: "channel_event set \<Rightarrow> (nat \<Rightarrow> completed_credential option) \<Rightarrow> nat \<times> nat \<Rightarrow> bool" where
  "waiter_ok past cof w \<longleftrightarrow>
     (\<exists>c x. cof (snd w) = Some c \<and> Deliver (fst w) x \<in> past \<and> same_credential c x \<and>
        ps_pairingSessionId (cc_session x) = ps_pairingSessionId (cc_session c))"

fun task_ok ::
  "channel_config \<Rightarrow> channel_event set \<Rightarrow> (nat \<Rightarrow> completed_credential option) \<Rightarrow> channel_task \<Rightarrow> bool" where
  "task_ok cfg past cof (RegisterDigest call session proof) \<longleftrightarrow>
     Register call session proof \<in> past \<and> ps_state session = Pending"
| "task_ok cfg past cof (AttachDigest call k sid proof socket) \<longleftrightarrow>
     (\<exists>sidIn. Attach call sidIn proof socket \<in> past \<and> pairing_session_id_schema sidIn = Some sid)"
| "task_ok cfg past cof (AckAsked call k d socket) \<longleftrightarrow> (\<exists>c. cof d = Some c \<and> acknowledged cfg past c)"
| "task_ok cfg past cof _ \<longleftrightarrow> True"

definition channels_ok :: "channel_config \<Rightarrow> channel_event set \<Rightarrow> pairing_channels \<Rightarrow> bool" where
  "channels_ok cfg past C \<longleftrightarrow>
     (\<forall>k e. js_get (pch_heap C) k = Some e \<longrightarrow> channel_entry_ok cfg past (completed_of C) e) \<and>
     (\<forall>sid k. js_get (pch_entries C) sid = Some k \<longrightarrow>
        k < pch_next C \<and> (\<exists>e. js_get (pch_heap C) k = Some e \<and> ps_pairingSessionId (ce_session e) = sid)) \<and>
     (\<forall>d c. completed_of C d = Some c \<longrightarrow> d < pch_next C) \<and>
     (\<forall>w\<in>set (pch_waiters C). waiter_ok past (completed_of C) w) \<and>
     (\<forall>t task. js_get (pch_tasks C) t = Some task \<longrightarrow> task_ok cfg past (completed_of C) task) \<and>
     int (js_size (pch_entries C)) \<le> max 0 (pc_maxPending cfg)"

fun output_ok :: "channel_config \<Rightarrow> channel_event set \<Rightarrow> channel_output \<Rightarrow> bool" where
  "output_ok cfg past (SendFrame socket m) \<longleftrightarrow>
     (case m of
        PairingCredential sid d ci v x \<Rightarrow>
          authorised cfg past sid socket \<and>
          (\<exists>c. delivered past c \<and> m = credential_frame c)
      | _ \<Rightarrow> True)"
| "output_ok cfg past (Settle call (Inr u)) \<longleftrightarrow>
     (\<exists>c x. Deliver call x \<in> past \<and> same_credential c x \<and>
        ps_pairingSessionId (cc_session x) = ps_pairingSessionId (cc_session c) \<and> acknowledged cfg past c)"
| "output_ok cfg past _ \<longleftrightarrow> True"

definition keeps :: "channel_config \<Rightarrow> channel_event set \<Rightarrow> pairing_channels \<Rightarrow> channel_step \<Rightarrow> bool" where
  "keeps cfg past C p \<longleftrightarrow>
     (channels_ok cfg past C \<longrightarrow> channels_ok cfg past (fst p) \<and> list_all (output_ok cfg past) (snd p))"

lemma keeps_and_then:
  assumes "keeps cfg past C p" "\<And>D. D = fst p \<Longrightarrow> keeps cfg past D (f D)"
  shows "keeps cfg past C (and_then p f)"
  using assms by (simp add: keeps_def and_then_def after_def)

lemma keeps_after: "keeps cfg past C p \<Longrightarrow> list_all (output_ok cfg past) outs \<Longrightarrow> keeps cfg past C (after outs p)"
  by (simp add: keeps_def after_def)

lemma keeps_same: "list_all (output_ok cfg past) outs \<Longrightarrow> keeps cfg past C (C, outs)"
  by (simp add: keeps_def)

lemma keepsI:
  "(channels_ok cfg past C \<Longrightarrow> channels_ok cfg past D) \<Longrightarrow>
   (channels_ok cfg past C \<Longrightarrow> list_all (output_ok cfg past) outs) \<Longrightarrow> keeps cfg past C (D, outs)"
  by (simp add: keeps_def)

lemma keeps_from: "(channels_ok cfg past C \<Longrightarrow> channels_ok cfg past D) \<Longrightarrow> keeps cfg past D p \<Longrightarrow> keeps cfg past C p"
  by (simp add: keeps_def)

lemma channels_ok_mono:
  assumes "past \<subseteq> past'" "channels_ok cfg past C"
  shows "channels_ok cfg past' C"
proof -
  note mono = past_mono [OF assms(1)]
  have "channel_entry_ok cfg past' cof e" if "channel_entry_ok cfg past cof e" for cof e
    using that mono(1-3) unfolding channel_entry_ok_def Let_def by blast
  moreover have "waiter_ok past' cof w" if "waiter_ok past cof w" for cof w
    using that assms(1) unfolding waiter_ok_def by blast
  moreover have "task_ok cfg past' cof t" if "task_ok cfg past cof t" for cof t
    using that assms(1) mono(4) by (cases t) auto
  ultimately show ?thesis using assms(2) unfolding channels_ok_def by blast
qed

section \<open>Helpers keep the invariant\<close>

lemma ok_entry: "channels_ok cfg past C \<Longrightarrow> js_get (pch_heap C) k = Some e \<Longrightarrow> channel_entry_ok cfg past (completed_of C) e"
  by (simp add: channels_ok_def)

lemma ok_listed:
  "channels_ok cfg past C \<Longrightarrow> js_get (pch_entries C) sid = Some k \<Longrightarrow>
   k < pch_next C \<and> (\<exists>e. js_get (pch_heap C) k = Some e \<and> ps_pairingSessionId (ce_session e) = sid)"
  by (simp add: channels_ok_def)

lemma ok_completed: "channels_ok cfg past C \<Longrightarrow> completed_of C d = Some c \<Longrightarrow> d < pch_next C"
  by (auto simp: channels_ok_def)

lemma ok_waiter: "channels_ok cfg past C \<Longrightarrow> w \<in> set (pch_waiters C) \<Longrightarrow> waiter_ok past (completed_of C) w"
  by (simp add: channels_ok_def)

lemma ok_task: "channels_ok cfg past C \<Longrightarrow> js_get (pch_tasks C) t = Some x \<Longrightarrow> task_ok cfg past (completed_of C) x"
  by (simp add: channels_ok_def)

lemma ok_bound: "channels_ok cfg past C \<Longrightarrow> int (js_size (pch_entries C)) \<le> max 0 (pc_maxPending cfg)"
  by (simp add: channels_ok_def)

lemma channels_okI:
  assumes "\<And>k e. js_get (pch_heap C) k = Some e \<Longrightarrow> channel_entry_ok cfg past (completed_of C) e"
    and "\<And>sid k. js_get (pch_entries C) sid = Some k \<Longrightarrow>
        k < pch_next C \<and> (\<exists>e. js_get (pch_heap C) k = Some e \<and> ps_pairingSessionId (ce_session e) = sid)"
    and "\<And>d c. completed_of C d = Some c \<Longrightarrow> d < pch_next C"
    and "\<And>w. w \<in> set (pch_waiters C) \<Longrightarrow> waiter_ok past (completed_of C) w"
    and "\<And>t x. js_get (pch_tasks C) t = Some x \<Longrightarrow> task_ok cfg past (completed_of C) x"
    and "int (js_size (pch_entries C)) \<le> max 0 (pc_maxPending cfg)"
  shows "channels_ok cfg past C"
  using assms by (simp add: channels_ok_def)

lemma completed_frame [simp]:
  "completed_of (C\<lparr>pch_entries := es\<rparr>) = completed_of C" "completed_of (C\<lparr>pch_heap := h\<rparr>) = completed_of C"
  "completed_of (C\<lparr>pch_waiters := ws\<rparr>) = completed_of C" "completed_of (C\<lparr>pch_tasks := ts\<rparr>) = completed_of C"
  "completed_of (C\<lparr>pch_next := n\<rparr>) = completed_of C" "completed_of (C\<lparr>pch_closed := b\<rparr>) = completed_of C"
  "completed_of (update_entry k f C) = completed_of C" "completed_of (start_task t C) = completed_of C"
  by (intro ext, simp add: completed_of_def update_entry_def start_task_def split: option.split)+

lemma update_entry_parts [simp]:
  "pch_entries (update_entry k f C) = pch_entries C" "pch_next (update_entry k f C) = pch_next C"
  "pch_tasks (update_entry k f C) = pch_tasks C" "pch_closed (update_entry k f C) = pch_closed C"
  by (simp_all add: update_entry_def split: option.split)

lemma update_entry_get:
  "js_get (pch_heap (update_entry k f C)) k' = (if k' = k then map_option f (js_get (pch_heap C) k) else js_get (pch_heap C) k')"
  by (simp add: update_entry_def split: option.split)

lemma update_entry_keeps:
  assumes ok: "channels_ok cfg past C"
    and f: "\<And>e. js_get (pch_heap C) k = Some e \<Longrightarrow> ce_session (f e) = ce_session e"
      "\<And>e. js_get (pch_heap C) k = Some e \<Longrightarrow> channel_entry_ok cfg past (completed_of C) e \<Longrightarrow>
        channel_entry_ok cfg past (completed_of C) (f e)"
  shows "channels_ok cfg past (update_entry k f C)"
proof (rule channels_okI)
  fix k' e assume e: "js_get (pch_heap (update_entry k f C)) k' = Some e"
  show "channel_entry_ok cfg past (completed_of (update_entry k f C)) e"
    using e f(2) ok_entry [OF ok] by (cases "js_get (pch_heap C) k") (auto simp: update_entry_get split: if_splits)
next
  fix sid k' assume "js_get (pch_entries (update_entry k f C)) sid = Some k'"
  then show "k' < pch_next (update_entry k f C) \<and>
      (\<exists>e. js_get (pch_heap (update_entry k f C)) k' = Some e \<and> ps_pairingSessionId (ce_session e) = sid)"
    using ok_listed [OF ok, of sid k'] f(1) by (cases "k' = k") (auto simp: update_entry_get)
qed (use ok ok_completed ok_waiter ok_task ok_bound in \<open>fastforce+\<close>)

lemma update_delivery_completed:
  assumes "\<And>p. pd_completed (f p) = pd_completed p"
  shows "completed_of (update_delivery d f C) = completed_of C"
  using assms by (intro ext) (auto simp: completed_of_def update_delivery_def split: option.split)

lemma update_delivery_parts [simp]:
  "pch_entries (update_delivery d f C) = pch_entries C" "pch_next (update_delivery d f C) = pch_next C"
  "pch_tasks (update_delivery d f C) = pch_tasks C" "pch_heap (update_delivery d f C) = pch_heap C"
  by (simp_all add: update_delivery_def split: option.split)

lemma update_delivery_keeps:
  assumes ok: "channels_ok cfg past C" and f: "\<And>p. pd_completed (f p) = pd_completed p"
  shows "channels_ok cfg past (update_delivery d f C)"
  using ok by (simp add: channels_ok_def update_delivery_completed [of f d C, OF f])

lemma start_task_parts [simp]:
  "pch_entries (start_task t C) = pch_entries C" "pch_heap (start_task t C) = pch_heap C"
  "pch_next (start_task t C) = Suc (pch_next C)"
  "js_get (pch_tasks (start_task t C)) i = (if i = pch_next C then Some t else js_get (pch_tasks C) i)"
  by (simp_all add: start_task_def)

lemma start_task_keeps:
  assumes ok: "channels_ok cfg past C" and t: "task_ok cfg past (completed_of C) t"
  shows "channels_ok cfg past (start_task t C)"
proof (rule channels_okI)
  fix i x assume "js_get (pch_tasks (start_task t C)) i = Some x"
  then show "task_ok cfg past (completed_of (start_task t C)) x"
    using t ok_task [OF ok, of i x] by (simp split: if_splits)
next
  fix sid k assume "js_get (pch_entries (start_task t C)) sid = Some k"
  then show "k < pch_next (start_task t C) \<and>
      (\<exists>e. js_get (pch_heap (start_task t C)) k = Some e \<and> ps_pairingSessionId (ce_session e) = sid)"
    using ok_listed [OF ok, of sid k] by auto
next
  fix d c assume "completed_of (start_task t C) d = Some c"
  then show "d < pch_next (start_task t C)" using ok_completed [OF ok, of d c] by simp
qed (use ok ok_entry ok_waiter ok_bound in \<open>fastforce+\<close>)

lemma fewer_waiters_keeps:
  assumes "channels_ok cfg past C" "set ws \<subseteq> set (pch_waiters C)"
  shows "channels_ok cfg past (C\<lparr>pch_waiters := ws\<rparr>)"
  using assms unfolding channels_ok_def completed_frame by auto

lemma fewer_entries_keeps:
  assumes "channels_ok cfg past C"
  shows "channels_ok cfg past (C\<lparr>pch_entries := js_delete sid (pch_entries C)\<rparr>)"
  using assms js_size_delete_le [of sid "pch_entries C"]
  unfolding channels_ok_def completed_frame by (auto split: if_splits)

lemma fewer_tasks_keeps:
  assumes "channels_ok cfg past C"
  shows "channels_ok cfg past (C\<lparr>pch_tasks := js_delete t (pch_tasks C)\<rparr>)"
  using assms unfolding channels_ok_def completed_frame by (auto split: if_splits)

lemma settle_errors [simp]: "list_all (output_ok cfg past) (map (\<lambda>c. Settle c (Inl e)) cs)"
  by (simp add: list_all_iff)

lemma keeps_reject_waiters: "keeps cfg past C (reject_waiters d e C)"
  unfolding reject_waiters_def clear_waiters_def by (rule keepsI) (auto intro: fewer_waiters_keeps)

lemma keeps_reject_entry: "keeps cfg past C (reject_entry k e C)"
  by (auto simp: reject_entry_def keeps_reject_waiters keeps_same split: option.split)

lemma keeps_close_socket: "keeps cfg past C (close_entry_socket k code reason C)"
  by (auto simp: close_entry_socket_def keeps_same split: option.split)

lemma keeps_remove_entry: "keeps cfg past C (remove_entry cfg k b C)"
proof (cases "js_get (pch_heap C) k")
  case (Some e)
  have clear: "keeps cfg past D (update_entry k (\<lambda>e. e\<lparr>ce_timer := False, ce_proofDigest := [], ce_delivery := None, ce_socket := None\<rparr>) D, [])" for D
    by (rule keepsI) (auto intro!: update_entry_keeps simp: channel_entry_ok_def)
  show ?thesis
    unfolding remove_entry_def Some option.case Let_def
    by (rule keeps_after, rule keeps_from [rotated], rule keeps_and_then, rule keeps_reject_entry)
      (simp_all add: clear fewer_entries_keeps)
qed (simp add: remove_entry_def keeps_same)

lemma keeps_end_entry: "keeps cfg past C (end_entry cfg k e code reason C)"
  unfolding end_entry_def
  by (intro keeps_and_then keeps_reject_entry keeps_close_socket keeps_remove_entry)

lemma keeps_expire: "keeps cfg past C (expire cfg sid C)"
  unfolding expire_def
  by (auto split: option.split
      intro!: keeps_same keeps_and_then keeps_reject_entry keeps_close_socket keeps_remove_entry)

lemma keeps_expire_all: "keeps cfg past C (expire_all cfg sids C)"
proof (induction sids arbitrary: C)
  case (Cons sid sids)
  show ?case unfolding expire_all.simps by (intro keeps_and_then keeps_expire Cons.IH)
qed (simp add: keeps_same)

lemma keeps_live_entry: "live_entry cfg clock sid C = (p, r) \<Longrightarrow> keeps cfg past C p"
  by (auto simp: live_entry_def keeps_same keeps_expire split: option.splits if_splits)

lemma live_entry_found: "live_entry cfg clock sid C = (p, Some k) \<Longrightarrow> p = (C, [])"
  by (auto simp: live_entry_def split: option.splits if_splits)

lemma keeps_close_next: "keeps cfg past C (close_next cfg call ks C)"
proof (induction ks arbitrary: C)
  case (Cons k ks)
  show ?case
    by (cases "entry_pending C k") (auto intro!: keepsI start_task_keeps keeps_and_then keeps_end_entry Cons.IH)
qed (simp add: keeps_same)

section \<open>Operations keep the invariant\<close>

lemma keeps_quiet: "list_all (output_ok cfg past) outs \<Longrightarrow> (channels_ok cfg past C \<Longrightarrow> channels_ok cfg past D) \<Longrightarrow> keeps cfg past C (D, outs)"
  by (simp add: keeps_def)

lemma keeps_refuse: "keeps cfg past C (refuse call e C)"
  by (simp add: refuse_def keeps_same)

lemma keeps_send_pending: "keeps cfg past C (fst (send_pending_delivery origin k s C))"
proof -
  have "channels_ok cfg past (start_task (CredentialSent origin k d s) (update_delivery d (\<lambda>p. p\<lparr>pd_sentSocketId := Some i\<rparr>) C)) \<and>
      authorised cfg past (ps_pairingSessionId (cc_session (pd_completed p))) s \<and> delivered past (pd_completed p)"
    if "channels_ok cfg past C" "js_get (pch_heap C) k = Some e" "ce_delivery e = Some d"
      "js_get (pch_deliveries C) d = Some p" "ce_socket e = Some s" for e d p i
    using ok_entry [OF that(1,2)] that
    by (auto intro!: start_task_keeps update_delivery_keeps simp: channel_entry_ok_def completed_of_def Let_def)
  moreover have "output_ok cfg past (SendFrame s (credential_frame c))"
    if "authorised cfg past (ps_pairingSessionId (cc_session c)) s" "delivered past c" for c
    using that by (auto simp: credential_frame_def)
  ultimately show ?thesis
    unfolding send_pending_delivery_def
    by (auto intro!: keeps_same keepsI split: option.split)
qed

subsection \<open>Registering\<close>

lemma proof_unchanged: "pairing_channel_proof_schema x = Some y \<Longrightarrow> y = x"
  by (auto simp: pairing_channel_proof_schema_def split: if_splits)

lemma keeps_register:
  assumes "Register call session shown \<in> past"
  shows "keeps cfg past C (register_channel cfg clock call session shown C)"
  using assms unfolding register_channel_def
  by (auto dest!: proof_unchanged intro!: keeps_refuse keepsI start_task_keeps split: option.split)

lemma store_entry_keeps:
  assumes ok: "channels_ok cfg past C" and e: "channel_entry_ok cfg past (completed_of C) e"
    and new: "js_get (pch_entries C) (ps_pairingSessionId (ce_session e)) = None"
    and room: "int (js_size (pch_entries C)) < pc_maxPending cfg"
  shows "channels_ok cfg past (store_entry e C)"
proof -
  have c: "completed_of (store_entry e C) = completed_of C" by (intro ext) (simp add: completed_of_def store_entry_def)
  show ?thesis
  proof (rule channels_okI)
    fix k x assume "js_get (pch_heap (store_entry e C)) k = Some x"
    then show "channel_entry_ok cfg past (completed_of (store_entry e C)) x"
      using e ok_entry [OF ok, of k x] by (simp add: c store_entry_def split: if_splits)
  next
    fix sid k assume "js_get (pch_entries (store_entry e C)) sid = Some k"
    then show "k < pch_next (store_entry e C) \<and>
        (\<exists>x. js_get (pch_heap (store_entry e C)) k = Some x \<and> ps_pairingSessionId (ce_session x) = sid)"
      using ok_listed [OF ok, of sid k] by (auto simp: store_entry_def split: if_splits)
  next
    fix d x assume "completed_of (store_entry e C) d = Some x"
    then show "d < pch_next (store_entry e C)" using ok_completed [OF ok, of d x] by (simp add: c store_entry_def)
  next
    show "int (js_size (pch_entries (store_entry e C))) \<le> max 0 (pc_maxPending cfg)"
      using new room by (simp add: store_entry_def js_size_set)
  qed (use ok ok_waiter ok_task in \<open>fastforce simp: c store_entry_def\<close>)+
qed

lemma keeps_add_entry:
  assumes "Register call session shown \<in> past" "ps_state session = Pending"
  shows "keeps cfg past C (add_entry cfg clock call session shown C)"
proof -
  have "channel_entry_ok cfg past (completed_of C) (new_entry cfg session (digest_proof cfg shown))"
    using assms by (auto simp: channel_entry_ok_def new_entry_def registered_def)
  then show ?thesis
    unfolding add_entry_def
    by (auto intro!: keeps_refuse keepsI store_entry_keeps simp: new_entry_def split: option.split)
qed

lemma keeps_register_digested:
  assumes "Register call session shown \<in> past" "ps_state session = Pending"
  shows "keeps cfg past C (register_digested cfg clock call session shown C)"
  unfolding register_digested_def prune_channels_def
  by (auto intro!: keeps_refuse keeps_and_then keeps_expire_all keeps_add_entry assms split: option.split)

subsection \<open>Attaching\<close>

lemma keeps_update_entry:
  assumes "\<And>e. ce_session (f e) = ce_session e"
    "\<And>e. channel_entry_ok cfg past (completed_of C) e \<Longrightarrow> channel_entry_ok cfg past (completed_of C) (f e)"
    "list_all (output_ok cfg past) outs"
  shows "keeps cfg past C (update_entry k f C, outs)"
  by (rule keepsI) (rule update_entry_keeps, simp_all add: assms)

lemma keeps_attach:
  assumes "Attach call sidIn shown socket \<in> past"
  shows "keeps cfg past C (attach_channel cfg clock call sidIn shown socket C)"
proof -
  have "keeps cfg past D (attach_entry call sid shown socket k D)" if "pairing_session_id_schema sidIn = Some sid" for sid k D
    using assms that unfolding attach_entry_def
    by (auto intro!: keeps_refuse keepsI start_task_keeps update_entry_keeps simp: channel_entry_ok_def split: option.split)
  then show ?thesis
    unfolding attach_channel_def
    by (auto dest!: proof_unchanged dest: keeps_live_entry intro!: keeps_refuse keeps_and_then split: option.split prod.split)
qed

lemma keeps_attach_failed: "keeps cfg past C (attach_failed call k socket C)"
  unfolding attach_failed_def by (rule keeps_update_entry) (auto simp: channel_entry_ok_def Let_def)

lemma hex_equal_eq: "constant_time_hex_equal a b \<Longrightarrow> a = b \<and> a \<noteq> []"
  by (auto simp: constant_time_hex_equal_def xor_difference_zero split: if_splits)

lemma keeps_attach_digested:
  assumes "Attach call sidIn shown socket \<in> past" "pairing_session_id_schema sidIn = Some sid"
  shows "keeps cfg past C (attach_digested cfg call k sid shown socket C)"
proof -
  have "channels_ok cfg past (update_entry k (\<lambda>e. e\<lparr>ce_socket := Some socket\<rparr>) C)"
    if ok: "channels_ok cfg past C" and e: "js_get (pch_heap C) k = Some e" and listed: "js_get (pch_entries C) sid = Some k"
      and equal: "constant_time_hex_equal (ce_proofDigest e) (digest_proof cfg shown)" for e
  proof -
    have "registered cfg past sid (digest_proof cfg shown)"
      using ok_entry [OF ok e] ok_listed [OF ok listed] e hex_equal_eq [OF equal] by (auto simp: channel_entry_ok_def Let_def)
    then have auth: "authorised cfg past sid socket" using assms by (auto simp: authorised_def)
    show ?thesis
      by (rule update_entry_keeps [OF ok]) (use e auth ok_listed [OF ok listed] in \<open>auto simp: channel_entry_ok_def Let_def\<close>)
  qed
  then show ?thesis
    unfolding attach_digested_def
    by (auto intro!: keeps_same keeps_attach_failed keepsI start_task_keeps split: option.split)
qed

lemma keeps_attach_done: "keeps cfg past C (attach_done call k C)"
  unfolding attach_done_def by (rule keeps_update_entry) (auto simp: channel_entry_ok_def Let_def)

lemma keeps_attached_sent: "keeps cfg past C (attached_sent call k socket ok C)"
proof -
  obtain p b where p: "send_pending_delivery (Some call) k socket C = (p, b)" by fastforce
  then have "keeps cfg past C p" using keeps_send_pending [of cfg past C "Some call" k socket] by simp
  then show ?thesis
    by (cases b) (auto simp: attached_sent_def p
        intro!: keeps_attach_failed keeps_attach_done keeps_and_then keepsI start_task_keeps)
qed

lemma keeps_credential_sent: "keeps cfg past C (credential_sent origin k d socket ok C)"
proof -
  let ?D = "update_delivery d (\<lambda>p. p\<lparr>pd_sentSocketId := if pd_sentSocketId p = Some (cs_id socket) then None else pd_sentSocketId p\<rparr>)
    (update_entry k (\<lambda>e. e\<lparr>ce_socket := if ce_socket e = Some socket then None else ce_socket e\<rparr>) C)"
  have "channels_ok cfg past C \<Longrightarrow> channels_ok cfg past ?D"
    by (intro update_delivery_keeps update_entry_keeps) (auto simp: channel_entry_ok_def Let_def)
  then have "keeps cfg past C (?D, [])" "keeps cfg past C (attach_done call k ?D)" for call
    by (simp add: keepsI, rule keeps_from [OF _ keeps_attach_done])
  then show ?thesis
    by (cases origin; cases ok) (simp_all add: credential_sent_def keeps_same keeps_attach_done)
qed

lemma keeps_detach: "keeps cfg past C (detach_channel sidIn socket C)"
  unfolding detach_channel_def Let_def
  by (auto intro!: keeps_same keepsI update_delivery_keeps update_entry_keeps simp: channel_entry_ok_def Let_def split: option.split)

subsection \<open>Cancelling and closing\<close>

lemma keeps_cancel_asked: "keeps cfg past C (cancel_asked cfg call k C)"
  unfolding cancel_asked_def by (rule keeps_and_then, rule keeps_end_entry) (simp add: keeps_same)

lemma keeps_cancel: "keeps cfg past C (cancel_channel cfg call sidIn socket C)"
  unfolding cancel_channel_def
  by (auto intro!: keeps_refuse keeps_cancel_asked keepsI start_task_keeps split: option.split)

lemma keeps_close: "keeps cfg past C (close_channels cfg call C)"
proof -
  have "channels_ok cfg past C \<Longrightarrow> channels_ok cfg past (C\<lparr>pch_closed := True\<rparr>)" by (simp add: channels_ok_def)
  then show ?thesis by (simp add: close_channels_def keeps_same keeps_from [OF _ keeps_close_next])
qed

lemma keeps_closing: "keeps cfg past C (closing_entry cfg call k ks C)"
  unfolding closing_entry_def by (intro keeps_and_then keeps_end_entry keeps_close_next)

subsection \<open>Delivering\<close>

lemma ok_more_deliveries:
  assumes "\<And>d c. cof d = Some c \<Longrightarrow> cof' d = Some c"
  shows "channel_entry_ok cfg past cof e \<Longrightarrow> channel_entry_ok cfg past cof' e"
    "waiter_ok past cof w \<Longrightarrow> waiter_ok past cof' w" "task_ok cfg past cof t \<Longrightarrow> task_ok cfg past cof' t"
  using assms
  by (auto simp: channel_entry_ok_def Let_def, auto simp: waiter_ok_def, cases t, auto)

lemma add_delivery_completed: "completed_of (add_delivery p C) = (completed_of C)(pch_next C \<mapsto> pd_completed p)"
  by (intro ext) (simp add: completed_of_def add_delivery_def)

lemma add_delivery_keeps:
  assumes ok: "channels_ok cfg past C"
  shows "channels_ok cfg past (add_delivery p C)"
proof -
  have more: "completed_of (add_delivery p C) d = Some c" if "completed_of C d = Some c" for d c
    using that ok_completed [OF ok that] by (simp add: add_delivery_completed)
  note mono = ok_more_deliveries [where cof = "completed_of C" and cof' = "completed_of (add_delivery p C)", OF more]
  show ?thesis
  proof (rule channels_okI)
    fix sid k assume "js_get (pch_entries (add_delivery p C)) sid = Some k"
    then show "k < pch_next (add_delivery p C) \<and>
        (\<exists>e. js_get (pch_heap (add_delivery p C)) k = Some e \<and> ps_pairingSessionId (ce_session e) = sid)"
      using ok_listed [OF ok, of sid k] by (auto simp: add_delivery_def)
  next
    fix d c assume "completed_of (add_delivery p C) d = Some c"
    then have "d < Suc (pch_next C)"
      using ok_completed [OF ok, of d c] by (simp add: add_delivery_completed split: if_splits)
    then show "d < pch_next (add_delivery p C)" by (simp add: add_delivery_def)
  next
    fix k e assume "js_get (pch_heap (add_delivery p C)) k = Some e"
    then show "channel_entry_ok cfg past (completed_of (add_delivery p C)) e"
      using ok_entry [OF ok, of k e] by (intro mono(1)) (simp_all add: add_delivery_def)
  next
    fix w assume "w \<in> set (pch_waiters (add_delivery p C))"
    then show "waiter_ok past (completed_of (add_delivery p C)) w"
      using ok_waiter [OF ok, of w] by (intro mono(2)) (simp_all add: add_delivery_def)
  next
    fix t x assume "js_get (pch_tasks (add_delivery p C)) t = Some x"
    then show "task_ok cfg past (completed_of (add_delivery p C)) x"
      using ok_task [OF ok, of t x] by (intro mono(3)) (simp_all add: add_delivery_def)
  next
    show "int (js_size (pch_entries (add_delivery p C))) \<le> max 0 (pc_maxPending cfg)"
      using ok_bound [OF ok] by (simp add: add_delivery_def)
  qed
qed

lemma keeps_wait:
  assumes "Deliver call x \<in> past" "completed_of C d = Some c" "same_credential c x"
    "ps_pairingSessionId (cc_session x) = ps_pairingSessionId (cc_session c)"
  shows "keeps cfg past C (wait_for_delivery call k d C)"
proof -
  let ?D = "C\<lparr>pch_waiters := pch_waiters C @ [(call, d)]\<rparr>"
  have "waiter_ok past (completed_of C) (call, d)" using assms by (auto simp: waiter_ok_def)
  then have ok: "channels_ok cfg past C \<Longrightarrow> channels_ok cfg past ?D"
    unfolding channels_ok_def completed_frame by auto
  show ?thesis
    unfolding wait_for_delivery_def Let_def
    by (rule keeps_from [OF ok], assumption) (simp add: keeps_same keeps_send_pending split: option.split)
qed

lemma keeps_open_delivery:
  assumes "Deliver call x \<in> past" "deliverable x"
    and e: "\<And>e. js_get (pch_heap C) k = Some e \<Longrightarrow> ps_pairingSessionId (ce_session e) = ps_pairingSessionId (cc_session x)"
  shows "keeps cfg past C (open_delivery cfg clock call x k sid C)"
proof -
  let ?p = "\<lparr>pd_completed = x, pd_sentSocketId = None, pd_acknowledging = False\<rparr>"
  let ?deadline = "(case ps_claimedAt (cc_session x) of None \<Rightarrow> 0 | Some t \<Rightarrow> t) + pc_timeoutMs cfg"
  let ?U = "update_entry k (\<lambda>e. e\<lparr>ce_deadlineMs := ?deadline, ce_timer := clock 2 \<noteq> None\<rparr>) C"
  let ?D = "update_entry k (\<lambda>e. e\<lparr>ce_delivery := Some (pch_next ?U)\<rparr>) (add_delivery ?p ?U)"
  have U: "channels_ok cfg past C \<Longrightarrow> channels_ok cfg past ?U"
    by (rule update_entry_keeps) (simp_all add: channel_entry_ok_def)
  have D: "channels_ok cfg past ?D" if "channels_ok cfg past C"
  proof (rule update_entry_keeps [OF add_delivery_keeps [OF U [OF that]]])
    fix e assume "js_get (pch_heap (add_delivery ?p ?U)) k = Some e"
      and ok: "channel_entry_ok cfg past (completed_of (add_delivery ?p ?U)) e"
    then have "ps_pairingSessionId (ce_session e) = ps_pairingSessionId (cc_session x)"
      using assms(3) by (auto simp: add_delivery_def update_entry_get)
    moreover have "delivered past x" using assms by (auto simp: delivered_def)
    ultimately show "channel_entry_ok cfg past (completed_of (add_delivery ?p ?U)) (e\<lparr>ce_delivery := Some (pch_next ?U)\<rparr>)"
      using ok by (simp add: channel_entry_ok_def Let_def add_delivery_completed)
  qed simp
  have "keeps cfg past ?D (wait_for_delivery call k (pch_next ?U) ?D)"
    by (rule keeps_wait [where c = x]) (simp_all add: assms(1) add_delivery_completed same_credential_def)
  then have "keeps cfg past C (wait_for_delivery call k (pch_next ?U) ?D)" by (rule keeps_from [rotated]) (rule D)
  then show ?thesis
    using U unfolding open_delivery_def Let_def
    by (auto intro!: keeps_same keeps_and_then keeps_expire keepsI split: option.split)
qed

lemma keeps_deliver_to:
  assumes "Deliver call x \<in> past" "deliverable x"
  shows "keeps cfg past C (deliver_to cfg clock call x k C)"
proof -
  have "keeps cfg past C (wait_for_delivery call k d C)"
    if "js_get (pch_heap C) k = Some e" "ps_pairingSessionId (ce_session e) = ps_pairingSessionId (cc_session x)"
      "ce_delivery e = Some d" "js_get (pch_deliveries C) d = Some p" "same_credential (pd_completed p) x" for e d p
  proof (cases "channels_ok cfg past C")
    case True
    then show ?thesis
      using ok_entry [OF True that(1)] that assms
      by (intro keeps_wait [where c = "pd_completed p"]) (auto simp: channel_entry_ok_def Let_def completed_of_def)
  qed (simp add: keeps_def)
  then show ?thesis
    unfolding deliver_to_def
    by (auto intro!: keeps_same keeps_open_delivery assms split: option.split)
qed

lemma keeps_deliver:
  assumes "Deliver call x \<in> past"
  shows "keeps cfg past C (deliver_channel cfg clock call x C)"
  unfolding deliver_channel_def
  by (auto dest: keeps_live_entry intro!: keeps_same keeps_and_then keeps_deliver_to assms split: option.split prod.split)

subsection \<open>Acknowledging\<close>

lemma keeps_acknowledge_entry:
  assumes "Acknowledge call socket sid deviceId credentialId version \<in> past"
  shows "keeps cfg past C (acknowledge_entry call socket deviceId credentialId version k C)"
proof -
  have "task_ok cfg past (completed_of C) (AckAsked call k d socket)"
    if "channels_ok cfg past C" "js_get (pch_heap C) k = Some e" "ce_delivery e = Some d" "js_get (pch_deliveries C) d = Some p"
      "acknowledgeable p e socket deviceId credentialId version" for e d p
    using ok_entry [OF that(1,2)] that(2-5) assms
    by (auto simp: channel_entry_ok_def Let_def completed_of_def acknowledgeable_def acknowledged_def)
  then have "channels_ok cfg past (start_task (AckAsked call k d socket) (update_delivery d (\<lambda>p. p\<lparr>pd_acknowledging := True\<rparr>) C))"
    if "channels_ok cfg past C" "js_get (pch_heap C) k = Some e" "ce_delivery e = Some d" "js_get (pch_deliveries C) d = Some p"
      "acknowledgeable p e socket deviceId credentialId version" for e d p
    using that by (intro start_task_keeps update_delivery_keeps) (simp_all add: update_delivery_completed)
  then show ?thesis
    unfolding acknowledge_entry_def
    by (auto intro!: keeps_refuse keepsI split: option.split simp: bind_eq_Some_conv split: if_splits)
qed

lemma keeps_acknowledge:
  assumes "Acknowledge call socket sid deviceId credentialId version \<in> past"
  shows "keeps cfg past C (acknowledge_channel cfg clock call socket sid deviceId credentialId version C)"
  unfolding acknowledge_channel_def
  by (auto dest: keeps_live_entry intro!: keeps_refuse keeps_and_then keeps_acknowledge_entry [OF assms] split: option.split prod.split)

lemma keeps_ack_asked:
  assumes "task_ok cfg past (completed_of C) (AckAsked call k d socket)"
  shows "keeps cfg past C (ack_asked cfg call k d socket ok C)"
proof (cases ok)
  case False
  have "keeps cfg past C (reject_waiters d PairingUnavailable (update_delivery d (\<lambda>p. p\<lparr>pd_acknowledging := False\<rparr>) C))"
    by (rule keeps_from [OF _ keeps_reject_waiters]) (auto intro: update_delivery_keeps)
  with False show ?thesis by (auto simp: ack_asked_def intro!: keeps_and_then keeps_refuse)
next
  case True
  let ?f = "\<lambda>D. (start_task (CloseSent call socket) D,
       map (\<lambda>c. Settle c (Inr ())) (delivery_waiters d C) @ [SendFrame socket (PairingClose CloseNormal)])"
  show ?thesis
  proof (cases "channels_ok cfg past C")
    case ok: True
    have "list_all (output_ok cfg past) (map (\<lambda>c. Settle c (Inr ())) (delivery_waiters d C))"
      using ok_waiter [OF ok] assms by (fastforce simp: list_all_iff delivery_waiters_def waiter_ok_def)
    then have "keeps cfg past D (?f D)" for D
      by (intro keepsI start_task_keeps) simp_all
    then have "keeps cfg past (clear_waiters d C) (and_then (remove_entry cfg k True (clear_waiters d C)) ?f)"
      by (rule keeps_and_then [OF keeps_remove_entry])
    moreover have "channels_ok cfg past (clear_waiters d C)"
      unfolding clear_waiters_def by (rule fewer_waiters_keeps [OF ok]) auto
    ultimately show ?thesis using True by (simp add: ack_asked_def Let_def keeps_from)
  qed (simp add: keeps_def)
qed

section \<open>Every run keeps the invariant\<close>

lemma keeps_resume:
  assumes ok: "task_ok cfg past (completed_of C) t"
  shows "keeps cfg past C (resume_task cfg clock t r C)"
proof (cases t)
  case (AckAsked call k d socket)
  then show ?thesis using keeps_ack_asked ok by (simp add: resume_task_def)
qed (use ok in \<open>auto simp: resume_task_def close_sent_def
    intro!: keeps_register_digested keeps_attach_digested keeps_attached_sent keeps_attach_done keeps_credential_sent
      keeps_cancel_asked keeps_closing keeps_same\<close>)

lemma keeps_expiry: "keeps cfg past C (expiry_fires cfg k C)"
proof -
  have "channels_ok cfg past C \<Longrightarrow> channels_ok cfg past (update_entry k (\<lambda>e. e\<lparr>ce_timer := False\<rparr>) C)"
    by (rule update_entry_keeps) (simp_all add: channel_entry_ok_def)
  then have "keeps cfg past C (expire cfg sid (update_entry k (\<lambda>e. e\<lparr>ce_timer := False\<rparr>) C))" for sid
    by (rule keeps_from [OF _ keeps_expire])
  then show ?thesis unfolding expiry_fires_def by (auto intro!: keeps_same split: option.split)
qed

lemma keeps_step:
  assumes "snd ev \<in> past"
  shows "keeps cfg past C (channel_step cfg C ev)"
proof -
  obtain clock event where ev: "ev = (clock, event)" by (cases ev)
  note past = assms [unfolded ev snd_conv]
  show ?thesis
  proof (cases event)
    case (Resume t r)
    have "keeps cfg past C (resume_task cfg clock x r (C\<lparr>pch_tasks := js_delete t (pch_tasks C)\<rparr>))"
      if "js_get (pch_tasks C) t = Some x" for x
    proof (cases "channels_ok cfg past C")
      case True
      then show ?thesis
        using ok_task [OF True that] keeps_resume [of cfg past "C\<lparr>pch_tasks := js_delete t (pch_tasks C)\<rparr>" x clock r]
          fewer_tasks_keeps [OF True, of t] by (simp add: keeps_def)
    qed (simp add: keeps_def)
    then show ?thesis by (auto simp: ev channel_step_def Resume intro!: keeps_same split: option.split)
  next
    case (ClientError call socket)
    then show ?thesis
      by (auto simp: ev channel_step_def report_client_error_def
          intro!: keeps_refuse keeps_and_then keeps_reject_waiters keeps_same split: option.split)
  next
    case (WaiterFires call d)
    have "set (remove1 (call, d) ws) \<subseteq> set ws" for ws by (rule set_remove1_subset)
    then show ?thesis
      by (auto simp: WaiterFires ev channel_step_def waiter_fires_def intro!: keeps_same keepsI fewer_waiters_keeps)
  qed (use past in \<open>simp_all add: ev channel_step_def keeps_register keeps_attach keeps_detach keeps_cancel
      keeps_deliver keeps_acknowledge keeps_close keeps_expiry\<close>)
qed

lemma channels_run_keeps:
  "channels_ok cfg past C \<Longrightarrow> channels_ok cfg (past \<union> set (map snd es)) (fst (channel_run cfg C es))"
proof (induction es arbitrary: C past)
  case (Cons e es)
  have "channels_ok cfg (insert (snd e) past) C" by (rule channels_ok_mono [OF _ Cons.prems]) blast
  then have "channels_ok cfg (insert (snd e) past) (fst (channel_step cfg C e))"
    using keeps_step [of e "insert (snd e) past" cfg C] by (simp add: keeps_def)
  then show ?case using Cons.IH by (fastforce simp: and_then_def after_def)
qed simp

lemma new_channels_ok: "channels_ok cfg past new_pairing_channels"
  by (rule channels_okI) (simp_all add: new_pairing_channels_def completed_of_def)

lemma run_ok: "channels_ok cfg (set (map snd es)) (fst (channel_run cfg new_pairing_channels es))"
  using channels_run_keeps [OF new_channels_ok [of cfg "{}"]] by simp

lemma step_after_run:
  assumes "x \<in> set (snd (channel_step cfg (fst (channel_run cfg new_pairing_channels es)) e))"
  shows "output_ok cfg (set (map snd (es @ [e]))) x"
proof -
  let ?C = "fst (channel_run cfg new_pairing_channels es)"
  have "channels_ok cfg (set (map snd (es @ [e]))) ?C" by (rule channels_ok_mono [OF _ run_ok]) auto
  then show ?thesis
    using keeps_step [of e "set (map snd (es @ [e]))" cfg ?C] assms by (auto simp: keeps_def list_all_iff)
qed

section \<open>Properties\<close>

text \<open>C5: A secret goes only to who proved to be the machine that is being paired. Whenever a step
  sends a credential frame for a session over a socket, that socket attached, in this run, with a
  proof whose digest is the one the still pending session was registered with, and the frame is that
  of a credential this run was given to deliver, for a session that was claimed before it expired by
  the very device the credential is for.\<close>

theorem credential_sent_to_prover:
  assumes "SendFrame socket (PairingCredential sid deviceId credentialId version secret) \<in>
    set (snd (channel_step cfg (fst (channel_run cfg new_pairing_channels es)) e))"
  shows "authorised cfg (set (map snd (es @ [e]))) sid socket \<and>
    (\<exists>c. delivered (set (map snd (es @ [e]))) c \<and>
       PairingCredential sid deviceId credentialId version secret = credential_frame c)"
  using step_after_run [OF assms] by simp

text \<open>C6: A delivery succeeds only after the machine has acknowledged it. When a step resolves the
  promise of a call of \<^verbatim>\<open>deliver\<close>, the call was made in this run, and a socket that proved itself for the
  session has acknowledged a delivery of the same credential, with its device, id and version.\<close>

theorem delivery_success_acknowledged:
  assumes "Settle call (Inr ()) \<in> set (snd (channel_step cfg (fst (channel_run cfg new_pairing_channels es)) e))"
  shows "\<exists>c x. Deliver call x \<in> set (map snd (es @ [e])) \<and> same_credential c x \<and>
    ps_pairingSessionId (cc_session x) = ps_pairingSessionId (cc_session c) \<and>
    acknowledged cfg (set (map snd (es @ [e]))) c"
  using step_after_run [OF assms] by simp

text \<open>C8: There are never more channels than the configured maximum, in any run of any calls, timers and
  continuations: registrations whose digests are computed at the same time do not slip past the
  check.\<close>

theorem channels_bounded:
  "int (js_size (pch_entries (fst (channel_run cfg new_pairing_channels es)))) \<le> max 0 (pc_maxPending cfg)"
  by (rule ok_bound [OF run_ok])

section \<open>Witnesses\<close>

definition sample_channel_session :: pairing_session where
  "sample_channel_session = \<lparr>ps_pairingSessionId = example_credential_id CHR ''c'', ps_state = Pending, ps_createdAt = 1,
     ps_expiresAt = 9, ps_localCorrelationId = None, ps_claimedAt = None, ps_deviceId = None\<rparr>"

definition sample_delivery :: completed_credential where
  "sample_delivery = \<lparr>cc_session = sample_channel_session\<lparr>ps_state := Claimed, ps_claimedAt := Some 5,
       ps_deviceId := Some example_device_id\<rparr>,
     cc_device = sample_paired,
     cc_credential = device_credential.make (example_credential_id CHR ''a'') 1 example_device_id
       Active 5 None,
     cc_secret = ''secret''\<rparr>"

definition sample_channel_config :: channel_config where
  "sample_channel_config = \<lparr>pc_sha256 = example_sha256, pc_toISOString = (\<lambda>_. ''1970-01-01T00:00:00.009Z''),
     pc_cancels = True, pc_forgets = True, pc_maxPending = 2, pc_timeoutMs = 30\<rparr>"

definition sample_proof :: string where "sample_proof = replicate 43 CHR ''A''"

definition sample_socket :: channel_socket where "sample_socket = \<lparr>cs_ref = 0, cs_id = ''socket-1''\<rparr>"

definition at_time :: "int \<Rightarrow> channel_event \<Rightarrow> (nat \<Rightarrow> js_date) \<times> channel_event" where
  "at_time t e = ((\<lambda>_. Some t), e)"

text \<open>The machine registers and attaches before its code is claimed.\<close>

definition sample_attach :: "((nat \<Rightarrow> js_date) \<times> channel_event) list" where
  "sample_attach =
     [at_time 2 (Register 0 sample_channel_session sample_proof), at_time 2 (Resume 0 True),
      at_time 3 (Attach 1 (example_credential_id CHR ''c'') sample_proof sample_socket), at_time 3 (Resume 2 True),
      at_time 3 (Resume 3 True)]"

lemma sample_schemas:
  "pairing_session_id_schema (example_credential_id CHR ''c'') = Some (example_credential_id CHR ''c'')"
  "pairing_channel_proof_schema sample_proof = Some sample_proof"
  by code_simp+

lemma hex_equal_refl: "sha256_like (pc_sha256 cfg) \<Longrightarrow> constant_time_hex_equal (digest_proof cfg p) (digest_proof cfg p)"
  by (simp add: constant_time_hex_equal_def digest_proof_def sha256_like_def xor_difference_zero)

definition sample_attached_entry :: channel_entry where
  "sample_attached_entry = (new_entry sample_channel_config sample_channel_session
     (digest_proof sample_channel_config sample_proof))\<lparr>ce_socket := Some sample_socket\<rparr>"

definition sample_attached :: pairing_channels where
  "sample_attached = \<lparr>pch_entries = [(example_credential_id CHR ''c'', 1)], pch_heap = [(1, sample_attached_entry)],
     pch_deliveries = [], pch_waiters = [], pch_tasks = [], pch_next = 4, pch_closed = False\<rparr>"

lemma sample_channel_parts:
  "sha256_like (pc_sha256 sample_channel_config)" "pc_maxPending sample_channel_config = 2"
  "pc_timeoutMs sample_channel_config = 30"
  by (simp_all add: sample_channel_config_def example_sha256_like)

lemmas channel_run_defs = after_def and_then_def channel_step_def at_time_def start_task_def update_entry_def
  update_delivery_def live_entry_def resume_task_def

lemma sample_attach_run: "fst (channel_run sample_channel_config new_pairing_channels sample_attach) = sample_attached"
  using hex_equal_refl [OF sample_channel_parts(1), of sample_proof] sample_schemas sample_channel_parts
  by (simp add: sample_attach_def new_pairing_channels_def sample_channel_session_def sample_attached_def
      sample_attached_entry_def new_entry_def channel_run_defs register_channel_def register_digested_def
      prune_channels_def add_entry_def store_entry_def attach_channel_def attach_entry_def attach_digested_def
      attached_sent_def send_pending_delivery_def attach_done_def)

definition sample_sending :: pairing_channels where
  "sample_sending = sample_attached\<lparr>pch_heap := [(1, sample_attached_entry\<lparr>ce_deadlineMs := 35, ce_delivery := Some 4\<rparr>)],
     pch_deliveries := [(4, \<lparr>pd_completed = sample_delivery, pd_sentSocketId = Some ''socket-1'', pd_acknowledging = False\<rparr>)],
     pch_waiters := [(4, 4)], pch_tasks := [(5, CredentialSent None 1 4 sample_socket)], pch_next := 6\<rparr>"

lemma sample_deliverable: "deliverable sample_delivery"
  by (simp add: deliverable_def sample_delivery_def sample_channel_session_def sample_paired_def)

lemma sample_deliver_step:
  "channel_step sample_channel_config sample_attached (at_time 6 (Deliver 4 sample_delivery)) =
     (sample_sending, [SendFrame sample_socket (credential_frame sample_delivery)])"
proof -
  have ids: "ps_pairingSessionId (cc_session sample_delivery) = example_credential_id CHR ''c''"
    "ps_claimedAt (cc_session sample_delivery) = Some 5"
    by (simp_all add: sample_delivery_def sample_channel_session_def)
  show ?thesis
    using sample_deliverable sample_schemas sample_channel_parts ids
    by (simp add: sample_attached_def sample_sending_def sample_attached_entry_def sample_channel_session_def
        new_entry_def channel_run_defs deliver_channel_def deliver_to_def open_delivery_def add_delivery_def
        wait_for_delivery_def send_pending_delivery_def sample_socket_def)
qed

lemma credential_sent_to_prover_witness:
  "\<exists>c. authorised sample_channel_config (set (map snd (sample_attach @ [at_time 6 (Deliver 4 sample_delivery)])))
       (example_credential_id CHR ''c'') sample_socket \<and>
     delivered (set (map snd (sample_attach @ [at_time 6 (Deliver 4 sample_delivery)]))) c \<and>
     credential_frame sample_delivery = credential_frame c"
proof -
  have "SendFrame sample_socket (credential_frame sample_delivery) \<in> set (snd (channel_step sample_channel_config
      (fst (channel_run sample_channel_config new_pairing_channels sample_attach)) (at_time 6 (Deliver 4 sample_delivery))))"
    unfolding sample_attach_run sample_deliver_step by simp
  from credential_sent_to_prover [OF this [unfolded credential_frame_def]] show ?thesis
    by (auto simp: credential_frame_def sample_delivery_def sample_channel_session_def)
qed

text \<open>The socket acknowledges and the completion service accepts.\<close>

definition sample_acknowledge :: "((nat \<Rightarrow> js_date) \<times> channel_event) list" where
  "sample_acknowledge = sample_attach @ [at_time 6 (Deliver 4 sample_delivery),
     at_time 7 (Acknowledge 5 sample_socket (example_credential_id CHR ''c'') example_device_id (example_credential_id CHR ''a'') 1)]"

lemma channel_run_append:
  "fst (channel_run cfg C (es @ fs)) = fst (channel_run cfg (fst (channel_run cfg C es)) fs)"
  by (induction es arbitrary: C) (simp_all add: and_then_def after_def)

lemma sample_resolves:
  "Settle 4 (Inr ()) \<in> set (snd (channel_step sample_channel_config
     (fst (channel_run sample_channel_config new_pairing_channels sample_acknowledge)) (at_time 7 (Resume 6 True))))"
proof -
  have ids: "dev_deviceId (cc_device sample_delivery) = example_device_id"
    "device_credential.cred_credentialId (cc_credential sample_delivery) = example_credential_id CHR ''a''"
    "device_credential.cred_version (cc_credential sample_delivery) = 1"
    by (simp_all add: sample_delivery_def sample_paired_def device_credential.make_def)
  show ?thesis
    using sample_schemas sample_channel_parts ids
    by (simp add: sample_acknowledge_def channel_run_append sample_attach_run sample_deliver_step and_then_def after_def)
      (simp add: sample_sending_def sample_attached_def sample_attached_entry_def sample_channel_session_def
        new_entry_def channel_run_defs acknowledge_channel_def acknowledge_entry_def acknowledgeable_def
        ack_asked_def remove_entry_def reject_entry_def reject_waiters_def clear_waiters_def delivery_waiters_def)
qed

lemma delivery_success_acknowledged_witness:
  "\<exists>c. same_credential c sample_delivery \<and>
     acknowledged sample_channel_config (set (map snd (sample_acknowledge @ [at_time 7 (Resume 6 True)]))) c"
  using delivery_success_acknowledged [OF sample_resolves]
  by (auto simp: sample_acknowledge_def sample_attach_def at_time_def)

end
