(* ===== verification/Bridge_Reconnect.thy ===== *)
theory Bridge_Reconnect
  imports Bridge_Protocol
begin

text \<open>
  The agent's controller that keeps the bridge to the server up
  (\<^verbatim>\<open>apps/agent/src/local-bridge-reconnect.ts\<close>): the delay before a retry, and the state machine of
  attempts, failures and backoff. Start, stop, the answers of what is awaited, the callbacks of the
  transport and the timers are events. A timer that was cleared may still fire here, as the code
  guards against it. Numbers are exact: the rounding of floating point is not modelled.
\<close>

section \<open>Failures\<close>

datatype transport_error_code = BridgeFailed bridge_error_code | InvalidTransportState | SocketError

fun transport_error_name :: "transport_error_code \<Rightarrow> string" where
  "transport_error_name (BridgeFailed c) = bridge_error_name c"
| "transport_error_name InvalidTransportState = ''INVALID_STATE''"
| "transport_error_name SocketError = ''SOCKET_ERROR''"

datatype provider_error_code = InvalidCredentialRecord | CredentialStorageInvalid | CredentialStorageFailed

fun provider_error_name :: "provider_error_code \<Rightarrow> string" where
  "provider_error_name InvalidCredentialRecord = ''INVALID_CREDENTIAL_RECORD''"
| "provider_error_name CredentialStorageInvalid = ''CREDENTIAL_STORAGE_INVALID''"
| "provider_error_name CredentialStorageFailed = ''CREDENTIAL_STORAGE_FAILED''"

text \<open>What may be thrown: an error of the transport, of the credential provider, or anything else.\<close>

datatype bridge_failure = TransportThrew transport_error_code | ProviderThrew provider_error_code | OtherThrew

datatype failure_disposition = RetryFailure | AuthFailure | ProtocolFailure

fun classifyBridgeFailure :: "bridge_failure \<Rightarrow> failure_disposition" where
  "classifyBridgeFailure (TransportThrew (BridgeFailed c)) =
     (case c of
        AuthFailed \<Rightarrow> AuthFailure
      | AuthRequired \<Rightarrow> AuthFailure
      | SessionClosed \<Rightarrow> RetryFailure
      | BridgeTimeout \<Rightarrow> RetryFailure
      | InvalidMessage \<Rightarrow> ProtocolFailure
      | MessageTooLarge \<Rightarrow> ProtocolFailure
      | UnsupportedVersion \<Rightarrow> ProtocolFailure
      | HandshakeRequired \<Rightarrow> ProtocolFailure
      | UnexpectedMessage \<Rightarrow> ProtocolFailure
      | Backpressure \<Rightarrow> ProtocolFailure)"
| "classifyBridgeFailure (TransportThrew SocketError) = RetryFailure"
| "classifyBridgeFailure (TransportThrew InvalidTransportState) = ProtocolFailure"
| "classifyBridgeFailure _ = RetryFailure"

fun failure_code :: "bridge_failure \<Rightarrow> string" where
  "failure_code (TransportThrew c) = transport_error_name c"
| "failure_code (ProviderThrew c) = provider_error_name c"
| "failure_code OtherThrew = ''UNKNOWN''"

definition failure_for_unexpected_close :: bridge_failure where
  "failure_for_unexpected_close = TransportThrew (BridgeFailed SessionClosed)"

section \<open>Delays\<close>

record 'n backoff_policy =
  bp_minDelayMs :: 'n
  bp_maxDelayMs :: 'n
  bp_factor :: 'n
  bp_jitterRatio :: 'n
  bp_stableReadyMs :: 'n

definition default_backoff_policy :: "js_number backoff_policy" where
  "default_backoff_policy =
     \<lparr>bp_minDelayMs = js_int 500, bp_maxDelayMs = js_int 30000, bp_factor = js_int 2,
      bp_jitterRatio = JsNum (1 / 5), bp_stableReadyMs = js_int 30000\<rparr>"

definition validate_backoff_policy :: "js_number backoff_policy \<Rightarrow> rat backoff_policy option" where
  "validate_backoff_policy p =
     (case (bp_minDelayMs p, bp_maxDelayMs p, bp_factor p, bp_jitterRatio p, bp_stableReadyMs p) of
        (JsNum least, JsNum most, JsNum f, JsNum j, JsNum settled) \<Rightarrow>
          if least \<le> 0 \<or> most < least \<or> f < 1 \<or> j < 0 \<or> j > 1 \<or> settled < 0 then None
          else Some \<lparr>bp_minDelayMs = least, bp_maxDelayMs = most, bp_factor = f, bp_jitterRatio = j,
                     bp_stableReadyMs = settled\<rparr>
      | _ \<Rightarrow> None)"

definition normalized_random :: "js_number \<Rightarrow> rat" where
  "normalized_random r = (case r of JsNum x \<Rightarrow> min 1 (max 0 x) | _ \<Rightarrow> 1 / 2)"

definition backoff_base :: "rat backoff_policy \<Rightarrow> nat \<Rightarrow> rat" where
  "backoff_base p n = min (bp_maxDelayMs p) (bp_minDelayMs p * bp_factor p ^ (n - 1))"

text \<open>\<^verbatim>\<open>Math.round\<close> rounds halves up.\<close>

definition js_round :: "rat \<Rightarrow> rat" where
  "js_round x = of_int \<lfloor>x + 1 / 2\<rfloor>"

definition backoff_delay :: "nat \<Rightarrow> rat backoff_policy \<Rightarrow> js_number \<Rightarrow> rat" where
  "backoff_delay n p random =
     (let multiplier = 1 + (normalized_random random * 2 - 1) * bp_jitterRatio p in
      min (bp_maxDelayMs p) (max (bp_minDelayMs p) (js_round (backoff_base p n * multiplier))))"

definition calculateReconnectDelay :: "js_number \<Rightarrow> js_number backoff_policy \<Rightarrow> js_number \<Rightarrow> rat option" where
  "calculateReconnectDelay n policy random =
     Option.bind (validate_backoff_policy policy) (\<lambda>p.
       if \<not> js_is_integer n \<or> js_le_zero n then None else Some (backoff_delay (nat (js_to_int n)) p random))"

section \<open>The controller\<close>

datatype reconnect_state =
  ReconnectIdle | ReconnectConnecting | ReconnectReady | ReconnectBackoff | ReconnectPairingRequired
| ReconnectAuthFailed | ReconnectProtocolFailed | ReconnectCredentialFailed | ReconnectStopped

record local_credential =
  lc_deviceId :: string
  lc_credential :: string

record bridge_attempt =
  ba_lifecycle :: nat
  ba_generation :: nat
  ba_failure :: "bridge_failure option"
  ba_finalized :: bool

text \<open>
  What is awaited: the credential, by the attempt of a lifecycle; \<^verbatim>\<open>connect\<close> of an attempt; the closing
  of a failed attempt's transport; the clean-up of a stop. Timers carry what their callbacks captured.
\<close>

datatype reconnect_task =
  LoadingCredential nat | ConnectingAttempt nat | ClosingFailed nat bridge_failure | StopCleanup

datatype reconnect_timer = BackoffTimer nat | StableTimer nat

record reconnect =
  rc_state :: reconnect_state
  rc_lifecycle :: nat
  rc_attempt :: nat
  rc_failures :: nat
  rc_lastFailureCode :: "string option"
  rc_retryDelayMs :: "rat option"
  rc_deviceId :: "string option"
  rc_current :: "nat option"
  rc_backoffTimer :: "nat option"
  rc_stableTimer :: "nat option"
  rc_stopping :: "nat option"
  rc_attempts :: "(nat, bridge_attempt) js_map"
  rc_tasks :: "(nat, reconnect_task) js_map"
  rc_timers :: "(nat, reconnect_timer) js_map"
  rc_next :: nat

definition new_reconnect :: reconnect where
  "new_reconnect =
     \<lparr>rc_state = ReconnectIdle, rc_lifecycle = 0, rc_attempt = 0, rc_failures = 0, rc_lastFailureCode = None,
      rc_retryDelayMs = None, rc_deviceId = None, rc_current = None, rc_backoffTimer = None, rc_stableTimer = None,
      rc_stopping = None, rc_attempts = [], rc_tasks = [], rc_timers = [], rc_next = 0\<rparr>"

datatype reconnect_output =
  LoadCredential
| OpenTransport nat local_credential
| CloseTransport nat
| SetTimer nat rat
| ClearTimer nat

text \<open>
  The answer to the load of the credential comes with what the factory throws, if it does. The
  callbacks of a transport name its attempt.
\<close>

datatype reconnect_event =
  StartController
| StopController
| CredentialLoaded nat "(bridge_failure, local_credential option) result" "bridge_failure option"
| ConnectSettled nat "bridge_failure option"
| FailedClosed nat
| StopCleaned nat
| TransportErrored nat bridge_failure
| TransportClosed nat
| TimerFires nat

type_synonym reconnect_step = "reconnect \<times> reconnect_output list"

definition prepend :: "reconnect_output list \<Rightarrow> reconnect_step \<Rightarrow> reconnect_step" where
  "prepend outs p = (fst p, outs @ snd p)"

definition followed :: "reconnect_step \<Rightarrow> (reconnect \<Rightarrow> reconnect_step) \<Rightarrow> reconnect_step" where
  "followed p f = prepend (snd p) (f (fst p))"

definition add_task :: "reconnect_task \<Rightarrow> reconnect \<Rightarrow> reconnect" where
  "add_task t C = C\<lparr>rc_tasks := js_set (rc_next C) t (rc_tasks C), rc_next := Suc (rc_next C)\<rparr>"

definition is_current_lifecycle :: "nat \<Rightarrow> reconnect \<Rightarrow> bool" where
  "is_current_lifecycle l C \<longleftrightarrow> l = rc_lifecycle C"

definition is_current_attempt :: "nat \<Rightarrow> reconnect \<Rightarrow> bool" where
  "is_current_attempt a C \<longleftrightarrow>
     (case js_get (rc_attempts C) a of
        None \<Rightarrow> False
      | Some b \<Rightarrow> \<not> ba_finalized b \<and> ba_lifecycle b = rc_lifecycle C \<and> rc_current C = Some a)"

definition update_attempt :: "nat \<Rightarrow> (bridge_attempt \<Rightarrow> bridge_attempt) \<Rightarrow> reconnect \<Rightarrow> reconnect" where
  "update_attempt a f C =
     (case js_get (rc_attempts C) a of
        None \<Rightarrow> C | Some b \<Rightarrow> C\<lparr>rc_attempts := js_set a (f b) (rc_attempts C)\<rparr>)"

definition clear_backoff_timer :: "reconnect \<Rightarrow> reconnect_step" where
  "clear_backoff_timer C =
     (case rc_backoffTimer C of None \<Rightarrow> (C, []) | Some h \<Rightarrow> (C\<lparr>rc_backoffTimer := None\<rparr>, [ClearTimer h]))"

definition clear_stable_timer :: "reconnect \<Rightarrow> reconnect_step" where
  "clear_stable_timer C =
     (case rc_stableTimer C of None \<Rightarrow> (C, []) | Some h \<Rightarrow> (C\<lparr>rc_stableTimer := None\<rparr>, [ClearTimer h]))"

definition start_attempt :: "nat \<Rightarrow> reconnect \<Rightarrow> reconnect_step" where
  "start_attempt l C =
     (if \<not> is_current_lifecycle l C then (C, [])
      else (add_task (LoadingCredential l) (C\<lparr>rc_retryDelayMs := None, rc_state := ReconnectConnecting\<rparr>),
            [LoadCredential]))"

definition start_controller :: "reconnect \<Rightarrow> reconnect_step" where
  "start_controller C =
     (if rc_stopping C \<noteq> None \<or> rc_state C \<in> {ReconnectConnecting, ReconnectReady, ReconnectBackoff} then (C, [])
      else
        followed (clear_backoff_timer C) (\<lambda>C.
        followed (clear_stable_timer C) (\<lambda>C.
          start_attempt (Suc (rc_lifecycle C))
            (C\<lparr>rc_lifecycle := Suc (rc_lifecycle C), rc_attempt := 0, rc_failures := 0, rc_lastFailureCode := None,
               rc_retryDelayMs := None, rc_deviceId := None\<rparr>))))"

text \<open>\<^verbatim>\<open>stop\<close> waits for the transport of the attempt it ends, or for nothing.\<close>

definition stop_controller :: "reconnect \<Rightarrow> reconnect_step" where
  "stop_controller C =
     (if rc_stopping C \<noteq> None \<or> rc_state C = ReconnectStopped then (C, [])
      else
        followed (clear_backoff_timer (C\<lparr>rc_lifecycle := Suc (rc_lifecycle C)\<rparr>)) (\<lambda>C.
        followed (clear_stable_timer C) (\<lambda>C.
          let attempt = rc_current C;
              C = C\<lparr>rc_retryDelayMs := None, rc_current := None, rc_state := ReconnectStopped\<rparr> in
          case attempt of
            None \<Rightarrow> ((add_task StopCleanup C)\<lparr>rc_stopping := Some (rc_next C)\<rparr>, [])
          | Some a \<Rightarrow>
              ((add_task StopCleanup (update_attempt a (\<lambda>b. b\<lparr>ba_finalized := True\<rparr>) C))\<lparr>rc_stopping := Some (rc_next C)\<rparr>,
               [CloseTransport a]))))"

definition schedule_backoff :: "nat \<Rightarrow> rat \<Rightarrow> reconnect \<Rightarrow> reconnect_step" where
  "schedule_backoff l delay C =
     followed (clear_backoff_timer C) (\<lambda>C.
       (C\<lparr>rc_timers := js_set (rc_next C) (BackoffTimer l) (rc_timers C), rc_backoffTimer := Some (rc_next C),
          rc_next := Suc (rc_next C)\<rparr>, [SetTimer (rc_next C) delay]))"

definition transition_after_failure ::
  "rat backoff_policy \<Rightarrow> js_number \<Rightarrow> nat \<Rightarrow> bridge_failure \<Rightarrow> reconnect \<Rightarrow> reconnect_step" where
  "transition_after_failure p random l e C =
     (if \<not> is_current_lifecycle l C then (C, [])
      else
        let C = C\<lparr>rc_lastFailureCode := Some (failure_code e), rc_retryDelayMs := None\<rparr> in
        (case classifyBridgeFailure e of
           AuthFailure \<Rightarrow> (C\<lparr>rc_state := ReconnectAuthFailed\<rparr>, [])
         | ProtocolFailure \<Rightarrow> (C\<lparr>rc_state := ReconnectProtocolFailed\<rparr>, [])
         | RetryFailure \<Rightarrow>
             let failures = Suc (rc_failures C); delay = backoff_delay failures p random in
             schedule_backoff l delay
               (C\<lparr>rc_failures := failures, rc_retryDelayMs := Some delay, rc_state := ReconnectBackoff\<rparr>)))"

definition finalize_attempt ::
  "rat backoff_policy \<Rightarrow> js_number \<Rightarrow> nat \<Rightarrow> bridge_failure \<Rightarrow> bool \<Rightarrow> reconnect \<Rightarrow> reconnect_step" where
  "finalize_attempt p random a e alreadyClosed C =
     (if \<not> is_current_attempt a C then (C, [])
      else
        followed (clear_stable_timer (update_attempt a (\<lambda>b. b\<lparr>ba_finalized := True\<rparr>) (C\<lparr>rc_current := None\<rparr>))) (\<lambda>C.
          if alreadyClosed then transition_after_failure p random (rc_lifecycle C) e C
          else (add_task (ClosingFailed a e) C, [CloseTransport a])))"

definition attempt_lifecycle :: "nat \<Rightarrow> reconnect \<Rightarrow> nat" where
  "attempt_lifecycle a C = (case js_get (rc_attempts C) a of None \<Rightarrow> 0 | Some b \<Rightarrow> ba_lifecycle b)"

definition attempt_failure :: "nat \<Rightarrow> reconnect \<Rightarrow> bridge_failure option" where
  "attempt_failure a C = (case js_get (rc_attempts C) a of None \<Rightarrow> None | Some b \<Rightarrow> ba_failure b)"

text \<open>The continuation of \<^verbatim>\<open>#startAttempt\<close> after the credential, up to \<^verbatim>\<open>connect\<close>.\<close>

definition credential_loaded ::
  "rat backoff_policy \<Rightarrow> js_number \<Rightarrow> nat \<Rightarrow> (bridge_failure, local_credential option) result
   \<Rightarrow> bridge_failure option \<Rightarrow> reconnect \<Rightarrow> reconnect_step" where
  "credential_loaded p random l loaded factory C =
     (if \<not> is_current_lifecycle l C then (C, [])
      else
        (case loaded of
           Inl e \<Rightarrow>
             (C\<lparr>rc_lastFailureCode := Some (case e of ProviderThrew c \<Rightarrow> provider_error_name c | _ \<Rightarrow> ''CREDENTIAL_STORAGE_FAILED''),
                rc_state := ReconnectCredentialFailed\<rparr>, [])
         | Inr None \<Rightarrow>
             (C\<lparr>rc_lastFailureCode := Some ''CREDENTIAL_MISSING'', rc_state := ReconnectPairingRequired\<rparr>, [])
         | Inr (Some credential) \<Rightarrow>
             let C = C\<lparr>rc_deviceId := Some (lc_deviceId credential), rc_attempt := Suc (rc_attempt C)\<rparr> in
             (case factory of
                Some e \<Rightarrow> transition_after_failure p random l e C
              | None \<Rightarrow>
                  let a = rc_next C in
                  (add_task (ConnectingAttempt a)
                     (C\<lparr>rc_attempts := js_set a \<lparr>ba_lifecycle = l, ba_generation = rc_attempt C, ba_failure = None,
                          ba_finalized = False\<rparr> (rc_attempts C),
                        rc_current := Some a, rc_next := Suc a\<rparr>),
                   [OpenTransport a credential]))))"

definition reset_failures_if_current :: "nat \<Rightarrow> reconnect \<Rightarrow> reconnect" where
  "reset_failures_if_current a C =
     (if \<not> is_current_attempt a C \<or> rc_state C \<noteq> ReconnectReady then C
      else C\<lparr>rc_failures := 0, rc_lastFailureCode := None\<rparr>)"

definition schedule_stable_ready_reset :: "rat backoff_policy \<Rightarrow> nat \<Rightarrow> reconnect \<Rightarrow> reconnect_step" where
  "schedule_stable_ready_reset p a C =
     followed (clear_stable_timer C) (\<lambda>C.
       if bp_stableReadyMs p = 0 then (reset_failures_if_current a C, [])
       else (C\<lparr>rc_timers := js_set (rc_next C) (StableTimer a) (rc_timers C), rc_stableTimer := Some (rc_next C),
               rc_next := Suc (rc_next C)\<rparr>, [SetTimer (rc_next C) (bp_stableReadyMs p)]))"

definition connect_settled ::
  "rat backoff_policy \<Rightarrow> js_number \<Rightarrow> nat \<Rightarrow> bridge_failure option \<Rightarrow> reconnect \<Rightarrow> reconnect_step" where
  "connect_settled p random a failed C =
     (case failed of
        Some e \<Rightarrow>
          finalize_attempt p random a (case attempt_failure a C of Some f \<Rightarrow> f | None \<Rightarrow> e) False C
      | None \<Rightarrow>
          if \<not> is_current_attempt a C then (C, [])
          else schedule_stable_ready_reset p a
                 (C\<lparr>rc_lastFailureCode := None, rc_retryDelayMs := None, rc_state := ReconnectReady\<rparr>))"

definition transport_errored :: "nat \<Rightarrow> bridge_failure \<Rightarrow> reconnect \<Rightarrow> reconnect" where
  "transport_errored a e C =
     (if \<not> is_current_attempt a C then C else update_attempt a (\<lambda>b. b\<lparr>ba_failure := Some e\<rparr>) C)"

definition transport_closed :: "rat backoff_policy \<Rightarrow> js_number \<Rightarrow> nat \<Rightarrow> reconnect \<Rightarrow> reconnect_step" where
  "transport_closed p random a C =
     (if \<not> is_current_attempt a C then (C, [])
      else finalize_attempt p random a
             (case attempt_failure a C of Some f \<Rightarrow> f | None \<Rightarrow> failure_for_unexpected_close) True C)"

definition timer_fires :: "nat \<Rightarrow> reconnect \<Rightarrow> reconnect_step" where
  "timer_fires h C =
     (case js_get (rc_timers C) h of
        None \<Rightarrow> (C, [])
      | Some (BackoffTimer l) \<Rightarrow>
          if rc_backoffTimer C \<noteq> Some h then (C, [])
          else
            let C = C\<lparr>rc_backoffTimer := None\<rparr> in
            if \<not> is_current_lifecycle l C \<or> rc_state C \<noteq> ReconnectBackoff then (C, []) else start_attempt l C
      | Some (StableTimer a) \<Rightarrow>
          if rc_stableTimer C \<noteq> Some h then (C, [])
          else (reset_failures_if_current a (C\<lparr>rc_stableTimer := None\<rparr>), []))"

text \<open>A step: a continuation runs once and only if it is awaited.\<close>

definition resume_reconnect ::
  "nat \<Rightarrow> (reconnect_task \<Rightarrow> reconnect \<Rightarrow> reconnect_step option) \<Rightarrow> reconnect \<Rightarrow> reconnect_step" where
  "resume_reconnect t f C =
     (case js_get (rc_tasks C) t of
        None \<Rightarrow> (C, [])
      | Some task \<Rightarrow>
          (case f task (C\<lparr>rc_tasks := js_delete t (rc_tasks C)\<rparr>) of None \<Rightarrow> (C, []) | Some p \<Rightarrow> p))"

definition reconnect_step ::
  "rat backoff_policy \<Rightarrow> reconnect \<Rightarrow> js_number \<times> reconnect_event \<Rightarrow> reconnect_step" where
  "reconnect_step p C ev =
     (case ev of (random, event) \<Rightarrow>
      case event of
        StartController \<Rightarrow> start_controller C
      | StopController \<Rightarrow> stop_controller C
      | CredentialLoaded t loaded factory \<Rightarrow>
          resume_reconnect t (\<lambda>task C.
            case task of LoadingCredential l \<Rightarrow> Some (credential_loaded p random l loaded factory C) | _ \<Rightarrow> None) C
      | ConnectSettled t failed \<Rightarrow>
          resume_reconnect t (\<lambda>task C.
            case task of ConnectingAttempt a \<Rightarrow> Some (connect_settled p random a failed C) | _ \<Rightarrow> None) C
      | FailedClosed t \<Rightarrow>
          resume_reconnect t (\<lambda>task C.
            case task of
              ClosingFailed a e \<Rightarrow> Some (transition_after_failure p random (attempt_lifecycle a C) e C) | _ \<Rightarrow> None) C
      | StopCleaned t \<Rightarrow>
          resume_reconnect t (\<lambda>task C.
            case task of
              StopCleanup \<Rightarrow> Some (if rc_stopping C = Some t then C\<lparr>rc_stopping := None\<rparr> else C, []) | _ \<Rightarrow> None) C
      | TransportErrored a e \<Rightarrow> (transport_errored a e C, [])
      | TransportClosed a \<Rightarrow> transport_closed p random a C
      | TimerFires h \<Rightarrow> timer_fires h C)"

fun reconnect_run ::
  "rat backoff_policy \<Rightarrow> reconnect \<Rightarrow> (js_number \<times> reconnect_event) list \<Rightarrow> reconnect_step" where
  "reconnect_run p C [] = (C, [])"
| "reconnect_run p C (e # es) = followed (reconnect_step p C e) (\<lambda>C. reconnect_run p C es)"

section \<open>Delays stay near the exponential and within the policy\<close>

definition policy_ok :: "rat backoff_policy \<Rightarrow> bool" where
  "policy_ok p \<longleftrightarrow> 0 < bp_minDelayMs p \<and> bp_minDelayMs p \<le> bp_maxDelayMs p \<and> 1 \<le> bp_factor p \<and>
     0 \<le> bp_jitterRatio p \<and> bp_jitterRatio p \<le> 1 \<and> 0 \<le> bp_stableReadyMs p"

lemma validated_ok: "validate_backoff_policy policy = Some p \<Longrightarrow> policy_ok p"
  by (auto simp: validate_backoff_policy_def policy_ok_def split: js_number.splits if_splits)

lemma backoff_base_bounds:
  assumes "policy_ok p"
  shows "bp_minDelayMs p \<le> backoff_base p n" "backoff_base p n \<le> bp_maxDelayMs p"
proof -
  have "bp_minDelayMs p * 1 \<le> bp_minDelayMs p * bp_factor p ^ (n - 1)"
    using assms by (intro mult_left_mono) (auto simp: policy_ok_def one_le_power)
  then show "bp_minDelayMs p \<le> backoff_base p n" using assms by (simp add: backoff_base_def policy_ok_def)
qed (simp add: backoff_base_def)

lemma js_round_near: "\<bar>js_round x - x\<bar> \<le> 1 / 2"
proof -
  have "of_int \<lfloor>x + 1 / 2\<rfloor> \<le> x + 1 / 2" "x + 1 / 2 < of_int \<lfloor>x + 1 / 2\<rfloor> + 1" by (rule of_int_floor_le) linarith
  then show ?thesis unfolding js_round_def abs_le_iff by linarith
qed

lemma normalized_random_bounds: "0 \<le> normalized_random r \<and> normalized_random r \<le> 1"
  by (cases r) (auto simp: normalized_random_def)

lemma jitter_near:
  assumes "policy_ok p"
  shows "\<bar>b * (1 + (normalized_random r * 2 - 1) * bp_jitterRatio p) - b\<bar> \<le> \<bar>b\<bar> * bp_jitterRatio p"
proof -
  have "\<bar>normalized_random r * 2 - 1\<bar> \<le> 1" using normalized_random_bounds [of r] by (simp add: abs_le_iff)
  then have "\<bar>b\<bar> * (\<bar>normalized_random r * 2 - 1\<bar> * bp_jitterRatio p) \<le> \<bar>b\<bar> * (1 * bp_jitterRatio p)"
    using assms by (intro mult_left_mono mult_right_mono) (auto simp: policy_ok_def)
  moreover have "b * (1 + (normalized_random r * 2 - 1) * bp_jitterRatio p) - b = b * ((normalized_random r * 2 - 1) * bp_jitterRatio p)"
    by (simp add: algebra_simps)
  ultimately show ?thesis using assms by (simp add: abs_mult policy_ok_def)
qed

lemma clamp_near: "lo \<le> b \<Longrightarrow> b \<le> hi \<Longrightarrow> \<bar>min hi (max lo y) - b\<bar> \<le> \<bar>y - (b::rat)\<bar>"
  by (auto simp: min_def max_def abs_if)

lemma backoff_delay_near:
  assumes "policy_ok p"
  shows "\<bar>backoff_delay n p r - backoff_base p n\<bar> \<le> backoff_base p n * bp_jitterRatio p + 1 / 2"
proof -
  let ?b = "backoff_base p n"
  let ?x = "?b * (1 + (normalized_random r * 2 - 1) * bp_jitterRatio p)"
  have "0 < ?b" using backoff_base_bounds(1) [OF assms, of n] assms by (simp add: policy_ok_def)
  then have "\<bar>?x - ?b\<bar> \<le> ?b * bp_jitterRatio p" using jitter_near [OF assms, of ?b r] by simp
  then have "\<bar>js_round ?x - ?b\<bar> \<le> ?b * bp_jitterRatio p + 1 / 2" using js_round_near [of ?x] by linarith
  then show ?thesis
    using clamp_near [OF backoff_base_bounds [OF assms], of "js_round ?x" n] by (simp add: backoff_delay_def Let_def)
qed

text \<open>C11: A retry neither hammers the server nor waits for ever. For every valid policy and every failure
  count the delay is defined whatever the source of randomness returns, lies between the least and
  the largest delay of the policy, and is within the jitter (and the rounding) of the capped
  exponential.\<close>

theorem reconnect_delay_bounded:
  assumes "validate_backoff_policy policy = Some p" and "0 < n"
  shows "\<exists>d. calculateReconnectDelay (js_int (int n)) policy random = Some d \<and>
    bp_minDelayMs p \<le> d \<and> d \<le> bp_maxDelayMs p \<and>
    \<bar>d - backoff_base p n\<bar> \<le> backoff_base p n * bp_jitterRatio p + 1 / 2"
proof -
  have ok: "policy_ok p" by (rule validated_ok [OF assms(1)])
  have "calculateReconnectDelay (js_int (int n)) policy random = Some (backoff_delay n p random)"
    using assms by (simp add: calculateReconnectDelay_def)
  moreover have "bp_minDelayMs p \<le> backoff_delay n p random" "backoff_delay n p random \<le> bp_maxDelayMs p"
    using ok by (auto simp: backoff_delay_def Let_def policy_ok_def)
  ultimately show ?thesis using backoff_delay_near [OF ok] by blast
qed

lemma default_policy_valid: "\<exists>p. validate_backoff_policy default_backoff_policy = Some p \<and> bp_maxDelayMs p = 30000"
  by (simp add: validate_backoff_policy_def default_backoff_policy_def)

lemma reconnect_delay_bounded_witness:
  "\<exists>d. calculateReconnectDelay (js_int 7) default_backoff_policy JsNaN = Some d \<and> d \<le> 30000"
proof -
  obtain p where p: "validate_backoff_policy default_backoff_policy = Some p" "bp_maxDelayMs p = 30000"
    using default_policy_valid by blast
  from reconnect_delay_bounded [OF p(1), of 7 JsNaN] p(2) show ?thesis by auto
qed

section \<open>Exactly one thing drives an active controller\<close>

fun drives :: "reconnect \<Rightarrow> reconnect_task \<Rightarrow> bool" where
  "drives C (LoadingCredential l) \<longleftrightarrow> l = rc_lifecycle C"
| "drives C (ClosingFailed a e) \<longleftrightarrow> attempt_lifecycle a C = rc_lifecycle C"
| "drives C _ \<longleftrightarrow> False"

definition driving_tasks :: "reconnect \<Rightarrow> nat set" where
  "driving_tasks C = {t. \<exists>task. js_get (rc_tasks C) t = Some task \<and> drives C task}"

datatype reconnect_driver = DrivenByTask nat | DrivenByAttempt nat | DrivenByTimer nat

text \<open>
  What will move the controller on: a continuation of the current lifecycle that is awaited, the
  attempt that connects or is connected, or the timer of the backoff.
\<close>

definition drivers :: "reconnect \<Rightarrow> reconnect_driver set" where
  "drivers C = DrivenByTask ` driving_tasks C \<union> DrivenByAttempt ` set_option (rc_current C) \<union>
     DrivenByTimer ` set_option (rc_backoffTimer C)"

definition controller_active :: "reconnect \<Rightarrow> bool" where
  "controller_active C \<longleftrightarrow> rc_state C \<in> {ReconnectConnecting, ReconnectReady, ReconnectBackoff}"

definition task_known :: "reconnect \<Rightarrow> reconnect_task \<Rightarrow> bool" where
  "task_known C task \<longleftrightarrow>
     (case task of
        LoadingCredential l \<Rightarrow> l \<le> rc_lifecycle C
      | ClosingFailed a e \<Rightarrow> js_get (rc_attempts C) a \<noteq> None
      | _ \<Rightarrow> True)"

definition controller_base :: "reconnect \<Rightarrow> bool" where
  "controller_base C \<longleftrightarrow>
     (\<forall>a. rc_current C = Some a \<longrightarrow> is_current_attempt a C) \<and>
     (\<forall>h. rc_backoffTimer C = Some h \<longrightarrow>
        js_get (rc_timers C) h = Some (BackoffTimer (rc_lifecycle C)) \<and> rc_state C = ReconnectBackoff) \<and>
     (\<forall>t task. js_get (rc_tasks C) t = Some task \<longrightarrow> t < rc_next C \<and> task_known C task) \<and>
     (\<forall>a b. js_get (rc_attempts C) a = Some b \<longrightarrow> a < rc_next C \<and> ba_lifecycle b \<le> rc_lifecycle C)"

definition controller_idle :: "reconnect \<Rightarrow> bool" where
  "controller_idle C \<longleftrightarrow> controller_base C \<and> drivers C = {}"

definition controller_ok :: "reconnect \<Rightarrow> bool" where
  "controller_ok C \<longleftrightarrow>
     controller_base C \<and> (if controller_active C then \<exists>d. drivers C = {d} else drivers C = {})"

lemma drivers_empty: "drivers C = {} \<longleftrightarrow> driving_tasks C = {} \<and> rc_current C = None \<and> rc_backoffTimer C = None"
  by (auto simp: drivers_def)

lemma one_driver:
  "drivers C = {DrivenByTask t} \<longleftrightarrow> driving_tasks C = {t} \<and> rc_current C = None \<and> rc_backoffTimer C = None"
  "drivers C = {DrivenByAttempt a} \<longleftrightarrow> driving_tasks C = {} \<and> rc_current C = Some a \<and> rc_backoffTimer C = None"
  "drivers C = {DrivenByTimer h} \<longleftrightarrow> driving_tasks C = {} \<and> rc_current C = None \<and> rc_backoffTimer C = Some h"
  by (cases "rc_current C"; cases "rc_backoffTimer C"; auto simp: drivers_def)+

lemma only_driver:
  assumes "controller_ok C" "d \<in> drivers C"
  shows "controller_active C" "drivers C = {d}"
  using assms by (auto simp: controller_ok_def split: if_splits)

lemma driving_add_task:
  assumes "controller_base C" "drives C task"
  shows "driving_tasks (add_task task C) = insert (rc_next C) (driving_tasks C)"
proof -
  have "drives (add_task task C) x = drives C x" for x
    by (cases x) (simp_all add: add_task_def attempt_lifecycle_def)
  then show ?thesis using assms by (auto simp: driving_tasks_def add_task_def controller_base_def)
qed

lemma attempt_lifecycle_frame [simp]:
  "attempt_lifecycle a (C\<lparr>rc_state := s\<rparr>) = attempt_lifecycle a C" "attempt_lifecycle a (C\<lparr>rc_attempt := n\<rparr>) = attempt_lifecycle a C"
  "attempt_lifecycle a (C\<lparr>rc_failures := n\<rparr>) = attempt_lifecycle a C"
  "attempt_lifecycle a (C\<lparr>rc_lastFailureCode := f\<rparr>) = attempt_lifecycle a C"
  "attempt_lifecycle a (C\<lparr>rc_retryDelayMs := r\<rparr>) = attempt_lifecycle a C"
  "attempt_lifecycle a (C\<lparr>rc_deviceId := i\<rparr>) = attempt_lifecycle a C" "attempt_lifecycle a (C\<lparr>rc_current := u\<rparr>) = attempt_lifecycle a C"
  "attempt_lifecycle a (C\<lparr>rc_backoffTimer := h\<rparr>) = attempt_lifecycle a C"
  "attempt_lifecycle a (C\<lparr>rc_stableTimer := h\<rparr>) = attempt_lifecycle a C"
  "attempt_lifecycle a (C\<lparr>rc_stopping := h\<rparr>) = attempt_lifecycle a C" "attempt_lifecycle a (C\<lparr>rc_timers := ts\<rparr>) = attempt_lifecycle a C"
  "attempt_lifecycle a (C\<lparr>rc_tasks := js\<rparr>) = attempt_lifecycle a C" "attempt_lifecycle a (C\<lparr>rc_next := n\<rparr>) = attempt_lifecycle a C"
  "attempt_lifecycle a (C\<lparr>rc_lifecycle := n\<rparr>) = attempt_lifecycle a C"
  by (simp_all add: attempt_lifecycle_def)

lemma driving_cong:
  assumes "rc_tasks D = rc_tasks C" "rc_lifecycle D = rc_lifecycle C" "\<And>a. attempt_lifecycle a D = attempt_lifecycle a C"
  shows "driving_tasks D = driving_tasks C"
proof -
  have "drives D x = drives C x" for x by (cases x) (simp_all add: assms)
  then show ?thesis by (simp add: driving_tasks_def assms(1))
qed

lemma driving_frame [simp]:
  "driving_tasks (C\<lparr>rc_state := s\<rparr>) = driving_tasks C" "driving_tasks (C\<lparr>rc_attempt := n\<rparr>) = driving_tasks C"
  "driving_tasks (C\<lparr>rc_failures := n\<rparr>) = driving_tasks C" "driving_tasks (C\<lparr>rc_lastFailureCode := f\<rparr>) = driving_tasks C"
  "driving_tasks (C\<lparr>rc_retryDelayMs := r\<rparr>) = driving_tasks C" "driving_tasks (C\<lparr>rc_deviceId := i\<rparr>) = driving_tasks C"
  "driving_tasks (C\<lparr>rc_current := u\<rparr>) = driving_tasks C" "driving_tasks (C\<lparr>rc_backoffTimer := h\<rparr>) = driving_tasks C"
  "driving_tasks (C\<lparr>rc_stableTimer := h\<rparr>) = driving_tasks C" "driving_tasks (C\<lparr>rc_stopping := h\<rparr>) = driving_tasks C"
  "driving_tasks (C\<lparr>rc_timers := ts\<rparr>) = driving_tasks C" "driving_tasks (C\<lparr>rc_next := n\<rparr>) = driving_tasks C"
  by (rule driving_cong, simp_all)+

lemma update_attempt_parts [simp]:
  "rc_state (update_attempt a f C) = rc_state C" "rc_lifecycle (update_attempt a f C) = rc_lifecycle C"
  "rc_current (update_attempt a f C) = rc_current C" "rc_backoffTimer (update_attempt a f C) = rc_backoffTimer C"
  "rc_stableTimer (update_attempt a f C) = rc_stableTimer C" "rc_stopping (update_attempt a f C) = rc_stopping C"
  "rc_tasks (update_attempt a f C) = rc_tasks C" "rc_timers (update_attempt a f C) = rc_timers C"
  "rc_next (update_attempt a f C) = rc_next C"
  "js_get (rc_attempts (update_attempt a f C)) x =
     (if x = a then map_option f (js_get (rc_attempts C) a) else js_get (rc_attempts C) x)"
  by (simp_all add: update_attempt_def split: option.split)

lemma update_attempt_lifecycle:
  assumes "\<And>b. ba_lifecycle (f b) = ba_lifecycle b"
  shows "attempt_lifecycle x (update_attempt a f C) = attempt_lifecycle x C"
    "driving_tasks (update_attempt a f C) = driving_tasks C"
proof -
  show l: "attempt_lifecycle x (update_attempt a f C) = attempt_lifecycle x C" for x
    using assms by (simp add: attempt_lifecycle_def split: option.split)
  show "driving_tasks (update_attempt a f C) = driving_tasks C" by (rule driving_cong) (simp_all add: l)
qed

lemma baseI:
  assumes "\<And>a. rc_current C = Some a \<Longrightarrow> is_current_attempt a C"
    and "\<And>h. rc_backoffTimer C = Some h \<Longrightarrow>
      js_get (rc_timers C) h = Some (BackoffTimer (rc_lifecycle C)) \<and> rc_state C = ReconnectBackoff"
    and "\<And>t task. js_get (rc_tasks C) t = Some task \<Longrightarrow> t < rc_next C \<and> task_known C task"
    and "\<And>a b. js_get (rc_attempts C) a = Some b \<Longrightarrow> a < rc_next C \<and> ba_lifecycle b \<le> rc_lifecycle C"
  shows "controller_base C"
  using assms by (simp add: controller_base_def)

lemma baseD:
  assumes "controller_base C"
  shows "rc_current C = Some a \<Longrightarrow> is_current_attempt a C"
    and "rc_backoffTimer C = Some h \<Longrightarrow>
      js_get (rc_timers C) h = Some (BackoffTimer (rc_lifecycle C)) \<and> rc_state C = ReconnectBackoff"
    and "js_get (rc_tasks C) t = Some task \<Longrightarrow> t < rc_next C \<and> task_known C task"
    and "js_get (rc_attempts C) x = Some b \<Longrightarrow> x < rc_next C \<and> ba_lifecycle b \<le> rc_lifecycle C"
  using assms by (simp_all add: controller_base_def)

lemma attempt_lifecycle_le: "controller_base C \<Longrightarrow> attempt_lifecycle a C \<le> rc_lifecycle C"
  using baseD(4) [of C a] by (simp add: attempt_lifecycle_def split: option.split)

lemma idle_parts: "controller_idle C \<Longrightarrow> controller_base C \<and> driving_tasks C = {} \<and> rc_current C = None \<and> rc_backoffTimer C = None"
  by (simp add: controller_idle_def drivers_empty)

text \<open>A change of fields that no invariant reads.\<close>

lemma base_frame:
  assumes "controller_base C" "rc_current D = rc_current C" "rc_backoffTimer D = rc_backoffTimer C"
    "rc_lifecycle D = rc_lifecycle C" "rc_tasks D = rc_tasks C" "rc_attempts D = rc_attempts C"
    "rc_next D = rc_next C" "rc_timers D = rc_timers C" "rc_backoffTimer C = None \<or> rc_state D = rc_state C"
  shows "controller_base D"
proof -
  have "task_known D = task_known C" "is_current_attempt a D = is_current_attempt a C" for a
    by (intro ext) (simp_all add: task_known_def is_current_attempt_def assms(2-6) cong: reconnect_task.case_cong option.case_cong)
  then show ?thesis using assms by (auto simp: controller_base_def)
qed

lemma idle_frame:
  assumes "controller_idle C" "rc_current D = None" "rc_backoffTimer D = None"
    "rc_lifecycle D = rc_lifecycle C" "rc_tasks D = rc_tasks C" "rc_attempts D = rc_attempts C"
    "rc_next D = rc_next C" "rc_timers D = rc_timers C"
  shows "controller_idle D"
proof -
  have "driving_tasks D = driving_tasks C"
    using assms(4-6) by (intro driving_cong) (simp_all add: attempt_lifecycle_def)
  then show ?thesis
    using idle_parts [OF assms(1)] assms base_frame [of C D] by (simp add: controller_idle_def drivers_empty)
qed

lemma idle_ok: "controller_idle C \<Longrightarrow> \<not> controller_active C \<Longrightarrow> controller_ok C"
  by (simp add: controller_ok_def controller_idle_def)

lemma add_task_parts [simp]:
  "rc_state (add_task task C) = rc_state C" "rc_current (add_task task C) = rc_current C"
  "rc_backoffTimer (add_task task C) = rc_backoffTimer C" "rc_lifecycle (add_task task C) = rc_lifecycle C"
  "rc_attempts (add_task task C) = rc_attempts C" "rc_stopping (add_task task C) = rc_stopping C"
  "rc_timers (add_task task C) = rc_timers C" "rc_next (add_task task C) = Suc (rc_next C)"
  "js_get (rc_tasks (add_task task C)) t = (if t = rc_next C then Some task else js_get (rc_tasks C) t)"
  "attempt_lifecycle a (add_task task C) = attempt_lifecycle a C"
  "is_current_attempt a (add_task task C) = is_current_attempt a C" "task_known (add_task task C) x = task_known C x"
  by (simp_all add: add_task_def attempt_lifecycle_def is_current_attempt_def task_known_def
      cong: reconnect_task.case_cong option.case_cong)

lemma base_add_task:
  assumes "controller_base C" "task_known C task"
  shows "controller_base (add_task task C)"
proof (rule baseI)
  fix t x assume "js_get (rc_tasks (add_task task C)) t = Some x"
  then show "t < rc_next (add_task task C) \<and> task_known (add_task task C) x"
    using assms(2) baseD(3) [OF assms(1), of t x] by (auto split: if_splits)
next
  fix a b assume "js_get (rc_attempts (add_task task C)) a = Some b"
  then show "a < rc_next (add_task task C) \<and> ba_lifecycle b \<le> rc_lifecycle (add_task task C)"
    using baseD(4) [OF assms(1), of a b] by simp
qed (use baseD(1,2) [OF assms(1)] in simp_all)

lemma idle_add_task:
  assumes "controller_idle C" "drives C task" "task_known C task" "controller_active C"
  shows "controller_ok (add_task task C)"
proof -
  note idle = idle_parts [OF assms(1)]
  have "drivers (add_task task C) = {DrivenByTask (rc_next C)}"
    using driving_add_task [of C task] idle assms(2) by (simp add: drivers_def)
  then show ?thesis
    using assms(4) base_add_task [OF _ assms(3)] idle by (simp add: controller_ok_def controller_active_def)
qed

lemma add_quiet_task:
  assumes "controller_base C" "task \<in> {StopCleanup, ConnectingAttempt a}"
  shows "controller_base (add_task task C)" "drivers (add_task task C) = drivers C"
proof -
  show "controller_base (add_task task C)"
    by (rule base_add_task [OF assms(1)]) (use assms(2) in \<open>auto simp: task_known_def\<close>)
  have same: "drives (add_task task C) x = drives C x" for x
    by (cases x) simp_all
  have quiet: "\<not> drives C task" using assms(2) by auto
  have fresh: "js_get (rc_tasks C) (rc_next C) = None"
    using baseD(3) [OF assms(1), of "rc_next C"] by (cases "js_get (rc_tasks C) (rc_next C)") auto
  have "i \<in> driving_tasks (add_task task C) \<longleftrightarrow> i \<in> driving_tasks C" for i
    by (cases "i = rc_next C") (simp_all add: driving_tasks_def same quiet fresh)
  then have "driving_tasks (add_task task C) = driving_tasks C" by (intro set_eqI)
  then show "drivers (add_task task C) = drivers C" by (simp add: drivers_def)
qed

lemma start_attempt_ok:
  assumes "controller_idle C" "l = rc_lifecycle C"
  shows "controller_ok (fst (start_attempt l C))"
proof -
  let ?D = "C\<lparr>rc_retryDelayMs := None, rc_state := ReconnectConnecting\<rparr>"
  have "controller_idle ?D" by (rule idle_frame [OF assms(1)]) (use idle_parts [OF assms(1)] in simp_all)
  then have "controller_ok (add_task (LoadingCredential l) ?D)"
    by (rule idle_add_task) (simp_all add: assms(2) task_known_def controller_active_def)
  then show ?thesis by (simp add: start_attempt_def is_current_lifecycle_def assms(2))
qed

lemma transition_ok:
  assumes "controller_idle C" "l = rc_lifecycle C"
  shows "controller_ok (fst (transition_after_failure p random l e C))"
proof -
  note idle = idle_parts [OF assms(1)]
  have ended: "controller_ok (C\<lparr>rc_lastFailureCode := f, rc_retryDelayMs := None, rc_state := s\<rparr>)"
    if "s \<in> {ReconnectAuthFailed, ReconnectProtocolFailed}" for f s
    by (rule idle_ok, rule idle_frame [OF assms(1)]) (use idle that in \<open>auto simp: controller_active_def\<close>)
  have backoff: "controller_ok (fst (schedule_backoff l delay D))"
    if "controller_idle D" "rc_lifecycle D = l" "rc_state D = ReconnectBackoff" for D delay
  proof -
    note d = idle_parts [OF that(1)]
    let ?E = "D\<lparr>rc_timers := js_set (rc_next D) (BackoffTimer l) (rc_timers D), rc_backoffTimer := Some (rc_next D),
      rc_next := Suc (rc_next D)\<rparr>"
    have "drivers ?E = {DrivenByTimer (rc_next D)}" using d by (simp add: drivers_def)
    moreover have "controller_base ?E"
    proof (rule baseI)
      fix t x assume "js_get (rc_tasks ?E) t = Some x"
      then show "t < rc_next ?E \<and> task_known ?E x"
        using d baseD(3) [of D t x] by (auto simp: task_known_def split: reconnect_task.splits)
    next
      fix a b assume "js_get (rc_attempts ?E) a = Some b"
      then show "a < rc_next ?E \<and> ba_lifecycle b \<le> rc_lifecycle ?E" using d baseD(4) [of D a b] by auto
    qed (use d that in simp_all)
    ultimately show ?thesis
      using d that by (simp add: schedule_backoff_def clear_backoff_timer_def followed_def prepend_def controller_ok_def controller_active_def)
  qed
  have "controller_idle (C\<lparr>rc_lastFailureCode := f, rc_failures := n, rc_retryDelayMs := r, rc_state := ReconnectBackoff\<rparr>)" for f r n
    by (rule idle_frame [OF assms(1)]) (use idle in simp_all)
  then show ?thesis
    using assms(2) ended backoff
    by (auto simp: transition_after_failure_def Let_def is_current_lifecycle_def intro!: backoff split: failure_disposition.split)
qed

lemma credential_loaded_ok:
  assumes "controller_idle C" "controller_active C" "l = rc_lifecycle C"
  shows "controller_ok (fst (credential_loaded p random l loaded factory C))"
proof -
  note idle = idle_parts [OF assms(1)]
  have ended: "controller_ok (C\<lparr>rc_lastFailureCode := f, rc_state := s\<rparr>)"
    if "s \<in> {ReconnectCredentialFailed, ReconnectPairingRequired}" for f s
    by (rule idle_ok, rule idle_frame [OF assms(1)]) (use idle that in \<open>auto simp: controller_active_def\<close>)
  have known: "controller_idle (C\<lparr>rc_deviceId := i, rc_attempt := n\<rparr>)" for i n
    by (rule idle_frame [OF assms(1)]) (use idle in simp_all)
  let ?a = "rc_next C"
  let ?D = "\<lambda>i n. C\<lparr>rc_deviceId := i, rc_attempt := n,
    rc_attempts := js_set ?a \<lparr>ba_lifecycle = l, ba_generation = n, ba_failure = None, ba_finalized = False\<rparr> (rc_attempts C),
    rc_current := Some ?a, rc_next := Suc ?a\<rparr>"
  have fresh: "js_get (rc_attempts C) ?a = None"
    using baseD(4) [of C ?a] idle by (cases "js_get (rc_attempts C) ?a") auto
  have base: "controller_base (?D i n)" for i n
  proof (rule baseI)
    fix t x assume "js_get (rc_tasks (?D i n)) t = Some x"
    then show "t < rc_next (?D i n) \<and> task_known (?D i n) x"
      using idle baseD(3) [of C t x] by (auto simp: task_known_def split: reconnect_task.splits)
  next
    fix x b assume "js_get (rc_attempts (?D i n)) x = Some b"
    then show "x < rc_next (?D i n) \<and> ba_lifecycle b \<le> rc_lifecycle (?D i n)"
      using idle baseD(4) [of C x b] assms(3) by (auto split: if_splits)
  qed (use idle assms(3) in \<open>simp_all add: is_current_attempt_def\<close>)
  have "drives (?D i n) x = drives C x" if "task_known C x" for x i n
    using that fresh by (cases x) (auto simp: task_known_def attempt_lifecycle_def)
  then have "driving_tasks (?D i n) = driving_tasks C" for i n
    using baseD(3) [of C] idle by (auto simp: driving_tasks_def)
  then have "drivers (?D i n) = {DrivenByAttempt ?a}" for i n using idle by (simp add: drivers_def)
  then have "controller_ok (add_task (ConnectingAttempt ?a) (?D i n))" for i n
    using add_quiet_task [OF base, of "ConnectingAttempt ?a" ?a] assms(2) by (simp add: controller_ok_def controller_active_def)
  then show ?thesis
    using assms(3) ended transition_ok [OF known]
    by (auto simp: credential_loaded_def is_current_lifecycle_def Let_def split: sum.split option.split)
qed

lemma remove_task:
  assumes "controller_ok C" "js_get (rc_tasks C) t = Some task"
  shows "drives C task \<Longrightarrow> controller_idle (C\<lparr>rc_tasks := js_delete t (rc_tasks C)\<rparr>) \<and> controller_active C"
    and "\<not> drives C task \<Longrightarrow> controller_ok (C\<lparr>rc_tasks := js_delete t (rc_tasks C)\<rparr>)"
proof -
  let ?D = "C\<lparr>rc_tasks := js_delete t (rc_tasks C)\<rparr>"
  have "drives ?D x = drives C x" for x by (cases x) simp_all
  then have driving: "driving_tasks ?D = driving_tasks C - {t}" by (auto simp: driving_tasks_def)
  have base: "controller_base ?D"
    using assms(1) by (auto simp: controller_ok_def controller_base_def is_current_attempt_def task_known_def
        split: if_splits cong: reconnect_task.case_cong option.case_cong)
  show "controller_idle ?D \<and> controller_active C" if "drives C task"
  proof -
    have t: "t \<in> driving_tasks C" using assms(2) that by (auto simp: driving_tasks_def)
    then have d: "DrivenByTask t \<in> drivers C" by (simp add: drivers_def)
    have "drivers C = {DrivenByTask t}" by (rule only_driver(2) [OF assms(1) d])
    then have "driving_tasks C = {t} \<and> rc_current C = None \<and> rc_backoffTimer C = None"
      by (simp add: one_driver)
    then show ?thesis
      using base only_driver(1) [OF assms(1) d] by (simp add: controller_idle_def drivers_empty driving)
  qed
  show "controller_ok ?D" if "\<not> drives C task"
  proof -
    have "t \<notin> driving_tasks C" using assms(2) that by (auto simp: driving_tasks_def)
    then have "drivers ?D = drivers C" by (simp add: drivers_def driving)
    then show ?thesis using assms(1) base by (simp add: controller_ok_def controller_active_def)
  qed
qed

text \<open>The state after the attempt that drives the controller has been taken away.\<close>

lemma drop_attempt:
  assumes "controller_ok C" "rc_current C = Some a"
    and "rc_current D = None" "rc_backoffTimer D = rc_backoffTimer C" "rc_lifecycle D = rc_lifecycle C"
      "rc_tasks D = rc_tasks C" "rc_next D = rc_next C"
      "\<And>x. map_option ba_lifecycle (js_get (rc_attempts D) x) = map_option ba_lifecycle (js_get (rc_attempts C) x)"
  shows "controller_idle D" "controller_active C"
proof -
  have d: "DrivenByAttempt a \<in> drivers C" using assms(2) by (simp add: drivers_def)
  show "controller_active C" by (rule only_driver(1) [OF assms(1) d])
  have none: "driving_tasks C = {}" "rc_backoffTimer C = None"
    using only_driver(2) [OF assms(1) d] by (simp_all add: one_driver)
  have base: "controller_base C" using assms(1) by (simp add: controller_ok_def)
  have known: "js_get (rc_attempts D) x = None \<longleftrightarrow> js_get (rc_attempts C) x = None" for x
    using assms(8) [of x] by (metis option.map_disc_iff)
  have same: "attempt_lifecycle x D = attempt_lifecycle x C" for x
    using assms(8) [of x] by (auto simp: attempt_lifecycle_def split: option.splits)
  have "driving_tasks D = driving_tasks C" by (rule driving_cong) (simp_all add: assms(5,6) same)
  moreover have "controller_base D"
  proof (rule baseI)
    fix t x assume "js_get (rc_tasks D) t = Some x"
    then have x: "t < rc_next C \<and> task_known C x" using baseD(3) [OF base, of t x] assms(6) by simp
    then show "t < rc_next D \<and> task_known D x"
      using assms(5,7) known by (cases x) (auto simp: task_known_def)
  next
    fix x b assume b: "js_get (rc_attempts D) x = Some b"
    then obtain b' where "js_get (rc_attempts C) x = Some b'" "ba_lifecycle b' = ba_lifecycle b"
      using assms(8) [of x] by (cases "js_get (rc_attempts C) x") auto
    then show "x < rc_next D \<and> ba_lifecycle b \<le> rc_lifecycle D" using baseD(4) [OF base, of x b'] assms(5,7) by simp
  qed (use assms(3,4) none in simp_all)
  ultimately show "controller_idle D" using none assms(3,4) by (simp add: controller_idle_def drivers_empty)
qed

lemma ok_frame:
  assumes "controller_ok C" "rc_current D = rc_current C" "rc_backoffTimer D = rc_backoffTimer C"
    "rc_lifecycle D = rc_lifecycle C" "rc_tasks D = rc_tasks C" "rc_attempts D = rc_attempts C"
    "rc_next D = rc_next C" "rc_timers D = rc_timers C" "rc_state D = rc_state C"
  shows "controller_ok D"
proof -
  have "driving_tasks D = driving_tasks C" using assms(4-6) by (intro driving_cong) (simp_all add: attempt_lifecycle_def)
  then have "drivers D = drivers C" using assms(2,3) by (simp add: drivers_def)
  moreover have "controller_base D"
    by (rule base_frame [OF _ assms(2-8)]) (use assms(1,9) in \<open>simp_all add: controller_ok_def\<close>)
  ultimately show ?thesis using assms(1,9) by (simp add: controller_ok_def controller_active_def)
qed

lemma clear_stable_parts [simp]:
  "rc_state (fst (clear_stable_timer C)) = rc_state C" "rc_current (fst (clear_stable_timer C)) = rc_current C"
  "rc_backoffTimer (fst (clear_stable_timer C)) = rc_backoffTimer C" "rc_lifecycle (fst (clear_stable_timer C)) = rc_lifecycle C"
  "rc_attempts (fst (clear_stable_timer C)) = rc_attempts C" "rc_stopping (fst (clear_stable_timer C)) = rc_stopping C"
  "rc_timers (fst (clear_stable_timer C)) = rc_timers C" "rc_next (fst (clear_stable_timer C)) = rc_next C"
  "rc_tasks (fst (clear_stable_timer C)) = rc_tasks C" "rc_stableTimer (fst (clear_stable_timer C)) = None"
  by (simp_all add: clear_stable_timer_def split: option.split)

lemma clear_backoff_parts [simp]:
  "rc_state (fst (clear_backoff_timer C)) = rc_state C" "rc_current (fst (clear_backoff_timer C)) = rc_current C"
  "rc_backoffTimer (fst (clear_backoff_timer C)) = None" "rc_lifecycle (fst (clear_backoff_timer C)) = rc_lifecycle C"
  "rc_attempts (fst (clear_backoff_timer C)) = rc_attempts C" "rc_stopping (fst (clear_backoff_timer C)) = rc_stopping C"
  "rc_timers (fst (clear_backoff_timer C)) = rc_timers C" "rc_next (fst (clear_backoff_timer C)) = rc_next C"
  "rc_tasks (fst (clear_backoff_timer C)) = rc_tasks C"
  by (simp_all add: clear_backoff_timer_def split: option.split)

lemma followed_fst [simp]: "fst (followed p f) = fst (f (fst p))"
  by (simp add: followed_def prepend_def)

lemma next_lifecycle_idle:
  assumes "controller_base C" "rc_current D = None" "rc_backoffTimer D = None" "rc_lifecycle D = Suc (rc_lifecycle C)"
    "rc_tasks D = rc_tasks C" "rc_attempts D = rc_attempts C" "rc_next D = rc_next C"
  shows "controller_idle D"
proof -
  have "\<not> drives D x" if "task_known C x" for x
    using that baseD(4) [OF assms(1)] assms(4,6)
    by (cases x) (fastforce simp: task_known_def attempt_lifecycle_def split: option.splits)+
  then have "driving_tasks D = {}" using baseD(3) [OF assms(1)] assms(5) by (auto simp: driving_tasks_def)
  moreover have "controller_base D"
  proof (rule baseI)
    fix t x assume "js_get (rc_tasks D) t = Some x"
    then show "t < rc_next D \<and> task_known D x"
      using baseD(3) [OF assms(1), of t x] assms(4-7) by (cases x) (auto simp: task_known_def)
  next
    fix a b assume "js_get (rc_attempts D) a = Some b"
    then show "a < rc_next D \<and> ba_lifecycle b \<le> rc_lifecycle D"
      using baseD(4) [OF assms(1), of a b] assms(4-7) by auto
  qed (use assms(2,3) in simp_all)
  ultimately show ?thesis using assms(2,3) by (simp add: controller_idle_def drivers_empty)
qed

lemma start_ok: "controller_ok C \<Longrightarrow> controller_ok (fst (start_controller C))"
  unfolding start_controller_def
  by (auto simp: controller_ok_def [of C] intro!: start_attempt_ok next_lifecycle_idle [of C] simp del: One_nat_def)
    (auto simp: drivers_empty controller_active_def controller_ok_def split: if_splits)

lemma idle_update_attempt:
  assumes "controller_idle C" "\<And>b. ba_lifecycle (f b) = ba_lifecycle b"
  shows "controller_idle (update_attempt a f C)"
proof -
  note idle = idle_parts [OF assms(1)]
  have "controller_base (update_attempt a f C)"
  proof (rule baseI)
    fix t x assume "js_get (rc_tasks (update_attempt a f C)) t = Some x"
    then show "t < rc_next (update_attempt a f C) \<and> task_known (update_attempt a f C) x"
      using idle baseD(3) [of C t x] by (cases x) (auto simp: task_known_def)
  next
    fix x b assume "js_get (rc_attempts (update_attempt a f C)) x = Some b"
    then show "x < rc_next (update_attempt a f C) \<and> ba_lifecycle b \<le> rc_lifecycle (update_attempt a f C)"
      using idle baseD(4) [of C x] assms(2) by (auto split: if_splits)
  qed (use idle in simp_all)
  then show ?thesis
    using idle update_attempt_lifecycle(2) [of f a C, OF assms(2)] by (simp add: controller_idle_def drivers_empty)
qed

lemma stop_ok: "controller_ok C \<Longrightarrow> controller_ok (fst (stop_controller C))"
proof -
  assume ok: "controller_ok C"
  have stopped: "controller_ok ((add_task StopCleanup D)\<lparr>rc_stopping := s\<rparr>)"
    if "controller_idle D" "rc_state D = ReconnectStopped" for D s
  proof -
    have "controller_ok (add_task StopCleanup D)"
      using add_quiet_task [of D StopCleanup] that by (simp add: controller_idle_def controller_ok_def controller_active_def)
    then show ?thesis by (rule ok_frame) simp_all
  qed
  have "controller_idle (D\<lparr>rc_retryDelayMs := None, rc_current := None, rc_state := ReconnectStopped\<rparr>)"
    if "rc_backoffTimer D = None" "rc_lifecycle D = Suc (rc_lifecycle C)" "rc_tasks D = rc_tasks C"
      "rc_attempts D = rc_attempts C" "rc_next D = rc_next C" for D
    by (rule next_lifecycle_idle [of C]) (use ok that in \<open>simp_all add: controller_ok_def\<close>)
  then show ?thesis
    using ok by (auto simp: stop_controller_def Let_def split: option.split intro!: stopped idle_update_attempt)
qed

lemma finalize_attempt_ok:
  assumes "controller_ok C"
  shows "controller_ok (fst (finalize_attempt p random a e b C))"
proof (cases "is_current_attempt a C")
  case True
  let ?D = "fst (clear_stable_timer (update_attempt a (\<lambda>b. b\<lparr>ba_finalized := True\<rparr>) (C\<lparr>rc_current := None\<rparr>)))"
  from True have cur: "rc_current C = Some a" by (auto simp: is_current_attempt_def split: option.splits)
  have "map_option ba_lifecycle (js_get (rc_attempts ?D) x) = map_option ba_lifecycle (js_get (rc_attempts C) x)" for x
    by (cases "js_get (rc_attempts C) x") auto
  then have idle: "controller_idle ?D" and active: "controller_active C"
    by (rule drop_attempt [OF assms cur, rotated -1], simp_all)+
  have "attempt_lifecycle a ?D = rc_lifecycle ?D" "js_get (rc_attempts ?D) a \<noteq> None"
    using True by (auto simp: is_current_attempt_def attempt_lifecycle_def split: option.splits)
  then have "controller_ok (add_task (ClosingFailed a e) ?D)"
    using idle active by (intro idle_add_task) (simp_all add: task_known_def controller_active_def)
  then show ?thesis using True transition_ok [OF idle] by (simp add: finalize_attempt_def)
qed (simp add: finalize_attempt_def assms)

text \<open>With an attempt as its driver a controller stays well formed whatever active state it is in.\<close>

lemma ok_attempt_frame:
  assumes "controller_ok C" "rc_current C = Some a" "rc_current D = Some a" "rc_backoffTimer D = rc_backoffTimer C"
    "rc_lifecycle D = rc_lifecycle C" "rc_tasks D = rc_tasks C" "rc_attempts D = rc_attempts C"
    "rc_next C \<le> rc_next D" "controller_active D"
  shows "controller_ok D"
proof -
  have d: "DrivenByAttempt a \<in> drivers C" using assms(2) by (simp add: drivers_def)
  then have one: "drivers C = {DrivenByAttempt a}" by (rule only_driver(2) [OF assms(1)])
  have base: "controller_base C" using assms(1) by (simp add: controller_ok_def)
  have "driving_tasks D = driving_tasks C" using assms(5-7) by (intro driving_cong) (simp_all add: attempt_lifecycle_def)
  then have "drivers D = {DrivenByAttempt a}" using one assms(3,4) by (simp add: one_driver)
  moreover have "controller_base D"
  proof (rule baseI)
    fix t x assume "js_get (rc_tasks D) t = Some x"
    then show "t < rc_next D \<and> task_known D x"
      using baseD(3) [OF base, of t x] assms(5-8) by (cases x) (auto simp: task_known_def)
  next
    fix x b assume "js_get (rc_attempts D) x = Some b"
    then show "x < rc_next D \<and> ba_lifecycle b \<le> rc_lifecycle D"
      using baseD(4) [OF base, of x b] assms(5-8) by auto
  next
    fix x assume "rc_current D = Some x"
    then show "is_current_attempt x D"
      using baseD(1) [OF base assms(2)] assms(3,5,7) by (auto simp: is_current_attempt_def split: option.splits)
  qed (use assms(4) one in \<open>simp add: one_driver\<close>)
  ultimately show ?thesis using assms(9) by (simp add: controller_ok_def)
qed

lemma current_attemptD: "is_current_attempt a C \<Longrightarrow> rc_current C = Some a"
  by (auto simp: is_current_attempt_def split: option.splits)

lemma connect_settled_ok:
  assumes "controller_ok C"
  shows "controller_ok (fst (connect_settled p random a failed C))"
proof (cases "failed = None \<and> is_current_attempt a C")
  case True
  then have cur: "rc_current C = Some a" by (simp add: current_attemptD)
  have "controller_ok D" if "rc_current D = Some a" "rc_backoffTimer D = rc_backoffTimer C"
    "rc_lifecycle D = rc_lifecycle C" "rc_tasks D = rc_tasks C" "rc_attempts D = rc_attempts C"
    "rc_next C \<le> rc_next D" "rc_state D = ReconnectReady" for D
    by (rule ok_attempt_frame [OF assms cur]) (use that in \<open>simp_all add: controller_active_def\<close>)
  then show ?thesis
    using True cur by (auto simp: connect_settled_def schedule_stable_ready_reset_def reset_failures_if_current_def)
next
  case False
  then show ?thesis by (auto simp: connect_settled_def assms finalize_attempt_ok split: option.split)
qed

lemma transport_errored_ok:
  assumes "controller_ok C"
  shows "controller_ok (transport_errored a e C)"
proof -
  let ?D = "update_attempt a (\<lambda>b. b\<lparr>ba_failure := Some e\<rparr>) C"
  have base: "controller_base C" using assms by (simp add: controller_ok_def)
  have "drivers ?D = drivers C" by (simp add: drivers_def update_attempt_lifecycle)
  moreover have "controller_base ?D"
  proof (rule baseI)
    fix t x assume "js_get (rc_tasks ?D) t = Some x"
    then show "t < rc_next ?D \<and> task_known ?D x"
      using baseD(3) [OF base, of t x] by (cases x) (auto simp: task_known_def)
  next
    fix x b assume "js_get (rc_attempts ?D) x = Some b"
    then show "x < rc_next ?D \<and> ba_lifecycle b \<le> rc_lifecycle ?D"
      using baseD(4) [OF base, of x] by (auto split: if_splits)
  next
    fix x assume "rc_current ?D = Some x"
    then show "is_current_attempt x ?D"
      using baseD(1) [OF base, of x] by (auto simp: is_current_attempt_def split: option.splits)
  qed (use baseD(2) [OF base] in simp_all)
  ultimately show ?thesis using assms by (simp add: transport_errored_def controller_ok_def controller_active_def)
qed

lemma timer_fires_ok:
  assumes "controller_ok C"
  shows "controller_ok (fst (timer_fires h C))"
proof -
  have base: "controller_base C" using assms by (simp add: controller_ok_def)
  have backoff: "controller_idle (C\<lparr>rc_backoffTimer := None\<rparr>) \<and> rc_state C = ReconnectBackoff \<and> l = rc_lifecycle C"
    if "rc_backoffTimer C = Some h" "js_get (rc_timers C) h = Some (BackoffTimer l)" for l
  proof -
    have d: "DrivenByTimer h \<in> drivers C" using that(1) by (simp add: drivers_def)
    from only_driver(2) [OF assms d] have none: "driving_tasks C = {}" "rc_current C = None" by (simp_all add: one_driver)
    have "controller_base (C\<lparr>rc_backoffTimer := None\<rparr>)"
      using base none(2) by (simp add: controller_base_def task_known_def cong: reconnect_task.case_cong)
    then show ?thesis using baseD(2) [OF base that(1)] that none by (simp add: controller_idle_def drivers_empty)
  qed
  have stable: "controller_ok (reset_failures_if_current a (C\<lparr>rc_stableTimer := None\<rparr>))" for a
    by (rule ok_frame [OF assms]) (simp_all add: reset_failures_if_current_def)
  show ?thesis
    using backoff stable assms
    by (auto simp: timer_fires_def Let_def is_current_lifecycle_def intro!: start_attempt_ok
        split: option.split reconnect_timer.split)
qed

lemma resume_ok:
  assumes "controller_ok C"
    and "\<And>task D q. f task D = Some q \<Longrightarrow> js_get (rc_tasks C) t = Some task \<Longrightarrow>
      D = C\<lparr>rc_tasks := js_delete t (rc_tasks C)\<rparr> \<Longrightarrow> controller_ok (fst q)"
  shows "controller_ok (fst (resume_reconnect t f C))"
  using assms by (auto simp: resume_reconnect_def split: option.split)

lemma reconnect_step_ok:
  assumes "controller_ok C"
  shows "controller_ok (fst (reconnect_step p C ev))"
proof -
  obtain random event where ev: "ev = (random, event)" by (cases ev)
  show ?thesis
  proof (cases event)
    case (CredentialLoaded t loaded factory)
    have "controller_ok (fst (credential_loaded p random l loaded factory (C\<lparr>rc_tasks := js_delete t (rc_tasks C)\<rparr>)))"
      if "js_get (rc_tasks C) t = Some (LoadingCredential l)" for l
    proof (cases "l = rc_lifecycle C")
      case True
      then show ?thesis
        using remove_task(1) [OF assms that] by (intro credential_loaded_ok) (simp_all add: controller_active_def)
    next
      case False
      then show ?thesis
        using remove_task(2) [OF assms that] by (simp add: credential_loaded_def is_current_lifecycle_def)
    qed
    then show ?thesis
      by (auto simp: CredentialLoaded ev reconnect_step_def intro!: resume_ok [OF assms] split: reconnect_task.splits)
  next
    case (ConnectSettled t failed)
    have "controller_ok (fst (connect_settled p random a failed (C\<lparr>rc_tasks := js_delete t (rc_tasks C)\<rparr>)))"
      if "js_get (rc_tasks C) t = Some (ConnectingAttempt a)" for a
      using remove_task(2) [OF assms that] by (intro connect_settled_ok) simp
    then show ?thesis
      by (auto simp: ConnectSettled ev reconnect_step_def intro!: resume_ok [OF assms] split: reconnect_task.splits)
  next
    case (FailedClosed t)
    have "controller_ok (fst (transition_after_failure p random (attempt_lifecycle a C) e (C\<lparr>rc_tasks := js_delete t (rc_tasks C)\<rparr>)))"
      if "js_get (rc_tasks C) t = Some (ClosingFailed a e)" for a e
    proof (cases "attempt_lifecycle a C = rc_lifecycle C")
      case True
      then show ?thesis using remove_task(1) [OF assms that] by (intro transition_ok) simp_all
    next
      case False
      then show ?thesis
        using remove_task(2) [OF assms that] by (simp add: transition_after_failure_def is_current_lifecycle_def)
    qed
    then show ?thesis
      by (auto simp: FailedClosed ev reconnect_step_def intro!: resume_ok [OF assms] split: reconnect_task.splits)
  next
    case (StopCleaned t)
    have "controller_ok (C\<lparr>rc_tasks := js_delete t (rc_tasks C)\<rparr>)" if "js_get (rc_tasks C) t = Some StopCleanup"
      using remove_task(2) [OF assms that] by simp
    moreover have "controller_ok D \<Longrightarrow> controller_ok (D\<lparr>rc_stopping := None\<rparr>)" for D by (erule ok_frame) simp_all
    ultimately show ?thesis
      by (auto simp: StopCleaned ev reconnect_step_def intro!: resume_ok [OF assms] split: reconnect_task.splits)
  next
    case (TransportClosed a)
    then show ?thesis by (simp add: ev reconnect_step_def transport_closed_def assms finalize_attempt_ok)
  qed (use assms in \<open>simp_all add: ev reconnect_step_def start_ok stop_ok transport_errored_ok timer_fires_ok\<close>)
qed

lemma new_reconnect_ok: "controller_ok new_reconnect"
  by (simp add: controller_ok_def controller_base_def controller_active_def drivers_empty driving_tasks_def new_reconnect_def)

lemma reconnect_run_ok: "controller_ok C \<Longrightarrow> controller_ok (fst (reconnect_run p C es))"
  by (induction es arbitrary: C) (simp_all add: reconnect_step_ok)

text \<open>C9: The controller neither stalls nor runs two attempts at once. After any run of starts, stops,
  answers, transport callbacks and timers, even of timers that were cleared, a controller that is
  connecting, connected or backing off has exactly one thing that will move it on, and a controller
  in any other state has none.\<close>

theorem controller_driven_once:
  "card (drivers (fst (reconnect_run p new_reconnect es))) =
    (if rc_state (fst (reconnect_run p new_reconnect es)) \<in> {ReconnectConnecting, ReconnectReady, ReconnectBackoff}
     then 1 else 0)"
  using reconnect_run_ok [OF new_reconnect_ok, of p es]
  unfolding controller_ok_def controller_active_def by (auto split: if_splits)

section \<open>A stop is final until the next start\<close>

lemma stopped_parts:
  assumes "controller_ok C" "rc_state C = ReconnectStopped"
  shows "driving_tasks C = {}" "rc_current C = None" "rc_backoffTimer C = None"
  using assms by (simp_all add: controller_ok_def controller_active_def drivers_empty)

lemma stopped_step:
  assumes ok: "controller_ok C" and stopped: "rc_state C = ReconnectStopped" and ev: "snd ev \<noteq> StartController"
  shows "rc_state (fst (reconnect_step p C ev)) = ReconnectStopped \<and> snd (reconnect_step p C ev) = []"
proof -
  note parts = stopped_parts [OF ok stopped]
  have idle: "\<not> is_current_attempt a D" if "rc_current D = None" for a D
    using that by (simp add: is_current_attempt_def split: option.split)
  have stale: "\<not> drives C x" if "js_get (rc_tasks C) t = Some x" for t x
    using that parts(1) by (auto simp: driving_tasks_def)
  show ?thesis
    using assms parts
    by (cases ev; cases "snd ev")
      (auto simp: reconnect_step_def stop_controller_def resume_reconnect_def credential_loaded_def is_current_lifecycle_def
        connect_settled_def finalize_attempt_def idle transition_after_failure_def transport_errored_def transport_closed_def
        timer_fires_def reset_failures_if_current_def Let_def dest!: stale split: option.split reconnect_task.split reconnect_timer.split)
qed

lemma stopping_step:
  assumes "snd ev \<noteq> StopController"
  shows "rc_stopping (fst (reconnect_step p C ev)) \<in> {None, rc_stopping C}"
proof -
  have finalize: "rc_stopping (fst (finalize_attempt p r a e b C)) = rc_stopping C" for r a e b C
    by (simp add: finalize_attempt_def transition_after_failure_def schedule_backoff_def Let_def split: failure_disposition.split)
  have transition: "rc_stopping (fst (transition_after_failure p r l e C)) = rc_stopping C" for r l e C
    by (simp add: transition_after_failure_def schedule_backoff_def Let_def split: failure_disposition.split)
  have start: "rc_stopping (fst (start_attempt l C)) = rc_stopping C" for l C
    by (simp add: start_attempt_def)
  have loaded: "rc_stopping (fst (credential_loaded p r l x f C)) = rc_stopping C" for r l x f C
    by (simp add: credential_loaded_def transition Let_def split: sum.split option.split)
  have settled: "rc_stopping (fst (connect_settled p r a f C)) = rc_stopping C" for r a f C
    by (simp add: connect_settled_def finalize schedule_stable_ready_reset_def reset_failures_if_current_def split: option.split)
  have resume: "rc_stopping (fst (resume_reconnect t f C)) \<in> {None, rc_stopping C}"
    if "\<And>task. rc_stopping (fst (the (f task (C\<lparr>rc_tasks := js_delete t (rc_tasks C)\<rparr>)))) \<in> {None, rc_stopping C} \<or>
      f task (C\<lparr>rc_tasks := js_delete t (rc_tasks C)\<rparr>) = None" for t f
  proof (cases "js_get (rc_tasks C) t")
    case (Some task)
    then show ?thesis
      using that [of task]
      by (cases "f task (C\<lparr>rc_tasks := js_delete t (rc_tasks C)\<rparr>)") (simp_all add: resume_reconnect_def)
  qed (simp add: resume_reconnect_def)
  obtain random event where ev: "ev = (random, event)" by (cases ev)
  show ?thesis
  proof (cases event)
    case (CredentialLoaded t x f)
    show ?thesis unfolding ev reconnect_step_def prod.case CredentialLoaded reconnect_event.case
      by (rule resume) (simp add: loaded split: reconnect_task.split)
  next
    case (ConnectSettled t f)
    show ?thesis unfolding ev reconnect_step_def prod.case ConnectSettled reconnect_event.case
      by (rule resume) (simp add: settled split: reconnect_task.split)
  next
    case (FailedClosed t)
    show ?thesis unfolding ev reconnect_step_def prod.case FailedClosed reconnect_event.case
      by (rule resume) (simp add: transition split: reconnect_task.split)
  next
    case (StopCleaned t)
    show ?thesis unfolding ev reconnect_step_def prod.case StopCleaned reconnect_event.case
      by (rule resume) (simp split: reconnect_task.split)
  qed (use assms in \<open>simp_all add: ev reconnect_step_def start_controller_def start finalize transport_errored_def
      transport_closed_def timer_fires_def reset_failures_if_current_def Let_def split: option.split reconnect_timer.split\<close>)
qed

lemma stop_stops:
  assumes "rc_stopping C \<noteq> None \<longrightarrow> rc_state C = ReconnectStopped"
  shows "rc_state (fst (reconnect_step p C (r, StopController))) = ReconnectStopped"
  using assms by (auto simp: reconnect_step_def stop_controller_def Let_def split: option.split)

lemma stopping_means_stopped:
  assumes "controller_ok C" "rc_stopping C \<noteq> None \<longrightarrow> rc_state C = ReconnectStopped"
  shows "rc_stopping (fst (reconnect_run p C es)) \<noteq> None \<longrightarrow> rc_state (fst (reconnect_run p C es)) = ReconnectStopped"
  using assms
proof (induction es arbitrary: C)
  case (Cons e es)
  have "rc_state (fst (reconnect_step p C e)) = ReconnectStopped" if "rc_stopping (fst (reconnect_step p C e)) \<noteq> None"
  proof (cases "snd e")
    case StopController
    then show ?thesis using stop_stops [OF Cons.prems(2), of p "fst e"] by (cases e) simp
  next
    case StartController
    then have "rc_stopping C \<noteq> None" using that stopping_step [of e p C] by auto
    then have "fst (reconnect_step p C e) = C"
      using StartController by (cases e) (simp add: reconnect_step_def start_controller_def)
    then show ?thesis using Cons.prems(2) \<open>rc_stopping C \<noteq> None\<close> by simp
  qed (use that stopping_step [of e p C] stopped_step [of C e p] Cons.prems in auto)
  then show ?case using Cons.IH [OF reconnect_step_ok [OF Cons.prems(1), of p e]] by simp
qed simp

lemma stopped_run:
  "controller_ok C \<Longrightarrow> rc_state C = ReconnectStopped \<Longrightarrow> StartController \<notin> snd ` set es \<Longrightarrow>
   rc_state (fst (reconnect_run p C es)) = ReconnectStopped \<and> snd (reconnect_run p C es) = []"
proof (induction es arbitrary: C)
  case (Cons e es)
  have "snd e \<noteq> StartController" using Cons.prems(3) by auto
  note step = stopped_step [OF Cons.prems(1,2) this, of p]
  show ?case using Cons.IH [OF reconnect_step_ok [OF Cons.prems(1), of p e]] step Cons.prems(3)
    by (simp add: followed_def prepend_def)
qed simp

text \<open>C10: A stop is final until the next start. Whatever the controller was doing, after it was told to stop
  it is stopped and asks for nothing more (no credential is loaded, no transport opened and no timer
  set), however late the answers, the callbacks and the timers of earlier attempts arrive.\<close>

theorem stop_is_final:
  assumes "StartController \<notin> snd ` set late"
  shows "rc_state (fst (reconnect_run p (fst (reconnect_step p (fst (reconnect_run p new_reconnect es)) (r, StopController))) late)) =
      ReconnectStopped \<and>
    snd (reconnect_run p (fst (reconnect_step p (fst (reconnect_run p new_reconnect es)) (r, StopController))) late) = []"
proof -
  let ?C = "fst (reconnect_run p new_reconnect es)"
  have "rc_stopping ?C \<noteq> None \<longrightarrow> rc_state ?C = ReconnectStopped"
    by (rule stopping_means_stopped [OF new_reconnect_ok]) (simp add: new_reconnect_def)
  then have "rc_state (fst (reconnect_step p ?C (r, StopController))) = ReconnectStopped" by (rule stop_stops)
  then show ?thesis by (rule stopped_run [OF reconnect_step_ok [OF reconnect_run_ok [OF new_reconnect_ok]] _ assms])
qed

definition sample_backoff :: "rat backoff_policy" where
  "sample_backoff = \<lparr>bp_minDelayMs = 500, bp_maxDelayMs = 30000, bp_factor = 2, bp_jitterRatio = 1 / 5, bp_stableReadyMs = 30000\<rparr>"

definition sample_local_credential :: local_credential where
  "sample_local_credential = \<lparr>lc_deviceId = ''d'', lc_credential = ''s''\<rparr>"

lemma stop_is_final_witness:
  "rc_state (fst (reconnect_run sample_backoff (fst (reconnect_step sample_backoff
      (fst (reconnect_run sample_backoff new_reconnect [(JsNaN, StartController)])) (JsNaN, StopController)))
      [(JsNaN, CredentialLoaded 0 (Inr (Some sample_local_credential)) None), (JsNaN, StopCleaned 1)])) = ReconnectStopped"
  using stop_is_final [where late = "[(JsNaN, CredentialLoaded 0 (Inr (Some sample_local_credential)) None), (JsNaN, StopCleaned 1)]"
      and es = "[(JsNaN, StartController)]" and r = JsNaN and p = sample_backoff] by simp

text \<open>
  A stop does not wait for a transport that is being closed because its attempt failed: after the
  stop a start opens the next transport while the first is still closing.
\<close>

lemma start_overlaps_failed_close:
  "snd (reconnect_run sample_backoff new_reconnect
     [(JsNaN, StartController), (JsNaN, CredentialLoaded 0 (Inr (Some sample_local_credential)) None),
      (JsNaN, ConnectSettled 2 (Some (TransportThrew SocketError))), (JsNaN, StopController), (JsNaN, StopCleaned 4),
      (JsNaN, StartController), (JsNaN, CredentialLoaded 5 (Inr (Some sample_local_credential)) None)]) =
   [LoadCredential, OpenTransport 1 sample_local_credential, CloseTransport 1, LoadCredential,
    OpenTransport 6 sample_local_credential]"
  by code_simp

end
