(* ===== verification/Spec2Isabelle.thy ===== *)
theory Spec2Isabelle
  imports Credential_Service Pairing_Service Bridge_Protocol Device_Routing Gateway Completion_Service
    Filesystem_Search Filesystem_Write Sqlite_Credentials Pairing_Channel_Safety
    Bridge_Reconnect
begin

text \<open>
  Doctmcp connects a machine behind a firewall (the \<^emph>\<open>agent\<close>, \<^verbatim>\<open>apps/agent\<close>) with MCP clients that
  reach it through a \<^emph>\<open>server\<close> (\<^verbatim>\<open>apps/server\<close>). A device is paired once with a short code, receives
  a secret, and from then on authenticates every bridge connection with it; the server routes the
  requests of a device's owner to the device's live session. This development models the server's
  core: pairing, credentials, the hand-over of the first credential, the bridge gateway, the
  registry of live sessions and the routing decision, together with the shared schemas
  (\<^verbatim>\<open>packages/schemas\<close>, \<^verbatim>\<open>packages/protocol\<close>). Of the agent it models what decides which files the tools
  may touch, and the file tools themselves.

  \<^bold>\<open>How code becomes definitions.\<close> A class with private fields is a record; each public operation is
  a definition that takes the record and gives the record it leaves with a result
  (\<^verbatim>\<open>outcome\<close> of theory \<^verbatim>\<open>Prelude\<close>: the new state and \<^verbatim>\<open>Inl\<close> an error or \<^verbatim>\<open>Inr\<close> a value), so that every
  \<^verbatim>\<open>throw\<close> is a branch, and a state changed before a throw stays changed. A JavaScript \<^verbatim>\<open>Map\<close> is an
  association list in insertion order (\<^verbatim>\<open>js_map\<close>), a \<^verbatim>\<open>Date\<close> an optional number of milliseconds
  (\<^verbatim>\<open>js_date\<close>, \<^verbatim>\<open>None\<close> is \<^verbatim>\<open>Invalid Date\<close>), a number a value of \<^verbatim>\<open>js_number\<close> where the code has to tell
  integers from other numbers, and \<^verbatim>\<open>int\<close> once it has been checked. The clock, random bytes and
  generated ids are arguments. Operations serialised by a promise chain are one step; code split by
  awaits is split into steps where another step can change what it reads (the gateway), or runs
  over collaborators that may change the world arbitrarily (the completion service).

  \<^bold>\<open>Theories.\<close>
  \<^item> \<^verbatim>\<open>Prelude\<close>: outcomes and results, \<^verbatim>\<open>js_map\<close>, refinement of outcomes, invariants of runs (the locale
    behind every "whatever happens" property), sums of bounded sequences.
  \<^item> \<^verbatim>\<open>Js_Values\<close>: numbers, dates, trimming, case mapping, UTF-8 and hexadecimal text.
  \<^item> \<^verbatim>\<open>Schemas\<close>: the zod schemas of devices, pairing sessions and credentials
    (\<^verbatim>\<open>schemas/src/device.ts\<close>, \<^verbatim>\<open>pairing.ts\<close>, \<^verbatim>\<open>device-credential.ts\<close>); a schema is a function to the
    parsed value or \<^verbatim>\<open>None\<close>.
  \<^item> \<^verbatim>\<open>Device_Repository\<close>: \<^verbatim>\<open>InMemoryDeviceRepository\<close> (\<^verbatim>\<open>device-repository.ts\<close>).
  \<^item> \<^verbatim>\<open>Credential_Store\<close>, \<^verbatim>\<open>Device_Credential\<close>, \<^verbatim>\<open>Secret_Generation\<close>, \<^verbatim>\<open>Credential_Service\<close>
    (\<^verbatim>\<open>device-credential.ts\<close>): the contract of a credential repository as an abstract store of
    generations and a locale, the in-memory repository that refines it, the generation of secrets,
    and the service over any repository with that contract.
  \<^item> \<^verbatim>\<open>Sqlite_Credentials\<close> (\<^verbatim>\<open>storage/sqlite-device-credential-repository.ts\<close>): the same contract kept by
    statements on the tables of the migration, with their constraints and rolled-back transactions.
  \<^item> \<^verbatim>\<open>Pairing_Store\<close>, \<^verbatim>\<open>Pairing\<close>, \<^verbatim>\<open>Pairing_Service\<close> (\<^verbatim>\<open>pairing.ts\<close>) and \<^verbatim>\<open>Abuse_Guard\<close>
    (\<^verbatim>\<open>pairing-abuse-guard.ts\<close>): the in-memory pairing repository with its tombstones and its
    pruning, codes, the service, and the rate limits in front of it.
  \<^item> \<^verbatim>\<open>Completion_Repository\<close>, \<^verbatim>\<open>Completion_Service\<close> (\<^verbatim>\<open>pairing-credential-completion.ts\<close>): the
    records of hand-overs, and the service that issues the first credential or recovers one after
    a crash.
  \<^item> \<^verbatim>\<open>Bridge_Protocol\<close> (\<^verbatim>\<open>schemas/src/index.ts\<close>, \<^verbatim>\<open>pairing-control.ts\<close>, \<^verbatim>\<open>protocol/src/index.ts\<close>): JSON
    values, the messages of the bridge and of the pairing channel.
  \<^item> \<^verbatim>\<open>Pairing_Channel\<close>, \<^verbatim>\<open>Pairing_Channel_Safety\<close> (\<^verbatim>\<open>pairing-channel.ts\<close>): the channels over which the
    first credential reaches the machine that is being paired. Calls, timers and the continuations
    after each await are events; the invariant relates the channels to the events so far.
  \<^item> \<^verbatim>\<open>Gateway\<close> (\<^verbatim>\<open>gateway.ts\<close>): connections and sessions of the bridge as one state; every callback of
    the WebSocket server, every timer and every answer of an awaited hook is an event of
    \<^verbatim>\<open>gateway_step\<close>, and a run is any list of events.
  \<^item> \<^verbatim>\<open>Session_Registry\<close> (\<^verbatim>\<open>device-session-registry.ts\<close>) and \<^verbatim>\<open>Device_Routing\<close> (\<^verbatim>\<open>device-routing.ts\<close>):
    the three indexes of live sessions, and the checks before a request goes to one of them.
  \<^item> \<^verbatim>\<open>Bridge_Reconnect\<close> (\<^verbatim>\<open>apps/agent/src/local-bridge-reconnect.ts\<close>): the agent's controller that keeps
    the bridge up, its delays and its state machine, with every answer, callback and timer an event.
  \<^item> \<^verbatim>\<open>Posix_Paths\<close>: the functions of \<^verbatim>\<open>node:path\<close> the agent uses, on a POSIX host, and their effect on
    the list of names of a path.
  \<^item> \<^verbatim>\<open>Workspace\<close> (\<^verbatim>\<open>workspace.ts\<close>): the configured workspaces, the containment check, and the resolver
    that every tool asks before it touches a path.
  \<^item> \<^verbatim>\<open>Utf8_Text\<close>, \<^verbatim>\<open>Filesystem_Read\<close>, \<^verbatim>\<open>Filesystem_Search\<close> (\<^verbatim>\<open>filesystem-read.ts\<close>) and \<^verbatim>\<open>Filesystem_Write\<close>
    (\<^verbatim>\<open>filesystem-write.ts\<close>, \<^verbatim>\<open>filesystem-delete.ts\<close>): the actions of the file tools. The \<open>n\<close>-th call of the
    operating system in a run sees \<open>F n\<close>, an argument, so that other processes may change the files
    between any two calls; the writing tools record what they ask the operating system to change.

  \<^bold>\<open>What is proved.\<close> A pairing code is spent by its first claim, and neither claimed nor created again while
  the repository remembers it (100000 digests; beyond that, as long as nobody creates it again); a claim
  creates exactly one device; the repositories stay consistent and bounded in every history; the credential service authenticates
  exactly the active secret, and revocation and rotation act at once; a hand-over gives out only a
  secret that is active when it returns, and a recovery after a crash only at the end of a chain of calls
  that reserved, rotated to and finalised the generation it hands out; every session of the gateway was
  authenticated, its end is reported at most once, an entry of the session map belongs to a connection
  that is ready or waits for its socket to close, and only ready sessions receive messages; a session that
  another one replaced does nothing to the registry until it registers again; a
  request is routed only to the live session of the owner's device with the active credential
  generation. The SQLite credential repository implements the abstract store. A pairing channel sends
  a secret only to a socket that showed the proof the session was registered with, reports a delivery
  as successful only after that machine acknowledged it, and settles every delivery exactly once.
  Codes, secrets and messages survive their round trips. On the agent's side, the
  reconnect controller is always moved on by exactly one thing, stays stopped once stopped, and waits
  between the bounds of its policy; the containment check decides exactly the prefix relation of path names; whatever path a tool
  resolves lies in a workspace that grants it and outside the denied subtrees, and so does what the path
  denotes when its symbolic links are followed (\<^verbatim>\<open>resolves_to\<close>: the real path of the nearest existing
  ancestor and the names below it); the requests of the writing tools and of a deletion and the entries
  of a listing keep to this; a patch
  replaces exactly the expected occurrences; a text file is read without loss in chunks; listing and
  search end within their limits.

  \<^bold>\<open>Gaps of the code.\<close> Three lemmas give runs of the agent in which a change reaches further than its
  documentation says: a symbolic link in a denied directory, or in a directory outside the root, can
  be deleted through another symbolic link that leads to this directory, when the target of the first
  is allowed (\<^verbatim>\<open>denied_link_deletable\<close>, \<^verbatim>\<open>outside_link_deletable\<close>), and when a root is a file,
  overwriting it puts the temporary file beside it (\<^verbatim>\<open>file_root_writes_outside\<close>).

  \<^bold>\<open>Parameters.\<close> SHA-256 is an argument of which only the length of the digest and, where secrets
  are told apart by it, the injectivity on the compared inputs is used (\<^verbatim>\<open>sha256_like\<close>). A hook of the gateway
  (\<^verbatim>\<open>authenticateDevice\<close>, \<^verbatim>\<open>beginSessionReady\<close>, \<^verbatim>\<open>validateSessionReady\<close>) answers by an event with an arbitrary
  answer. The number of bytes a WebSocket takes is an argument of every send. Of the
  file system only this is assumed, where it matters: \<^verbatim>\<open>realpath\<close> gives a canonical absolute path
  (\<^verbatim>\<open>realpath_canonical\<close>), the names in a directory are names, and, for what the writing tools change,
  the roots stay directories and the random identifier in the name of a temporary file has no slash
  (\<^verbatim>\<open>write_environment\<close>).

  \<^bold>\<open>Bounds.\<close> A completion recovers in at most 16 steps (\<^verbatim>\<open>MAX_RECOVERY_STEPS\<close>) and a code is drawn at
  most as often as \<^verbatim>\<open>create_attempts\<close> says, both constants of the code, so these loops are
  structural recursions on them. The search over directories and the count of occurrences are
  partial functions, which are proved to return where the code does; \<^verbatim>\<open>read_whole\<close>, the client that
  reads a file chunk by chunk, has fuel, and one unit per character is proved to be enough.

  \<^bold>\<open>Not modelled.\<close> Text of log messages and of errors that no code reads; the auxiliary WebSocket
  routes and the HTTP answers of the gateway; the other SQLite repositories, whose behaviour is SQL
  text; the route that parses the frames of a pairing channel;
  third-party code (zod's error objects, the MCP SDK, jose); the composition in
  \<^verbatim>\<open>server-runtime.ts\<close>; Windows paths; texts with lone surrogates (a text is a list of code points); overlapping calls of the completion service for one session, which share one
  promise in the code and are sequential here. The parts of the agent are listed with their status
  in the manifest.
\<close>

end
